(* ===== verification/Prelude.thy ===== *)
theory Prelude
  imports "HOL-Library.Word" "HOL-Library.Multiset"
begin

text \<open>
  Shared vocabulary of the development: machine types, the result type of the C functions,
  C strings as byte lists, the few libc functions the modelled sources call, and the lemma
  collections the component proofs share.

  A C function that returns -1 with \<open>errno\<close> set is \<open>Inl (Errno e)\<close>; an access outside the
  object the code was given (undefined behaviour) is \<open>Inl Fault\<close>; a call of \<open>abort()\<close> or a
  failed assertion is \<open>Inl Abort\<close>; a loop that did not end within the fuel the model gives it is
  \<open>Inl Diverges\<close>.  A C string is the list of its bytes before the NUL; reading
  the byte after the last one yields the NUL, so the end of the list is the end of the string.
\<close>

unbundle bit_operations_syntax

type_synonym u8 = "8 word"
type_synonym u16 = "16 word"
type_synonym u32 = "32 word"
type_synonym cstring = "u8 list"

section \<open>Results of C functions\<close>

datatype errno =
    EMSGSIZE | ENOENT | EINVAL | ERANGE | EAFNOSUPPORT | ENOEXEC | ENOTDIR | ENAMETOOLONG
  | ECONNREFUSED | ETIMEDOUT | ESRCH | EBADF | ENOSYS | EFAULT | EIO | EINTR | ENOMEM | ECONNRESET | EAGAIN

datatype cerror = Errno errno | Fault | Abort | Diverges

type_synonym 'a cres = "cerror + 'a"

definition and_then :: "'e + 'a \<Rightarrow> ('a \<Rightarrow> 'e + 'b) \<Rightarrow> 'e + 'b" where
  "and_then m f = (case m of Inl e \<Rightarrow> Inl e | Inr x \<Rightarrow> f x)"

named_theorems cres_simps \<open>simplification of the result type\<close>

lemma and_then_Inl [simp, cres_simps]: "and_then (Inl e) f = Inl e"
  by (simp add: and_then_def)

lemma and_then_Inr [simp, cres_simps]: "and_then (Inr x) f = f x"
  by (simp add: and_then_def)

lemma and_then_eq_Inr [cres_simps]:
  "and_then m f = Inr y \<longleftrightarrow> (\<exists>x. m = Inr x \<and> f x = Inr y)"
  by (cases m) auto

lemma and_then_eq_Inl [cres_simps]:
  "and_then m f = Inl e \<longleftrightarrow> m = Inl e \<or> (\<exists>x. m = Inr x \<and> f x = Inl e)"
  by (cases m) auto

lemma and_then_cong [fundef_cong]:
  "m = m' \<Longrightarrow> (\<And>x. m' = Inr x \<Longrightarrow> f x = g x) \<Longrightarrow> and_then m f = and_then m' g"
  by (cases m') auto

section \<open>Bytes and C strings\<close>

text \<open>A string literal as bytes.\<close>

definition ascii :: "string \<Rightarrow> cstring" where
  "ascii s = map of_char s"

text \<open>\<open>isupper\<close>, \<open>tolower\<close>, \<open>isspace\<close>, \<open>isxdigit\<close> and \<open>isdigit\<close> of \<open><ctype.h>\<close> in the C locale.\<close>

definition isupper :: "u8 \<Rightarrow> bool" where
  "isupper c \<longleftrightarrow> 0x41 \<le> c \<and> c \<le> 0x5A"

definition tolower :: "u8 \<Rightarrow> u8" where
  "tolower c = (if isupper c then c + 0x20 else c)"

definition isspace :: "u8 \<Rightarrow> bool" where
  "isspace c \<longleftrightarrow> c = 0x20 \<or> (0x09 \<le> c \<and> c \<le> 0x0D)"

definition isdigit :: "u8 \<Rightarrow> bool" where
  "isdigit c \<longleftrightarrow> 0x30 \<le> c \<and> c \<le> 0x39"

definition isxdigit :: "u8 \<Rightarrow> bool" where
  "isxdigit c \<longleftrightarrow> isdigit c \<or> (0x41 \<le> c \<and> c \<le> 0x46) \<or> (0x61 \<le> c \<and> c \<le> 0x66)"

text \<open>\<open>strcasecmp (a, b) == 0\<close>: equal once every byte is lowered.\<close>

definition strcaseeq :: "cstring \<Rightarrow> cstring \<Rightarrow> bool" where
  "strcaseeq a b \<longleftrightarrow> map tolower a = map tolower b"

lemma strcaseeq_refl [simp]: "strcaseeq a a"
  by (simp add: strcaseeq_def)

lemma strcaseeq_sym: "strcaseeq a b \<longleftrightarrow> strcaseeq b a"
  by (auto simp: strcaseeq_def)

lemma strcaseeq_trans: "strcaseeq a b \<Longrightarrow> strcaseeq b c \<Longrightarrow> strcaseeq a c"
  by (simp add: strcaseeq_def)

lemma strcaseeq_length: "strcaseeq a b \<Longrightarrow> length a = length b"
  unfolding strcaseeq_def by (metis length_map)

text \<open>
  A fact about one byte is a fact about 256 values: it is enough to evaluate it on each of them.
\<close>

lemma unat_u8_less [simp]: "unat (c :: u8) < 256"
proof -
  have "(unsigned c :: nat) < 2 ^ LENGTH(8)" by (rule unsigned_less)
  then show ?thesis by simp
qed

lemma u8_allI:
  assumes "list_all (\<lambda>n. P (of_nat n :: u8)) [0..<256]"
  shows "P c"
proof -
  have "unat c \<in> set [0..<256]" by simp
  with assms have "P (of_nat (unat c))" unfolding list_all_iff by blast
  then show ?thesis by simp
qed

lemma unat_of_nat_u8 [simp]: "n < 256 \<Longrightarrow> unat (of_nat n :: u8) = n"
  by (simp add: unat_of_nat take_bit_eq_mod)

lemma u8_of_nat_eq_0 [simp]: "n < 256 \<Longrightarrow> (of_nat n = (0::u8)) = (n = 0)"
  by (auto simp: word_of_nat_eq_0_iff dest: dvd_imp_le)

text \<open>\<open>n AND 0xC0\<close>, the label-type bits of a length octet.\<close>

lemma u8_cmprs_zero [simp]: "(n AND 0xC0 = (0::u8)) \<longleftrightarrow> n < 0x40"
  by (rule u8_allI [of _ n]) code_simp

lemma u8_cmprs_full [simp]: "(n AND 0xC0 = (0xC0::u8)) \<longleftrightarrow> 0xC0 \<le> n"
  by (rule u8_allI [of _ n]) code_simp

lemma u8_cmprs_40 [simp]: "(n AND 0xC0 = (0x40::u8)) \<longleftrightarrow> 0x40 \<le> n \<and> n < 0x80"
  by (rule u8_allI [of _ n]) code_simp

lemma u8_ge_C0: "0xC0 \<le> (n::u8) \<longrightarrow> 0x40 \<le> n \<and> \<not> n < 0x40 \<and> \<not> n < 0x80 \<and> n \<noteq> 0"
  by (rule u8_allI [of _ n]) code_simp

section \<open>Memory\<close>

text \<open>Reading a byte, or \<open>n\<close> bytes, of the readable memory; anything beyond it is a fault.\<close>

definition fetch :: "u8 list \<Rightarrow> nat \<Rightarrow> u8 cres" where
  "fetch mem i = (if i < length mem then Inr (mem ! i) else Inl Fault)"

definition fetch_slice :: "u8 list \<Rightarrow> nat \<Rightarrow> nat \<Rightarrow> u8 list cres" where
  "fetch_slice mem i n = (if i + n \<le> length mem then Inr (take n (drop i mem)) else Inl Fault)"

lemma fetch_ok [simp]: "i < length mem \<Longrightarrow> fetch mem i = Inr (mem ! i)"
  by (simp add: fetch_def)

lemma fetch_slice_ok [simp]:
  "i + n \<le> length mem \<Longrightarrow> fetch_slice mem i n = Inr (take n (drop i mem))"
  by (simp add: fetch_slice_def)

section \<open>Lists\<close>

lemma take_drop_split: "n \<le> length xs \<Longrightarrow> \<exists>l r. xs = l @ r \<and> length l = n"
  by (metis append_take_drop_id length_take min.absorb2)

lemma not_isl: "\<not> isl r \<Longrightarrow> \<exists>x. r = Inr x"
  by (cases r) auto

end
