(* ===== verification/Ns_Name.thy ===== *)
theory Ns_Name
  imports Prelude
begin

text \<open>
  \<open>ns_name.c\<close>, the part that needs no message: presentation format to wire format and back
  (\<open>ns_name_ntop\<close>, \<open>ns_name_pton\<close>), lowering (\<open>ns_name_ntol\<close>), skipping (\<open>ns_name_skip\<close>) and
  resetting the compression table (\<open>ns_name_rollback\<close>).

  A source pointer is the list of the bytes from it on, a destination the list of the bytes
  written so far together with the size of the buffer.  Reading past the source or writing past
  the buffer is \<open>Fault\<close>.  The functions return the bytes they wrote; the C return value, where
  it is a count, is the length of that list.
\<close>

unbundle bit_operations_syntax

section \<open>Characters\<close>

definition special :: "u8 \<Rightarrow> bool" where
  "special ch \<longleftrightarrow> ch = 0x22 \<or> ch = 0x2E \<or> ch = 0x3B \<or> ch = 0x5C \<or> ch = 0x40 \<or> ch = 0x24"

definition printable :: "u8 \<Rightarrow> bool" where
  "printable ch \<longleftrightarrow> 0x20 < ch \<and> ch < 0x7f"

definition mklower :: "u8 \<Rightarrow> u8" where
  "mklower ch = (if 0x41 \<le> ch \<and> ch \<le> 0x5A then ch + 0x20 else ch)"

text \<open>\<open>digits[i]\<close>, and \<open>strchr(digits, c) - digits\<close> for a byte that is not NUL.\<close>

definition digits :: "nat \<Rightarrow> u8" where
  "digits i = of_nat (0x30 + i)"

definition digit_val :: "u8 \<Rightarrow> nat option" where
  "digit_val c = (if 0x30 \<le> c \<and> c \<le> 0x39 then Some (unat c - 0x30) else None)"

text \<open>The test \<open>(n & NS_CMPRSFLGS) != 0\<close> on an \<open>int\<close> (label lengths can exceed a byte there).\<close>

definition cmprs_nat :: "nat \<Rightarrow> bool" where
  "cmprs_nat n \<longleftrightarrow> (of_nat n :: u32) AND 0xC0 \<noteq> 0"

definition NS_MAXCDNAME :: nat where
  "NS_MAXCDNAME = 255"

section \<open>ns_name_ntop\<close>

text \<open>The inner loop over the \<open>n\<close> bytes of an ordinary label: what is left of the source and
  what has been written.\<close>

fun ntop_label :: "nat \<Rightarrow> u8 list \<Rightarrow> u8 list \<Rightarrow> nat \<Rightarrow> (u8 list \<times> u8 list) cres" where
  "ntop_label 0 cp dn siz = Inr (cp, dn)"
| "ntop_label (Suc n) [] dn siz = Inl Fault"
| "ntop_label (Suc n) (c # cp) dn siz =
     (if special c then
        (if length dn + 1 \<ge> siz then Inl (Errno EMSGSIZE)
         else ntop_label n cp (dn @ [0x5C, c]) siz)
      else if \<not> printable c then
        (if length dn + 3 \<ge> siz then Inl (Errno EMSGSIZE)
         else ntop_label n cp
                (dn @ [0x5C, digits (unat c div 100), digits ((unat c mod 100) div 10),
                       digits (unat c mod 10)]) siz)
      else
        (if length dn \<ge> siz then Inl (Errno EMSGSIZE)
         else ntop_label n cp (dn @ [c]) siz))"

text \<open>The digits of a bit-string label.\<close>

definition hex_nibble :: "u8 \<Rightarrow> u8" where
  "hex_nibble u = (if 9 < u then 0x61 + u - 10 else 0x30 + u)"

fun ntop_bits :: "nat \<Rightarrow> u8 list \<Rightarrow> u8 list \<Rightarrow> (u8 list \<times> u8 list) cres" where
  "ntop_bits 0 cp dn = Inr (cp, dn)"
| "ntop_bits (Suc n) [] dn = Inl Fault"
| "ntop_bits (Suc n) (c # cp) dn =
     ntop_bits n cp (dn @ [hex_nibble (drop_bit 4 c), hex_nibble (c AND 0xf)])"

lemma ntop_label_rest: "ntop_label n cp dn siz = Inr (cp', dn') \<Longrightarrow> cp' = drop n cp"
  by (induction n cp dn siz rule: ntop_label.induct) (auto split: if_splits)

lemma ntop_bits_rest: "ntop_bits n cp dn = Inr (cp', dn') \<Longrightarrow> cp' = drop n cp"
  by (induction n cp dn rule: ntop_bits.induct) auto

text \<open>The dot between two labels.\<close>

definition ntop_sep :: "u8 list \<Rightarrow> nat \<Rightarrow> u8 list cres" where
  "ntop_sep dn siz =
     (if dn \<noteq> [] then (if length dn \<ge> siz then Inl (Errno EMSGSIZE) else Inr (dn @ [0x2E]))
      else Inr dn)"

function ntop_loop :: "u8 list \<Rightarrow> u8 list \<Rightarrow> nat \<Rightarrow> u8 list cres" where
  "ntop_loop [] dn siz = Inl Fault"
| "ntop_loop (n # cp) dn siz =
     (if n = 0 then Inr dn
      else if n AND 0xC0 \<noteq> 0 \<and> n \<noteq> 0x41 then Inl (Errno EMSGSIZE)
      else and_then (ntop_sep dn siz) (\<lambda>dn.
        if n = 0x41 then
          (case cp of [] \<Rightarrow> Inl Fault
           | b # cp \<Rightarrow>
               let n = unat b div 8 in
               if length dn + n * 2 + 4 \<ge> siz then Inl (Errno EMSGSIZE)
               else and_then (ntop_bits n cp (dn @ [0x5C, 0x5B, 0x78]))
                      (\<lambda>(cp, dn). ntop_loop cp (dn @ [0x5D]) siz))
        else if length dn + unat n \<ge> siz then Inl (Errno EMSGSIZE)
        else and_then (ntop_label (unat n) cp dn siz) (\<lambda>(cp, dn). ntop_loop cp dn siz)))"
  by pat_completeness auto
termination
  by (relation "measure (\<lambda>(cp, dn, siz). length cp)")
     (auto dest!: ntop_label_rest ntop_bits_rest)

definition ns_name_ntop :: "u8 list \<Rightarrow> nat \<Rightarrow> u8 list cres" where
  "ns_name_ntop src dstsiz =
     and_then (ntop_loop src [] dstsiz) (\<lambda>dn.
     and_then (if dn = [] then (if length dn \<ge> dstsiz then Inl (Errno EMSGSIZE) else Inr [0x2E])
               else Inr dn) (\<lambda>dn.
     if length dn \<ge> dstsiz then Inl (Errno EMSGSIZE) else Inr (dn @ [0])))"

section \<open>ns_name_pton\<close>

text \<open>
  \<open>out\<close> holds the bytes below \<open>bp\<close>, so \<open>bp = length out\<close>; \<open>label\<close> is the index of the length
  octet of the label being read.  \<open>label = bp++\<close> reserves that octet without writing it: the model
  appends a 0 there, and the store \<open>*label = v\<close> is \<open>set_label\<close>, a fault beyond the buffer.
\<close>

definition set_label :: "u8 list \<Rightarrow> nat \<Rightarrow> u8 \<Rightarrow> nat \<Rightarrow> u8 list cres" where
  "set_label out label v siz = (if label \<ge> siz then Inl Fault else Inr (out[label := v]))"

text \<open>The three decimal digits of an escape, the first one already read.\<close>

fun pton_ddd :: "nat \<Rightarrow> cstring \<Rightarrow> (u8 \<times> cstring) cres" where
  "pton_ddd d1 (c2 # c3 # src) =
     (case digit_val c2 of None \<Rightarrow> Inl (Errno EMSGSIZE)
      | Some d2 \<Rightarrow>
        (case digit_val c3 of None \<Rightarrow> Inl (Errno EMSGSIZE)
         | Some d3 \<Rightarrow>
             (let n = d1 * 100 + d2 * 10 + d3 in
              if n > 255 then Inl (Errno EMSGSIZE) else Inr (of_nat n, src))))"
| "pton_ddd d1 _ = Inl (Errno EMSGSIZE)"

text \<open>A hexadecimal digit as the code reads it, letters relative to \<open>'a'\<close> in either case; the
  arithmetic is that of the byte finally stored.\<close>

definition hex_read :: "u8 \<Rightarrow> u8" where
  "hex_read c = (if 0x39 < c then c - 0x61 + 10 else c - 0x30)"

text \<open>The digit pairs of a bit-string label: what is left of the source and the bytes written.\<close>

fun pton_bits :: "cstring \<Rightarrow> u8 list \<Rightarrow> nat \<Rightarrow> (cstring \<times> u8 list) cres" where
  "pton_bits (c1 # src) out siz =
     (if isxdigit c1 then
        (case src of [] \<Rightarrow> Inl (Errno EMSGSIZE)
         | c2 # src' \<Rightarrow>
             if \<not> isxdigit c2 then Inl (Errno EMSGSIZE)
             else if length out + 1 \<ge> siz then Inl (Errno EMSGSIZE)
             else pton_bits src' (out @ [push_bit 4 (hex_read c1) + hex_read c2]) siz)
      else Inr (c1 # src, out))"
| "pton_bits [] out siz = Inr ([], out)"

lemma pton_ddd_shorter: "pton_ddd d src = Inr (c, src') \<Longrightarrow> length src' < length src"
  by (induction d src rule: pton_ddd.induct) (auto simp: Let_def split: option.splits if_splits)

lemma pton_bits_shorter: "pton_bits src out siz = Inr (src', out') \<Longrightarrow> length src' \<le> length src"
  by (induction src out siz rule: pton_bits.induct) (auto split: if_splits list.splits)

text \<open>The end of the string, after the loop.\<close>

definition pton_finish :: "nat \<Rightarrow> u8 list \<Rightarrow> nat \<Rightarrow> (nat \<times> u8 list) cres" where
  "pton_finish label out siz =
     (let c = length out - label - 1 in
      if cmprs_nat c then Inl (Errno EMSGSIZE)
      else if label \<ge> siz then Inl (Errno EMSGSIZE)
      else and_then (set_label out label (of_nat c) siz) (\<lambda>out.
           and_then (if c \<noteq> 0 then (if length out \<ge> siz then Inl (Errno EMSGSIZE)
                                  else Inr (out @ [0])) else Inr out) (\<lambda>out.
           if length out > NS_MAXCDNAME then Inl (Errno EMSGSIZE) else Inr (0, out))))"

text \<open>An unescaped dot: it returns, or goes on with the given state.\<close>

definition pton_dot ::
  "cstring \<Rightarrow> nat \<Rightarrow> u8 list \<Rightarrow> nat \<Rightarrow> ((nat \<times> u8 list) + (nat \<times> u8 list)) cres" where
  "pton_dot src label out siz =
     (let c = length out - label - 1 in
      if cmprs_nat c then Inl (Errno EMSGSIZE)
      else if label \<ge> siz then Inl (Errno EMSGSIZE)
      else and_then (set_label out label (of_nat c) siz) (\<lambda>out.
        if src = [] then
          and_then (if c \<noteq> 0 then (if length out \<ge> siz then Inl (Errno EMSGSIZE)
                                 else Inr (out @ [0])) else Inr out) (\<lambda>out.
          if length out > NS_MAXCDNAME then Inl (Errno EMSGSIZE) else Inr (Inl (1, out)))
        else if c = 0 \<or> hd src = 0x2E then Inl (Errno EMSGSIZE)
        else Inr (Inr (length out, out @ [0]))))"

text \<open>A bit-string label, from the \<open>x\<close> on.\<close>

definition pton_bitlabel :: "cstring \<Rightarrow> nat \<Rightarrow> u8 list \<Rightarrow> nat \<Rightarrow> (cstring \<times> nat \<times> u8 list) cres" where
  "pton_bitlabel src label out siz =
     and_then (set_label out label 0x41 siz) (\<lambda>out.
     let label = length out; out = out @ [0] in
     and_then (pton_bits (tl src) out siz) (\<lambda>(src, out).
     and_then (set_label out label (of_nat ((length out - label - 1) * 8)) siz) (\<lambda>out.
     (case src of
        a # b # src \<Rightarrow>
          if a \<noteq> 0x5D \<or> b \<noteq> 0x2E then Inl (Errno EMSGSIZE)
          else let label = length out; out = out @ [0] in
               if length out \<ge> siz then Inl (Errno EMSGSIZE) else Inr (src, label, out)
      | _ \<Rightarrow> Inl (Errno EMSGSIZE)))))"

lemma pton_bitlabel_shorter:
  "pton_bitlabel src label out siz = Inr (src', label', out') \<Longrightarrow> src \<noteq> [] \<Longrightarrow> length src' < length src"
  by (cases src)
     (fastforce simp: pton_bitlabel_def Let_def cres_simps set_label_def
        dest!: pton_bits_shorter split: if_splits list.splits prod.splits)+

text \<open>Storing one byte.\<close>

definition pton_put :: "u8 list \<Rightarrow> u8 \<Rightarrow> nat \<Rightarrow> u8 list cres" where
  "pton_put out c siz = (if length out \<ge> siz then Inl (Errno EMSGSIZE) else Inr (out @ [c]))"

function pton_loop :: "cstring \<Rightarrow> bool \<Rightarrow> nat \<Rightarrow> u8 list \<Rightarrow> nat \<Rightarrow> (nat \<times> u8 list) cres" where
  "pton_loop [] escaped label out siz = pton_finish label out siz"
| "pton_loop (c # src) escaped label out siz =
     (if escaped then
        (case digit_val c of
           Some d \<Rightarrow>
             and_then (pton_ddd d src) (\<lambda>(c, src).
             and_then (pton_put out c siz) (\<lambda>out. pton_loop src False label out siz))
         | None \<Rightarrow>
             if c = 0x5B \<and> label + 1 = length out \<and> src \<noteq> [] \<and> hd src = 0x78 then
               and_then (pton_bitlabel src label out siz)
                 (\<lambda>(src, label, out). pton_loop src False label out siz)
             else and_then (pton_put out c siz) (\<lambda>out. pton_loop src False label out siz))
      else if c = 0x5C then pton_loop src True label out siz
      else if c = 0x2E then
        and_then (pton_dot src label out siz) (\<lambda>r.
          case r of Inl res \<Rightarrow> Inr res
                  | Inr (label, out) \<Rightarrow> pton_loop src False label out siz)
      else and_then (pton_put out c siz) (\<lambda>out. pton_loop src False label out siz))"
  by pat_completeness auto
termination
  by (relation "measure (\<lambda>(src, e, l, out, siz). length src)")
     (auto dest!: pton_ddd_shorter pton_bitlabel_shorter)

text \<open>The result: 1 if the string was fully qualified, 0 if not, and the bytes written.\<close>

definition ns_name_pton :: "cstring \<Rightarrow> nat \<Rightarrow> (nat \<times> u8 list) cres" where
  "ns_name_pton src dstsiz = pton_loop src False 0 [0] dstsiz"

section \<open>ns_name_ntol, ns_name_skip, ns_name_rollback\<close>

fun ntol_label :: "nat \<Rightarrow> u8 list \<Rightarrow> u8 list \<Rightarrow> (u8 list \<times> u8 list) cres" where
  "ntol_label 0 cp dn = Inr (cp, dn)"
| "ntol_label (Suc n) [] dn = Inl Fault"
| "ntol_label (Suc n) (c # cp) dn =
     ntol_label n cp (dn @ [if isupper c then tolower c else c])"

lemma ntol_label_rest: "ntol_label n cp dn = Inr (cp', dn') \<Longrightarrow> cp' = drop n cp"
  by (induction n cp dn rule: ntol_label.induct) auto

function ntol_loop :: "u8 list \<Rightarrow> u8 list \<Rightarrow> nat \<Rightarrow> u8 list cres" where
  "ntol_loop [] dn siz = Inl Fault"
| "ntol_loop (n # cp) dn siz =
     (if n = 0 then (if length dn \<ge> siz then Inl Fault else Inr (dn @ [0]))
      else if n AND 0xC0 \<noteq> 0 then Inl (Errno EMSGSIZE)
      else if length dn \<ge> siz then Inl Fault
      else let dn = dn @ [n] in
           if length dn + unat n \<ge> siz then Inl (Errno EMSGSIZE)
           else and_then (ntol_label (unat n) cp dn) (\<lambda>(cp, dn). ntol_loop cp dn siz))"
  by pat_completeness auto
termination
  by (relation "measure (\<lambda>(cp, dn, siz). length cp)") (auto dest!: ntol_label_rest)

definition ns_name_ntol :: "u8 list \<Rightarrow> nat \<Rightarrow> u8 list cres" where
  "ns_name_ntol src dstsiz = ntol_loop src [] dstsiz"

text \<open>
  \<open>ns_name_skip\<close>: \<open>mem\<close> is the memory up to \<open>eom\<close>, \<open>cp\<close> an offset into it; the result is the
  offset after the name.
\<close>

function ns_name_skip :: "u8 list \<Rightarrow> nat \<Rightarrow> nat cres" where
  "ns_name_skip mem cp =
     (if cp < length mem then
        (let n = mem ! cp; cp = cp + 1 in
         if n = 0 then Inr cp
         else if n AND 0xC0 = 0 then ns_name_skip mem (cp + unat n)
         else if n AND 0xC0 = 0xC0 then
           (if cp + 1 > length mem then Inl (Errno EMSGSIZE) else Inr (cp + 1))
         else Inl (Errno EMSGSIZE))
      else if cp > length mem then Inl (Errno EMSGSIZE)
      else Inr cp)"
  by pat_completeness auto
termination
  by (relation "measure (\<lambda>(mem, cp). length mem - cp)") auto

declare ns_name_skip.simps [simp del]

text \<open>
  \<open>ns_name_rollback\<close>: \<open>dnptrs\<close> lists the table up to its NULL, \<open>cap\<close> the entries before
  \<open>lastdnptr\<close>; storing NULL cuts the list there.
\<close>

fun ns_name_rollback :: "nat \<Rightarrow> nat list \<Rightarrow> nat \<Rightarrow> nat list" where
  "ns_name_rollback src [] cap = []"
| "ns_name_rollback src (p # ps) 0 = p # ps"
| "ns_name_rollback src (p # ps) (Suc cap) =
     (if p \<ge> src then [] else p # ns_name_rollback src ps cap)"

end
