(* ===== verification/Ns_Roundtrip.thy ===== *)
theory Ns_Roundtrip
  imports Ns_Name
begin

text \<open>
  What \<open>ns_name_ntop\<close> and \<open>ns_name_pton\<close> compute, against an abstract domain name: a list of
  labels.  \<open>wire\<close> and \<open>present\<close> are the two concrete syntaxes, written without buffers; the
  lemmas say that the two functions convert between them, within the sizes of the buffers.
\<close>

unbundle bit_operations_syntax

section \<open>Domain names as label lists\<close>

type_synonym label = "u8 list"

definition wf_label :: "label \<Rightarrow> bool" where
  "wf_label l \<longleftrightarrow> l \<noteq> [] \<and> length l < 64"

definition label_wire :: "label \<Rightarrow> u8 list" where
  "label_wire l = of_nat (length l) # l"

definition body :: "label list \<Rightarrow> u8 list" where
  "body ls = concat (map label_wire ls)"

definition wire :: "label list \<Rightarrow> u8 list" where
  "wire ls = body ls @ [0]"

definition wf_name :: "label list \<Rightarrow> bool" where
  "wf_name ls \<longleftrightarrow> list_all wf_label ls \<and> length (wire ls) \<le> NS_MAXCDNAME"

definition esc :: "u8 \<Rightarrow> cstring" where
  "esc c =
     (if special c then [0x5C, c]
      else if \<not> printable c then
        [0x5C, digits (unat c div 100), digits ((unat c mod 100) div 10), digits (unat c mod 10)]
      else [c])"

definition esc_label :: "label \<Rightarrow> cstring" where
  "esc_label l = concat (map esc l)"

definition dot_label :: "label \<Rightarrow> cstring" where
  "dot_label l = 0x2E # esc_label l"

fun dotted :: "label list \<Rightarrow> cstring" where
  "dotted [] = []"
| "dotted (l # ls) = esc_label l @ concat (map dot_label ls)"

definition present :: "label list \<Rightarrow> cstring" where
  "present ls = (if ls = [] then [0x2E] else dotted ls)"

named_theorems name_simps \<open>the concrete syntaxes of a label list\<close>

lemma body_simps [simp, name_simps]:
  "body [] = []" "body (l # ls) = label_wire l @ body ls" "body (ls @ ls') = body ls @ body ls'"
  by (simp_all add: body_def)

lemma wire_Cons [name_simps]: "wire (l # ls) = label_wire l @ wire ls"
  by (simp add: wire_def)

lemma wire_Nil [name_simps]: "wire [] = [0]"
  by (simp add: wire_def)

lemma esc_label_simps [simp]:
  "esc_label [] = []" "esc_label (c # l) = esc c @ esc_label l"
  by (simp_all add: esc_label_def)

lemma esc_not_Nil [simp]: "esc c \<noteq> []"
  by (simp add: esc_def)

lemma length_esc: "1 \<le> length (esc c)" "length (esc c) \<le> 4"
  by (simp_all add: esc_def)

lemma esc_label_eq_Nil [simp]: "esc_label l = [] \<longleftrightarrow> l = []"
  by (cases l) auto

lemma length_esc_label: "length l \<le> length (esc_label l)"
proof (induction l)
  case (Cons c l)
  then show ?case using length_esc(1) [of c] by (simp; arith)
qed simp

text \<open>The escape of a byte never begins with a dot.\<close>

lemma hd_esc: "hd (esc c) \<noteq> 0x2E"
  by (auto simp: esc_def special_def)

lemma hd_esc_label: "l \<noteq> [] \<Longrightarrow> hd (esc_label l @ s) \<noteq> 0x2E"
  by (cases l) (auto simp: hd_esc hd_append)

text \<open>The length octet of an ordinary label.\<close>

lemma wf_label_octet:
  assumes "wf_label l"
  shows "(of_nat (length l) :: u8) \<noteq> 0" "(of_nat (length l) :: u8) < 0x40"
    "(of_nat (length l) :: u8) \<noteq> 0x41" "unat (of_nat (length l) :: u8) = length l"
proof -
  have n: "length l < 64" "length l \<noteq> 0" using assms by (auto simp: wf_label_def)
  then show u: "unat (of_nat (length l) :: u8) = length l" by simp
  show "(of_nat (length l) :: u8) \<noteq> 0" using n by simp
  show less: "(of_nat (length l) :: u8) < 0x40" using n u by (simp add: word_less_nat_alt)
  show "(of_nat (length l) :: u8) \<noteq> 0x41" using less by auto
qed

section \<open>ns_name_ntop writes the presentation format\<close>

lemma ntop_label_run:
  assumes "length dn \<le> siz"
  shows "ntop_label (length l) (l @ rest) dn siz =
    (if length dn + length (esc_label l) \<le> siz then Inr (rest, dn @ esc_label l)
     else Inl (Errno EMSGSIZE))"
  using assms
proof (induction l arbitrary: dn)
  case Nil
  then show ?case by simp
next
  case (Cons c l)
  have long: "length (esc c) \<le> length (esc c @ esc_label l)" by simp
  show ?case
    using Cons.IH [of "dn @ esc c"] Cons.prems long by (auto simp: esc_def)
qed

text \<open>The text so far, continued with further labels.\<close>

definition joined :: "u8 list \<Rightarrow> label list \<Rightarrow> u8 list" where
  "joined dn ls = (if dn = [] then dotted ls else dn @ concat (map dot_label ls))"

lemma joined_Cons:
  "l \<noteq> [] \<Longrightarrow> joined dn (l # ls) = joined ((if dn = [] then [] else dn @ [0x2E]) @ esc_label l) ls"
  by (simp add: joined_def dot_label_def)

lemma joined_mono: "length dn \<le> length (joined dn ls)"
  by (simp add: joined_def)

lemma ntop_loop_step:
  assumes "wf_label l"
  shows "ntop_loop (label_wire l @ rest) dn siz =
    and_then (ntop_sep dn siz) (\<lambda>dn.
      if length dn + length l \<ge> siz then Inl (Errno EMSGSIZE)
      else and_then (ntop_label (length l) (l @ rest) dn siz)
             (\<lambda>(cp, dn). ntop_loop cp dn siz))"
  using wf_label_octet [OF assms] by (simp add: label_wire_def cong: if_cong)

lemma ntop_loop_fits:
  assumes "list_all wf_label ls" and "length (joined dn ls) < siz"
  shows "ntop_loop (wire ls @ rest) dn siz = Inr (joined dn ls)"
  using assms
proof (induction ls arbitrary: dn)
  case Nil
  then show ?case by (simp add: wire_Nil joined_def)
next
  case (Cons l ls)
  let ?dn = "(if dn = [] then [] else dn @ [0x2E])"
  from Cons.prems have l: "wf_label l" "l \<noteq> []" by (auto simp: wf_label_def)
  have len: "length (?dn @ esc_label l) < siz"
    using Cons.prems(2) joined_mono [of "?dn @ esc_label l" ls] l
    by (simp add: joined_Cons)
  have sep: "ntop_sep dn siz = Inr ?dn" using len by (auto simp: ntop_sep_def split: if_splits)
  have short: "length ?dn + length l < siz" using len length_esc_label [of l] by simp
  have "ntop_loop (wire (l # ls) @ rest) dn siz = ntop_loop (wire ls @ rest) (?dn @ esc_label l) siz"
    using ntop_loop_step [OF l(1), of "wire ls @ rest" dn siz] sep short len
      ntop_label_run [of ?dn siz l "wire ls @ rest"] by (simp add: wire_Cons)
  then show ?case
    using Cons.IH [of "?dn @ esc_label l"] Cons.prems l by (simp add: joined_Cons)
qed

lemma ntop_loop_any:
  assumes "list_all wf_label ls"
  shows "ntop_loop (wire ls @ rest) dn siz \<in> {Inl (Errno EMSGSIZE), Inr (joined dn ls)}"
  using assms
proof (induction ls arbitrary: dn)
  case Nil
  then show ?case by (simp add: wire_Nil joined_def)
next
  case (Cons l ls)
  let ?dn = "(if dn = [] then [] else dn @ [0x2E])"
  from Cons.prems have l: "wf_label l" "l \<noteq> []" by (auto simp: wf_label_def)
  show ?case
  proof (cases "ntop_sep dn siz = Inr ?dn \<and> length ?dn + length l < siz
      \<and> length ?dn + length (esc_label l) \<le> siz")
    case True
    then have "ntop_loop (wire (l # ls) @ rest) dn siz
        = ntop_loop (wire ls @ rest) (?dn @ esc_label l) siz"
      using ntop_loop_step [OF l(1), of "wire ls @ rest" dn siz]
        ntop_label_run [of ?dn siz l "wire ls @ rest"] by (simp add: wire_Cons)
    then show ?thesis using Cons.IH [of "?dn @ esc_label l"] Cons.prems l
      by (simp add: joined_Cons)
  next
    case False
    then have "ntop_loop (wire (l # ls) @ rest) dn siz = Inl (Errno EMSGSIZE)"
      using ntop_loop_step [OF l(1), of "wire ls @ rest" dn siz]
        ntop_label_run [of ?dn siz l "wire ls @ rest"]
      by (auto simp: wire_Cons ntop_sep_def split: if_splits)
    then show ?thesis by simp
  qed
qed

lemma ntop_spec:
  assumes "list_all wf_label ls"
  shows "ns_name_ntop (wire ls @ rest) siz =
    (if length (present ls) < siz then Inr (present ls @ [0]) else Inl (Errno EMSGSIZE))"
proof (cases ls)
  case Nil
  then show ?thesis by (simp add: ns_name_ntop_def wire_Nil present_def)
next
  case (Cons l ls')
  then have ne: "dotted ls \<noteq> []" using assms by (auto simp: wf_label_def)
  have p: "present ls = dotted ls" "joined [] ls = dotted ls"
    using Cons by (simp_all add: present_def joined_def)
  show ?thesis
  proof (cases "length (present ls) < siz")
    case True
    then show ?thesis using ntop_loop_fits [OF assms, of "[]" siz rest] p ne
      by (simp add: ns_name_ntop_def)
  next
    case False
    then show ?thesis using ntop_loop_any [OF assms, of rest "[]" siz] p ne
      by (auto simp: ns_name_ntop_def)
  qed
qed

section \<open>ns_name_pton reads it back\<close>

lemma digit_val_digits [simp]: "i < 10 \<Longrightarrow> digit_val (digits i) = Some i"
proof -
  assume "i < 10"
  then have "i \<in> set [0..<10]" by simp
  moreover have "list_all (\<lambda>i. digit_val (digits i) = Some i) [0..<10]" by code_simp
  ultimately show ?thesis unfolding list_all_iff by blast
qed

lemma cmprs_nat_small [simp]: "c < 256 \<Longrightarrow> cmprs_nat c \<longleftrightarrow> 64 \<le> c"
proof -
  assume "c < 256"
  then have "c \<in> set [0..<256]" by simp
  moreover have "list_all (\<lambda>c. cmprs_nat c \<longleftrightarrow> 64 \<le> c) [0..<256]" by code_simp
  ultimately show ?thesis unfolding list_all_iff by blast
qed

lemma digit_val_special: "special c \<Longrightarrow> digit_val c = None \<and> c \<noteq> 0x5B"
  by (auto simp: special_def digit_val_def)

lemma ddd_value: "n div 100 * 100 + n mod 100 div 10 * 10 + n mod 10 = (n :: nat)"
proof -
  have "n mod 100 mod 10 = n mod 10" by (simp add: mod_mod_cancel)
  then show ?thesis
    using div_mult_mod_eq [of n 100] div_mult_mod_eq [of "n mod 100" 10] by linarith
qed

lemma unat_u8_div_100: "unat (c :: u8) div 100 < 10"
proof -
  have "unat c < 1000" by (rule less_trans [OF unat_u8_less]) simp
  then show ?thesis by (simp add: div_less_iff_less_mult)
qed

lemma pton_ddd_esc:
  "pton_ddd (unat c div 100)
     (digits (unat c mod 100 div 10) # digits (unat c mod 10) # rest) = Inr (c, rest)"
proof -
  have "unat c mod 100 div 10 < 10" by (simp add: less_mult_imp_div_less)
  moreover have "unat c mod 10 < 10" by simp
  moreover have "unat c \<le> 255" using unat_u8_less [of c] by arith
  ultimately show ?thesis by (simp add: Let_def ddd_value)
qed

lemma pton_esc:
  assumes "length out < siz"
  shows "pton_loop (esc c @ rest) False label out siz = pton_loop rest False label (out @ [c]) siz"
  using assms digit_val_special [of c]
  by (auto simp: esc_def pton_put_def pton_ddd_esc unat_u8_div_100 printable_def special_def
      simp del: pton_ddd.simps)

lemma pton_esc_label:
  assumes "length out + length l \<le> siz"
  shows "pton_loop (esc_label l @ rest) False label out siz = pton_loop rest False label (out @ l) siz"
  using assms by (induction l arbitrary: out) (simp_all add: pton_esc)

text \<open>The state in the middle of a name: complete labels, the reserved octet, the bytes so far.\<close>

lemma pton_dot_next:
  assumes "wf_label l" "length pre < siz" "rest \<noteq> []" "hd rest \<noteq> 0x2E"
  shows "pton_dot rest (length pre) (pre @ 0 # l) siz
    = Inr (Inr (length (pre @ label_wire l), pre @ label_wire l @ [0]))"
  using assms by (simp add: pton_dot_def set_label_def Let_def wf_label_def label_wire_def)

lemma pton_finish_label:
  assumes "wf_label l" "length (pre @ wire [l]) \<le> siz" "length (pre @ wire [l]) \<le> NS_MAXCDNAME"
  shows "pton_finish (length pre) (pre @ 0 # l) siz = Inr (0, pre @ wire [l])"
  using assms
  by (simp add: pton_finish_def set_label_def Let_def wf_label_def label_wire_def name_simps)

lemma pton_loop_labels:
  assumes "list_all wf_label (l # ls)"
    and "length (pre @ wire (l # ls)) \<le> siz" "length (pre @ wire (l # ls)) \<le> NS_MAXCDNAME"
  shows "pton_loop (dotted (l # ls)) False (length pre) (pre @ [0]) siz
    = Inr (0, pre @ wire (l # ls))"
  using assms
proof (induction ls arbitrary: l pre)
  case Nil
  then show ?case
    using pton_esc_label [of "pre @ [0]" l siz "[]" "length pre"] pton_finish_label [of l pre siz]
    by (simp add: name_simps label_wire_def)
next
  case (Cons l' ls)
  let ?rest = "dotted (l' # ls)"
  have l: "wf_label l" "wf_label l'" using Cons.prems(1) by simp_all
  have ne: "?rest \<noteq> []" "hd ?rest \<noteq> 0x2E"
    using l(2) hd_esc_label [of l' "concat (map dot_label ls)"] by (auto simp: wf_label_def)
  have len: "length pre + 1 + length l \<le> siz"
    using Cons.prems(2) by (simp add: name_simps label_wire_def)
  have "pton_loop (dotted (l # l' # ls)) False (length pre) (pre @ [0]) siz
      = pton_loop (0x2E # ?rest) False (length pre) (pre @ 0 # l) siz"
    using pton_esc_label [of "pre @ [0]" l siz "0x2E # ?rest" "length pre"] len
    by (simp add: dot_label_def)
  also have "\<dots> = pton_loop ?rest False (length (pre @ label_wire l)) (pre @ label_wire l @ [0]) siz"
    using pton_dot_next [OF l(1) _ ne, of pre siz] len by simp
  also have "\<dots> = Inr (0, (pre @ label_wire l) @ wire (l' # ls))"
    using Cons.IH [of l' "pre @ label_wire l"] Cons.prems by (simp add: name_simps)
  finally show ?case by (simp add: name_simps)
qed

lemma pton_present:
  assumes "wf_name ls" "length (wire ls) \<le> siz"
  shows "ns_name_pton (present ls) siz = Inr (if ls = [] then 1 else 0, wire ls)"
proof (cases ls)
  case Nil
  then show ?thesis
    using assms
    by (simp add: ns_name_pton_def present_def pton_dot_def Let_def set_label_def name_simps
        NS_MAXCDNAME_def)
next
  case (Cons l ls')
  then show ?thesis
    using assms pton_loop_labels [of l ls' "[]" siz]
    by (simp add: ns_name_pton_def present_def wf_name_def)
qed

text \<open>C3: The text ns_name_ntop prints for a legal wire-format name is read back by ns_name_pton as
  exactly that name, escapes included, with the result 1 for the root and 0 otherwise.\<close>

theorem ntop_pton_roundtrip:
  assumes "wf_name ls" "length (present ls) < n" "length (wire ls) \<le> siz"
  shows "\<exists>txt. ns_name_ntop (wire ls @ rest) n = Inr (txt @ [0])
    \<and> ns_name_pton txt siz = Inr (if ls = [] then 1 else 0, wire ls)"
  using assms by (simp add: ntop_spec wf_name_def pton_present)

theorem ntop_pton_roundtrip_witness:
  "\<exists>txt. ns_name_ntop (wire [[0x2E, 0x61], [0]]) 9 = Inr (txt @ [0])
    \<and> ns_name_pton txt 6 = Inr (0, wire [[0x2E, 0x61], [0]])"
proof -
  have "wf_name [[0x2E, 0x61], [0]]" "length (present [[0x2E, 0x61], [0]]) < 9"
    "length (wire [[0x2E, 0x61], [0]]) \<le> 6" by code_simp+
  then show ?thesis using ntop_pton_roundtrip [of "[[0x2E, 0x61], [0]]" 9 6 "[]"] by simp
qed

end
