(* ===== verification/Ns_Pton_Safe.thy ===== *)
theory Ns_Pton_Safe
  imports Ns_Roundtrip
begin

text \<open>
  What \<open>ns_name_pton\<close> guarantees for an arbitrary string: without a bit-string label it never
  writes outside its buffer and only ever produces well-formed wire names; with one it can write
  past the end of the buffer.
\<close>

unbundle bit_operations_syntax

text \<open>The state of the loop: complete labels, then the label being read.  A label length is
  compared with the flag bits only, so nothing is known once more than 256 bytes are out; such a
  name is refused at the end.\<close>

definition pton_inv :: "nat \<Rightarrow> nat \<Rightarrow> u8 list \<Rightarrow> bool" where
  "pton_inv siz label out \<longleftrightarrow>
     label < length out
     \<and> (length out \<le> siz \<or> label = siz \<and> length out = siz + 1)
     \<and> (length out \<le> 256 \<longrightarrow>
          (\<exists>ls l. out = body ls @ 0 # l \<and> label = length (body ls) \<and> list_all wf_label ls))"

definition pton_good :: "nat \<Rightarrow> (nat \<times> u8 list) cres \<Rightarrow> bool" where
  "pton_good siz res \<longleftrightarrow>
     (case res of Inl e \<Rightarrow> e = Errno EMSGSIZE
      | Inr (r, out) \<Rightarrow> r \<le> 1 \<and> length out \<le> siz \<and> (\<exists>ls. wf_name ls \<and> out = wire ls))"

text \<open>A string holds no bit-string label: no label of it starts with an escaped opening bracket that
  an x follows.\<close>

fun no_bitlabel :: "bool \<Rightarrow> bool \<Rightarrow> cstring \<Rightarrow> bool" where
  "no_bitlabel escaped start [] = True"
| "no_bitlabel escaped start (c # src) =
     (if escaped then \<not> (start \<and> c = 0x5B \<and> src \<noteq> [] \<and> hd src = 0x78) \<and> no_bitlabel False False src
      else if c = 0x5C then no_bitlabel True start src
      else no_bitlabel False (c = 0x2E) src)"

lemma pton_good_simps [simp]:
  "pton_good siz (Inl e) \<longleftrightarrow> e = Errno EMSGSIZE"
  "pton_good siz (Inr (r, out)) \<longleftrightarrow>
     r \<le> 1 \<and> length out \<le> siz \<and> (\<exists>ls. wf_name ls \<and> out = wire ls)"
  by (simp_all add: pton_good_def)

lemma pton_inv_init: "pton_inv siz 0 [0]"
  by (auto simp: pton_inv_def intro!: exI [of _ "[]"])

lemma pton_inv_put:
  assumes "pton_inv siz label out" "length out < siz"
  shows "pton_inv siz label (out @ [c])"
  using assms by (fastforce simp: pton_inv_def)

lemma pton_inv_label:
  assumes "pton_inv siz label out" "label < siz" "length out \<le> 256" "\<not> cmprs_nat (length out - label - 1)"
  obtains ls l where "out = body ls @ 0 # l" "label = length (body ls)" "list_all wf_label ls"
    "length l < 64" "length out - label - 1 = length l" "length out \<le> siz"
proof -
  from assms obtain ls l where *: "out = body ls @ 0 # l" "label = length (body ls)"
    "list_all wf_label ls" by (auto simp: pton_inv_def)
  with assms have "length l < 256" "length out \<le> siz" by (auto simp: pton_inv_def)
  with * assms show thesis by (intro that [of ls l]) auto
qed

text \<open>Closing the current label, as both ends of a name do.\<close>

lemma pton_close:
  assumes inv: "pton_inv siz label out" and lab: "label < siz"
    and c: "c = length out - label - 1" "\<not> cmprs_nat c"
    and out': "out' = (if c \<noteq> 0 then out[label := of_nat c] @ [0] else out[label := of_nat c])"
    and bound: "length out' \<le> NS_MAXCDNAME"
  shows "\<exists>ls. wf_name ls \<and> out' = wire ls"
proof -
  have "length out \<le> 256" using bound out' by (auto simp: NS_MAXCDNAME_def split: if_splits)
  then obtain ls l where *: "out = body ls @ 0 # l" "label = length (body ls)" "list_all wf_label ls"
    "length l < 64" "c = length l"
    using pton_inv_label [OF inv lab] c by blast
  have "out' = wire (if l = [] then ls else ls @ [l])"
    using out' * by (simp add: wire_def label_wire_def)
  moreover have "list_all wf_label (if l = [] then ls else ls @ [l])"
    using * by (simp add: wf_label_def)
  ultimately show ?thesis using bound by (metis wf_name_def)
qed

lemma pton_inv_length: "pton_inv siz label out \<Longrightarrow> label < siz \<Longrightarrow> length out \<le> siz"
  by (auto simp: pton_inv_def)

lemma pton_finish_good: "pton_inv siz label out \<Longrightarrow> pton_good siz (pton_finish label out siz)"
  using pton_close [of siz label out "length out - label - 1"] pton_inv_length [of siz label out]
  by (auto simp: pton_finish_def Let_def set_label_def not_le)

lemma pton_dot_good:
  assumes "pton_inv siz label out"
  shows "case pton_dot src label out siz of
      Inl e \<Rightarrow> e = Errno EMSGSIZE
    | Inr (Inl res) \<Rightarrow> pton_good siz (Inr res)
    | Inr (Inr (label, out)) \<Rightarrow> pton_inv siz label out"
proof (cases "label < siz \<and> \<not> cmprs_nat (length out - label - 1)")
  case False
  then show ?thesis by (auto simp: pton_dot_def Let_def)
next
  case True
  let ?c = "length out - label - 1"
  let ?out = "out[label := of_nat ?c]"
  have len: "length out \<le> siz" using assms True pton_inv_length by blast
  have next_inv: "pton_inv siz (length ?out) (?out @ [0])" if "?c \<noteq> 0"
  proof -
    have "\<exists>ls l. ?out @ [0] = body ls @ 0 # l \<and> length ?out = length (body ls) \<and> list_all wf_label ls"
      if short: "length (?out @ [0]) \<le> 256"
    proof -
      from short have "length out \<le> 256" by simp
      then obtain ls l where *: "out = body ls @ 0 # l" "label = length (body ls)"
        "list_all wf_label ls" "length l < 64" "?c = length l"
        using pton_inv_label [OF assms] True by blast
      then have "?out @ [0] = body (ls @ [l]) @ 0 # []" "list_all wf_label (ls @ [l])"
        "length ?out = length (body (ls @ [l]))"
        using \<open>?c \<noteq> 0\<close> by (auto simp: label_wire_def wf_label_def)
      then show ?thesis by blast
    qed
    then show ?thesis using len by (auto simp: pton_inv_def)
  qed
  show ?thesis
    using True len next_inv pton_close [OF assms, of ?c] 
    by (auto simp: pton_dot_def Let_def set_label_def split: if_splits)
qed

lemma pton_ddd_drop:
  "pton_ddd d src = Inr (c, src') \<Longrightarrow>
     \<exists>ds. src = ds @ src' \<and> (\<forall>x \<in> set ds. digit_val x \<noteq> None)"
proof (induction d src rule: pton_ddd.induct)
  case (1 d1 c2 c3 src)
  then show ?case by (intro exI [of _ "[c2, c3]"]) (auto simp: Let_def split: option.splits if_splits)
qed auto

lemma no_bitlabel_digits:
  "\<forall>x \<in> set ds. digit_val x \<noteq> None \<Longrightarrow> no_bitlabel False False (ds @ src) \<Longrightarrow> no_bitlabel False False src"
proof (induction ds)
  case (Cons a ds)
  then have "a \<noteq> 0x5C" "a \<noteq> 0x2E" by (auto simp: digit_val_def split: if_splits)
  with Cons show ?case by simp
qed simp

lemma pton_ddd_err: "pton_ddd d src = Inl e \<Longrightarrow> e = Errno EMSGSIZE"
  by (induction d src rule: pton_ddd.induct) (auto simp: Let_def split: option.splits if_splits)

lemma pton_put_good:
  assumes "pton_inv siz label out"
    and "\<And>out'. pton_inv siz label out' \<Longrightarrow> pton_put out c siz = Inr out' \<Longrightarrow> pton_good siz (f out')"
  shows "pton_good siz (and_then (pton_put out c siz) f)"
  using assms(2) [of "out @ [c]"] pton_inv_put [OF assms(1), of c] by (simp add: pton_put_def)

text \<open>The flag of \<open>no_bitlabel\<close> is set whenever the current label is still empty.\<close>

lemma pton_loop_good:
  "pton_inv siz label out \<Longrightarrow> label + 1 = length out \<longrightarrow> start \<Longrightarrow> no_bitlabel escaped start src \<Longrightarrow>
     pton_good siz (pton_loop src escaped label out siz)"
proof (induction src escaped label out siz arbitrary: start rule: pton_loop.induct)
  case (1 escaped label out siz)
  then show ?case by (simp add: pton_finish_good)
next
  case (2 c src escaped label out siz)
  have put: "pton_good siz (and_then (pton_put out x siz) f)"
    if "\<And>out'. pton_inv siz label out' \<Longrightarrow> length out' = length out + 1 \<Longrightarrow> pton_put out x siz = Inr out' \<Longrightarrow>
      pton_good siz (f out')" for x f
    by (rule pton_put_good [OF "2.prems"(1)]) (auto simp: pton_put_def intro!: that split: if_splits)
  have lab: "label < length out" using "2.prems"(1) by (simp add: pton_inv_def)
  consider (esc) "escaped" | (bs) "\<not> escaped" "c = 0x5C" | (dot) "\<not> escaped" "c = 0x2E"
    | (plain) "\<not> escaped" "c \<noteq> 0x5C" "c \<noteq> 0x2E" by blast
  then show ?case
  proof cases
    case esc
    then have no: "no_bitlabel False False src" "\<not> (start \<and> c = 0x5B \<and> src \<noteq> [] \<and> hd src = 0x78)"
      using "2.prems"(3) by auto
    show ?thesis
    proof (cases "digit_val c")
      case None
      have nb: "\<not> (c = 0x5B \<and> label + 1 = length out \<and> src \<noteq> [] \<and> hd src = 0x78)"
        using no(2) "2.prems"(2) by blast
      then have "pton_loop (c # src) escaped label out siz
          = and_then (pton_put out c siz) (\<lambda>out. pton_loop src False label out siz)"
        using esc None by (simp only: pton_loop.simps option.case if_True if_False)
      then show ?thesis using esc None nb no(1) lab "2.IH"(2) by (auto intro!: put)
    next
      case (Some d)
      show ?thesis
      proof (cases "pton_ddd d src")
        case (Inl e)
        then show ?thesis using esc Some pton_ddd_err by simp
      next
        case (Inr p)
        then obtain c' src' where p: "pton_ddd d src = Inr (c', src')" by (cases p) auto
        then have "no_bitlabel False False src'" using pton_ddd_drop no_bitlabel_digits no(1) by blast
        with esc Some p lab show ?thesis by (auto intro!: put "2.IH"(3) [where start = False])
      qed
    qed
  next
    case bs
    with "2.prems" show ?thesis by (auto intro!: "2.IH"(4) [where start = start])
  next
    case dot
    then have "no_bitlabel False True src" using "2.prems"(3) by simp
    then show ?thesis
      using dot pton_dot_good [OF "2.prems"(1), of src] "2.IH"(5) [where start = True]
      by (auto split: sum.splits)
  next
    case plain
    then have "no_bitlabel False False src" using "2.prems"(3) by simp
    with plain lab show ?thesis by (auto intro!: put "2.IH"(6) [where start = False])
  qed
qed

text \<open>C6: For any string without a bit-string label ns_name_pton fails with EMSGSIZE or writes, within
  its buffer, the wire format of a legal name (labels of 1 to 63 bytes, 255 bytes in all).\<close>

theorem pton_wf:
  assumes "no_bitlabel False True src"
  shows "pton_good siz (ns_name_pton src siz)"
  unfolding ns_name_pton_def by (rule pton_loop_good [OF pton_inv_init _ assms]) simp

theorem pton_wf_witness: "pton_good 9 (ns_name_pton (ascii ''a[x.a'' @ [0x5C, 0x5B] @ ascii ''x'') 9)"
proof -
  have "no_bitlabel False True (ascii ''a[x.a'' @ [0x5C, 0x5B] @ ascii ''x'')" by code_simp
  then show ?thesis by (rule pton_wf)
qed

section \<open>The unchecked store of a bit-string label\<close>

lemma pton_loop_prefix:
  assumes "list_all wf_label ls" "length (pre @ body ls) \<le> siz" "rest \<noteq> []" "hd rest \<noteq> 0x2E"
  shows "pton_loop (concat (map (\<lambda>l. esc_label l @ [0x2E]) ls) @ rest) False (length pre) (pre @ [0]) siz
    = pton_loop rest False (length (pre @ body ls)) (pre @ body ls @ [0]) siz"
  using assms
proof (induction ls arbitrary: pre)
  case Nil
  then show ?case by simp
next
  case (Cons l ls)
  let ?rest = "concat (map (\<lambda>l. esc_label l @ [0x2E]) ls) @ rest"
  have l: "wf_label l" using Cons.prems by simp
  have "?rest \<noteq> [] \<and> hd ?rest \<noteq> 0x2E"
  proof (cases ls)
    case (Cons l' ls')
    then show ?thesis using hd_esc_label [of l'] Cons.prems by (auto simp: wf_label_def)
  qed (use Cons.prems in auto)
  moreover have "length pre + 1 + length l \<le> siz"
    using Cons.prems(2) by (simp add: label_wire_def)
  ultimately have "pton_loop (esc_label l @ 0x2E # ?rest) False (length pre) (pre @ [0]) siz
      = pton_loop ?rest False (length (pre @ label_wire l)) (pre @ label_wire l @ [0]) siz"
    using pton_esc_label [of "pre @ [0]" l siz "0x2E # ?rest" "length pre"]
      pton_dot_next [OF l, of pre siz ?rest] by simp
  then show ?case using Cons.IH [of "pre @ label_wire l"] Cons.prems by simp
qed

text \<open>A name whose labels fill the buffer of ns_name_pton exactly, followed by a bit-string
  label, makes it store the length octet of that label past the end of the buffer.\<close>

theorem pton_overflow:
  assumes "list_all wf_label ls" "length (body ls) = siz"
  shows "ns_name_pton (concat (map (\<lambda>l. esc_label l @ [0x2E]) ls) @ 0x5C # 0x5B # 0x78 # rest) siz
    = Inl Fault"
  using pton_loop_prefix [of ls "[]" siz "0x5C # 0x5B # 0x78 # rest"] assms
  by (simp add: ns_name_pton_def digit_val_def pton_bitlabel_def set_label_def)

theorem pton_overflow_witness:
  "ns_name_pton (ascii ''ab.'' @ [0x5C, 0x5B, 0x78, 0x31]) 3 = Inl Fault"
proof -
  have "list_all wf_label [ascii ''ab'']" "length (body [ascii ''ab'']) = 3"
    "concat (map (\<lambda>l. esc_label l @ [0x2E]) [ascii ''ab'']) = ascii ''ab.''" by code_simp+
  then show ?thesis using pton_overflow [of "[ascii ''ab'']" 3 "[0x31]"] by simp
qed

end
