(* ===== verification/Ns_Compress.thy ===== *)
theory Ns_Compress
  imports Ns_Name
begin

text \<open>
  \<open>ns_name.c\<close>, the part that works inside a message: \<open>ns_name_unpack\<close>, \<open>dn_find\<close>,
  \<open>ns_name_pack\<close>, \<open>ns_name_uncompress\<close> and \<open>ns_name_compress\<close>.

  A pointer into the message is its offset from \<open>msg\<close>.  \<open>mem\<close> is the readable memory from
  \<open>msg\<close> on; \<open>eom\<close> is an offset into it.
\<close>

unbundle bit_operations_syntax

section \<open>ns_name_unpack\<close>

text \<open>The target of a compression pointer.\<close>

definition ptr_target :: "u8 \<Rightarrow> u8 \<Rightarrow> nat" where
  "ptr_target n b = unat (n AND 0x3f) * 256 + unat b"

text \<open>
  What one turn of the loop does to \<open>srcp\<close>, the destination, \<open>checked\<close> and \<open>len\<close>.  \<open>n\<close> is the
  octet just read and \<open>srcp\<close> the offset after it.
\<close>

definition unpack_copy ::
  "u8 list \<Rightarrow> nat \<Rightarrow> nat \<Rightarrow> nat \<Rightarrow> u8 list \<Rightarrow> nat \<Rightarrow> nat \<Rightarrow> (nat \<times> u8 list \<times> nat) cres" where
  "unpack_copy mem eom n srcp dst checked siz =
     (if length dst + n + 1 \<ge> siz \<or> srcp + n \<ge> eom then Inl (Errno EMSGSIZE)
      else and_then (fetch_slice mem (srcp - 1) (n + 1)) (\<lambda>bytes.
             Inr (srcp + n, dst @ bytes, checked + (n + 1))))"

definition unpack_step ::
  "u8 list \<Rightarrow> nat \<Rightarrow> nat \<Rightarrow> u8 \<Rightarrow> nat \<Rightarrow> u8 list \<Rightarrow> nat option \<Rightarrow> nat \<Rightarrow> nat
    \<Rightarrow> (nat \<times> u8 list \<times> nat option \<times> nat) cres" where
  "unpack_step mem eom src n srcp dst len checked siz =
     (if n AND 0xC0 = 0x40 then
        (if n = 0x41 then
           (if length dst + 1 \<ge> siz then Inl (Errno EMSGSIZE)
            else and_then (fetch mem srcp) (\<lambda>b.
                 and_then (unpack_copy mem eom (unat b div 8) (srcp + 1) (dst @ [0x41])
                             (checked + 1) siz) (\<lambda>(srcp, dst, checked).
                 Inr (srcp, dst, len, checked))))
         else Inl (Errno EMSGSIZE))
      else if n AND 0xC0 = 0 then
        and_then (unpack_copy mem eom (unat n) srcp dst checked siz) (\<lambda>(srcp, dst, checked).
        Inr (srcp, dst, len, checked))
      else if n AND 0xC0 = 0xC0 then
        (if srcp \<ge> eom then Inl (Errno EMSGSIZE)
         else and_then (fetch mem srcp) (\<lambda>b.
           let len = (case len of None \<Rightarrow> Some (srcp - src + 1) | Some l \<Rightarrow> Some l);
               srcp = ptr_target n b in
           if srcp \<ge> eom then Inl (Errno EMSGSIZE)
           else let checked = checked + 2 in
                if checked \<ge> eom then Inl (Errno EMSGSIZE)
                else Inr (srcp, dst, len, checked)))
      else Inl (Errno EMSGSIZE))"

lemma unpack_copy_grows:
  "unpack_copy mem eom n srcp dst checked siz = Inr (srcp', dst', checked') \<Longrightarrow>
    length dst' = length dst + (n + 1) \<and> length dst' < siz \<and> checked \<le> checked'"
  by (auto simp: unpack_copy_def fetch_slice_def split: if_splits)

lemma unpack_step_progress:
  assumes "unpack_step mem eom src n srcp dst len checked siz = Inr (srcp', dst', len', checked')"
  shows "(siz - length dst') + (eom - checked') < (siz - length dst) + (eom - checked)"
  using assms
  by (auto simp: unpack_step_def Let_def and_then_eq_Inr split: if_splits dest!: unpack_copy_grows)

function unpack_loop ::
  "u8 list \<Rightarrow> nat \<Rightarrow> nat \<Rightarrow> nat \<Rightarrow> u8 list \<Rightarrow> nat option \<Rightarrow> nat \<Rightarrow> nat \<Rightarrow> (nat \<times> u8 list) cres" where
  "unpack_loop mem eom src srcp dst len checked siz =
     and_then (fetch mem srcp) (\<lambda>n.
       let srcp = srcp + 1 in
       if n = 0 then
         (if length dst \<ge> siz then Inl Fault
          else Inr (case len of None \<Rightarrow> srcp - src | Some l \<Rightarrow> l, dst @ [0]))
       else and_then (unpack_step mem eom src n srcp dst len checked siz)
              (\<lambda>(srcp, dst, len, checked). unpack_loop mem eom src srcp dst len checked siz))"
  by pat_completeness auto
termination
  by (relation "measure (\<lambda>(mem, eom, src, srcp, dst, len, checked, siz).
        (siz - length dst) + (eom - checked))")
     (auto dest: unpack_step_progress)

declare unpack_loop.simps [simp del]

definition ns_name_unpack :: "u8 list \<Rightarrow> nat \<Rightarrow> nat \<Rightarrow> nat \<Rightarrow> (nat \<times> u8 list) cres" where
  "ns_name_unpack mem eom src dstsiz =
     (if src \<ge> eom then Inl (Errno EMSGSIZE)
      else unpack_loop mem eom src src [] None 0 dstsiz)"

section \<open>dn_find\<close>

datatype dn_result = Found | Goto_next | Illegal_type

text \<open>The comparison of the \<open>n\<close> bytes of a label: the domain after it, or a difference.\<close>

fun dn_same_label :: "nat \<Rightarrow> u8 list \<Rightarrow> u8 list \<Rightarrow> nat \<Rightarrow> u8 list option cres" where
  "dn_same_label 0 mem dn cp = Inr (Some dn)"
| "dn_same_label (Suc n) mem [] cp = Inl Fault"
| "dn_same_label (Suc n) mem (c # dn) cp =
     and_then (fetch mem cp) (\<lambda>b.
       if mklower c \<noteq> mklower b then Inr None else dn_same_label n mem dn (cp + 1))"

text \<open>The loop over \<open>cp\<close>.  It may follow pointers for ever, so it has fuel.\<close>

fun dn_match :: "nat \<Rightarrow> u8 list \<Rightarrow> u8 list \<Rightarrow> nat \<Rightarrow> dn_result cres" where
  "dn_match 0 mem dn cp = Inl Diverges"
| "dn_match (Suc fuel) mem dn cp =
     and_then (fetch mem cp) (\<lambda>n.
       if n = 0 then Inr Goto_next
       else if n AND 0xC0 = 0 then
         (case dn of
            [] \<Rightarrow> Inl Fault
          | d # dn \<Rightarrow>
              if n \<noteq> d then Inr Goto_next
              else and_then (dn_same_label (unat n) mem dn (cp + 1)) (\<lambda>r.
                case r of
                  None \<Rightarrow> Inr Goto_next
                | Some dn \<Rightarrow>
                    (case dn of
                       [] \<Rightarrow> Inl Fault
                     | e # _ \<Rightarrow>
                         let cp = cp + 1 + unat n in
                         and_then (if e = 0 then fetch mem cp else Inr 1) (\<lambda>b.
                           if e = 0 \<and> b = 0 then Inr Found
                           else if e \<noteq> 0 then dn_match fuel mem dn cp
                           else Inr Goto_next))))
       else if n AND 0xC0 = 0xC0 then
         and_then (fetch mem (cp + 1)) (\<lambda>b. dn_match fuel mem dn (ptr_target n b))
       else Inr Illegal_type)"

text \<open>The loop over the labels of one name, then over the names.\<close>

function dn_find_from :: "u8 list \<Rightarrow> u8 list \<Rightarrow> nat \<Rightarrow> nat option cres" where
  "dn_find_from mem domain sp =
     and_then (fetch mem sp) (\<lambda>n.
       if n \<noteq> 0 \<and> n AND 0xC0 = 0 \<and> sp < 0x4000 then
         and_then (dn_match (length mem + 1) mem domain sp) (\<lambda>r.
           case r of
             Found \<Rightarrow> Inr (Some sp)
           | Goto_next \<Rightarrow> dn_find_from mem domain (sp + unat n + 1)
           | Illegal_type \<Rightarrow> Inl (Errno EMSGSIZE))
       else Inr None)"
  by pat_completeness auto
termination
  by (relation "measure (\<lambda>(mem, domain, sp). 0x4000 - sp)") auto

declare dn_find_from.simps [simp del]

fun dn_find :: "u8 list \<Rightarrow> u8 list \<Rightarrow> nat list \<Rightarrow> nat cres" where
  "dn_find mem domain [] = Inl (Errno ENOENT)"
| "dn_find mem domain (p # ps) =
     and_then (dn_find_from mem domain p) (\<lambda>r.
       case r of Some off \<Rightarrow> Inr off | None \<Rightarrow> dn_find mem domain ps)"

section \<open>ns_name_pack\<close>

text \<open>
  The table of earlier names: \<open>entries\<close> are the pointers after \<open>dnptrs[0] = msg\<close>, up to the NULL,
  and \<open>cap\<close> is \<open>lastdnptr - dnptrs\<close>, \<open>None\<close> for a NULL \<open>lastdnptr\<close>.  A NULL \<open>dnptrs\<close> (or a NULL
  \<open>dnptrs[0]\<close>) is \<open>None\<close>.
\<close>

record dntab =
  entries :: "nat list"
  cap :: "nat option"

text \<open>The first pass: the name is legal and not too long.\<close>

function pack_legal :: "u8 list \<Rightarrow> nat \<Rightarrow> unit cres" where
  "pack_legal [] l = Inl Fault"
| "pack_legal (n # srcp) l =
     (if n AND 0xC0 \<noteq> 0 \<and> n \<noteq> 0x41 then Inl (Errno EMSGSIZE)
      else and_then (if n = 0x41 then (case srcp of [] \<Rightarrow> Inl Fault | b # srcp \<Rightarrow> Inr (unat b div 8, srcp))
                     else Inr (unat n, srcp)) (\<lambda>(n, srcp).
        let l = l + (n + 1) in
        if l > NS_MAXCDNAME then Inl (Errno EMSGSIZE)
        else if n \<noteq> 0 then pack_legal (drop n srcp) l
        else Inr ()))"
  by pat_completeness auto
termination
  by (relation "measure (\<lambda>(srcp, l). length srcp)") (auto split: if_splits list.splits)

text \<open>What the second pass does before copying a label.\<close>

datatype pack_choice = Pointer nat | Copy "nat list" bool | Broken cerror

definition pack_search ::
  "u8 list \<Rightarrow> u8 list \<Rightarrow> dntab option \<Rightarrow> nat list \<Rightarrow> bool \<Rightarrow> pack_choice" where
  "pack_search srcp mem tab ents first =
     (case tab of
        None \<Rightarrow> Copy ents first
      | Some t \<Rightarrow>
          if hd srcp \<noteq> 0 \<and> hd srcp \<noteq> 0x41 then
            (case dn_find mem srcp (entries t) of
               Inr l \<Rightarrow> Pointer l
             | Inl (Errno _) \<Rightarrow>
                 (case cap t of
                    None \<Rightarrow> Copy ents first
                  | Some c \<Rightarrow>
                      if length ents + 2 < c \<and> length mem < 0x4000 \<and> first
                      then Copy (ents @ [length mem]) False
                      else Copy ents first)
             | Inl e \<Rightarrow> Broken e)
          else Copy ents first)"

text \<open>The \<open>cleanup\<close> exit: the table is cut back to what it was.\<close>

definition pack_cleanup :: "dntab option \<Rightarrow> nat list \<Rightarrow> u8 list cres \<times> nat list" where
  "pack_cleanup tab ents =
     (Inl (Errno EMSGSIZE), case tab of None \<Rightarrow> ents | Some t \<Rightarrow> take (length (entries t)) ents)"

text \<open>
  The second pass.  \<open>pre\<close> is the message below the destination, \<open>out\<close> what has been written, so
  \<open>pre @ out\<close> is the message as \<open>dn_find\<close> sees it.
\<close>

function pack_loop ::
  "u8 list \<Rightarrow> u8 list \<Rightarrow> u8 list \<Rightarrow> int \<Rightarrow> dntab option \<Rightarrow> nat list \<Rightarrow> bool
    \<Rightarrow> u8 list cres \<times> nat list" where
  "pack_loop [] pre out siz tab ents first = (Inl Fault, ents)"
| "pack_loop (n # srcp) pre out siz tab ents first =
     (case pack_search (n # srcp) (pre @ out) tab ents first of
        Broken e \<Rightarrow> (Inl e, ents)
      | Pointer l \<Rightarrow>
          if int (length out) + 1 \<ge> siz then pack_cleanup tab ents
          else (Inr (out @ [of_nat (l div 256) OR 0xC0, of_nat (l mod 256)]), ents)
      | Copy ents first \<Rightarrow>
          if n AND 0xC0 \<noteq> 0 \<and> n \<noteq> 0x41 then pack_cleanup tab ents
          else
            (case (if n = 0x41 then
                     (case srcp of [] \<Rightarrow> Inl Fault
                      | b # srcp \<Rightarrow>
                          if int (length out) + 1 \<ge> siz then Inl (Errno EMSGSIZE)
                          else Inr (unat b div 8, b, srcp, out @ [0x41]))
                   else Inr (unat n, n, srcp, out)) of
               Inl (Errno _) \<Rightarrow> pack_cleanup tab ents
             | Inl e \<Rightarrow> (Inl e, ents)
             | Inr (k, c, srcp, out) \<Rightarrow>
                 if int (length out) + 1 + int k \<ge> siz then pack_cleanup tab ents
                 else if k > length srcp then (Inl Fault, ents)
                 else
                   (let out = out @ c # take k srcp in
                    if k \<noteq> 0 then pack_loop (drop k srcp) pre out siz tab ents first
                    else if int (length out) > siz then pack_cleanup tab ents
                    else (Inr out, ents))))"
  by pat_completeness auto
termination
  by (relation "measure (\<lambda>(srcp, pre, out, siz, tab, ents, first). length srcp)")
     (auto split: if_splits list.splits)

definition ns_name_pack ::
  "u8 list \<Rightarrow> u8 list \<Rightarrow> int \<Rightarrow> dntab option \<Rightarrow> u8 list cres \<times> nat list" where
  "ns_name_pack src pre dstsiz tab =
     (let ents = (case tab of None \<Rightarrow> [] | Some t \<Rightarrow> entries t) in
      case pack_legal src 0 of
        Inl e \<Rightarrow> (Inl e, ents)
      | Inr _ \<Rightarrow> pack_loop src pre [] dstsiz tab ents True)"

section \<open>ns_name_uncompress and ns_name_compress\<close>

definition ns_name_uncompress :: "u8 list \<Rightarrow> nat \<Rightarrow> nat \<Rightarrow> nat \<Rightarrow> (nat \<times> cstring) cres" where
  "ns_name_uncompress mem eom src dstsiz =
     and_then (ns_name_unpack mem eom src NS_MAXCDNAME) (\<lambda>(n, tmp).
     and_then (ns_name_ntop tmp dstsiz) (\<lambda>dst. Inr (n, dst)))"

definition ns_name_compress ::
  "cstring \<Rightarrow> u8 list \<Rightarrow> int \<Rightarrow> dntab option \<Rightarrow> u8 list cres \<times> nat list" where
  "ns_name_compress src pre dstsiz tab =
     (case ns_name_pton src NS_MAXCDNAME of
        Inl e \<Rightarrow> (Inl e, case tab of None \<Rightarrow> [] | Some t \<Rightarrow> entries t)
      | Inr (_, tmp) \<Rightarrow> ns_name_pack tmp pre dstsiz tab)"

end
