(* ===== verification/Ns_Compress_Correct.thy ===== *)
theory Ns_Compress_Correct
  imports Ns_Compress Ns_Pton_Safe
begin

text \<open>
  What a compressed name in a message means (\<open>stored\<close>), and that \<open>ns_name_unpack\<close> reads and
  \<open>ns_name_pack\<close> writes exactly that.
\<close>

unbundle bit_operations_syntax

section \<open>Names stored in a message\<close>

text \<open>
  \<open>stored mem lo off e ls\<close>: at \<open>off\<close> begins the name \<open>ls\<close>, whose own bytes lie in
  \<open>{lo..<e}\<close> and whose pointer, if it ends with one, leads to a name that lies below \<open>lo\<close>.
\<close>

inductive stored :: "u8 list \<Rightarrow> nat \<Rightarrow> nat \<Rightarrow> nat \<Rightarrow> label list \<Rightarrow> bool" for mem where
  root: "lo \<le> off \<Longrightarrow> off < length mem \<Longrightarrow> mem ! off = 0 \<Longrightarrow> stored mem lo off (Suc off) []"
| label: "wf_label l \<Longrightarrow> lo \<le> off \<Longrightarrow> off + length (label_wire l) \<le> length mem
    \<Longrightarrow> take (length (label_wire l)) (drop off mem) = label_wire l
    \<Longrightarrow> stored mem lo (off + length (label_wire l)) e ls \<Longrightarrow> stored mem lo off e (l # ls)"
| pointer: "lo \<le> off \<Longrightarrow> Suc off < length mem \<Longrightarrow> 0xC0 \<le> mem ! off
    \<Longrightarrow> q = ptr_target (mem ! off) (mem ! Suc off)
    \<Longrightarrow> stored mem lo' q e' ls \<Longrightarrow> e' \<le> lo \<Longrightarrow> stored mem lo off (Suc (Suc off)) ls"

lemma length_label_wire [simp]: "length (label_wire l) = Suc (length l)"
  by (simp add: label_wire_def)

lemma stored_bounds: "stored mem lo off e ls \<Longrightarrow> lo \<le> off \<and> off < e \<and> e \<le> length mem"
  by (induction rule: stored.induct) auto

lemma stored_wf: "stored mem lo off e ls \<Longrightarrow> list_all wf_label ls"
  by (induction rule: stored.induct) auto

lemma stored_append: "stored mem lo off e ls \<Longrightarrow> stored (mem @ x) lo off e ls"
proof (induction rule: stored.induct)
  case (root lo off)
  then show ?case by (auto intro!: stored.root simp: nth_append)
next
  case (label l lo off e ls)
  then show ?case by (auto intro!: stored.label)
next
  case (pointer lo off q lo' e' ls)
  have q: "q = ptr_target ((mem @ x) ! off) ((mem @ x) ! Suc off)"
    using pointer by (simp add: nth_append)
  show ?case
    by (rule stored.pointer [OF pointer.hyps(1) _ _ q pointer.IH pointer.hyps(6)])
       (use pointer in \<open>auto simp: nth_append\<close>)
qed

text \<open>The bytes of a label in memory.\<close>

lemma label_in_mem:
  assumes "take (length (label_wire l)) (drop off mem) = label_wire l"
    "off + length (label_wire l) \<le> length mem"
  shows "mem ! off = of_nat (length l)" "off < length mem"
    "take (length l) (drop (off + 1) mem) = l"
    "take (Suc (length l)) (drop off mem) = label_wire l"
proof -
  show "off < length mem" using assms by simp
  then have "drop off mem = mem ! off # drop (off + 1) mem" by (simp add: Cons_nth_drop_Suc)
  with assms(1) show "mem ! off = of_nat (length l)" "take (length l) (drop (off + 1) mem) = l"
    by (auto simp: label_wire_def)
  show "take (Suc (length l)) (drop off mem) = label_wire l" using assms by simp
qed

lemma stored_zero:
  assumes "stored mem lo off e ls" "mem ! off = 0"
  shows "ls = []"
  using assms
proof (cases rule: stored.cases)
  case (label l ls)
  then show ?thesis using assms(2) label_in_mem(1) [of l off mem] wf_label_octet(1) [of l] by simp
next
  case (pointer q lo' e')
  then show ?thesis using assms(2) by simp
qed simp

section \<open>ns_name_unpack reads a stored name\<close>

text \<open>
  The loop check \<open>checked >= eom - msg\<close> never fires on a stored name, because what has been
  visited, the rest of the current run and everything below it are disjoint parts of the message.
\<close>

lemma unpack_stored:
  assumes "stored mem lo off e ls" "e \<le> eom" "eom \<le> length mem"
    "checked + lo + (e - off) \<le> eom" "length dst + length (wire ls) \<le> siz"
    "len = None \<longrightarrow> src \<le> off"
  shows "unpack_loop mem eom src off dst len checked siz
    = Inr (case len of None \<Rightarrow> e - src | Some l \<Rightarrow> l, dst @ wire ls)"
  using assms
proof (induction arbitrary: dst len checked rule: stored.induct)
  case (root lo off)
  then show ?case by (subst unpack_loop.simps) (auto simp: name_simps)
next
  case (label l lo off e ls)
  note mem = label_in_mem [OF label.hyps(4,3)]
  note oct = wf_label_octet [OF label.hyps(1)]
  have b: "off + Suc (length l) < e" using stored_bounds [OF label.hyps(5)] by simp
  have no: "\<not> 0x40 \<le> (of_nat (length l) :: u8)" using oct(2) by (simp add: not_le)
  have "unpack_copy mem eom (length l) (off + 1) dst checked siz
      = Inr (off + 1 + length l, dst @ label_wire l, checked + (length l + 1))"
    using label.prems label.hyps(3) mem b by (simp add: unpack_copy_def wire_def)
  then have "unpack_step mem eom src (mem ! off) (off + 1) dst len checked siz
      = Inr (off + 1 + length l, dst @ label_wire l, len, checked + (length l + 1))"
    using oct no mem by (simp add: unpack_step_def)
  moreover have "unpack_loop mem eom src (off + length (label_wire l)) (dst @ label_wire l) len
      (checked + (length l + 1)) siz
      = Inr (case len of None \<Rightarrow> e - src | Some l \<Rightarrow> l, (dst @ label_wire l) @ wire ls)"
    by (rule label.IH) (use label.prems b in \<open>auto simp: name_simps\<close>)
  ultimately show ?case
    using mem oct by (subst unpack_loop.simps) (simp add: name_simps)
next
  case (pointer lo off q lo' e' ls)
  have ge: "0x40 \<le> mem ! off" "\<not> mem ! off < 0x80" "\<not> mem ! off < 0x40" "mem ! off \<noteq> 0"
    using pointer.hyps(3) u8_ge_C0 [of "mem ! off"] by auto
  have b: "lo' \<le> q" "q < e'" using stored_bounds [OF pointer.hyps(5)] by auto
  have step: "unpack_step mem eom src (mem ! off) (off + 1) dst len checked siz
      = Inr (q, dst, Some (case len of None \<Rightarrow> Suc (Suc off) - src | Some l \<Rightarrow> l), checked + 2)"
    using pointer.hyps pointer.prems ge b
    by (auto simp: unpack_step_def Let_def Suc_diff_le split: option.splits)
  have "unpack_loop mem eom src q dst (Some (case len of None \<Rightarrow> Suc (Suc off) - src | Some l \<Rightarrow> l))
      (checked + 2) siz = Inr (case len of None \<Rightarrow> Suc (Suc off) - src | Some l \<Rightarrow> l, dst @ wire ls)"
    by (subst pointer.IH) (use pointer.hyps pointer.prems b in auto)
  then show ?case
    using step ge pointer.hyps(2) by (subst unpack_loop.simps) simp
qed

lemma ns_name_unpack_stored:
  assumes "stored mem lo off e ls" "e \<le> eom" "eom \<le> length mem" "length (wire ls) \<le> siz"
  shows "ns_name_unpack mem eom off siz = Inr (e - off, wire ls)"
proof -
  have "lo \<le> off" "off < e" using stored_bounds [OF assms(1)] by auto
  then show ?thesis
    using unpack_stored [OF assms(1-3), of 0 "[]" siz None off] assms(2-4)
    by (simp add: ns_name_unpack_def)
qed

section \<open>ns_name_unpack on arbitrary messages\<close>

text \<open>
  The reads stay below \<open>eom\<close> but for the one of the octet after a \<open>0x41\<close>, and the writes stay
  inside the destination, unless that is empty.
\<close>

lemma unpack_copy_cases:
  assumes "eom \<le> length mem" "0 < srcp"
  shows "unpack_copy mem eom n srcp dst checked siz = Inl (Errno EMSGSIZE)
    \<or> (\<exists>dst' checked'. unpack_copy mem eom n srcp dst checked siz = Inr (srcp + n, dst', checked')
         \<and> srcp + n < eom \<and> length dst' < siz)"
  using assms by (auto simp: unpack_copy_def)

lemma unpack_step_cases:
  assumes "eom < length mem \<or> eom \<le> length mem \<and> 0x41 \<notin> set mem" "srcp \<le> eom" "0 < srcp"
    "mem ! (srcp - 1) = n" "length dst < siz"
  shows "unpack_step mem eom src n srcp dst len checked siz = Inl (Errno EMSGSIZE)
    \<or> (\<exists>srcp' dst' len' checked'. unpack_step mem eom src n srcp dst len checked siz
           = Inr (srcp', dst', len', checked') \<and> srcp' < eom \<and> length dst' < siz)"
proof -
  have le: "eom \<le> length mem" using assms(1) by auto
  have no: "n \<noteq> 0x41 \<or> eom < length mem"
    using assms(1-4) by (metis One_nat_def diff_less le_trans less_le_trans nth_mem zero_less_one)
  show ?thesis
    using no le assms(2,3,5)
      unpack_copy_cases [OF le assms(3), of "unat n" dst checked siz]
      unpack_copy_cases [OF le, of "srcp + 1" "unat (mem ! srcp) div 8" "dst @ [0x41]" "checked + 1" siz]
    by (auto simp: unpack_step_def Let_def)
qed

lemma unpack_loop_safe:
  assumes "eom < length mem \<or> eom \<le> length mem \<and> 0x41 \<notin> set mem" "srcp < eom" "length dst < siz"
  shows "unpack_loop mem eom src srcp dst len checked siz = Inl (Errno EMSGSIZE)
    \<or> (\<exists>n out. unpack_loop mem eom src srcp dst len checked siz = Inr (n, out) \<and> length out \<le> siz)"
  using assms
proof (induction mem eom src srcp dst len checked siz rule: unpack_loop.induct)
  case (1 mem eom src srcp dst len checked siz)
  have f: "fetch mem srcp = Inr (mem ! srcp)" using "1.prems" by auto
  show ?case
  proof (cases "mem ! srcp = 0")
    case True
    then show ?thesis using f "1.prems" by (subst (1 2) unpack_loop.simps) (simp add: Suc_le_eq)
  next
    case False
    show ?thesis
      using unpack_step_cases [OF "1.prems"(1), of "Suc srcp" "mem ! srcp" dst siz src len checked]
        "1.IH" [OF f refl False] "1.prems" f False
      by (subst (1 2) unpack_loop.simps) fastforce
  qed
qed

text \<open>C5: ns_name_unpack always returns: on any bytes, cyclic compression pointers included, it fails
  with EMSGSIZE or gives a name within its buffer, and it reads nothing outside the message except
  at most the byte at its end.\<close>

theorem ns_name_unpack_safe:
  assumes "eom < length mem \<or> eom \<le> length mem \<and> 0x41 \<notin> set mem" "0 < siz"
  shows "ns_name_unpack mem eom src siz = Inl (Errno EMSGSIZE)
    \<or> (\<exists>n out. ns_name_unpack mem eom src siz = Inr (n, out) \<and> length out \<le> siz)"
  using unpack_loop_safe [OF assms(1), of src "[]" siz src None 0] assms(2)
  by (auto simp: ns_name_unpack_def)

theorem ns_name_unpack_safe_witness:
  "ns_name_unpack [0xC0, 0] 1 0 9 = Inl (Errno EMSGSIZE)
    \<or> (\<exists>n out. ns_name_unpack [0xC0, 0] 1 0 9 = Inr (n, out) \<and> length out \<le> 9)"
  by (rule ns_name_unpack_safe) simp_all

section \<open>dn_find only finds equal names\<close>

definition lower_name :: "label list \<Rightarrow> label list" where
  "lower_name ls = map (map mklower) ls"

definition same_name :: "label list \<Rightarrow> label list \<Rightarrow> bool" where
  "same_name a b \<longleftrightarrow> lower_name a = lower_name b"

lemma same_name_refl [simp]: "same_name ls ls"
  by (simp add: same_name_def)

lemma same_name_Cons [simp]:
  "same_name (a # as) (b # bs) \<longleftrightarrow> map mklower a = map mklower b \<and> same_name as bs"
  by (auto simp: same_name_def lower_name_def)

lemma same_name_Nil [simp]: "same_name [] bs \<longleftrightarrow> bs = []" "same_name bs [] \<longleftrightarrow> bs = []"
  by (auto simp: same_name_def lower_name_def)

lemma same_name_append: "same_name as bs \<Longrightarrow> same_name (xs @ as) (xs @ bs)"
  by (simp add: same_name_def lower_name_def)

lemma same_name_length: "same_name as bs \<Longrightarrow> length (wire as) = length (wire bs)"
proof (induction as arbitrary: bs)
  case (Cons a as)
  then obtain b bs' where "bs = b # bs'" by (cases bs) auto
  then show ?case using Cons by (auto simp: wire_Cons dest: map_eq_imp_length_eq)
qed simp

text \<open>The comparison of two labels of equal length.\<close>

lemma dn_same_label_run:
  assumes "cp + length b \<le> length mem" "take (length b) (drop cp mem) = b" "length a = length b"
  shows "dn_same_label (length b) mem (a @ rest) cp
    = Inr (if map mklower a = map mklower b then Some rest else None)"
  using assms
proof (induction a arbitrary: b cp)
  case Nil
  then show ?case by simp
next
  case (Cons x a)
  then obtain y b' where b: "b = y # b'" by (cases b) auto
  have d: "drop cp mem = mem ! cp # drop (Suc cp) mem"
    using Cons.prems b by (simp add: Cons_nth_drop_Suc)
  then have "mem ! cp = y" "take (length b') (drop (Suc cp) mem) = b'"
    using Cons.prems b by auto
  then show ?case using Cons.IH [of "Suc cp" b'] Cons.prems b by simp
qed

lemma octet_eq_length:
  assumes "wf_label a" "wf_label b" "(of_nat (length a) :: u8) = of_nat (length b)"
  shows "length a = length b"
  using assms wf_label_octet(4) by metis

text \<open>
  On a stored name the loop ends within its fuel: every turn moves into a part of the message it
  has not seen.
\<close>

lemma dn_match_stored:
  assumes "stored mem lo cp e ls" "list_all wf_label ds" "ds \<noteq> []" "lo + (e - cp) < fuel"
  shows "dn_match fuel mem (wire ds) cp \<in> {Inr Found, Inr Goto_next}
    \<and> (dn_match fuel mem (wire ds) cp = Inr Found \<longrightarrow> same_name ds ls)"
  using assms
proof (induction arbitrary: ds fuel rule: stored.induct)
  case (root lo off)
  then obtain f where "fuel = Suc f" by (cases fuel) auto
  then show ?case using root by simp
next
  case (label l lo off e ls)
  note mem = label_in_mem [OF label.hyps(4,3)]
  note oct = wf_label_octet [OF label.hyps(1)]
  have b: "off + Suc (length l) < e" "e \<le> length mem" using stored_bounds [OF label.hyps(5)] by auto
  obtain f where f: "fuel = Suc f" using label.prems by (cases fuel) auto
  obtain d ds' where ds: "ds = d # ds'" using label.prems by (cases ds) auto
  have d: "wf_label d" "list_all wf_label ds'" using label.prems ds by auto
  show ?case
  proof (cases "length d = length l \<and> map mklower d = map mklower l")
    case False
    then have "dn_match fuel mem (wire ds) off = Inr Goto_next"
      using mem oct f ds dn_same_label_run [of "Suc off" l mem d "wire ds'"] label.hyps(3)
        octet_eq_length [OF label.hyps(1) d(1)]
      by (auto simp: wire_Cons label_wire_def)
    then show ?thesis by simp
  next
    case True
    then have run: "dn_same_label (length l) mem (d @ wire ds') (Suc off) = Inr (Some (wire ds'))"
      using dn_same_label_run [of "Suc off" l mem d "wire ds'"] mem label.hyps(3) by simp
    show ?thesis
    proof (cases ds')
      case Nil
      have "mem ! (Suc off + length l) = 0 \<Longrightarrow> ls = []"
        using stored_zero [OF label.hyps(5)] by simp
      then show ?thesis
        using mem oct f ds True run Nil b by (auto simp: wire_Cons wire_Nil label_wire_def)
    next
      case (Cons d2 ds2)
      have hd: "wire ds' = of_nat (length d2) # d2 @ wire ds2" "(of_nat (length d2) :: u8) \<noteq> 0"
        using Cons d(2) wf_label_octet by (auto simp: wire_Cons label_wire_def)
      have "dn_match fuel mem (wire ds) off = dn_match f mem (wire ds') (off + length (label_wire l))"
        using mem oct f ds True run hd by (simp add: wire_Cons label_wire_def)
      then show ?thesis
        using label.IH [of ds' f] d(2) Cons label.prems(3) f b ds True by auto
    qed
  qed
next
  case (pointer lo off q lo' e' ls)
  obtain f where f: "fuel = Suc f" using pointer.prems by (cases fuel) auto
  have ge: "\<not> mem ! off < 0x40" "mem ! off \<noteq> 0"
    using pointer.hyps(3) u8_ge_C0 [of "mem ! off"] by auto
  have b: "lo' \<le> q" "q < e'" using stored_bounds [OF pointer.hyps(5)] by auto
  have "dn_match fuel mem (wire ds) off = dn_match f mem (wire ds) q"
    using pointer.hyps f ge by simp
  then show ?case using pointer.IH [OF pointer.prems(1,2), of f] pointer.prems(3) f b pointer.hyps(6)
    by auto
qed

lemma dn_find_from_stored:
  assumes "stored mem lo sp e ls" "list_all wf_label ds" "ds \<noteq> []"
  shows "\<exists>r. dn_find_from mem (wire ds) sp = Inr r
    \<and> (\<forall>off. r = Some off \<longrightarrow> off < 0x4000 \<and> (\<exists>ls'. stored mem lo off e ls' \<and> same_name ds ls'))"
  using assms
proof (induction rule: stored.induct)
  case (root lo off)
  then show ?case by (subst dn_find_from.simps) simp
next
  case (label l lo off e ls)
  note mem = label_in_mem [OF label.hyps(4,3)]
  note oct = wf_label_octet [OF label.hyps(1)]
  have here: "stored mem lo off e (l # ls)" by (rule stored.label [OF label.hyps(1-5)])
  have "lo + (e - off) < length mem + 1" using stored_bounds [OF here] by auto
  note m = dn_match_stored [OF here label.prems this]
  have "dn_find_from mem (wire ds) off =
    (if off < 0x4000 then
       (if dn_match (length mem + 1) mem (wire ds) off = Inr Found then Inr (Some off)
        else dn_find_from mem (wire ds) (off + length (label_wire l)))
     else Inr None)"
    using mem oct m by (subst dn_find_from.simps) (auto simp del: dn_match.simps)
  then show ?case using label.IH [OF label.prems] here m
    by (auto simp del: dn_match.simps)
next
  case (pointer lo off q lo' e' ls)
  then show ?case
    using u8_ge_C0 [of "mem ! off"] by (subst dn_find_from.simps) simp
qed

text \<open>A table all of whose entries are the offsets of names that end below \<open>b\<close>.\<close>

definition tab_ok :: "u8 list \<Rightarrow> nat \<Rightarrow> nat list \<Rightarrow> bool" where
  "tab_ok mem b ents \<longleftrightarrow> (\<forall>p \<in> set ents. \<exists>e ls. e \<le> b \<and> stored mem p p e ls)"

lemma dn_find_stored:
  assumes "tab_ok mem b ents" "list_all wf_label ds" "ds \<noteq> []"
  shows "dn_find mem (wire ds) ents = Inl (Errno ENOENT)
    \<or> (\<exists>off lo e ls. dn_find mem (wire ds) ents = Inr off \<and> off < 0x4000 \<and> e \<le> b
          \<and> stored mem lo off e ls \<and> same_name ds ls)"
  using assms(1)
proof (induction ents)
  case Nil
  then show ?case by simp
next
  case (Cons p ents)
  from Cons.prems obtain e ls where "e \<le> b" "stored mem p p e ls" by (auto simp: tab_ok_def)
  then show ?case
    using dn_find_from_stored [OF _ assms(2,3), of mem p p e ls] Cons
    by (force simp: tab_ok_def split: option.splits)
qed

section \<open>ns_name_pack writes a stored name\<close>

lemma ptr_encode:
  assumes "l < 0x4000"
  shows "0xC0 \<le> (of_nat (l div 256) OR 0xC0 :: u8)"
    "ptr_target (of_nat (l div 256) OR 0xC0) (of_nat (l mod 256)) = l"
proof -
  have k: "l div 256 \<in> set [0..<64]" using assms by (auto simp: div_less_iff_less_mult)
  have "list_all (\<lambda>k. 0xC0 \<le> (of_nat k OR 0xC0 :: u8) \<and>
      unat ((of_nat k OR 0xC0 :: u8) AND 0x3f) = k) [0..<64]" by code_simp
  then have *: "0xC0 \<le> (of_nat (l div 256) OR 0xC0 :: u8)"
      "unat ((of_nat (l div 256) OR 0xC0 :: u8) AND 0x3f) = l div 256"
    using k unfolding list_all_iff by blast+
  then show "0xC0 \<le> (of_nat (l div 256) OR 0xC0 :: u8)"
    "ptr_target (of_nat (l div 256) OR 0xC0) (of_nat (l mod 256)) = l"
    by (simp_all add: ptr_target_def)
qed

text \<open>The table grows by at most the offset of the name being written.\<close>

definition first_ok :: "dntab option \<Rightarrow> nat list \<Rightarrow> u8 list \<Rightarrow> u8 list \<Rightarrow> bool \<Rightarrow> bool" where
  "first_ok tab ents pre out first \<longleftrightarrow>
     (first \<longrightarrow> out = [] \<or>
       (\<forall>t c. tab = Some t \<longrightarrow> cap t = Some c \<longrightarrow> \<not> (length ents + 2 < c \<and> length (pre @ out) < 0x4000)))"

definition pack_done ::
  "label list \<Rightarrow> u8 list \<Rightarrow> u8 list \<Rightarrow> nat list \<Rightarrow> u8 list cres \<times> nat list \<Rightarrow> bool" where
  "pack_done ls pre out ents res \<longleftrightarrow>
     (\<exists>x ls' ents'. res = (Inr (out @ x), ents') \<and> same_name ls ls' \<and> length x \<le> length (wire ls)
        \<and> stored (pre @ out @ x) (length pre) (length pre + length out) (length (pre @ out @ x)) ls'
        \<and> (ents' = ents \<or> out = [] \<and> ents' = ents @ [length pre]))"

lemma pack_done_pointer:
  assumes "stored (pre @ out) lo l e ls'" "e \<le> length pre" "same_name ls ls'" "l < 0x4000" "ls \<noteq> []"
  shows "pack_done ls pre out ents
    (Inr (out @ [of_nat (l div 256) OR 0xC0, of_nat (l mod 256)]), ents)"
proof -
  let ?x = "[of_nat (l div 256) OR 0xC0, of_nat (l mod 256)] :: u8 list"
  have st: "stored ((pre @ out) @ ?x) lo l e ls'" using assms(1) by (rule stored_append)
  have "stored ((pre @ out) @ ?x) (length pre) (length (pre @ out)) (Suc (Suc (length (pre @ out)))) ls'"
    by (rule stored.pointer [OF _ _ _ _ st assms(2)])
       (use ptr_encode [OF assms(4)] in \<open>simp_all add: nth_append\<close>)
  moreover obtain a as where "ls = a # as" using assms(5) by (cases ls) auto
  ultimately show ?thesis using assms(3) by (auto simp: pack_done_def wire_Cons wire_def)
qed

lemma pack_done_label:
  assumes "pack_done ls pre (out @ label_wire l) ents res" "wf_label l"
    "ents = ents0 \<or> out = [] \<and> ents = ents0 @ [length pre]"
  shows "pack_done (l # ls) pre out ents0 res"
proof -
  from assms(1) obtain x ls' where x: "res = (Inr ((out @ label_wire l) @ x), ents)" "same_name ls ls'"
    "length x \<le> length (wire ls)"
    "stored (pre @ (out @ label_wire l) @ x) (length pre) (length pre + length (out @ label_wire l))
       (length (pre @ (out @ label_wire l) @ x)) ls'"
    by (auto simp: pack_done_def label_wire_def)
  have "stored (pre @ out @ label_wire l @ x) (length pre) (length pre + length out)
      (length (pre @ out @ label_wire l @ x)) (l # ls')"
    by (rule stored.label [OF assms(2)]) (use x(4) in \<open>simp_all add: add.assoc\<close>)
  then show ?thesis using x assms(3)
    by (auto simp: pack_done_def wire_Cons intro!: exI [of _ "label_wire l @ x"] exI [of _ "l # ls'"])
qed

lemma pack_search_result:
  assumes "\<forall>t. tab = Some t \<longrightarrow> tab_ok (pre @ out) (length pre) (entries t)"
    "list_all wf_label ls" "ls \<noteq> []" "first_ok tab ents pre out first"
  shows "(\<exists>l lo e ls'. pack_search (wire ls) (pre @ out) tab ents first = Pointer l \<and> l < 0x4000
        \<and> e \<le> length pre \<and> stored (pre @ out) lo l e ls' \<and> same_name ls ls')
    \<or> (\<exists>ents' first'. pack_search (wire ls) (pre @ out) tab ents first = Copy ents' first'
        \<and> (ents' = ents \<or> out = [] \<and> ents' = ents @ [length pre])
        \<and> (\<forall>x. first_ok tab ents' pre (out @ x) first'))"
proof (cases tab)
  case None
  then show ?thesis using assms(4) by (auto simp: pack_search_def first_ok_def)
next
  case (Some t)
  obtain l ls0 where ls: "ls = l # ls0" using assms(3) by (cases ls) auto
  then have hd: "hd (wire ls) \<noteq> 0" "hd (wire ls) \<noteq> 0x41"
    using assms(2) wf_label_octet [of l] by (auto simp: wire_Cons label_wire_def)
  from dn_find_stored [OF assms(1) [rule_format, OF Some] assms(2,3)]
  show ?thesis
  proof (elim disjE exE conjE)
    assume e: "dn_find (pre @ out) (wire ls) (entries t) = Inl (Errno ENOENT)"
    show ?thesis
      using e hd Some assms(4)
      by (cases "cap t") (auto simp: pack_search_def first_ok_def)
  next
    fix off lo e ls'
    assume "dn_find (pre @ out) (wire ls) (entries t) = Inr off" "off < 0x4000" "e \<le> length pre"
      "stored (pre @ out) lo off e ls'" "same_name ls ls'"
    then show ?thesis using hd Some by (auto simp: pack_search_def)
  qed
qed

lemma tab_ok_append: "tab_ok mem b ents \<Longrightarrow> b \<le> b' \<Longrightarrow> tab_ok (mem @ x) b' ents"
  unfolding tab_ok_def by (meson le_trans stored_append)

lemma pack_loop_ok:
  assumes "list_all wf_label ls" "\<forall>t. tab = Some t \<longrightarrow> tab_ok pre (length pre) (entries t)"
    "first_ok tab ents pre out first" "int (length out) + int (length (wire ls)) < siz"
  shows "pack_done ls pre out ents (pack_loop (wire ls) pre out siz tab ents first)"
  using assms
proof (induction ls arbitrary: out ents first)
  case Nil
  then show ?case
    by (auto simp: wire_Nil pack_search_def pack_done_def split: option.splits
        intro!: stored.root [of "length pre" "length pre + length out", simplified])
next
  case (Cons l ls)
  note oct = wf_label_octet [of l]
  have wfl: "wf_label l" "list_all wf_label ls" using Cons.prems(1) by auto
  have to: "\<forall>t. tab = Some t \<longrightarrow> tab_ok (pre @ out) (length pre) (entries t)"
    using Cons.prems(2) tab_ok_append by blast
  have w: "wire (l # ls) = of_nat (length l) # (l @ wire ls)"
    by (simp add: wire_Cons label_wire_def)
  have n: "\<not> (of_nat (length l) AND 0xC0 \<noteq> (0::u8))" "(of_nat (length l) :: u8) \<noteq> 0x41"
    "unat (of_nat (length l) :: u8) = length l" "length l \<noteq> 0"
    using oct wfl(1) by (auto simp: wf_label_def)
  from pack_search_result [OF to Cons.prems(1) list.distinct(2) Cons.prems(3)]
  show ?case
  proof (elim disjE [of "\<exists>x. P x" for P] exE conjE)
    fix k lo e ls'
    assume p: "pack_search (wire (l # ls)) (pre @ out) tab ents first = Pointer k" "k < 0x4000"
      "e \<le> length pre" "stored (pre @ out) lo k e ls'" "same_name (l # ls) ls'"
    have "0 < length (wire ls)" by (simp add: wire_def)
    then show ?case
      using pack_done_pointer [OF p(4,3,5,2)] p(1) Cons.prems(4) unfolding w by simp
  next
    fix ents' first'
    assume c: "pack_search (wire (l # ls)) (pre @ out) tab ents first = Copy ents' first'"
      "ents' = ents \<or> out = [] \<and> ents' = ents @ [length pre]"
      "\<forall>x. first_ok tab ents' pre (out @ x) first'"
    have "pack_done ls pre (out @ label_wire l) ents'
        (pack_loop (wire ls) pre (out @ label_wire l) siz tab ents' first')"
      by (rule Cons.IH [OF wfl(2) Cons.prems(2)]) (use c(3) Cons.prems(4) in \<open>auto simp: wire_Cons\<close>)
    moreover have "pack_loop (wire (l # ls)) pre out siz tab ents first
        = pack_loop (wire ls) pre (out @ label_wire l) siz tab ents' first'"
      using c(1) n Cons.prems(4) unfolding w by (simp add: label_wire_def)
    ultimately show ?case using pack_done_label [OF _ wfl(1) c(2)] by simp
  qed
qed

lemma pack_legal_wire:
  assumes "list_all wf_label ls" "l + length (wire ls) \<le> NS_MAXCDNAME"
  shows "pack_legal (wire ls) l = Inr ()"
  using assms
proof (induction ls arbitrary: l)
  case Nil
  then show ?case by (simp add: wire_Nil)
next
  case (Cons a ls)
  note oct = wf_label_octet [of a]
  have n: "\<not> (of_nat (length a) AND 0xC0 \<noteq> (0::u8))" "(of_nat (length a) :: u8) \<noteq> 0x41"
    "unat (of_nat (length a) :: u8) = length a" "length a \<noteq> 0"
    using oct Cons.prems(1) by (auto simp: wf_label_def)
  then show ?case
    using Cons.IH [of "l + (length a + 1)"] Cons.prems by (simp add: wire_Cons label_wire_def)
qed

lemma ns_name_pack_ok:
  assumes "wf_name ls" "\<forall>t. tab = Some t \<longrightarrow> tab_ok pre (length pre) (entries t)"
    "int (length (wire ls)) < siz"
  shows "pack_done ls pre [] (case tab of None \<Rightarrow> [] | Some t \<Rightarrow> entries t) (ns_name_pack (wire ls) pre siz tab)"
proof -
  have wf: "list_all wf_label ls" "length (wire ls) \<le> NS_MAXCDNAME"
    using assms(1) by (auto simp: wf_name_def)
  show ?thesis
    using pack_loop_ok [OF wf(1) assms(2), of "case tab of None \<Rightarrow> [] | Some t \<Rightarrow> entries t" "[]" True siz]
      pack_legal_wire [OF wf(1), of 0] wf(2) assms(3)
    by (simp add: ns_name_pack_def first_ok_def)
qed

text \<open>
  What a caller gets: the packed name can be read back from the message, whatever is appended
  to it, as a name equal up to the case of letters, and the new table is again a correct one.
\<close>

lemma same_name_wf:
  assumes "same_name ls ls'" "wf_name ls" shows "wf_name ls'"
proof -
  have "list_all wf_label ls \<Longrightarrow> list_all wf_label ls'"
    using assms(1)
  proof (induction ls arbitrary: ls')
    case (Cons a ls)
    then obtain b bs where "ls' = b # bs" by (cases ls') auto
    with Cons show ?case by (auto simp: wf_label_def dest: map_eq_imp_length_eq)
  qed simp
  then show ?thesis using assms same_name_length [OF assms(1)] by (simp add: wf_name_def)
qed

text \<open>C1: ns_name_pack writes a legal name after any message, with any table of earlier names, in at
  most as many bytes as its plain form, and ns_name_unpack reads back the same name up to the case
  of letters, whatever follows it; the table still holds only offsets of stored names.\<close>

theorem pack_unpack:
  assumes "wf_name ls" "\<forall>t. tab = Some t \<longrightarrow> tab_ok pre (length pre) (entries t)"
    "int (length (wire ls)) < siz"
  shows "\<exists>out ents ls'. ns_name_pack (wire ls) pre siz tab = (Inr out, ents)
    \<and> length out \<le> length (wire ls) \<and> same_name ls ls' \<and> wf_name ls'
    \<and> (\<forall>rest. ns_name_unpack (pre @ out @ rest) (length (pre @ out @ rest)) (length pre) NS_MAXCDNAME
          = Inr (length out, wire ls'))
    \<and> (\<forall>t. tab = Some t \<longrightarrow> tab_ok (pre @ out) (length (pre @ out)) ents)"
proof -
  from ns_name_pack_ok [OF assms] obtain out ls' ents where
    o: "ns_name_pack (wire ls) pre siz tab = (Inr out, ents)" "same_name ls ls'"
      "length out \<le> length (wire ls)"
      "stored (pre @ out) (length pre) (length pre) (length (pre @ out)) ls'"
      "ents = (case tab of None \<Rightarrow> [] | Some t \<Rightarrow> entries t) \<or>
       ents = (case tab of None \<Rightarrow> [] | Some t \<Rightarrow> entries t) @ [length pre]"
    by (auto simp: pack_done_def)
  have wf: "wf_name ls'" by (rule same_name_wf [OF o(2) assms(1)])
  have "ns_name_unpack (pre @ out @ rest) (length (pre @ out @ rest)) (length pre) NS_MAXCDNAME
      = Inr (length out, wire ls')" for rest
    using ns_name_unpack_stored [OF stored_append [OF o(4), of rest], of "length (pre @ out @ rest)" NS_MAXCDNAME]
      wf by (simp add: wf_name_def)
  moreover have "tab_ok (pre @ out) (length (pre @ out)) ents" if "tab = Some t" for t
  proof -
    have "tab_ok (pre @ out) (length (pre @ out)) (entries t @ [length pre])"
      using tab_ok_append [of pre "length pre" "entries t" "length (pre @ out)" out] o(4) assms(2) that
      unfolding tab_ok_def by fastforce
    then show ?thesis using o(5) that unfolding tab_ok_def by fastforce
  qed
  ultimately show ?thesis using o(1-3) wf by blast
qed

theorem pack_unpack_witness:
  "\<exists>out. fst (ns_name_pack (wire [[0x61]]) [] 4 None) = Inr out
    \<and> (\<exists>ls'. same_name [[0x61]] ls' \<and> ns_name_unpack out (length out) 0 NS_MAXCDNAME = Inr (length out, wire ls'))"
proof -
  have "wf_name [[0x61]]" "int (length (wire [[0x61]])) < 4" by code_simp+
  from pack_unpack [OF this(1) _ this(2), of None "[]"]
  obtain out ents ls' where *: "ns_name_pack (wire [[0x61]]) [] 4 None = (Inr out, ents)"
    "same_name [[0x61]] ls'"
    "\<forall>rest. ns_name_unpack ([] @ out @ rest) (length ([] @ out @ rest)) (length []) NS_MAXCDNAME
      = Inr (length out, wire ls')" by auto
  from *(3) have "ns_name_unpack out (length out) 0 NS_MAXCDNAME = Inr (length out, wire ls')"
    by (auto dest: spec [of _ "[]"])
  with * show ?thesis by auto
qed

text \<open>An error leaves the table as it was.\<close>

lemma pack_cleanup_prefix:
  "ents = ents0 \<or> (\<exists>p. ents = ents0 @ [p]) \<Longrightarrow> tab = Some t \<Longrightarrow> entries t = ents0
    \<Longrightarrow> snd (pack_cleanup tab ents) = ents0"
  by (auto simp: pack_cleanup_def)

lemma pack_search_ents:
  assumes "tab = Some t" "pack_search srcp mem tab ents first = Copy ents' first'"
    "ents = entries t \<or> (\<exists>p. ents = entries t @ [p] \<and> \<not> first)"
  shows "ents' = entries t \<or> (\<exists>p. ents' = entries t @ [p] \<and> \<not> first')"
  using assms by (auto simp: pack_search_def split: if_splits option.splits sum.splits cerror.splits)

lemma pack_loop_error:
  assumes "fst (pack_loop srcp pre out siz tab ents first) = Inl (Errno e)" "tab = Some t"
    "ents = entries t \<or> (\<exists>p. ents = entries t @ [p] \<and> \<not> first)"
  shows "snd (pack_loop srcp pre out siz tab ents first) = entries t"
  using assms
proof (induction srcp pre out siz tab ents first rule: pack_loop.induct)
  case (2 n srcp pre out siz tab ents first)
  have clean: "snd (pack_cleanup tab xs) = entries t" if "xs = entries t \<or> (\<exists>p. xs = entries t @ [p] \<and> P p)" for xs P
    using pack_cleanup_prefix [of xs "entries t" tab t] that "2.prems"(2) by auto
  show ?case
  proof (cases "pack_search (n # srcp) (pre @ out) tab ents first")
    case (Pointer l)
    then show ?thesis using "2.prems" clean [OF "2.prems"(3)] by (auto split: if_splits)
  next
    case (Broken e)
    then show ?thesis using "2.prems"(1)
      by (auto simp: pack_search_def split: option.splits if_splits sum.splits cerror.splits)
  next
    case (Copy ents' first')
    have e: "ents' = entries t \<or> (\<exists>p. ents' = entries t @ [p] \<and> \<not> first')"
      by (rule pack_search_ents [OF "2.prems"(2) Copy "2.prems"(3)])
    show ?thesis
      using "2.prems"(1,2) Copy clean [OF e] "2.IH" [OF Copy] e
      by (auto simp: Let_def split: if_splits list.splits)
  qed
qed simp

text \<open>When ns_name_pack fails with an errno, the table of compression pointers is as it was
  before the call.\<close>

theorem pack_error_keeps_table:
  assumes "ns_name_pack src pre siz (Some t) = (Inl (Errno e), ents)"
  shows "ents = entries t"
  using assms pack_loop_error [of src pre "[]" siz "Some t" "entries t" True e t]
  by (auto simp: ns_name_pack_def Let_def split: sum.splits)

theorem pack_error_keeps_table_witness:
  "snd (ns_name_pack [1, 0x61, 0] [0] 2 (Some \<lparr>entries = [0], cap = Some 8\<rparr>)) = [0]"
proof -
  have "fst (ns_name_pack [1, 0x61, 0] [0] 2 (Some \<lparr>entries = [0], cap = Some 8\<rparr>)) = Inl (Errno EMSGSIZE)"
    by code_simp
  then obtain ents where "ns_name_pack [1, 0x61, 0] [0] 2 (Some \<lparr>entries = [0], cap = Some 8\<rparr>)
      = (Inl (Errno EMSGSIZE), ents)" by (metis prod.collapse)
  then show ?thesis using pack_error_keeps_table by fastforce
qed

end
