(* ===== verification/Ns_Samedomain.thy ===== *)
theory Ns_Samedomain
  imports Ns_Compress_Correct
begin

text \<open>
  \<open>ns_samedomain.c\<close>: comparison of domain names as strings.  The lemmas relate the
  functions to the label lists the strings stand for.
\<close>

unbundle bit_operations_syntax

section \<open>The code\<close>

text \<open>
  The loop \<open>for (i = k - 1; i >= 0; i--)\<close> that looks whether the byte at \<open>k\<close> is escaped.
\<close>

fun escaped_before :: "cstring \<Rightarrow> nat \<Rightarrow> bool \<Rightarrow> bool" where
  "escaped_before a 0 escaped = escaped"
| "escaped_before a (Suc i) escaped =
     (if a ! i = 0x5C then escaped_before a i (if escaped then False else True) else escaped)"

text \<open>The length without a trailing label separator.\<close>

definition trimmed :: "cstring \<Rightarrow> nat" where
  "trimmed a =
     (let la = length a in
      if la \<noteq> 0 \<and> a ! (la - 1) = 0x2E then
        (if \<not> escaped_before a (la - 1) False then la - 1 else la)
      else la)"

definition ns_samedomain :: "cstring \<Rightarrow> cstring \<Rightarrow> bool" where
  "ns_samedomain a b =
     (let la = trimmed a; lb = trimmed b in
      if lb = 0 then True
      else if lb > la then False
      else if lb = la then strcaseeq (take lb a) (take lb b)
      else let diff = la - lb in
        if diff < 2 then False
        else if a ! (diff - 1) \<noteq> 0x2E then False
        else if escaped_before a (diff - 1) False then False
        else strcaseeq (take lb (drop diff a)) (take lb b))"

text \<open>The loop of \<open>ns_makecanon\<close> over \<open>dst[0..n)\<close>.\<close>

function makecanon_loop :: "cstring \<Rightarrow> cstring cres" where
  "makecanon_loop dst =
     (let n = length dst in
      if n > 0 \<and> dst ! (n - 1) = 0x2E then
        (if n > 1 \<and> dst ! (n - 2) = 0x5C then
           (if n < 2 then Inr dst
            else if n < 3 then Inl Fault
            else if dst ! (n - 3) \<noteq> 0x5C then Inr dst
            else makecanon_loop (butlast dst))
         else makecanon_loop (butlast dst))
      else Inr dst)"
  by pat_completeness auto
termination
  by (relation "measure length") auto

declare makecanon_loop.simps [simp del]

definition ns_makecanon :: "cstring \<Rightarrow> nat \<Rightarrow> cstring cres" where
  "ns_makecanon src dstsize =
     (if length src + 2 > dstsize then Inl (Errno EMSGSIZE)
      else and_then (makecanon_loop src) (\<lambda>dst. Inr (dst @ [0x2E])))"

definition NS_MAXDNAME :: nat where
  "NS_MAXDNAME = 1025"

definition ns_samename :: "cstring \<Rightarrow> cstring \<Rightarrow> bool cres" where
  "ns_samename a b =
     and_then (ns_makecanon a NS_MAXDNAME) (\<lambda>ta.
     and_then (ns_makecanon b NS_MAXDNAME) (\<lambda>tb. Inr (strcaseeq ta tb)))"

text \<open>\<open>ns_samename\<close> returns -1 on an error, which is not 1.\<close>

definition ns_subdomain :: "cstring \<Rightarrow> cstring \<Rightarrow> bool cres" where
  "ns_subdomain a b =
     (case ns_samename a b of
        Inl (Errno _) \<Rightarrow> Inr (ns_samedomain a b)
      | Inl e \<Rightarrow> Inl e
      | Inr same \<Rightarrow> Inr (\<not> same \<and> ns_samedomain a b))"

section \<open>Escapes, read forwards\<close>

text \<open>Is the byte after \<open>s\<close> escaped?  A backslash that is not escaped escapes the next byte.\<close>

definition esc_state :: "cstring \<Rightarrow> bool" where
  "esc_state s = foldl (\<lambda>e c. \<not> e \<and> c = 0x5C) False s"

lemma esc_state_simps [simp]:
  "esc_state [] = False" "esc_state (s @ [c]) = (\<not> esc_state s \<and> c = 0x5C)"
  by (simp_all add: esc_state_def)

lemma esc_state_append: "\<not> esc_state s \<Longrightarrow> esc_state (s @ t) = esc_state t"
  by (simp add: esc_state_def)

text \<open>The backward loop of the code computes it.\<close>

lemma escaped_before_iff:
  "i \<le> length a \<Longrightarrow> escaped_before a i e \<longleftrightarrow> (e \<noteq> esc_state (take i a))"
  by (induction i arbitrary: e) (auto simp: take_Suc_conv_app_nth)

section \<open>ns_samedomain on arbitrary strings\<close>

definition trim :: "cstring \<Rightarrow> cstring" where
  "trim a = take (trimmed a) a"

lemma trimmed_le [simp]: "trimmed a \<le> length a"
  by (simp add: trimmed_def Let_def)

lemma length_trim [simp]: "length (trim a) = trimmed a"
  by (simp add: trim_def)

lemma trim_eq: "trim a = (if a \<noteq> [] \<and> last a = 0x2E \<and> \<not> esc_state (butlast a) then butlast a else a)"
  by (auto simp: trim_def trimmed_def Let_def escaped_before_iff last_conv_nth butlast_conv_take)

lemma split_with_suffix_length:
  assumes "lb < la" "la \<le> length a"
  shows "(\<exists>x s. take la a = x @ d # s \<and> length s = lb \<and> P x s) \<longleftrightarrow>
    a ! (la - lb - 1) = d \<and> P (take (la - lb - 1) a) (take lb (drop (la - lb) a))" (is "?l \<longleftrightarrow> ?r")
proof
  assume ?l
  then obtain x s where x: "take la a = x @ d # s" "length s = lb" "P x s" by blast
  have l: "la = length x + 1 + lb" using arg_cong [OF x(1), of length] assms(2) x(2) by simp
  have "take (length x) a = x" using arg_cong [OF x(1), of "take (length x)"] l by simp
  moreover have "a ! length x = d" using arg_cong [OF x(1), of "\<lambda>l. l ! length x"] l by simp
  moreover have "take lb (drop (length x + 1) a) = s"
    using arg_cong [OF x(1), of "drop (length x + 1)"] l by (simp add: drop_take)
  ultimately show ?r using x(3) l by simp
next
  assume r: ?r
  define k where "k = la - lb - 1"
  have k: "la = k + (1 + lb)" "k < length a" "la - lb = k + 1" using assms by (auto simp: k_def)
  have "take la a = take k a @ take (1 + lb) (drop k a)"
    unfolding k(1) by (rule take_add)
  moreover have "take (1 + lb) (drop k a) = d # take lb (drop (k + 1) a)"
    using k(2) r by (simp add: k_def flip: Cons_nth_drop_Suc)
  moreover have "length (take lb (drop (k + 1) a)) = lb" using k assms by simp
  ultimately show ?l
    using r k(3) by (intro exI [of _ "take k a"] exI [of _ "take lb (drop (k + 1) a)"])
      (simp add: k_def [symmetric])
qed

lemma ns_samedomain_trim:
  "ns_samedomain a b \<longleftrightarrow> trim b = [] \<or> strcaseeq (trim a) (trim b)
    \<or> (\<exists>x s. trim a = x @ 0x2E # s \<and> x \<noteq> [] \<and> \<not> esc_state x \<and> strcaseeq s (trim b))"
proof -
  define la lb where "la = trimmed a" and "lb = trimmed b"
  have b: "take lb b = trim b" "trim b = [] \<longleftrightarrow> lb = 0" "length (trim b) = lb"
    by (simp_all add: lb_def trim_def flip: length_0_conv)
  have a: "la \<le> length a" "trim a = take la a" "length (trim a) = la"
    by (simp_all add: la_def trim_def)
  have len: "length s = lb" if "strcaseeq s (trim b)" for s
    using strcaseeq_length [OF that] b(3) by simp
  define Q where "Q x s \<longleftrightarrow> x \<noteq> [] \<and> \<not> esc_state x \<and> strcaseeq s (trim b)" for x s
  have ex: "(\<exists>x s. trim a = x @ 0x2E # s \<and> x \<noteq> [] \<and> \<not> esc_state x \<and> strcaseeq s (trim b)) \<longleftrightarrow>
      (\<exists>x s. take la a = x @ 0x2E # s \<and> length s = lb \<and> Q x s)"
    using a(2) len by (auto simp: Q_def)
  have no: "\<not> (take la a = x @ 0x2E # s \<and> length s = lb)" if "la \<le> lb" for x s
    using that a(1) by (auto dest!: arg_cong [of _ _ length])
  show ?thesis
  proof (cases "lb < la")
    case True
    then have "\<not> strcaseeq (trim a) (trim b)" using len a(3) by force
    moreover have "take (la - lb - 1) a \<noteq> [] \<longleftrightarrow> 2 \<le> la - lb" using True a(1) by auto
    ultimately show ?thesis
      using split_with_suffix_length [OF True a(1), of "0x2E" Q] True a(1) b
      by (auto simp: ns_samedomain_def ex Let_def escaped_before_iff Q_def la_def [symmetric]
          lb_def [symmetric] not_less)
  next
    case False
    moreover have "\<not> strcaseeq (take la a) (trim b)" if "la < lb"
      using len [of "take la a"] a(1) that by auto
    moreover have "\<not> (\<exists>x s. trim a = x @ 0x2E # s \<and> x \<noteq> [] \<and> \<not> esc_state x \<and> strcaseeq s (trim b))"
      using no False unfolding ex by auto
    ultimately show ?thesis
      using False a b
      by (auto simp: ns_samedomain_def Let_def la_def [symmetric] lb_def [symmetric])
  qed
qed

section \<open>ns_samedomain on the text of names\<close>

lemma digits_plain: "i < 10 \<Longrightarrow> digits i \<noteq> 0x2E \<and> digits i \<noteq> 0x5C"
proof -
  assume "i < 10"
  then have "i \<in> set [0..<10]" by simp
  moreover have "list_all (\<lambda>i. digits i \<noteq> 0x2E \<and> digits i \<noteq> 0x5C) [0..<10]" by code_simp
  ultimately show ?thesis unfolding list_all_iff by blast
qed

lemma esc_cases:
  obtains "esc c = [0x5C, c]" "special c"
  | d1 d2 d3 where "esc c = [0x5C, d1, d2, d3]" "d1 \<noteq> 0x2E" "d1 \<noteq> 0x5C" "d2 \<noteq> 0x2E" "d2 \<noteq> 0x5C"
      "d3 \<noteq> 0x2E" "d3 \<noteq> 0x5C"
  | "esc c = [c]" "c \<noteq> 0x2E" "c \<noteq> 0x5C"
proof -
  have "unat c mod 100 div 10 < 10" by (simp add: less_mult_imp_div_less)
  moreover have "unat c mod 10 < 10" by simp
  ultimately show ?thesis
    using that digits_plain unat_u8_div_100 [of c]
    by (cases "special c"; cases "printable c") (auto simp: esc_def special_def)
qed

lemma esc_state_esc [simp]: "\<not> esc_state (esc c)"
  by (rule esc_cases [of c]) (auto simp: esc_state_def)

lemma esc_state_esc_label [simp]: "\<not> esc_state (esc_label l)"
  by (induction l) (simp_all add: esc_state_append)

text \<open>No unescaped dot lies inside the text of a label.\<close>

lemma esc_no_separator:
  assumes "esc c @ t = x @ 0x2E # s" "\<not> esc_state x"
  obtains x' where "x = esc c @ x'" "t = x' @ 0x2E # s" "\<not> esc_state x'"
proof (rule esc_cases [of c])
  assume c: "esc c = [0x5C, c]"
  then obtain x' where "x = 0x5C # c # x'"
    using assms by (cases x; cases "tl x") (auto simp: esc_state_def)
  then show ?thesis using c assms that esc_state_append [OF esc_state_esc, of c x'] by auto
next
  fix d1 d2 d3
  assume c: "esc c = [0x5C, d1, d2, d3]" and d: "d1 \<noteq> 0x2E" "d2 \<noteq> 0x2E" "d3 \<noteq> 0x2E"
  from assms c have e: "0x5C # d1 # d2 # d3 # t = x @ 0x2E # s" by simp
  obtain x1 where x1: "x = 0x5C # x1" "d1 # d2 # d3 # t = x1 @ 0x2E # s" using e by (cases x) auto
  obtain x2 where x2: "x1 = d1 # x2" "d2 # d3 # t = x2 @ 0x2E # s" using x1(2) d by (cases x1) auto
  obtain x3 where x3: "x2 = d2 # x3" "d3 # t = x3 @ 0x2E # s" using x2(2) d by (cases x2) auto
  obtain x' where "x3 = d3 # x'" "t = x' @ 0x2E # s" using x3(2) d by (cases x3) auto
  then have "x = esc c @ x'" "t = x' @ 0x2E # s" using c x1 x2 x3 by auto
  then show ?thesis using that assms(2) esc_state_append [OF esc_state_esc, of c x'] by simp
next
  assume c: "esc c = [c]" "c \<noteq> 0x2E"
  then obtain x' where "x = c # x'" "t = x' @ 0x2E # s" using assms by (cases x) auto
  then show ?thesis using c assms that esc_state_append [OF esc_state_esc, of c x'] by auto
qed

lemma esc_label_no_separator:
  assumes "esc_label l @ t = x @ 0x2E # s" "\<not> esc_state x"
  shows "\<exists>x'. x = esc_label l @ x' \<and> t = x' @ 0x2E # s \<and> \<not> esc_state x'"
  using assms
proof (induction l arbitrary: x)
  case (Cons c l)
  then have "esc c @ (esc_label l @ t) = x @ 0x2E # s" by simp
  from esc_no_separator [OF this Cons.prems(2)] obtain x' where
    x: "x = esc c @ x'" "esc_label l @ t = x' @ 0x2E # s" "\<not> esc_state x'" by metis
  from Cons.IH [OF x(2,3)] x(1) show ?case by auto
qed simp

lemma dotted_Cons: "dotted (l # ls) = esc_label l @ (if ls = [] then [] else 0x2E # dotted ls)"
  by (cases ls) (auto simp: dot_label_def)

declare dotted.simps(2) [simp del]

lemma esc_state_dotted [simp]: "\<not> esc_state (dotted ls)"
proof (induction ls)
  case (Cons l ls)
  have "esc_state (0x2E # dotted ls) = esc_state (dotted ls)" by (simp add: esc_state_def)
  with Cons show ?case by (simp add: dotted_Cons esc_state_append)
qed simp

lemma dotted_separator:
  assumes "dotted ls = x @ 0x2E # s" "\<not> esc_state x"
  shows "\<exists>pre suf. ls = pre @ suf \<and> pre \<noteq> [] \<and> suf \<noteq> [] \<and> x = dotted pre \<and> s = dotted suf"
  using assms
proof (induction ls arbitrary: x)
  case (Cons l ls)
  from esc_label_no_separator [OF Cons.prems(1) [unfolded dotted_Cons] Cons.prems(2)] obtain x' where
    x: "x = esc_label l @ x'" "(if ls = [] then [] else 0x2E # dotted ls) = x' @ 0x2E # s" "\<not> esc_state x'"
    by blast
  then have ls: "ls \<noteq> []" by (auto split: if_splits)
  show ?case
  proof (cases x')
    case Nil
    then have "l # ls = [l] @ ls \<and> [l] \<noteq> [] \<and> ls \<noteq> [] \<and> x = dotted [l] \<and> s = dotted ls"
      using x ls by (simp add: dotted_Cons)
    then show ?thesis by blast
  next
    case (Cons d y)
    then have y: "dotted ls = y @ 0x2E # s" "d = 0x2E" using x ls by auto
    have "\<not> esc_state y" using x(3) Cons y(2) by (simp add: esc_state_def)
    from Cons.IH [OF y(1) this] obtain pre suf where
      "ls = pre @ suf" "pre \<noteq> []" "suf \<noteq> []" "y = dotted pre" "s = dotted suf" by blast
    then have "l # ls = (l # pre) @ suf \<and> l # pre \<noteq> [] \<and> suf \<noteq> [] \<and> x = dotted (l # pre) \<and> s = dotted suf"
      using x(1) Cons y(2) by (simp add: dotted_Cons)
    then show ?thesis by blast
  qed
qed simp

lemma dotted_append:
  "pre \<noteq> [] \<Longrightarrow> suf \<noteq> [] \<Longrightarrow> dotted (pre @ suf) = dotted pre @ 0x2E # dotted suf"
proof (induction pre)
  case (Cons l pre)
  then show ?case by (cases "pre = []") (auto simp: dotted_Cons)
qed simp

text \<open>The last byte of the text of a name is a dot only if it is escaped.\<close>

lemma last_dotted:
  assumes "list_all wf_label ls" "ls \<noteq> []" "last (dotted ls) = 0x2E"
  shows "esc_state (butlast (dotted ls))"
proof -
  have "\<exists>s c. dotted ls = s @ esc c \<and> \<not> esc_state s"
    using assms(1,2)
  proof (induction ls)
    case (Cons l ls)
    show ?case
    proof (cases "ls = []")
      case True
      from Cons.prems obtain l' c where "l = l' @ [c]" by (cases l rule: rev_cases) (auto simp: wf_label_def)
      moreover have "esc_label (l' @ [c]) = esc_label l' @ esc c" by (simp add: esc_label_def)
      ultimately show ?thesis using True esc_state_esc_label [of l'] by (auto simp: dotted_Cons)
    next
      case False
      with Cons obtain s c where s: "dotted ls = s @ esc c" "\<not> esc_state s" by auto
      have "\<not> esc_state (esc_label l @ 0x2E # s)"
        using s(2) esc_state_append [OF esc_state_esc_label, of l "0x2E # s"] by (simp add: esc_state_def)
      moreover have "dotted (l # ls) = (esc_label l @ 0x2E # s) @ esc c"
        using s(1) False by (simp add: dotted_Cons)
      ultimately show ?thesis by blast
    qed
  qed simp
  then obtain s c where s: "dotted ls = s @ esc c" "\<not> esc_state s" by blast
  show ?thesis
  proof (rule esc_cases [of c])
    assume "esc c = [0x5C, c]"
    then show ?thesis using s by (simp add: butlast_append)
  qed (use s assms(3) in auto)
qed

lemma dotted_eq_Nil: "list_all wf_label ls \<Longrightarrow> dotted ls = [] \<longleftrightarrow> ls = []"
  by (cases ls) (auto simp: dotted_Cons wf_label_def)

lemma trim_present: "list_all wf_label ls \<Longrightarrow> trim (present ls) = dotted ls"
  using last_dotted [of ls] by (auto simp: trim_eq present_def)

text \<open>Equality up to case is equality of the labels up to case.\<close>

lemma mklower_tolower: "mklower = tolower"
  by (rule ext) (simp add: mklower_def tolower_def isupper_def)

lemma tolower_class:
  "special (tolower c) = special c" "printable (tolower c) = printable c"
  "\<not> printable c \<Longrightarrow> tolower c = c" "special c \<Longrightarrow> tolower c = c"
proof -
  have p: "printable c" "printable (tolower c)" "\<not> special c" "\<not> special (tolower c)" if "isupper c"
  proof -
    have n: "65 \<le> unat c" "unat c \<le> 90" using that by (simp_all add: isupper_def word_le_nat_alt)
    then have "unat (c + 0x20) = unat c + 32" by (simp add: unat_plus_if')
    then have l: "unat (tolower c) = unat c + 32" using that by (simp add: tolower_def)
    show "printable c" "printable (tolower c)" using n l by (simp_all add: printable_def word_less_nat_alt)
    show "\<not> special c" "\<not> special (tolower c)" using n l by (auto simp: special_def)
  qed
  have q: "tolower c = c" if "\<not> isupper c" using that by (simp add: tolower_def)
  show "special (tolower c) = special c" "printable (tolower c) = printable c"
    "\<not> printable c \<Longrightarrow> tolower c = c" "special c \<Longrightarrow> tolower c = c"
    using p q by (cases "isupper c"; simp)+
qed

lemma tolower_digits: "i < 10 \<Longrightarrow> tolower (digits i) = digits i"
proof -
  assume "i < 10"
  then have "i \<in> set [0..<10]" by simp
  moreover have "list_all (\<lambda>i. tolower (digits i) = digits i) [0..<10]" by code_simp
  ultimately show ?thesis unfolding list_all_iff by blast
qed

lemma tolower_esc: "map tolower (esc c) = esc (tolower c)"
proof -
  have "tolower 0x5C = 0x5C" by code_simp
  moreover have "unat c mod 100 div 10 < 10" by (simp add: less_mult_imp_div_less)
  moreover have "unat c mod 10 < 10" by simp
  ultimately show ?thesis
    using unat_u8_div_100 [of c] tolower_class [of c] tolower_digits
    by (cases "special c"; cases "printable c") (auto simp: esc_def)
qed

lemma tolower_dotted: "map tolower (dotted ls) = dotted (lower_name ls)"
proof (induction ls)
  case (Cons l ls)
  have "map tolower (esc_label l) = esc_label (map tolower l)"
    by (induction l) (simp_all add: tolower_esc)
  moreover have "tolower 0x2E = 0x2E" by code_simp
  ultimately show ?case using Cons
    by (auto simp: dotted_Cons lower_name_def mklower_tolower)
qed (simp add: lower_name_def)

lemma dotted_inj:
  assumes "list_all wf_label as" "list_all wf_label bs" "dotted as = dotted bs"
  shows "as = bs"
  using assms
proof (induction as arbitrary: bs)
  case Nil
  then show ?case using dotted_eq_Nil [of bs] by simp
next
  case (Cons a as)
  then obtain b bs' where bs: "bs = b # bs'" using dotted_eq_Nil [of "a # as"] by (cases bs) auto
  have label_eq: "u = v" if "esc_label u = esc_label v" "wf_label u" "wf_label v" for u v
  proof -
    have "wf_name [u]" "wf_name [v]"
      using that by (auto simp: wf_name_def wf_label_def wire_Cons wire_Nil NS_MAXCDNAME_def label_wire_def)
    moreover have "present [u] = present [v]" using that(1) by (simp add: present_def dotted_Cons)
    ultimately have "wire [u] = wire [v]"
      using pton_present [of "[u]" 255] pton_present [of "[v]" 255] by (simp add: wf_name_def NS_MAXCDNAME_def)
    then show ?thesis by (simp add: wire_def label_wire_def)
  qed
  show ?case
  proof (cases "as = [] \<or> bs' = []")
    case True
    then have *: "as = [] \<and> bs' = []"
    proof (rule disjE)
      assume "as = []"
      then show ?thesis
        using Cons.prems(3) bs esc_label_no_separator [of a "[]" "esc_label b" "dotted bs'"]
        by (auto simp: dotted_Cons split: if_splits)
    next
      assume "bs' = []"
      then show ?thesis
        using Cons.prems(3) bs esc_label_no_separator [of b "[]" "esc_label a" "dotted as"]
        by (auto simp: dotted_Cons split: if_splits)
    qed
    then show ?thesis using label_eq [of a b] Cons.prems bs by (simp add: dotted_Cons)
  next
    case False
    then have e: "esc_label a @ 0x2E # dotted as = esc_label b @ 0x2E # dotted bs'"
      using Cons.prems(3) bs by (simp add: dotted_Cons)
    obtain x y where "esc_label b = esc_label a @ x" "esc_label a = esc_label b @ y"
      using esc_label_no_separator [OF e esc_state_esc_label]
        esc_label_no_separator [OF e [symmetric] esc_state_esc_label] by blast
    then have "esc_label a = esc_label b" by simp
    then show ?thesis using Cons.IH [of bs'] e label_eq [of a b] Cons.prems bs by simp
  qed
qed

lemma lower_name_wf [simp]: "list_all wf_label (lower_name ls) = list_all wf_label ls"
  by (simp add: lower_name_def list_all_iff wf_label_def)

lemma strcaseeq_dotted:
  assumes "list_all wf_label as" "list_all wf_label bs"
  shows "strcaseeq (dotted as) (dotted bs) \<longleftrightarrow> same_name as bs"
  using dotted_inj [of "lower_name as" "lower_name bs"] assms
  by (auto simp: strcaseeq_def tolower_dotted same_name_def)

text \<open>On the text of names the function decides whether one name lies in the domain of the other.\<close>

text \<open>C9: On the printed forms of two label lists ns_samedomain says whether the second name is a
  suffix of the first, label by label and without regard to case; escaped dots do not count as
  separators.\<close>

theorem ns_samedomain_names:
  assumes "list_all wf_label as" "list_all wf_label bs"
  shows "ns_samedomain (present as) (present bs) \<longleftrightarrow> (\<exists>pre suf. as = pre @ suf \<and> same_name suf bs)"
proof -
  have "(\<exists>x s. dotted as = x @ 0x2E # s \<and> x \<noteq> [] \<and> \<not> esc_state x \<and> strcaseeq s (dotted bs))
    \<longleftrightarrow> (\<exists>pre suf. as = pre @ suf \<and> pre \<noteq> [] \<and> suf \<noteq> [] \<and> same_name suf bs)" (is "?l \<longleftrightarrow> ?r")
  proof
    assume ?l
    then obtain x s where x: "dotted as = x @ 0x2E # s" "\<not> esc_state x" "strcaseeq s (dotted bs)" by blast
    from dotted_separator [OF x(1,2)] obtain pre suf where
      p: "as = pre @ suf" "pre \<noteq> []" "suf \<noteq> []" "s = dotted suf" by blast
    then show ?r using x(3) strcaseeq_dotted [of suf bs] assms by auto
  next
    assume ?r
    then obtain pre suf where p: "as = pre @ suf" "pre \<noteq> []" "suf \<noteq> []" "same_name suf bs" by blast
    then show ?l
      using strcaseeq_dotted [of suf bs] dotted_append [OF p(2,3)] dotted_eq_Nil [of pre] assms
      by (intro exI [of _ "dotted pre"] exI [of _ "dotted suf"]) auto
  qed
  then show ?thesis
    using assms strcaseeq_dotted [OF assms]
    by (auto simp: ns_samedomain_trim trim_present dotted_eq_Nil intro: exI [of _ "[]"])
       (metis append_Nil same_name_Nil(1))+
qed

theorem ns_samedomain_names_witness: "ns_samedomain (ascii ''x.A'') (ascii ''a'')"
proof -
  have *: "list_all wf_label [ascii ''x'', ascii ''A'']" "list_all wf_label [ascii ''a'']"
    "present [ascii ''x'', ascii ''A''] = ascii ''x.A''" "present [ascii ''a''] = ascii ''a''"
    "same_name [ascii ''A''] [ascii ''a'']" by code_simp+
  have "\<exists>pre suf. [ascii ''x'', ascii ''A''] = pre @ suf \<and> same_name suf [ascii ''a'']"
    using *(5) by (intro exI [of _ "[ascii ''x'']"] exI [of _ "[ascii ''A'']"]) simp
  then show ?thesis using ns_samedomain_names [OF *(1,2)] *(3,4) by simp
qed

section \<open>ns_samename on the text of names\<close>

text \<open>
  The canonical text is the text with a final separator, but a name that ends in three
  backslashes and a dot keeps its text: its dot is taken for a separator and put back.
\<close>

definition canon_text :: "label list \<Rightarrow> cstring" where
  "canon_text ls =
     (if (\<exists>s. dotted ls = s @ [0x5C, 0x5C, 0x2E]) then dotted ls else dotted ls @ [0x2E])"

lemma makecanon_present:
  assumes "list_all wf_label ls" "ls \<noteq> [[0x2E]]" "length (present ls) + 2 \<le> siz"
  shows "ns_makecanon (present ls) siz = Inr (canon_text ls)"
proof (cases ls)
  case Nil
  then show ?thesis using assms(3)
    by (simp add: ns_makecanon_def present_def canon_text_def makecanon_loop.simps [of "[0x2E]"]
        makecanon_loop.simps [of "[]"])
next
  case (Cons l ls')
  then have ne: "dotted ls \<noteq> []" "present ls = dotted ls"
    using dotted_eq_Nil [OF assms(1)] by (auto simp: present_def)
  have stop: "makecanon_loop (s @ [c]) = Inr (s @ [c])" if "c \<noteq> 0x2E" for s c
    using that by (subst makecanon_loop.simps) (simp add: nth_append)
  show ?thesis
  proof (cases "last (dotted ls) = 0x2E")
    case False
    then have "makecanon_loop (dotted ls) = Inr (dotted ls)"
      using stop [of "last (dotted ls)" "butlast (dotted ls)"] ne(1) by simp
    moreover have "canon_text ls = dotted ls @ [0x2E]" using False by (auto simp: canon_text_def)
    ultimately show ?thesis using assms(3) ne(2) by (simp add: ns_makecanon_def)
  next
    case True
    from last_dotted [OF assms(1) _ True] Cons have e: "esc_state (butlast (dotted ls))" by simp
    then obtain s where "butlast (dotted ls) = s @ [0x5C]"
      by (cases "butlast (dotted ls)" rule: rev_cases) auto
    then have s: "dotted ls = s @ [0x5C, 0x2E]"
      using append_butlast_last_id [OF ne(1)] True by simp
    have "s \<noteq> []"
    proof
      assume "s = []"
      then have "dotted ls = dotted [[0x2E]]" using s by (simp add: dotted_Cons esc_def special_def)
      then show False using dotted_inj [OF assms(1), of "[[0x2E]]"] assms(2) by (simp add: wf_label_def)
    qed
    then obtain s' c where s': "s = s' @ [c]" by (cases s rule: rev_cases) auto
    have "makecanon_loop (dotted ls)
        = (if c = 0x5C then makecanon_loop (s @ [0x5C]) else Inr (dotted ls))"
      using s s' by (subst makecanon_loop.simps) (simp add: nth_append butlast_append)
    then have "makecanon_loop (dotted ls) = Inr (if c = 0x5C then s @ [0x5C] else dotted ls)"
      using stop [of "0x5C" s] by simp
    moreover have "canon_text ls = (if c = 0x5C then dotted ls else dotted ls @ [0x2E])"
      using s s' by (auto simp: canon_text_def)
    ultimately show ?thesis using assms(3) ne(2) s by (simp add: ns_makecanon_def)
  qed
qed

lemma esc_state_tolower: "esc_state (map tolower s) = esc_state s"
proof (induction s rule: rev_induct)
  case (snoc c s)
  have "special 0x5C" by code_simp
  then have "tolower c = 0x5C \<longleftrightarrow> c = 0x5C" using tolower_class(1,4) [of c] by metis
  with snoc show ?case by simp
qed simp

lemma strcaseeq_snoc: "strcaseeq (s @ [c]) (t @ [c]) = strcaseeq s t"
  by (simp add: strcaseeq_def)

lemma canon_text_cases:
  assumes "list_all wf_label ls"
  obtains "canon_text ls = dotted ls @ [0x2E]" | s where "canon_text ls = dotted ls" "dotted ls = s @ [0x2E]" "esc_state s"
proof (cases "canon_text ls = dotted ls @ [0x2E]")
  case False
  then obtain s where s: "dotted ls = s @ [0x5C, 0x5C, 0x2E]" "canon_text ls = dotted ls"
    by (auto simp: canon_text_def split: if_splits)
  then have "ls \<noteq> []" by auto
  then have "esc_state (s @ [0x5C, 0x5C])"
    using last_dotted [OF assms] s by (simp add: butlast_append)
  then show ?thesis using s that(2) [of "s @ [0x5C, 0x5C]"] by simp
qed (use that in blast)

lemma strcaseeq_canon_text:
  assumes "list_all wf_label as" "list_all wf_label bs"
  shows "strcaseeq (canon_text as) (canon_text bs) \<longleftrightarrow> same_name as bs"
proof -
  have no: "\<not> strcaseeq (dotted xs) s" if "esc_state s" for xs s
    unfolding strcaseeq_def tolower_dotted by (metis that esc_state_tolower esc_state_dotted)
  have mixed: "\<not> strcaseeq (dotted xs @ [0x2E]) (s @ [0x2E])" if "esc_state s" for xs s
    using no [OF that] by (simp add: strcaseeq_snoc)
  have diff: "\<not> same_name xs ys" if h: "dotted ys = s @ [0x2E]" "canon_text ys = dotted ys" 
      "canon_text xs = dotted xs @ [0x2E]" "list_all wf_label xs" "list_all wf_label ys" for xs ys s
  proof
    assume "same_name xs ys"
    then have "strcaseeq (dotted xs) (dotted ys)" using strcaseeq_dotted h(4,5) by blast
    then have eq: "map tolower (dotted xs) = map tolower (dotted ys)" by (simp add: strcaseeq_def)
    obtain z where "dotted ys = z @ [0x5C, 0x5C, 0x2E]"
      using h(2) by (auto simp: canon_text_def split: if_splits)
    then have "map tolower (dotted xs) = map tolower z @ map tolower [0x5C, 0x5C, 0x2E]" using eq by simp
    then obtain u v where uv: "dotted xs = u @ v" "map tolower v = map tolower [0x5C, 0x5C, 0x2E]"
      by (auto simp: map_eq_append_conv)
    have "v = [0x5C, 0x5C, 0x2E]"
    proof -
      have sp: "special 0x5C" "special 0x2E" by code_simp+
      have "c = d" if "tolower c = tolower d" "special d" for c d
        using that tolower_class(1,4) [of c] tolower_class(4) [of d] tolower_class(1) [of d] by metis
      then show ?thesis using uv(2) sp by (auto simp: map_eq_Cons_conv)
    qed
    then show False using uv(1) h(3) by (auto simp: canon_text_def split: if_splits)
  qed
  show ?thesis
  proof (rule canon_text_cases [OF assms(1)])
    assume a: "canon_text as = dotted as @ [0x2E]"
    show ?thesis
    proof (rule canon_text_cases [OF assms(2)])
      assume "canon_text bs = dotted bs @ [0x2E]"
      then show ?thesis using a strcaseeq_dotted [OF assms] by (simp add: strcaseeq_snoc)
    next
      fix s assume b: "canon_text bs = dotted bs" "dotted bs = s @ [0x2E]" "esc_state s"
      then show ?thesis using a mixed [OF b(3), of as] diff [OF b(2,1) a assms] by simp
    qed
  next
    fix s assume a: "canon_text as = dotted as" "dotted as = s @ [0x2E]" "esc_state s"
    show ?thesis
    proof (rule canon_text_cases [OF assms(2)])
      assume b: "canon_text bs = dotted bs @ [0x2E]"
      have "\<not> same_name bs as" by (rule diff [OF a(2,1) b assms(2,1)])
      then show ?thesis using a b mixed [OF a(3), of bs] by (metis same_name_def strcaseeq_sym)
    next
      assume "canon_text bs = dotted bs"
      then show ?thesis using a strcaseeq_dotted [OF assms] by simp
    qed
  qed
qed

lemma length_dotted: "length (dotted ls) + 4 \<le> 4 * length (wire ls)"
proof (induction ls)
  case (Cons l ls)
  have "length (esc_label l) \<le> 4 * length l"
  proof (induction l)
    case (Cons c l)
    then show ?case using length_esc(2) [of c] by simp
  qed simp
  then show ?case using Cons by (simp add: dotted_Cons wire_Cons)
qed (simp add: wire_Nil)

lemma samename_present:
  assumes "wf_name as" "wf_name bs" "as \<noteq> [[0x2E]]" "bs \<noteq> [[0x2E]]"
  shows "ns_samename (present as) (present bs) = Inr (same_name as bs)"
proof -
  have len: "length (present ls) + 2 \<le> NS_MAXDNAME" if "wf_name ls" for ls
    using that length_dotted [of ls] by (auto simp: wf_name_def present_def NS_MAXCDNAME_def NS_MAXDNAME_def)
  show ?thesis
    using assms makecanon_present [OF _ assms(3) len] makecanon_present [OF _ assms(4) len]
      strcaseeq_canon_text [of as bs]
    by (simp add: ns_samename_def wf_name_def)
qed

text \<open>C11: On the printed forms of two legal names ns_samename says whether they are the same name
  without regard to case; the name that is a single dot label is excluded (see
  makecanon_reads_before).\<close>

theorem ns_samename_names:
  assumes "wf_name as" "wf_name bs" "as \<noteq> [[0x2E]]" "bs \<noteq> [[0x2E]]"
  shows "ns_samename (present as) (present bs) = Inr (same_name as bs)"
  using assms by (rule samename_present)

theorem ns_samename_names_witness: "ns_samename (ascii ''x.A'') (ascii ''X.a'') = Inr True"
proof -
  have *: "wf_name [ascii ''x'', ascii ''A'']" "wf_name [ascii ''X'', ascii ''a'']"
    "[ascii ''x'', ascii ''A''] \<noteq> [[0x2E]]" "[ascii ''X'', ascii ''a''] \<noteq> [[0x2E]]"
    "present [ascii ''x'', ascii ''A''] = ascii ''x.A''" "present [ascii ''X'', ascii ''a''] = ascii ''X.a''"
    "same_name [ascii ''x'', ascii ''A''] [ascii ''X'', ascii ''a'']" by code_simp+
  then show ?thesis using ns_samename_names [OF *(1-4)] by simp
qed

text \<open>The text of the name whose only label is a dot makes \<open>ns_makecanon\<close> read before its buffer.\<close>

text \<open>For the name that is an escaped dot ns_makecanon reads the byte before its buffer.\<close>

theorem makecanon_reads_before: "3 < siz \<Longrightarrow> ns_makecanon (present [[0x2E]]) siz = Inl Fault"
  by (simp add: ns_makecanon_def present_def dotted_Cons esc_def special_def
      makecanon_loop.simps [of "[0x5C, 0x2E]"])

theorem makecanon_reads_before_witness: "ns_makecanon [0x5C, 0x2E] 4 = Inl Fault"
proof -
  have "present [[0x2E]] = [0x5C, 0x2E]" by code_simp
  then show ?thesis using makecanon_reads_before [of 4] by simp
qed

end
