(* ===== verification/Res_Comp.thy ===== *)
theory Res_Comp
  imports Ns_Compress_Correct
begin

text \<open>
  \<open>ns_netint.c\<close>: integers in network order; \<open>res_comp.c\<close>: the wrappers \<open>dn_expand\<close>, \<open>dn_comp\<close>,
  \<open>dn_skipname\<close> and the character-set checks \<open>res_hnok\<close>, \<open>res_ownok\<close>, \<open>res_mailok\<close>,
  \<open>res_dnok\<close>, with their meaning label by label.
\<close>

unbundle bit_operations_syntax

section \<open>Integers in network order\<close>

definition ns_get16 :: "u8 list \<Rightarrow> nat \<Rightarrow> u32 cres" where
  "ns_get16 mem src =
     and_then (fetch mem src) (\<lambda>b0. and_then (fetch mem (src + 1)) (\<lambda>b1.
       Inr (push_bit 8 (ucast b0) OR ucast b1)))"

definition ns_get32 :: "u8 list \<Rightarrow> nat \<Rightarrow> u32 cres" where
  "ns_get32 mem src =
     and_then (fetch mem src) (\<lambda>b0. and_then (fetch mem (src + 1)) (\<lambda>b1.
     and_then (fetch mem (src + 2)) (\<lambda>b2. and_then (fetch mem (src + 3)) (\<lambda>b3.
       Inr (push_bit 24 (ucast b0) OR push_bit 16 (ucast b1) OR push_bit 8 (ucast b2) OR ucast b3)))))"

text \<open>The bytes \<open>ns_put16\<close> and \<open>ns_put32\<close> store at \<open>dst\<close>, and the store itself.\<close>

definition put16_bytes :: "u32 \<Rightarrow> u8 list" where
  "put16_bytes src = (let t = (ucast src :: u16) in [ucast (drop_bit 8 t), ucast t])"

definition put32_bytes :: "u32 \<Rightarrow> u8 list" where
  "put32_bytes src =
     [ucast (drop_bit 24 src), ucast (drop_bit 16 src), ucast (drop_bit 8 src), ucast src]"

definition store :: "u8 list \<Rightarrow> nat \<Rightarrow> u8 list \<Rightarrow> u8 list cres" where
  "store mem dst bs =
     (if dst + length bs \<le> length mem then Inr (take dst mem @ bs @ drop (dst + length bs) mem)
      else Inl Fault)"

definition ns_put16 :: "u32 \<Rightarrow> u8 list \<Rightarrow> nat \<Rightarrow> u8 list cres" where
  "ns_put16 src mem dst = store mem dst (put16_bytes src)"

definition ns_put32 :: "u32 \<Rightarrow> u8 list \<Rightarrow> nat \<Rightarrow> u8 list cres" where
  "ns_put32 src mem dst = store mem dst (put32_bytes src)"

lemma length_put [simp]: "length (put16_bytes x) = 2" "length (put32_bytes x) = 4"
  by (simp_all add: put16_bytes_def put32_bytes_def Let_def)

lemma nth_append_Cons: "(xs @ y # ys) ! (length xs) = y"
  by simp

lemma get16_bytes:
  "ns_get16 (pre @ a # b # rest) (length pre) = Inr (push_bit 8 (ucast a) OR ucast b)"
  by (simp add: ns_get16_def nth_append)

lemma get32_bytes:
  "ns_get32 (pre @ a # b # c # d # rest) (length pre)
    = Inr (push_bit 24 (ucast a) OR push_bit 16 (ucast b) OR push_bit 8 (ucast c) OR ucast d)"
  by (simp add: ns_get32_def nth_append)

lemma join16:
  "push_bit 8 (ucast (ucast (drop_bit 8 (ucast x :: u16)) :: u8)) OR ucast (ucast (ucast x :: u16) :: u8)
    = (take_bit 16 x :: u32)"
  by (rule bit_word_eqI) (auto simp: bit_simps)

lemma join32:
  "push_bit 24 (ucast (ucast (drop_bit 24 x) :: u8)) OR push_bit 16 (ucast (ucast (drop_bit 16 x) :: u8))
    OR push_bit 8 (ucast (ucast (drop_bit 8 x) :: u8)) OR ucast (ucast x :: u8) = (x :: u32)"
proof (rule bit_word_eqI)
  fix n :: nat
  assume "n < LENGTH(32)"
  then have "n < 8 \<or> (\<exists>k<8. n = k + 8) \<or> (\<exists>k<8. n = k + 16) \<or> (\<exists>k<8. n = k + 24)"
    by simp presburger
  then show "bit (push_bit 24 (ucast (ucast (drop_bit 24 x) :: u8))
      OR push_bit 16 (ucast (ucast (drop_bit 16 x) :: u8))
      OR push_bit 8 (ucast (ucast (drop_bit 8 x) :: u8)) OR ucast (ucast x :: u8) :: u32) n = bit x n"
    by (elim disjE exE conjE) (auto simp: bit_simps add.commute)
qed

text \<open>Reading back what was stored, wherever it was stored.\<close>

lemma get16_put16:
  assumes "ns_put16 x mem dst = Inr mem'"
  shows "ns_get16 mem' dst = Inr (take_bit 16 x)"
proof -
  from assms have "dst \<le> length mem" "mem' = take dst mem @ put16_bytes x @ drop (dst + 2) mem"
    by (auto simp: ns_put16_def store_def split: if_splits)
  then show ?thesis
    using get16_bytes [of "take dst mem"] join16 [of x] by (simp add: put16_bytes_def Let_def)
qed

text \<open>ns_get32 reads back any 32-bit value that ns_put32 stored.\<close>

theorem get32_put32:
  assumes "ns_put32 x mem dst = Inr mem'"
  shows "ns_get32 mem' dst = Inr x"
proof -
  from assms have "dst \<le> length mem" "mem' = take dst mem @ put32_bytes x @ drop (dst + 4) mem"
    by (auto simp: ns_put32_def store_def split: if_splits)
  then show ?thesis
    using get32_bytes [of "take dst mem"] join32 [of x] by (simp add: put32_bytes_def)
qed

theorem get32_put32_witness: "ns_get32 [9, 0xAB, 0xCD, 1, 2] 1 = Inr 0xABCD0102"
proof -
  have "ns_put32 0xABCD0102 [9, 0, 0, 0, 0] 1 = Inr [9, 0xAB, 0xCD, 1, 2]" by code_simp
  then show ?thesis by (rule get32_put32)
qed

section \<open>Wrappers\<close>

text \<open>\<open>dn_expand\<close> prints the root as the empty string.\<close>

definition dn_expand :: "u8 list \<Rightarrow> nat \<Rightarrow> nat \<Rightarrow> nat \<Rightarrow> (nat \<times> cstring) cres" where
  "dn_expand msg eom src dstsiz =
     and_then (ns_name_uncompress msg eom src dstsiz) (\<lambda>(n, dst).
       Inr (n, if n > 0 \<and> dst \<noteq> [] \<and> hd dst = 0x2E then dst[0 := 0] else dst))"

definition dn_comp :: "cstring \<Rightarrow> u8 list \<Rightarrow> int \<Rightarrow> dntab option \<Rightarrow> u8 list cres \<times> nat list" where
  "dn_comp src pre dstsiz tab = ns_name_compress src pre dstsiz tab"

definition dn_skipname :: "u8 list \<Rightarrow> nat \<Rightarrow> nat cres" where
  "dn_skipname mem ptr = and_then (ns_name_skip mem ptr) (\<lambda>cp. Inr (cp - ptr))"

section \<open>Character sets\<close>

definition periodchar :: "u8 \<Rightarrow> bool" where
  "periodchar c \<longleftrightarrow> c = 0x2e"

definition asterchar :: "u8 \<Rightarrow> bool" where
  "asterchar c \<longleftrightarrow> c = 0x2a"

definition alphachar :: "u8 \<Rightarrow> bool" where
  "alphachar c \<longleftrightarrow> (0x41 \<le> c \<and> c \<le> 0x5a) \<or> (0x61 \<le> c \<and> c \<le> 0x7a)"

definition digitchar :: "u8 \<Rightarrow> bool" where
  "digitchar c \<longleftrightarrow> 0x30 \<le> c \<and> c \<le> 0x39"

definition borderchar :: "u8 \<Rightarrow> bool" where
  "borderchar c \<longleftrightarrow> alphachar c \<or> digitchar c"

definition middlechar :: "u8 \<Rightarrow> bool" where
  "middlechar c \<longleftrightarrow> borderchar c \<or> c = 0x2d \<or> c = 0x5f"

definition domainchar :: "u8 \<Rightarrow> bool" where
  "domainchar c \<longleftrightarrow> 0x20 < c \<and> c < 0x7f"

text \<open>The loop of \<open>res_hnok\<close>: \<open>pch\<close>, then \<open>ch\<close> and what follows it; \<open>nch\<close> is the byte after.\<close>

fun hnok_loop :: "u8 \<Rightarrow> cstring \<Rightarrow> bool" where
  "hnok_loop pch [] = True"
| "hnok_loop pch (ch # dn) =
     (let nch = (case dn of [] \<Rightarrow> 0 | c # _ \<Rightarrow> c) in
      if periodchar ch then hnok_loop ch dn
      else if periodchar pch then (if \<not> borderchar ch then False else hnok_loop ch dn)
      else if periodchar nch \<or> nch = 0 then (if \<not> borderchar ch then False else hnok_loop ch dn)
      else (if \<not> middlechar ch then False else hnok_loop ch dn))"

definition res_hnok :: "cstring \<Rightarrow> bool" where
  "res_hnok dn = hnok_loop 0x2e dn"

fun res_ownok :: "cstring \<Rightarrow> bool" where
  "res_ownok (a # rest) =
     (if asterchar a then
        (case rest of
           [] \<Rightarrow> True
         | b # dn \<Rightarrow> if periodchar b then res_hnok dn else res_hnok (a # rest))
      else res_hnok (a # rest))"
| "res_ownok [] = res_hnok []"

fun mailok_loop :: "bool \<Rightarrow> cstring \<Rightarrow> bool" where
  "mailok_loop escaped [] = False"
| "mailok_loop escaped (ch # dn) =
     (if \<not> domainchar ch then False
      else if \<not> escaped \<and> periodchar ch then res_hnok dn
      else mailok_loop (if escaped then False else ch = 0x5c) dn)"

definition res_mailok :: "cstring \<Rightarrow> bool" where
  "res_mailok dn = (if dn = [] then True else mailok_loop False dn)"

fun res_dnok :: "cstring \<Rightarrow> bool" where
  "res_dnok [] = True"
| "res_dnok (ch # dn) = (if \<not> domainchar ch then False else res_dnok dn)"

section \<open>What the checks accept\<close>

text \<open>The pieces between the dots, and what \<open>res_hnok\<close> wants of each.\<close>

fun pieces :: "cstring \<Rightarrow> cstring list" where
  "pieces [] = [[]]"
| "pieces (c # s) =
     (if periodchar c then [] # pieces s else (c # hd (pieces s)) # tl (pieces s))"

definition host_label :: "cstring \<Rightarrow> bool" where
  "host_label l \<longleftrightarrow> l = [] \<or> borderchar (hd l) \<and> borderchar (last l) \<and> list_all middlechar l"

lemma pieces_not_Nil [simp]: "pieces s \<noteq> []"
  by (cases s) auto

lemma border_middle: "borderchar c \<Longrightarrow> middlechar c"
  by (simp add: middlechar_def)

lemma host_label_simps [simp]:
  "host_label []"
  "host_label (c # l) \<longleftrightarrow> borderchar c \<and> (l = [] \<or> borderchar (last l) \<and> list_all middlechar l)"
  by (auto simp: host_label_def border_middle)

lemma hnok_loop_period: "periodchar ch \<Longrightarrow> hnok_loop pch (ch # dn) = hnok_loop ch dn"
  by (cases dn) simp_all

lemma hnok_loop_other:
  "\<not> periodchar ch \<Longrightarrow> 0 \<notin> set dn \<Longrightarrow> hnok_loop pch (ch # dn) =
    ((if periodchar pch \<or> hd (pieces dn) = [] then borderchar ch else middlechar ch) \<and> hnok_loop ch dn)"
  by (cases dn) auto

lemma hnok_loop_pieces:
  assumes "0 \<notin> set dn"
  shows "hnok_loop pch dn \<longleftrightarrow>
    (if periodchar pch then host_label (hd (pieces dn))
     else hd (pieces dn) = [] \<or> borderchar (last (hd (pieces dn))) \<and> list_all middlechar (hd (pieces dn)))
    \<and> list_all host_label (tl (pieces dn))"
  using assms
proof (induction dn arbitrary: pch)
  case Nil
  then show ?case by (simp add: host_label_def)
next
  case (Cons ch dn)
  have IH: "hnok_loop ch dn \<longleftrightarrow> (if periodchar ch then host_label (hd (pieces dn))
     else hd (pieces dn) = [] \<or> borderchar (last (hd (pieces dn))) \<and> list_all middlechar (hd (pieces dn)))
    \<and> list_all host_label (tl (pieces dn))" and z: "0 \<notin> set dn"
    using Cons by auto
  show ?case
  proof (cases "periodchar ch")
    case True
    then show ?thesis
      using IH hnok_loop_period [OF True, of pch dn]
      by (cases "pieces dn") (auto simp del: hnok_loop.simps)
  next
    case False
    then show ?thesis
      using IH hnok_loop_other [OF False z, of pch] border_middle [of ch]
      by (cases "hd (pieces dn) = []") (auto simp del: hnok_loop.simps)
  qed
qed

lemma res_hnok_pieces:
  assumes "0 \<notin> set dn"
  shows "res_hnok dn \<longleftrightarrow> list_all host_label (pieces dn)"
  using hnok_loop_pieces [OF assms, of "0x2e"] pieces_not_Nil [of dn]
  by (cases "pieces dn") (auto simp: res_hnok_def periodchar_def)

text \<open>On the text of a name the pieces are the labels, as soon as one of the two sides holds.\<close>

lemma pieces_append:
  "list_all (\<lambda>c. \<not> periodchar c) l \<Longrightarrow> pieces (l @ s) = (l @ hd (pieces s)) # tl (pieces s)"
  by (induction l) auto

lemma middlechar_plain: "middlechar c \<Longrightarrow> printable c \<and> \<not> special c \<and> \<not> periodchar c"
  by (auto simp: middlechar_def borderchar_def alphachar_def digitchar_def printable_def special_def
      periodchar_def word_less_nat_alt word_le_nat_alt)

lemma middlechar_esc: "middlechar c \<Longrightarrow> esc c = [c] \<and> \<not> periodchar c"
  using middlechar_plain by (simp add: esc_def)

lemma middlechar_esc_all: "list_all middlechar (esc c) \<longleftrightarrow> middlechar c"
proof -
  have "\<not> middlechar 0x5C" by code_simp
  then show ?thesis using middlechar_plain [of c] by (auto simp: esc_def)
qed

lemma middlechar_esc_iff: "list_all middlechar (esc_label l) \<longleftrightarrow> list_all middlechar l"
  by (induction l) (simp_all add: middlechar_esc_all)

lemma esc_label_id: "list_all middlechar l \<Longrightarrow> esc_label l = l \<and> list_all (\<lambda>c. \<not> periodchar c) l"
  by (induction l) (auto simp: middlechar_esc)

lemma hd_esc_label_border:
  "l \<noteq> [] \<Longrightarrow> list_all middlechar l \<Longrightarrow> hd (esc_label l) = hd l \<and> last (esc_label l) = last l"
  by (simp add: esc_label_id)

lemma pieces_dotted:
  assumes "list_all (list_all middlechar) ls" "ls \<noteq> []"
  shows "pieces (dotted ls) = ls"
  using assms
proof (induction ls)
  case (Cons l ls)
  then have l: "esc_label l = l" "list_all (\<lambda>c. \<not> periodchar c) l"
    using esc_label_id by auto
  show ?case
  proof (cases ls)
    case Nil
    then show ?thesis using l pieces_append [of l "[]"] by simp
  next
    case (Cons m ms)
    then have "dotted (l # ls) = esc_label l @ 0x2e # dotted ls" by (simp add: dot_label_def)
    then show ?thesis
      using l Cons.IH Cons.prems Cons pieces_append [OF l(2), of "0x2e # dotted ls"]
      by (simp add: periodchar_def)
  qed
qed simp

text \<open>The text of a name is made of printable characters, so \<open>res_dnok\<close> accepts it.\<close>

lemma domainchar_digits: "i < 10 \<Longrightarrow> domainchar (digits i)"
proof -
  assume "i < 10"
  then have "i \<in> set [0..<10]" by simp
  moreover have "list_all (\<lambda>i. domainchar (digits i)) [0..<10]" by code_simp
  ultimately show ?thesis unfolding list_all_iff by blast
qed

lemma esc_domainchar: "list_all domainchar (esc c)"
proof -
  have "domainchar 0x5C" by code_simp
  moreover have "special c \<Longrightarrow> domainchar c"
    by (auto simp: special_def domainchar_def)
  moreover have "unat c mod 100 div 10 < 10" by (simp add: less_mult_imp_div_less)
  moreover have "unat c mod 10 < 10" by simp
  ultimately show ?thesis
    using unat_u8_div_100 [of c] domainchar_digits
    by (auto simp: esc_def printable_def domainchar_def [of c])
qed

lemma dotted_domainchar: "list_all domainchar (dotted ls)"
proof -
  have "domainchar 0x2E" by code_simp
  moreover have "list_all domainchar (esc_label l)" for l
    by (induction l) (auto simp: esc_domainchar)
  ultimately have "list_all domainchar (concat (map dot_label ms))" for ms
    by (induction ms) (auto simp: dot_label_def)
  with \<open>\<And>l. list_all domainchar (esc_label l)\<close> show ?thesis by (cases ls) auto
qed

lemma dotted_no_NUL: "0 \<notin> set (dotted ls)"
proof -
  have "\<not> domainchar 0" by code_simp
  then show ?thesis using dotted_domainchar [of ls] by (auto simp: list_all_iff)
qed

text \<open>
  The text of a name is an acceptable host name exactly when each label is made of letters,
  digits, hyphens and underscores and begins and ends with a letter or a digit.
\<close>

lemma pieces_chars:
  "list_all (list_all middlechar) (pieces t) \<Longrightarrow> list_all (\<lambda>c. periodchar c \<or> middlechar c) t"
proof (induction t)
  case (Cons c t)
  then show ?case by (cases "pieces t") (auto split: if_splits)
qed simp

lemma host_label_middle: "host_label l \<Longrightarrow> list_all middlechar l"
  by (simp add: host_label_def) (use list.pred_inject(1) in blast)

lemma esc_chars:
  assumes "list_all (\<lambda>c. periodchar c \<or> middlechar c) (esc c)"
  shows "middlechar c"
proof -
  have "\<not> middlechar 0x5C" "\<not> periodchar 0x5C" by code_simp+
  then show ?thesis using assms by (auto simp: esc_def periodchar_def special_def split: if_splits)
qed

lemma esc_label_chars:
  "list_all (\<lambda>c. periodchar c \<or> middlechar c) (esc_label l) \<Longrightarrow> list_all middlechar l"
  by (induction l) (auto intro: esc_chars)

lemma dotted_chars:
  assumes "list_all (\<lambda>c. periodchar c \<or> middlechar c) (dotted ls)"
  shows "list_all (list_all middlechar) ls"
proof (cases ls)
  case (Cons l ms)
  moreover have "list_all (\<lambda>c. periodchar c \<or> middlechar c) (concat (map dot_label ms))
      \<Longrightarrow> list_all (list_all middlechar) ms"
    by (induction ms) (auto simp: dot_label_def intro: esc_label_chars)
  ultimately show ?thesis using assms by (auto intro: esc_label_chars)
qed simp

text \<open>res_hnok accepts the printed form of a name exactly when each label is a host label:
  letters, digits, and inside also hyphen and underscore.\<close>

theorem res_hnok_dotted:
  assumes "ls \<noteq> []"
  shows "res_hnok (dotted ls) \<longleftrightarrow> list_all host_label ls"
proof -
  have "list_all (list_all middlechar) ls" if "list_all host_label (pieces (dotted ls))"
    by (rule dotted_chars, rule pieces_chars) (use that host_label_middle in \<open>auto simp: list_all_iff\<close>)
  moreover have "list_all (list_all middlechar) ls" if "list_all host_label ls"
    using that host_label_middle by (auto simp: list_all_iff)
  ultimately show ?thesis
    using res_hnok_pieces [OF dotted_no_NUL] pieces_dotted [OF _ assms] by metis
qed

theorem res_hnok_dotted_witness: "\<not> res_hnok (dotted [ascii ''a-'', ascii ''b''])"
proof -
  have "[ascii ''a-'', ascii ''b''] \<noteq> []" "\<not> list_all host_label [ascii ''a-'', ascii ''b'']" by code_simp+
  then show ?thesis using res_hnok_dotted by blast
qed

lemma res_dnok_iff: "res_dnok dn \<longleftrightarrow> list_all domainchar dn"
  by (induction dn) auto

lemma res_dnok_dotted: "res_dnok (dotted ls)"
  by (simp add: res_dnok_iff dotted_domainchar)

text \<open>\<open>res_ownok\<close> accepts the same names, and those whose first label is \<open>*\<close>.\<close>

lemma res_ownok_pieces:
  assumes "0 \<notin> set dn"
  shows "res_ownok dn \<longleftrightarrow> list_all host_label (pieces dn) \<or>
    hd (pieces dn) = [0x2a] \<and> list_all host_label (tl (pieces dn))"
proof (cases dn)
  case Nil
  then show ?thesis by (simp add: res_hnok_def)
next
  case (Cons a rest)
  have nb: "\<not> borderchar 0x2a" "\<not> periodchar 0x2a" by code_simp+
  have hd0: "hd (pieces rest) = [] \<longleftrightarrow> rest = [] \<or> periodchar (hd rest)" by (cases rest) auto
  have h: "res_hnok dn \<longleftrightarrow> list_all host_label (pieces dn)" by (rule res_hnok_pieces [OF assms])
  show ?thesis
  proof (cases "asterchar a")
    case False
    then have "res_ownok dn = res_hnok dn" using Cons by simp
    moreover have "hd (pieces dn) \<noteq> [0x2a]" using False Cons by (auto simp: asterchar_def)
    ultimately show ?thesis using h by simp
  next
    case True
    then have a: "a = 0x2a" by (simp add: asterchar_def)
    have nh: "\<not> res_hnok dn" using h nb Cons a by simp
    show ?thesis
    proof (cases rest)
      case Nil
      then show ?thesis using a Cons nb by (simp add: asterchar_def)
    next
      case (Cons b dn')
      have "res_ownok dn = (periodchar b \<and> res_hnok dn')"
        using nh True \<open>dn = a # rest\<close> Cons by simp
      then show ?thesis
        using res_hnok_pieces [of dn'] assms \<open>dn = a # rest\<close> Cons a nb nh h
        by (cases "pieces dn'") (auto split: if_splits)
    qed
  qed
qed

end
