(* ===== verification/Inet.thy ===== *)
theory Inet
  imports Res_Comp
begin

text \<open>
  \<open>inet_pton.c\<close> and \<open>inet_addr.c\<close>: textual addresses.  \<open>None\<close> is the return value 0, under which
  the destination is untouched; \<open>Some bytes\<close> is the return value 1 with the bytes written.
\<close>

unbundle bit_operations_syntax

section \<open>inet_pton4\<close>

text \<open>\<open>done\<close> holds \<open>tmp\<close> below \<open>tp\<close> and \<open>cur\<close> is \<open>*tp\<close>.\<close>

fun pton4_loop :: "cstring \<Rightarrow> u8 list \<Rightarrow> u8 \<Rightarrow> bool \<Rightarrow> nat \<Rightarrow> u8 list option" where
  "pton4_loop [] done cur saw_digit octets =
     (if octets < 4 then None else Some (take 4 (done @ [cur])))"
| "pton4_loop (ch # src) done cur saw_digit octets =
     (case digit_val ch of
        Some d \<Rightarrow>
          (let new = unat cur * 10 + d in
           if new > 255 then None
           else if \<not> saw_digit then
             (if octets + 1 > 4 then None
              else pton4_loop src done (of_nat new) True (octets + 1))
           else pton4_loop src done (of_nat new) saw_digit octets)
      | None \<Rightarrow>
          if ch = 0x2E \<and> saw_digit then
            (if octets = 4 then None else pton4_loop src (done @ [cur]) 0 False octets)
          else None)"

definition inet_pton4 :: "cstring \<Rightarrow> u8 list option" where
  "inet_pton4 src = pton4_loop src [] 0 False 0"

section \<open>inet_pton6\<close>

text \<open>\<open>pch - xdigits\<close> for the two digit strings.\<close>

definition xdigit_val :: "u8 \<Rightarrow> nat option" where
  "xdigit_val c =
     (if 0x30 \<le> c \<and> c \<le> 0x39 then Some (unat c - 0x30)
      else if 0x61 \<le> c \<and> c \<le> 0x66 then Some (unat c - 0x61 + 10)
      else if 0x41 \<le> c \<and> c \<le> 0x46 then Some (unat c - 0x41 + 10)
      else None)"

text \<open>\<open>*tp++ = val >> 8; *tp++ = val;\<close>.\<close>

definition put_group :: "u8 list \<Rightarrow> nat \<Rightarrow> u32 \<Rightarrow> u8 list" where
  "put_group tmp tp val = tmp[tp := ucast (drop_bit 8 val), tp + 1 := ucast val]"

text \<open>The state in which the loop ends: \<open>tmp\<close>, \<open>tp\<close>, \<open>colonp\<close>, \<open>saw_xdigit\<close>, \<open>val\<close>.\<close>

type_synonym pton6_state = "u8 list \<times> nat \<times> nat option \<times> bool \<times> u32"

fun pton6_loop ::
  "cstring \<Rightarrow> cstring \<Rightarrow> u8 list \<Rightarrow> nat \<Rightarrow> nat option \<Rightarrow> bool \<Rightarrow> u32 \<Rightarrow> pton6_state option" where
  "pton6_loop [] curtok tmp tp colonp saw val = Some (tmp, tp, colonp, saw, val)"
| "pton6_loop (ch # src) curtok tmp tp colonp saw val =
     (case xdigit_val ch of
        Some d \<Rightarrow>
          (let val = push_bit 4 val OR of_nat d in
           if val > 0xffff then None else pton6_loop src curtok tmp tp colonp True val)
      | None \<Rightarrow>
          if ch = 0x3A then
            (if \<not> saw then
               (if colonp \<noteq> None then None else pton6_loop src src tmp tp (Some tp) saw val)
             else if tp + 2 > 16 then None
             else pton6_loop src src (put_group tmp tp val) (tp + 2) colonp False 0)
          else if ch = 0x2E \<and> tp + 4 \<le> 16 then
            (case inet_pton4 curtok of
               Some q \<Rightarrow> Some (take tp tmp @ q @ drop (tp + 4) tmp, tp + 4, colonp, False, val)
             | None \<Rightarrow> None)
          else None)"

text \<open>\<open>for (i = 1; i <= n; i++) { endp[-i] = colonp[n - i]; colonp[n - i] = 0; }\<close>, from \<open>i\<close> on.\<close>

function shift_loop :: "nat \<Rightarrow> nat \<Rightarrow> nat \<Rightarrow> u8 list \<Rightarrow> u8 list" where
  "shift_loop i n colonp tmp =
     (if i \<le> n then
        shift_loop (i + 1) n colonp
          ((tmp[16 - i := tmp ! (colonp + n - i)]) [colonp + n - i := 0])
      else tmp)"
  by pat_completeness auto
termination
  by (relation "measure (\<lambda>(i, n, colonp, tmp). Suc n - i)") auto

declare shift_loop.simps [simp del]

definition pton6_finish :: "pton6_state \<Rightarrow> u8 list option" where
  "pton6_finish st =
     (case st of (tmp, tp, colonp, saw, val) \<Rightarrow>
        if saw \<and> tp + 2 > 16 then None
        else
          (let tmp = (if saw then put_group tmp tp val else tmp);
               tp = (if saw then tp + 2 else tp);
               tmp = (case colonp of None \<Rightarrow> tmp | Some c \<Rightarrow> shift_loop 1 (tp - c) c tmp);
               tp = (case colonp of None \<Rightarrow> tp | Some c \<Rightarrow> 16) in
           if tp \<noteq> 16 then None else Some tmp))"

definition inet_pton6 :: "cstring \<Rightarrow> u8 list option" where
  "inet_pton6 src =
     (let run = (\<lambda>src. Option.bind (pton6_loop src src (replicate 16 0) 0 None False 0) pton6_finish) in
      case src of
        [] \<Rightarrow> run []
      | c # rest \<Rightarrow>
          if c = 0x3A then
            (case rest of [] \<Rightarrow> None | d # _ \<Rightarrow> if d \<noteq> 0x3A then None else run rest)
          else run src)"

datatype address_family = AF_INET | AF_INET6 | AF_other

definition inet_pton :: "address_family \<Rightarrow> cstring \<Rightarrow> u8 list option cres" where
  "inet_pton af src =
     (case af of
        AF_INET \<Rightarrow> Inr (inet_pton4 src)
      | AF_INET6 \<Rightarrow> Inr (inet_pton6 src)
      | AF_other \<Rightarrow> Inl (Errno EAFNOSUPPORT))"

section \<open>inet_aton\<close>

text \<open>
  \<open>strtoul (s, &endptr, 0)\<close> of the C library, for a 32-bit \<open>unsigned long\<close>: the value or \<open>ERANGE\<close>,
  with the rest of the string; \<open>None\<close> when no conversion was made.
\<close>

fun digits_run :: "nat \<Rightarrow> cstring \<Rightarrow> nat \<Rightarrow> nat \<times> cstring" where
  "digits_run base [] acc = (acc, [])"
| "digits_run base (c # s) acc =
     (case xdigit_val c of
        Some d \<Rightarrow> if d < base then digits_run base s (acc * base + d) else (acc, c # s)
      | None \<Rightarrow> (acc, c # s))"

fun skip_space :: "cstring \<Rightarrow> cstring" where
  "skip_space [] = []"
| "skip_space (c # s) = (if isspace c then skip_space s else c # s)"

definition is_digit_of :: "nat \<Rightarrow> cstring \<Rightarrow> bool" where
  "is_digit_of base s =
     (case s of [] \<Rightarrow> False
      | c # _ \<Rightarrow> (case xdigit_val c of Some d \<Rightarrow> d < base | None \<Rightarrow> False))"

definition strtoul0 :: "cstring \<Rightarrow> (u32 cres \<times> cstring) option" where
  "strtoul0 s =
     (let s = skip_space s;
          neg = (s \<noteq> [] \<and> hd s = 0x2D);
          s = (if s \<noteq> [] \<and> (hd s = 0x2D \<or> hd s = 0x2B) then tl s else s);
          hex = (length s \<ge> 2 \<and> s ! 0 = 0x30 \<and> tolower (s ! 1) = 0x78 \<and> is_digit_of 16 (drop 2 s));
          base = (if hex then 16 else if s \<noteq> [] \<and> hd s = 0x30 then 8 else 10);
          s = (if hex then drop 2 s else s) in
      if \<not> is_digit_of base s then None
      else case digits_run base s 0 of (v, rest) \<Rightarrow>
        Some (if v > 0xffffffff then Inl (Errno ERANGE)
              else Inr (if neg then - of_nat v else of_nat v), rest))"

text \<open>The loop collects the parts; the last one is \<open>val\<close>.\<close>

function aton_loop :: "cstring \<Rightarrow> u32 list \<Rightarrow> u32 list option" where
  "aton_loop c parts =
     (case strtoul0 c of
        None \<Rightarrow> None
      | Some (Inl _, _) \<Rightarrow> None
      | Some (Inr val, c) \<Rightarrow>
          (case c of
             [] \<Rightarrow> Some (parts @ [val])
           | ch # rest \<Rightarrow>
               if ch = 0x2E then
                 (if length parts \<ge> 3 then None else aton_loop rest (parts @ [val]))
               else if isspace ch then Some (parts @ [val])
               else None))"
  by pat_completeness auto
termination
  by (relation "measure (\<lambda>(c, parts). 3 - length parts)") auto

declare aton_loop.simps [simp del]

definition aton_value :: "u32 list \<Rightarrow> u32 option" where
  "aton_value parts =
     (let n = length parts - 1; val = parts ! n in
      if n = 0 then Some val
      else if n = 1 then
        (if val > 0xffffff \<or> parts ! 0 > 0xff then None else Some (val OR push_bit 24 (parts ! 0)))
      else if n = 2 then
        (if val > 0xffff \<or> parts ! 0 > 0xff \<or> parts ! 1 > 0xff then None
         else Some (val OR (push_bit 24 (parts ! 0) OR push_bit 16 (parts ! 1))))
      else
        (if val > 0xff \<or> parts ! 0 > 0xff \<or> parts ! 1 > 0xff \<or> parts ! 2 > 0xff then None
         else Some (val OR (push_bit 24 (parts ! 0) OR push_bit 16 (parts ! 1) OR push_bit 8 (parts ! 2)))))"

text \<open>The bytes of \<open>addr->s_addr = htonl (val)\<close>, and \<open>inet_addr\<close> with its \<open>INADDR_NONE\<close>.\<close>

definition inet_aton :: "cstring \<Rightarrow> u8 list option" where
  "inet_aton cp =
     Option.bind (aton_loop cp []) (\<lambda>parts. map_option put32_bytes (aton_value parts))"

definition inet_addr :: "cstring \<Rightarrow> u8 list" where
  "inet_addr cp = (case inet_aton cp of Some a \<Rightarrow> a | None \<Rightarrow> [0xff, 0xff, 0xff, 0xff])"

section \<open>inet_pton4 accepts dotted quads\<close>

fun dec_val :: "cstring \<Rightarrow> nat \<Rightarrow> nat" where
  "dec_val [] acc = acc"
| "dec_val (c # s) acc = dec_val s (acc * 10 + (case digit_val c of Some d \<Rightarrow> d | None \<Rightarrow> 0))"

definition octet :: "cstring \<Rightarrow> bool" where
  "octet s \<longleftrightarrow> s \<noteq> [] \<and> list_all isdigit s \<and> dec_val s 0 < 256"

lemma isdigit_val: "isdigit c \<longleftrightarrow> digit_val c \<noteq> None"
  by (simp add: isdigit_def digit_val_def)

lemma dec_val_mono: "acc \<le> dec_val s acc"
proof (induction s arbitrary: acc)
  case (Cons c s)
  have "acc \<le> acc * 10 + (case digit_val c of Some d \<Rightarrow> d | None \<Rightarrow> 0)" by simp
  also have "\<dots> \<le> dec_val (c # s) acc" using Cons.IH by simp
  finally show ?case .
qed simp

lemma period_not_digit: "periodchar c \<Longrightarrow> digit_val c = None"
  by (simp add: periodchar_def digit_val_def)

text \<open>What the loop computes from the middle of an octet, in terms of the pieces between the dots.\<close>

lemma pton4_digit:
  assumes "isdigit c" "saw \<longrightarrow> 0 < octets"
  shows "pton4_loop (c # s) done cur saw octets =
    (let new = unat cur * 10 + the (digit_val c) in
     if new > 255 \<or> \<not> saw \<and> octets \<ge> 4 then None
     else pton4_loop s done (of_nat new) True (if saw then octets else octets + 1))"
  using assms by (auto simp: isdigit_val Let_def)

lemma pton4_pieces:
  assumes "octets = length done + (if saw then 1 else 0)" "length done < 4" "saw \<or> cur = 0"
  shows "pton4_loop s done cur saw octets =
    (let p = hd (pieces s); ps = tl (pieces s) in
     if length done + 1 + length ps = 4 \<and> (saw \<or> p \<noteq> []) \<and> list_all isdigit p
        \<and> dec_val p (unat cur) < 256 \<and> list_all octet ps
     then Some (done @ of_nat (dec_val p (unat cur)) # map (\<lambda>p. of_nat (dec_val p 0)) ps)
     else None)"
  using assms
proof (induction s arbitrary: "done" cur saw octets)
  case Nil
  then show ?case by (auto simp: Let_def)
next
  case (Cons c s)
  obtain p ps where ps: "pieces s = p # ps" by (cases "pieces s") auto
  show ?case
  proof (cases "periodchar c")
    case True
    then show ?thesis
      using Cons.prems Cons.IH [of "length done + 1" "done @ [cur]" False 0] ps period_not_digit [OF True]
      by (auto simp: Let_def octet_def periodchar_def)
  next
    case False
    show ?thesis
    proof (cases "isdigit c")
      case True
      define new where "new = unat cur * 10 + the (digit_val c)"
      have dv: "dec_val (c # p) (unat cur) = dec_val p new"
        using True by (auto simp: new_def isdigit_val)
      have big: "new > 255 \<Longrightarrow> \<not> dec_val p new < 256" using dec_val_mono [of new p] by simp
      show ?thesis
        using Cons.IH [of "if saw then octets else octets + 1" "done" True "of_nat new"]
          pton4_digit [OF True, of saw octets s "done" cur] Cons.prems ps False True dv big
        by (auto simp: Let_def new_def [symmetric] simp del: pton4_loop.simps dec_val.simps)
    next
      case nd: False
      then show ?thesis using False ps by (auto simp: isdigit_val periodchar_def Let_def)
    qed
  qed
qed

lemma inet_pton4_pieces:
  "inet_pton4 s = (if length (pieces s) = 4 \<and> list_all octet (pieces s)
     then Some (map (\<lambda>p. of_nat (dec_val p 0)) (pieces s)) else None)"
  using pton4_pieces [of 0 "[]" False 0 s]
  by (cases "pieces s") (auto simp: inet_pton4_def octet_def Let_def)

section \<open>inet_pton6\<close>

fun hex_val :: "cstring \<Rightarrow> nat \<Rightarrow> nat" where
  "hex_val [] acc = acc"
| "hex_val (c # s) acc = hex_val s (acc * 16 + (case xdigit_val c of Some d \<Rightarrow> d | None \<Rightarrow> 0))"

definition group :: "cstring \<Rightarrow> bool" where
  "group g \<longleftrightarrow> g \<noteq> [] \<and> list_all (\<lambda>c. xdigit_val c \<noteq> None) g \<and> hex_val g 0 < 65536"

definition group_bytes :: "cstring \<Rightarrow> u8 list" where
  "group_bytes g = [of_nat (hex_val g 0 div 256), of_nat (hex_val g 0 mod 256)]"

fun colons :: "cstring list \<Rightarrow> cstring" where
  "colons [] = []"
| "colons [g] = g"
| "colons (g # gs) = g @ 0x3A # colons gs"

lemma group_examples [simp]:
  "group [0x66, 0x65]" "group [0x31]" "group [0x32]"
  "group_bytes [0x66, 0x65] = [0, 0xfe]" "group_bytes [0x31] = [0, 1]" "group_bytes [0x32] = [0, 2]"
  by (simp_all add: group_def group_bytes_def xdigit_val_def)

lemma xdigit_less: "xdigit_val c = Some d \<Longrightarrow> d < 16"
  by (auto simp: xdigit_val_def word_le_nat_alt split: if_splits)

lemma hex_val_mono: "acc \<le> hex_val s acc"
proof (induction s arbitrary: acc)
  case (Cons c s)
  have "acc \<le> acc * 16 + (case xdigit_val c of Some d \<Rightarrow> d | None \<Rightarrow> 0)" by simp
  also have "\<dots> \<le> hex_val (c # s) acc" using Cons.IH by simp
  finally show ?case .
qed simp

lemma xdigit_colon [simp]: "xdigit_val 0x3A = None"
  by code_simp

text \<open>Appending a digit to \<open>val\<close>.\<close>

lemma push_digit:
  assumes "v < 65536" "d < 16"
  shows "push_bit 4 (of_nat v) OR of_nat d = (of_nat (v * 16 + d) :: u32)"
proof -
  have "\<not> bit (of_nat d :: u32) n" if "4 \<le> n" for n
  proof -
    have "d div 2 ^ n = 0" using assms(2) that power_increasing [OF that, of "2::nat"] by simp
    then have "\<not> bit d n" by (simp add: bit_iff_odd)
    then show ?thesis by (simp add: bit_of_nat_iff)
  qed
  then have "push_bit 4 (of_nat v :: u32) OR of_nat d = push_bit 4 (of_nat v) + of_nat d"
    by (intro disjunctive_add [symmetric]) (auto simp: bit_simps)
  then show ?thesis by (simp add: push_bit_eq_mult algebra_simps)
qed

lemma of_nat_u32_le: "n < 2 ^ 32 \<Longrightarrow> m < 2 ^ 32 \<Longrightarrow> (of_nat n > (of_nat m :: u32)) \<longleftrightarrow> n > m"
  by (simp add: word_less_nat_alt unat_of_nat take_bit_eq_mod)

lemma pton6_group:
  assumes "list_all (\<lambda>c. xdigit_val c \<noteq> None) g" "hex_val g v < 65536"
  shows "pton6_loop (g @ rest) curtok tmp tp colonp saw (of_nat v)
    = pton6_loop rest curtok tmp tp colonp (saw \<or> g \<noteq> []) (of_nat (hex_val g v))"
  using assms
proof (induction g arbitrary: v saw)
  case (Cons c g)
  then obtain d where d: "xdigit_val c = Some d" by auto
  have h: "hex_val g (v * 16 + d) < 65536" using Cons.prems(2) d by simp
  then have v: "v * 16 + d < 65536" using hex_val_mono [of "v * 16 + d" g] by simp
  then have "push_bit 4 (of_nat v) OR of_nat d = (of_nat (v * 16 + d) :: u32)"
    by (intro push_digit) (use xdigit_less [OF d] in auto)
  moreover have "\<not> (of_nat (v * 16 + d) > (0xffff :: u32))"
    using of_nat_u32_le [of "v * 16 + d" "0xffff"] v by simp
  ultimately show ?case using Cons.IH [OF _ h, of True] Cons.prems(1) d
    by (simp add: Let_def del: of_nat_add of_nat_mult)
qed simp

lemma group_bytes_word:
  assumes "n < 65536"
  shows "ucast (drop_bit 8 (of_nat n :: u32)) = (of_nat (n div 256) :: u8)"
    "ucast (of_nat n :: u32) = (of_nat (n mod 256) :: u8)"
proof -
  have u: "unat (of_nat n :: u32) = n" using assms by (simp add: unat_of_nat take_bit_eq_mod)
  have "unat (drop_bit 8 (of_nat n :: u32)) = drop_bit 8 (unat (of_nat n :: u32))"
    by (rule unat_drop_bit_eq)
  then have "unat (drop_bit 8 (of_nat n :: u32)) = n div 256"
    unfolding u by (simp add: drop_bit_eq_div)
  then show "ucast (drop_bit 8 (of_nat n :: u32)) = (of_nat (n div 256) :: u8)"
    by (metis of_nat_unat)
  have "(of_nat n :: u8) = of_nat (n mod 256)"
    by (rule word_of_nat_eq_iff [THEN iffD2]) (simp add: take_bit_eq_mod)
  then show "ucast (of_nat n :: u32) = (of_nat (n mod 256) :: u8)"
    by (metis u of_nat_unat)
qed

text \<open>The buffer: the groups written so far, then zeros.\<close>

definition buf :: "u8 list \<Rightarrow> u8 list" where
  "buf out = out @ replicate (16 - length out) 0"

lemma put_group_buf:
  assumes "hex_val g 0 < 65536" "length out + 2 \<le> 16"
  shows "put_group (buf out) (length out) (of_nat (hex_val g 0)) = buf (out @ group_bytes g)"
proof -
  have "16 - length out = Suc (Suc (14 - length out))" using assms(2) by simp
  then show ?thesis
    using group_bytes_word [OF assms(1)]
    by (simp add: put_group_def buf_def list_update_append group_bytes_def)
qed

lemma pton6_groups:
  assumes "list_all group gs" "length out + 2 * length gs \<le> 16" "gs \<noteq> []"
  shows "pton6_loop (colons gs @ rest) curtok (buf out) (length out) colonp False 0
    = pton6_loop rest (if length gs = 1 then curtok else last gs @ rest)
        (buf (out @ concat (map group_bytes (butlast gs)))) (length out + 2 * (length gs - 1)) colonp
        True (of_nat (hex_val (last gs) 0))"
  using assms
proof (induction gs arbitrary: out curtok rule: colons.induct)
  case (2 g)
  then show ?case using pton6_group [of g 0 rest] by (simp add: group_def)
next
  case (3 g h gs)
  have g: "list_all (\<lambda>c. xdigit_val c \<noteq> None) g" "hex_val g 0 < 65536" "g \<noteq> []"
    using "3.prems" by (auto simp: group_def)
  let ?src = "colons (h # gs) @ rest"
  have "pton6_loop (g @ 0x3A # ?src) curtok (buf out) (length out) colonp False 0
      = pton6_loop ?src ?src (buf (out @ group_bytes g)) (length (out @ group_bytes g)) colonp False 0"
    using pton6_group [OF g(1,2), of "0x3A # ?src"] g(3) put_group_buf [OF g(2), of out] "3.prems"(2)
    by (simp add: group_bytes_def)
  then show ?case
    using "3.IH" [of "out @ group_bytes g" ?src] "3.prems"
    by (cases gs) (auto simp: group_bytes_def)
qed simp

lemma pton6_finish_groups:
  assumes "group g" "length out + 2 \<le> 16"
  shows "pton6_finish (buf out, length out, colonp, True, of_nat (hex_val g 0))
    = pton6_finish (buf (out @ group_bytes g), length (out @ group_bytes g), colonp, False, v)"
  using put_group_buf [of g out] assms
  by (simp add: pton6_finish_def group_def Let_def)
     (auto simp: group_bytes_def split: option.splits)

lemma length_group_bytes [simp]: "length (group_bytes g) = 2"
  by (simp add: group_bytes_def)

lemma length_groups [simp]: "length (concat (map group_bytes gs)) = 2 * length gs"
  by (induction gs) simp_all

lemma groups_split:
  "gs \<noteq> [] \<Longrightarrow> concat (map group_bytes gs) = concat (map group_bytes (butlast gs)) @ group_bytes (last gs)"
  by (induction gs) auto

text \<open>Parsing groups up to the end of the text.\<close>

lemma pton6_tail:
  assumes "list_all group gs" "length out + 2 * length gs \<le> 16"
  shows "Option.bind (pton6_loop (colons gs) curtok (buf out) (length out) colonp False 0) pton6_finish
    = pton6_finish (buf (out @ concat (map group_bytes gs)), length out + 2 * length gs, colonp, False, 0)"
proof (cases "gs = []")
  case False
  then obtain k where l: "group (last gs)" "length gs = Suc k"
    using assms(1) by (cases gs) (auto simp: list_all_iff)
  have "length (out @ concat (map group_bytes (butlast gs))) = length out + 2 * (length gs - 1)" by simp
  then show ?thesis
    using pton6_groups [OF assms False, of "[]" curtok colonp]
      pton6_finish_groups [OF l(1), of "out @ concat (map group_bytes (butlast gs))" colonp 0]
      assms(2) l(2) groups_split [OF False]
    by simp
qed simp

text \<open>The eight groups of a full address.\<close>

lemma colons_hd: "list_all group (g # gs) \<Longrightarrow> hd (colons (g # gs)) \<noteq> 0x3A \<and> colons (g # gs) \<noteq> []"
  by (cases gs; cases g) (auto simp: group_def)

text \<open>inet_pton6 reads eight groups of hexadecimal digits, each at most 0xffff, as their sixteen
  bytes in network order.\<close>

theorem inet_pton6_full:
  assumes "list_all group gs" "length gs = 8"
  shows "inet_pton6 (colons gs) = Some (concat (map group_bytes gs))"
proof -
  obtain g gs' where gs: "gs = g # gs'" using assms(2) by (cases gs) auto
  have r: "replicate 16 0 = buf []" by (simp add: buf_def)
  have "inet_pton6 (colons gs)
      = Option.bind (pton6_loop (colons gs) (colons gs) (buf []) 0 None False 0) pton6_finish"
    using colons_hd [of g gs'] assms(1) gs unfolding inet_pton6_def r
    by (cases "colons gs") auto
  then show ?thesis
    using pton6_tail [OF assms(1), of "[]"] assms(2)
    by (simp add: pton6_finish_def Let_def buf_def)
qed

theorem inet_pton6_full_witness:
  "inet_pton6 (colons (replicate 8 [0x66, 0x65])) = Some (concat (replicate 8 [0, 0xfe]))"
  using inet_pton6_full [of "replicate 8 [0x66, 0x65]"] by (simp add: list_all_iff)

text \<open>The hand-made \<open>memmove\<close> after a double colon.\<close>

lemma shift_loop_moves:
  assumes "length A + length B + length C + d = 16" "0 < d"
  shows "shift_loop (Suc (length C)) (length B + length C) (length A) (A @ B @ replicate d 0 @ C)
    = A @ replicate d 0 @ B @ C"
  using assms
proof (induction B arbitrary: C rule: rev_induct)
  case Nil
  then show ?case by (subst shift_loop.simps) simp
next
  case (snoc b B)
  obtain k where d: "d = Suc k" using snoc.prems(2) by (cases d) auto
  have z: "replicate d (0 :: u8) = replicate k 0 @ [0]" by (simp add: d replicate_append_same)
  let ?mem = "A @ (B @ [b]) @ replicate d 0 @ C"
  have src: "length A + length (B @ [b]) + length C - Suc (length C) = length (A @ B)" by simp
  have dst: "16 - Suc (length C) = length (A @ B @ [b] @ replicate k 0)" using snoc.prems d by simp
  have rd: "?mem ! length (A @ B) = b" by (simp add: nth_append)
  have "?mem = (A @ B @ [b] @ replicate k 0) @ 0 # C" by (simp add: z)
  then have m1: "?mem[length (A @ B @ [b] @ replicate k 0) := b] = (A @ B @ [b] @ replicate k 0) @ b # C"
    by (simp only: list_update_length)
  have "((A @ B) @ b # (replicate k 0 @ b # C)) [length (A @ B) := 0] = (A @ B) @ 0 # (replicate k 0 @ b # C)"
    by (simp only: list_update_length)
  then have m2: "(?mem[16 - Suc (length C) := ?mem ! (length A + length (B @ [b]) + length C - Suc (length C))])
      [length A + length (B @ [b]) + length C - Suc (length C) := 0] = A @ B @ replicate d 0 @ b # C"
    using m1 unfolding src dst rd d by simp
  have "shift_loop (Suc (length C)) (length (B @ [b]) + length C) (length A) ?mem
      = shift_loop (Suc (length (b # C))) (length B + length (b # C)) (length A) (A @ B @ replicate d 0 @ b # C)"
    using m2 by (subst shift_loop.simps) (simp add: add.assoc)
  also have "\<dots> = A @ replicate d 0 @ B @ b # C"
    by (rule snoc.IH) (use snoc.prems in auto)
  finally show ?case by simp
qed

text \<open>An address abbreviated with a double colon, unless the two sides already fill it.\<close>

text \<open>inet_pton6 reads an address with one double colon as its groups with as many zero groups as
  make 16 bytes in place of the double colon.\<close>

theorem inet_pton6_abbreviated:
  assumes "list_all group as" "list_all group bs" "length as + length bs < 8"
  shows "inet_pton6 (colons as @ [0x3A, 0x3A] @ colons bs)
    = Some (concat (map group_bytes as) @ replicate (16 - 2 * (length as + length bs)) 0
        @ concat (map group_bytes bs))"
proof -
  let ?A = "concat (map group_bytes as)" and ?B = "concat (map group_bytes bs)"
  let ?src = "colons as @ [0x3A, 0x3A] @ colons bs"
  have r: "replicate 16 0 = buf []" by (simp add: buf_def)
  have "inet_pton6 ?src = Option.bind (pton6_loop (colons bs) (colons bs) (buf ?A) (length ?A)
      (Some (length ?A)) False 0) pton6_finish"
  proof (cases as)
    case Nil
    then show ?thesis unfolding inet_pton6_def r by (simp add: buf_def)
  next
    case (Cons a as')
    let ?rest = "[0x3A, 0x3A] @ colons bs"
    have h: "hd ?src \<noteq> 0x3A" "?src \<noteq> []"
      using colons_hd [of a as'] assms(1) Cons by (auto simp: hd_append)
    have l: "hex_val (last as) 0 < 65536" using assms(1) Cons by (auto simp: list_all_iff group_def)
    obtain m where m: "length as = Suc m" "as \<noteq> []" using Cons by simp
    have put: "put_group (buf (concat (map group_bytes (butlast as)))) (2 * (length as - 1))
        (of_nat (hex_val (last as) 0)) = buf ?A"
      using put_group_buf [OF l, of "concat (map group_bytes (butlast as))"] assms(3) m groups_split [of as]
      by simp
    have "pton6_loop ?src ?src (buf []) 0 None False 0
      = pton6_loop (colons bs) (colons bs) (buf ?A) (length ?A) (Some (length ?A)) False 0"
      using pton6_groups [OF assms(1), of "[]" ?rest ?src None] put assms(3) m
      by simp
    then show ?thesis
      using h unfolding inet_pton6_def r by (cases ?src) (auto simp: Let_def)
  qed
  also have "\<dots> = pton6_finish (buf (?A @ ?B), length ?A + 2 * length bs, Some (length ?A), False, 0)"
    by (rule pton6_tail [OF assms(2)]) (use assms(3) in simp)
  also have "\<dots> = Some (?A @ replicate (16 - 2 * (length as + length bs)) 0 @ ?B)"
    using shift_loop_moves [of ?A ?B "[]" "16 - 2 * (length as + length bs)"] assms(3)
    by (simp add: pton6_finish_def Let_def buf_def)
  finally show ?thesis .
qed

theorem inet_pton6_abbreviated_witness:
  "inet_pton6 [0x31, 0x3A, 0x3A, 0x32] = Some ([0, 1] @ replicate 12 0 @ [0, 2])"
  using inet_pton6_abbreviated [of "[[0x31]]" "[[0x32]]"] by simp

text \<open>What \<open>inet_pton6\<close> stores is a whole address.\<close>

lemma pton4_length: "inet_pton4 s = Some q \<Longrightarrow> length q = 4"
  by (auto simp: inet_pton4_pieces split: if_splits)

lemma pton6_loop_inv:
  assumes "pton6_loop src curtok tmp tp colonp saw val = Some (tmp', tp', colonp', saw', val')"
    "length tmp = 16" "tp \<le> 16" "colonp = None \<or> the colonp \<le> tp"
  shows "length tmp' = 16 \<and> tp' \<le> 16 \<and> (colonp' = None \<or> the colonp' \<le> tp')"
  using assms
proof (induction src curtok tmp tp colonp saw val rule: pton6_loop.induct)
  case (2 ch src curtok tmp tp colonp saw val)
  then show ?case
    by (auto simp: Let_def put_group_def dest!: pton4_length split: option.splits if_splits dest: le_SucI)
qed auto

lemma length_shift_loop [simp]: "length (shift_loop i n c tmp) = length tmp"
  by (induction i n c tmp rule: shift_loop.induct) (subst shift_loop.simps, simp)

lemma inet_pton6_length:
  assumes "inet_pton6 s = Some q"
  shows "length q = 16"
proof -
  obtain src st where st: "pton6_loop src src (replicate 16 0) 0 None False 0 = Some st" "pton6_finish st = Some q"
    using assms by (auto simp: inet_pton6_def Let_def bind_eq_Some_conv simp del: pton6_loop.simps
        split: list.splits if_splits)
  obtain tmp tp colonp saw val where p: "st = (tmp, tp, colonp, saw, val)" by (cases st)
  have "length tmp = 16" using pton6_loop_inv [of src src _ 0 None False 0] st(1) p by force
  then show ?thesis using st(2) p
    by (auto simp: pton6_finish_def Let_def put_group_def split: if_splits option.splits)
qed

text \<open>
  Two texts that should be refused or read otherwise: a colon at the end, and a double colon in a
  full address, which wipes what follows it.
\<close>

lemma pton6_trailing_colon:
  "inet_pton6 (ascii ''1:2:3:4:5:6:7:8:'') = Some [0, 1, 0, 2, 0, 3, 0, 4, 0, 5, 0, 6, 0, 7, 0, 8]"
  by code_simp

text \<open>A double colon in an address that already has eight groups is not ignored: inet_pton6
  replaces the groups after it by zeros.\<close>

theorem pton6_full_double_colon:
  "inet_pton6 (ascii ''1:2:3:4::5:6:7:8'') = Some [0, 1, 0, 2, 0, 3, 0, 4, 0, 0, 0, 0, 0, 0, 0, 0]"
  by code_simp

section \<open>inet_aton agrees with inet_pton4\<close>

text \<open>A decimal octet without a leading zero, which \<open>strtoul\<close> would read in octal.\<close>

definition plain_octet :: "cstring \<Rightarrow> bool" where
  "plain_octet s \<longleftrightarrow> octet s \<and> (hd s = 0x30 \<longrightarrow> s = [0x30])"

lemma digit_val_xdigit: "digit_val c = Some d \<Longrightarrow> xdigit_val c = Some d \<and> d < 10"
  by (auto simp: digit_val_def xdigit_val_def word_le_nat_alt split: if_splits)

lemma digits_run_dec:
  assumes "list_all isdigit s" "\<not> is_digit_of 10 rest"
  shows "digits_run 10 (s @ rest) acc = (dec_val s acc, rest)"
  using assms(1)
proof (induction s arbitrary: acc)
  case Nil
  then show ?case using assms(2) by (cases rest) (auto simp: is_digit_of_def split: option.splits)
next
  case (Cons c s)
  then obtain d where "digit_val c = Some d" by (auto simp: isdigit_val)
  then show ?case using Cons digit_val_xdigit [of c d] by simp
qed

lemma digit_not_blank: "isdigit c \<Longrightarrow> \<not> isspace c \<and> c \<noteq> 0x2D \<and> c \<noteq> 0x2B"
  by (auto simp: isdigit_def isspace_def word_le_nat_alt)

lemma strtoul0_plain:
  assumes "x \<noteq> []" "\<not> isspace (hd x)" "hd x \<noteq> 0x2D" "hd x \<noteq> 0x2B"
    "\<not> (length x \<ge> 2 \<and> x ! 0 = 0x30 \<and> tolower (x ! 1) = 0x78)"
    "base = (if hd x = 0x30 then 8 else 10)" "is_digit_of base x"
    "digits_run base x 0 = (v, rest)" "v \<le> 0xffffffff"
  shows "strtoul0 x = Some (Inr (of_nat v), rest)"
proof -
  have "skip_space x = x" using assms(1,2) by (cases x) auto
  then show ?thesis using assms by (auto simp: strtoul0_def Let_def)
qed

lemma strtoul0_octet:
  assumes "plain_octet s" "rest = [] \<or> (\<exists>r. rest = 0x2E # r)"
  shows "strtoul0 (s @ rest) = Some (Inr (of_nat (dec_val s 0)), rest)"
proof -
  obtain c s' where s: "s = c # s'" "isdigit c" "list_all isdigit s'"
    using assms(1) by (cases s) (auto simp: plain_octet_def octet_def)
  obtain d where d: "digit_val c = Some d" using s(2) by (auto simp: isdigit_val)
  note c = digit_not_blank [OF s(2)]
  have nr: "\<not> is_digit_of b rest" for b
    using assms(2) by (auto simp: is_digit_of_def xdigit_val_def)
  have small: "dec_val s 0 \<le> 0xffffffff" using assms(1) by (simp add: plain_octet_def octet_def)
  have zero: "s = [0x30]" if "c = 0x30" using assms(1) s(1) that by (simp add: plain_octet_def)
  have run: "digits_run (if c = 0x30 then 8 else 10) (s @ rest) 0 = (dec_val s 0, rest)"
  proof (cases "c = 0x30")
    case True
    then show ?thesis using zero nr [of 8]
      by (cases rest) (auto simp: is_digit_of_def xdigit_val_def digit_val_def split: option.splits)
  next
    case False
    then show ?thesis by (simp, intro digits_run_dec) (use s nr in auto)
  qed
  have dig: "is_digit_of (if c = 0x30 then 8 else 10) (s @ rest)"
    using s(1) digit_val_xdigit [OF d] d by (auto simp: is_digit_of_def digit_val_def)
  have nohex: "\<not> (length (s @ rest) \<ge> 2 \<and> (s @ rest) ! 0 = 0x30 \<and> tolower ((s @ rest) ! 1) = 0x78)"
    using zero s(1) assms(2) by (auto simp: tolower_def isupper_def)
  show ?thesis
    by (rule strtoul0_plain [OF _ _ _ _ nohex _ dig run small]) (use s(1) c in simp_all)
qed

lemma aton_loop_octet:
  assumes "plain_octet s" "length parts < 3"
  shows "aton_loop (s @ 0x2E # rest) parts = aton_loop rest (parts @ [of_nat (dec_val s 0)])"
  using strtoul0_octet [OF assms(1), of "0x2E # rest"] assms(2)
  by (subst aton_loop.simps) simp

lemma aton_loop_last:
  "plain_octet s \<Longrightarrow> aton_loop s parts = Some (parts @ [of_nat (dec_val s 0)])"
  using strtoul0_octet [of s "[]"] by (subst aton_loop.simps) simp

lemma byte_word:
  assumes "n < 256"
  shows "(of_nat n :: u32) = ucast (of_nat n :: u8)" "\<not> (of_nat n > (0xff :: u32))"
proof -
  have "unat (of_nat n :: u8) = n" using assms by simp
  then show "(of_nat n :: u32) = ucast (of_nat n :: u8)" by (metis of_nat_unat)
  show "\<not> (of_nat n > (0xff :: u32))" using of_nat_u32_le [of n 255] assms by simp
qed

lemma put32_join:
  "put32_bytes (ucast d OR (push_bit 24 (ucast a) OR push_bit 16 (ucast b) OR push_bit 8 (ucast c)))
    = [a, b, c, d :: u8]"
proof -
  have "(ucast (drop_bit 24 (ucast d OR (push_bit 24 (ucast a) OR push_bit 16 (ucast b)
      OR push_bit 8 (ucast c :: u32)))) :: u8) = a"
    by (rule bit_word_eqI) (auto simp: bit_simps dest: bit_imp_le_length)
  moreover have "(ucast (drop_bit 16 (ucast d OR (push_bit 24 (ucast a) OR push_bit 16 (ucast b)
      OR push_bit 8 (ucast c :: u32)))) :: u8) = b"
    by (rule bit_word_eqI) (auto simp: bit_simps dest: bit_imp_le_length)
  moreover have "(ucast (drop_bit 8 (ucast d OR (push_bit 24 (ucast a) OR push_bit 16 (ucast b)
      OR push_bit 8 (ucast c :: u32)))) :: u8) = c"
    by (rule bit_word_eqI) (auto simp: bit_simps dest: bit_imp_le_length)
  moreover have "(ucast (ucast d OR (push_bit 24 (ucast a) OR push_bit 16 (ucast b)
      OR push_bit 8 (ucast c :: u32))) :: u8) = d"
    by (rule bit_word_eqI) (auto simp: bit_simps dest: bit_imp_le_length)
  ultimately show ?thesis by (simp only: put32_bytes_def)
qed

text \<open>inet_aton reads a dotted quad without leading zeros as inet_pton4 does, as its four bytes.\<close>

theorem inet_aton_quad:
  assumes "plain_octet a" "plain_octet b" "plain_octet c" "plain_octet d"
  shows "inet_aton (a @ 0x2E # b @ 0x2E # c @ 0x2E # d)
    = Some (map (\<lambda>p. of_nat (dec_val p 0)) [a, b, c, d])"
proof -
  have lt: "dec_val x 0 < 256" if "plain_octet x" for x using that by (simp add: plain_octet_def octet_def)
  note bw = lt [OF assms(1), THEN byte_word(2)] lt [OF assms(2), THEN byte_word(2)]
    lt [OF assms(3), THEN byte_word(2)] lt [OF assms(4), THEN byte_word(2)]
  have "aton_value (map (\<lambda>p. of_nat (dec_val p 0)) [a, b, c, d])
      = Some (of_nat (dec_val d 0) OR (push_bit 24 (of_nat (dec_val a 0)) OR
          push_bit 16 (of_nat (dec_val b 0)) OR push_bit 8 (of_nat (dec_val c 0))))"
    using bw by (simp add: aton_value_def)
  then show ?thesis
    unfolding inet_aton_def
    by (simp add: aton_loop_octet aton_loop_last assms
        lt [OF assms(1), THEN byte_word(1)] lt [OF assms(2), THEN byte_word(1)]
        lt [OF assms(3), THEN byte_word(1)] lt [OF assms(4), THEN byte_word(1)] put32_join)
qed

theorem inet_aton_quad_witness: "inet_aton (ascii ''127.0.0.1'') = Some [127, 0, 0, 1]"
proof -
  have *: "plain_octet (ascii ''127'')" "plain_octet (ascii ''0'')" "plain_octet (ascii ''1'')"
    "ascii ''127'' @ 0x2E # ascii ''0'' @ 0x2E # ascii ''0'' @ 0x2E # ascii ''1'' = ascii ''127.0.0.1''"
    "map (\<lambda>p. of_nat (dec_val p 0)) [ascii ''127'', ascii ''0'', ascii ''0'', ascii ''1''] = [127, 0, 0, 1 :: u8]"
    by code_simp+
  show ?thesis using inet_aton_quad [OF *(1,2,2,3)] by (simp only: *)
qed

text \<open>inet_pton4 accepts exactly four dot-separated decimal numbers of 0 to 255, leading zeros
  allowed, and gives their values.\<close>

theorem inet_pton4_spec:
  "inet_pton4 s = (if length (pieces s) = 4 \<and> list_all octet (pieces s)
     then Some (map (\<lambda>p. of_nat (dec_val p 0)) (pieces s)) else None)"
  by (rule inet_pton4_pieces)

end
