(* ===== verification/Dread.thy ===== *)
theory Dread
  imports Prelude
begin

text \<open>
  \<open>dread.c\<close>: coroutine threads.  A C function is a function on the scheduler state; a context
  saved by \<open>dthr_save_ctxt\<close> is the list of what its thread still has to do (\<open>frames\<close>), so a
  context switch stores one such list in a stack descriptor and continues with another.  What a
  thread function does is the list of the library calls it makes; it is a parameter.
  Chains are the lists they represent (\<open>Chain\<close>).  \<open>dthr_on_deadlock\<close> is NULL, its initial value.
\<close>

section \<open>Data\<close>

type_synonym tid = nat
type_synonym stkid = nat

text \<open>\<open>dthr_topmost_thread\<close> and \<open>dthr_topmost_stack\<close>.\<close>

abbreviation (input) topmost_thread :: tid where "topmost_thread \<equiv> 0"
abbreviation (input) topmost_stack :: stkid where "topmost_stack \<equiv> 0"

datatype sema_id = Newq_sema | Exit_sema tid | Freed_sema | Num_sema | User_sema nat
datatype event_id = Newq_event | Freed_event | User_event nat
datatype th_state = TH_EXITED | TH_RUNNABLE | TH_SEMA_WAIT | TH_EVENT_WAIT

text \<open>The anchors a thread's link can be chained to.\<close>

datatype place = Runq | Newq | Sema_q sema_id | Event_q event_id

text \<open>
  What a thread still has to do: calls of the library, and the points inside the library where a
  context can be saved.
\<close>

datatype instr =
    Yield | Take sema_id | Take_ny sema_id | Drop sema_id | Drop_ny sema_id | Try sema_id
  | Event_wait event_id sema_id | Broadcast event_id | Broadcast_ny event_id
  | Signal event_id | Signal_ny event_id
  | Thread_init tid code int | On_exit tid exit_fn | Run tid | Newq_put tid | Wait tid | Detach tid
  | Exit int | DThr_Run "code option" int
  | Launcher | Scan | Csw_return stkid | Launch stkid | Fn_return tid int | Leave tid
  | Mark_on_exit tid | Push_freed tid | Reap_loop | Multi_loop
and code = Fn "instr list" int | DThr_MultiThread
and exit_fn = Mark_of_death | Exit_fn "instr list"

record thread =
  th_magic :: bool
  fn :: "code option"
  th_stack_size :: int
  state :: th_state
  stack :: "stkid option"
  on_exit :: "exit_fn list"
  exit_value :: int

text \<open>\<open>regs\<close> and \<open>base\<close> are \<open>None\<close> when their magic numbers are wrong.\<close>

record stack_desc =
  stack_size :: int
  stack_base :: int
  stack_top :: int
  owner :: tid
  regs :: "instr list option"
  base :: "instr list option"

text \<open>
  \<open>semas k\<close> is the value of an initialised semaphore; \<open>events\<close> the initialised events;
  \<open>sp\<close> the address of the launcher's frame, \<open>frame_bytes + 1\<close> what a call of
  \<open>dthr_new_topmost_thread\<close> takes of the stack; \<open>mem_left\<close> the allocations that will succeed.
\<close>

record sched =
  cur :: "tid option"
  threads :: "tid \<Rightarrow> thread option"
  stacks :: "stkid \<Rightarrow> stack_desc option"
  semas :: "sema_id \<Rightarrow> int option"
  events :: "event_id \<Rightarrow> bool"
  queue :: "place \<Rightarrow> tid list"
  active_stacks :: "stkid list"
  free_stacks :: "stkid list"
  frames :: "instr list"
  deadlock_saved :: bool
  next_tid :: tid
  next_stk :: stkid
  mem_left :: nat
  sp :: int
  frame_bytes :: nat
  thread_q :: "tid list"
  to_be_freed :: "tid list"
  dthr_state :: nat

section \<open>Access\<close>

definition enqueue :: "place \<Rightarrow> tid \<Rightarrow> sched \<Rightarrow> sched" where
  "enqueue p t s = s\<lparr>queue := (queue s)(p := queue s p @ [t])\<rparr>"

definition dequeue :: "place \<Rightarrow> sched \<Rightarrow> tid option \<times> sched" where
  "dequeue p s =
     (case queue s p of
        [] \<Rightarrow> (None, s)
      | t # ts \<Rightarrow> (Some t, s\<lparr>queue := (queue s)(p := ts)\<rparr>))"

definition push :: "instr list \<Rightarrow> sched \<Rightarrow> sched" where
  "push is s = s\<lparr>frames := is @ frames s\<rparr>"

definition upd_thread :: "tid \<Rightarrow> (thread \<Rightarrow> thread) \<Rightarrow> sched \<Rightarrow> sched" where
  "upd_thread t f s = s\<lparr>threads := (threads s)(t := map_option f (threads s t))\<rparr>"

definition upd_stack :: "stkid \<Rightarrow> (stack_desc \<Rightarrow> stack_desc) \<Rightarrow> sched \<Rightarrow> sched" where
  "upd_stack k f s = s\<lparr>stacks := (stacks s)(k := map_option f (stacks s k))\<rparr>"

definition set_sema :: "sema_id \<Rightarrow> int \<Rightarrow> sched \<Rightarrow> sched" where
  "set_sema k v s = s\<lparr>semas := (semas s)(k := Some v)\<rparr>"

text \<open>Following a pointer to a thread, a stack; the current thread; the magic tests.\<close>

definition the_thread :: "tid \<Rightarrow> sched \<Rightarrow> thread cres" where
  "the_thread t s = (case threads s t of None \<Rightarrow> Inl Fault | Some th \<Rightarrow> Inr th)"

definition checked_thread :: "tid \<Rightarrow> sched \<Rightarrow> thread cres" where
  "checked_thread t s = and_then (the_thread t s) (\<lambda>th. if th_magic th then Inr th else Inl Abort)"

definition the_stack :: "stkid option \<Rightarrow> sched \<Rightarrow> stack_desc cres" where
  "the_stack k s =
     (case k of None \<Rightarrow> Inl Fault
      | Some k \<Rightarrow> (case stacks s k of None \<Rightarrow> Inl Fault | Some d \<Rightarrow> Inr d))"

definition the_cur :: "sched \<Rightarrow> tid cres" where
  "the_cur s = (case cur s of None \<Rightarrow> Inl Fault | Some t \<Rightarrow> Inr t)"

definition sema_value :: "sema_id \<Rightarrow> sched \<Rightarrow> int cres" where
  "sema_value k s = (case semas s k of None \<Rightarrow> Inl Abort | Some v \<Rightarrow> Inr v)"

definition event_ok :: "event_id \<Rightarrow> sched \<Rightarrow> unit cres" where
  "event_ok e s = (if events s e then Inr () else Inl Abort)"

section \<open>Context switch\<close>

text \<open>\<open>dthr_load_ctxt (&target->regs, op)\<close>.\<close>

definition load_regs :: "stkid option \<Rightarrow> sched \<Rightarrow> sched cres" where
  "load_regs target s =
     and_then (the_stack target s) (\<lambda>d.
       case regs d of None \<Rightarrow> Inl Abort | Some fs \<Rightarrow> Inr (s\<lparr>frames := fs\<rparr>))"

definition dthr_csw :: "stkid option \<Rightarrow> bool \<Rightarrow> sched \<Rightarrow> sched cres" where
  "dthr_csw target leave s =
     and_then (the_cur s) (\<lambda>c.
     and_then (the_thread c s) (\<lambda>th.
       case stack th of
         None \<Rightarrow> Inl Abort
       | Some this \<Rightarrow>
           if leave then
             (if this \<notin> set (active_stacks s) \<and> this \<notin> set (free_stacks s) then Inl Fault
              else
                (let s = upd_thread c (\<lambda>th. th\<lparr>stack := None\<rparr>) s;
                     s = upd_stack this (\<lambda>d. d\<lparr>regs := None\<rparr>) s;
                     s = s\<lparr>active_stacks := remove1 this (active_stacks s),
                           free_stacks := remove1 this (free_stacks s) @ [this]\<rparr>;
                     s = upd_thread c (\<lambda>th. th\<lparr>fn := None, th_stack_size := 0\<rparr>) s
                 in load_regs target s))
           else load_regs target
                  (upd_stack this (\<lambda>d. d\<lparr>regs := Some (Csw_return this # frames s)\<rparr>) s)))"

text \<open>The return of \<open>dthr_save_ctxt\<close> in \<open>dthr_csw\<close> with \<open>DREAD_THREAD_CSW_NORM\<close>.\<close>

definition csw_return :: "stkid \<Rightarrow> sched \<Rightarrow> sched cres" where
  "csw_return this s = and_then (the_stack (Some this) s) (\<lambda>d. Inr (s\<lparr>cur := Some (owner d)\<rparr>))"

definition dthr_thread_yield :: "sched \<Rightarrow> sched cres" where
  "dthr_thread_yield s =
     (case dequeue Runq s of
        (None, s) \<Rightarrow> Inr s
      | (Some t, s) \<Rightarrow>
          and_then (checked_thread t s) (\<lambda>next.
          and_then (the_cur s) (\<lambda>c. dthr_csw (stack next) False (enqueue Runq c s))))"

definition dthr_thread_sleep :: "bool \<Rightarrow> sched \<Rightarrow> sched cres" where
  "dthr_thread_sleep leave s =
     (case dequeue Runq s of
        (None, s) \<Rightarrow> if deadlock_saved s then Inr (s\<lparr>frames := []\<rparr>) else Inl Abort
      | (Some t, s) \<Rightarrow> and_then (checked_thread t s) (\<lambda>next. dthr_csw (stack next) leave s))"

text \<open>
  \<open>dthr_this_thread\<close>: whose stack holds an address.
\<close>

fun find_stack :: "int \<Rightarrow> sched \<Rightarrow> stkid list \<Rightarrow> tid cres" where
  "find_stack addr s [] = Inr topmost_thread"
| "find_stack addr s (k # ks) =
     and_then (the_stack (Some k) s) (\<lambda>d.
       if stack_top d \<le> addr \<and> addr \<le> stack_base d then Inr (owner d) else find_stack addr s ks)"

definition dthr_this_thread :: "int \<Rightarrow> sched \<Rightarrow> tid cres" where
  "dthr_this_thread addr s = find_stack addr s (active_stacks s)"

section \<open>Semaphores and events\<close>

definition dthr_semaphore_init :: "sema_id \<Rightarrow> int \<Rightarrow> sched \<Rightarrow> sched" where
  "dthr_semaphore_init k init s = set_sema k init (s\<lparr>queue := (queue s)(Sema_q k := [])\<rparr>)"

definition dthr_semaphore_try :: "sema_id \<Rightarrow> sched \<Rightarrow> (bool \<times> sched) cres" where
  "dthr_semaphore_try k s =
     and_then (sema_value k s) (\<lambda>v. Inr (if v = 0 then (False, s) else (True, set_sema k (v - 1) s)))"

text \<open>One turn of the loop; a thread that was woken makes the next one.\<close>

definition dthr_semaphore_take_no_yield :: "sema_id \<Rightarrow> sched \<Rightarrow> sched cres" where
  "dthr_semaphore_take_no_yield k s =
     and_then (sema_value k s) (\<lambda>v.
       if v = 0 then
         and_then (the_cur s) (\<lambda>c.
           dthr_thread_sleep False
             (push [Take_ny k] (upd_thread c (\<lambda>th. th\<lparr>state := TH_SEMA_WAIT\<rparr>) (enqueue (Sema_q k) c s))))
       else Inr (set_sema k (v - 1) s))"

definition dthr_semaphore_take :: "sema_id \<Rightarrow> sched \<Rightarrow> sched cres" where
  "dthr_semaphore_take k s = dthr_thread_yield (push [Take_ny k] s)"

definition dthr_semaphore_drop_no_yield :: "sema_id \<Rightarrow> sched \<Rightarrow> sched cres" where
  "dthr_semaphore_drop_no_yield k s =
     and_then (sema_value k s) (\<lambda>v.
       case dequeue (Sema_q k) (set_sema k (v + 1) s) of
         (None, s) \<Rightarrow> Inr s
       | (Some waker, s) \<Rightarrow>
           Inr (enqueue Runq waker (upd_thread waker (\<lambda>th. th\<lparr>state := TH_RUNNABLE\<rparr>) s)))"

definition dthr_semaphore_drop :: "sema_id \<Rightarrow> sched \<Rightarrow> sched cres" where
  "dthr_semaphore_drop k s = and_then (dthr_semaphore_drop_no_yield k s) dthr_thread_yield"

definition dthr_event_wait :: "event_id \<Rightarrow> sema_id \<Rightarrow> sched \<Rightarrow> sched cres" where
  "dthr_event_wait e lock s =
     and_then (event_ok e s) (\<lambda>_.
     and_then (the_cur s) (\<lambda>c.
     and_then (dthr_semaphore_drop_no_yield lock
                (upd_thread c (\<lambda>th. th\<lparr>state := TH_EVENT_WAIT\<rparr>) (enqueue (Event_q e) c s))) (\<lambda>s.
       dthr_thread_sleep False (push [Take_ny lock] s))))"

text \<open>The loop of \<open>dthr_eventq_to_runq\<close>.\<close>

fun move_waiters :: "nat \<Rightarrow> event_id \<Rightarrow> sched \<Rightarrow> sched cres" where
  "move_waiters 0 e s = Inr s"
| "move_waiters (Suc n) e s =
     (case dequeue (Event_q e) s of
        (None, s) \<Rightarrow> Inr s
      | (Some t, s) \<Rightarrow>
          and_then (checked_thread t s) (\<lambda>_.
            move_waiters n e (enqueue Runq t (upd_thread t (\<lambda>th. th\<lparr>state := TH_RUNNABLE\<rparr>) s))))"

text \<open>\<open>UINT_MAX\<close> is more than there can be waiters: the bound is at most the length of the queue.\<close>

definition dthr_eventq_to_runq :: "event_id \<Rightarrow> int \<Rightarrow> sched \<Rightarrow> sched cres" where
  "dthr_eventq_to_runq e n s =
     and_then (event_ok e s) (\<lambda>_. move_waiters (nat (min n (int (length (queue s (Event_q e)))))) e s)"

definition UINT_MAX :: int where
  "UINT_MAX = 4294967295"

definition dthr_event_broadcast_no_yield :: "event_id \<Rightarrow> sched \<Rightarrow> sched cres" where
  "dthr_event_broadcast_no_yield e s = dthr_eventq_to_runq e UINT_MAX s"

definition dthr_event_broadcast :: "event_id \<Rightarrow> sched \<Rightarrow> sched cres" where
  "dthr_event_broadcast e s = and_then (dthr_eventq_to_runq e UINT_MAX s) dthr_thread_yield"

definition dthr_event_signal_no_yield :: "event_id \<Rightarrow> sched \<Rightarrow> sched cres" where
  "dthr_event_signal_no_yield e s = dthr_eventq_to_runq e 1 s"

definition dthr_event_signal :: "event_id \<Rightarrow> sched \<Rightarrow> sched cres" where
  "dthr_event_signal e s = and_then (dthr_eventq_to_runq e 1 s) dthr_thread_yield"

definition dthr_event_init :: "event_id \<Rightarrow> sched \<Rightarrow> sched" where
  "dthr_event_init e s = s\<lparr>queue := (queue s)(Event_q e := []), events := (events s)(e := True)\<rparr>"

section \<open>Threads\<close>

definition blank_thread :: thread where
  "blank_thread = \<lparr>th_magic = False, fn = None, th_stack_size = 0, state = TH_RUNNABLE, stack = None,
     on_exit = [], exit_value = 0\<rparr>"

definition dthr_init :: "sched \<Rightarrow> sched" where
  "dthr_init s =
     (let s = s\<lparr>free_stacks := [], active_stacks := [], queue := (queue s)(Runq := [], Newq := [])\<rparr>;
          s = s\<lparr>threads := (threads s)(topmost_thread := Some (blank_thread\<lparr>th_magic := True\<rparr>))\<rparr>;
          s = dthr_semaphore_init Newq_sema 1 s
      in dthr_event_init Newq_event s)"

definition dthr_thread_init :: "tid \<Rightarrow> code option \<Rightarrow> int \<Rightarrow> sched \<Rightarrow> sched" where
  "dthr_thread_init t f sz s =
     dthr_semaphore_init (Exit_sema t) 0
       (s\<lparr>threads := (threads s)(t := Some \<lparr>th_magic = True, fn = f, th_stack_size = sz,
            state = TH_RUNNABLE, stack = None, on_exit = [], exit_value = 0\<rparr>)\<rparr>)"

text \<open>\<open>malloc\<close> of anything: does it succeed, and the state after it.\<close>

definition malloc :: "sched \<Rightarrow> bool \<times> sched" where
  "malloc s = (if mem_left s = 0 then (False, s) else (True, s\<lparr>mem_left := mem_left s - 1\<rparr>))"

definition dthr_thread_on_exit :: "tid \<Rightarrow> exit_fn \<Rightarrow> sched \<Rightarrow> (bool \<times> sched) cres" where
  "dthr_thread_on_exit t f s =
     (case malloc s of
        (False, s) \<Rightarrow> Inr (False, s)
      | (True, s) \<Rightarrow>
          and_then (checked_thread t s) (\<lambda>_. Inr (True, upd_thread t (\<lambda>th. th\<lparr>on_exit := f # on_exit th\<rparr>) s)))"

definition exit_frames :: "exit_fn \<Rightarrow> tid \<Rightarrow> instr list" where
  "exit_frames f t =
     (case f of
        Mark_of_death \<Rightarrow> [Take_ny Freed_sema, Push_freed t, Drop_ny Freed_sema, Signal_ny Freed_event]
      | Exit_fn is \<Rightarrow> is)"

definition dthr_thread_exit :: "int \<Rightarrow> sched \<Rightarrow> sched cres" where
  "dthr_thread_exit status s =
     and_then (the_cur s) (\<lambda>c.
     and_then (the_thread c s) (\<lambda>th.
       case on_exit th of
         x # xs \<Rightarrow>
           Inr (push (exit_frames x c @ [Exit status]) (upd_thread c (\<lambda>th. th\<lparr>on_exit := xs\<rparr>) s))
       | [] \<Rightarrow>
           and_then (checked_thread c s) (\<lambda>_.
             dthr_thread_sleep True
               (upd_thread c (\<lambda>th. th\<lparr>exit_value := status, state := TH_EXITED\<rparr>) s))))"

definition dthr_thread_run :: "tid \<Rightarrow> sched \<Rightarrow> sched cres" where
  "dthr_thread_run t s =
     and_then (checked_thread t s) (\<lambda>_. dthr_semaphore_take_no_yield Newq_sema (push [Newq_put t] s))"

text \<open>The rest of \<open>dthr_thread_run\<close>, once the lock is taken.\<close>

definition newq_put :: "tid \<Rightarrow> sched \<Rightarrow> sched cres" where
  "newq_put t s =
     and_then (dthr_event_signal_no_yield Newq_event (enqueue Newq t s)) (\<lambda>s.
     and_then (dthr_semaphore_drop_no_yield Newq_sema s) dthr_thread_yield)"

definition dthr_thread_wait :: "tid \<Rightarrow> sched \<Rightarrow> sched cres" where
  "dthr_thread_wait t s =
     and_then (checked_thread t s) (\<lambda>_. dthr_semaphore_take (Exit_sema t) (push [Drop (Exit_sema t)] s))"

definition dthr_thread_detach :: "tid \<Rightarrow> sched \<Rightarrow> sched cres" where
  "dthr_thread_detach t s = and_then (checked_thread t s) (\<lambda>_. dthr_semaphore_drop (Exit_sema t) s)"

section \<open>The launcher\<close>

fun best_fit :: "int \<Rightarrow> sched \<Rightarrow> stkid list \<Rightarrow> stkid option \<Rightarrow> int \<Rightarrow> stkid option cres" where
  "best_fit sz s [] best best_diff = Inr best"
| "best_fit sz s (k # ks) best best_diff =
     and_then (the_stack (Some k) s) (\<lambda>d.
       let diff = stack_size d - sz in
       if diff > 0 \<and> diff < best_diff then best_fit sz s ks (Some k) diff
       else best_fit sz s ks best best_diff)"

definition INT_MAX :: int where
  "INT_MAX = 2147483647"

definition dthr_find_free_stack :: "int \<Rightarrow> sched \<Rightarrow> stkid option cres" where
  "dthr_find_free_stack sz s = best_fit sz s (free_stacks s) None INT_MAX"

definition STACK_EXTRA :: int where
  "STACK_EXTRA = 6 * 1024"

text \<open>The recursion of \<open>dthr_new_topmost_thread\<close>: the address its last frame has.\<close>

function grow :: "int \<Rightarrow> int \<Rightarrow> nat \<Rightarrow> int \<Rightarrow> int" where
  "grow base_addr sz frame pos =
     (if base_addr - pos < sz + STACK_EXTRA then grow base_addr sz frame (pos - int (Suc frame))
      else pos)"
  by pat_completeness auto
termination
  by (relation "measure (\<lambda>(b, sz, frame, pos). nat (sz + STACK_EXTRA - (b - pos)))") auto

declare grow.simps [simp del]

definition dthr_new_topmost_thread :: "stkid \<Rightarrow> int \<Rightarrow> sched \<Rightarrow> sched cres" where
  "dthr_new_topmost_thread k sz s =
     and_then (the_stack (Some k) s) (\<lambda>d.
       let s = upd_stack k (\<lambda>d. d\<lparr>regs := Some [Launch k]\<rparr>) s;
           s = s\<lparr>sp := grow (stack_base d) sz (frame_bytes s) (sp s)\<rparr>;
           s = enqueue Runq (owner d) s
       in Inr (s\<lparr>frames := [Launcher]\<rparr>))"

definition dthr_thread_launcher :: "sched \<Rightarrow> sched cres" where
  "dthr_thread_launcher s =
     (let old = stacks s topmost_stack;
          s = s\<lparr>stacks := (stacks s)(topmost_stack := Some \<lparr>stack_size = 0, stack_base = sp s,
                 stack_top = 0, owner = topmost_thread,
                 regs = Option.bind old regs, base = Option.bind old base\<rparr>)\<rparr>;
          s = upd_thread topmost_thread (\<lambda>th. th\<lparr>stack := Some topmost_stack\<rparr>) s
      in dthr_semaphore_take_no_yield Newq_sema (push [Scan] s))"

text \<open>The two ways to give a new thread a stack.\<close>

definition reuse_stack :: "stkid \<Rightarrow> tid \<Rightarrow> sched \<Rightarrow> sched" where
  "reuse_stack k t s =
     (let s = upd_stack k (\<lambda>d. d\<lparr>regs := base d, owner := t\<rparr>) s;
          s = upd_thread t (\<lambda>th. th\<lparr>stack := Some k, state := TH_RUNNABLE\<rparr>) s
      in enqueue Runq t s)"

definition new_stack :: "tid \<Rightarrow> int \<Rightarrow> sched \<Rightarrow> sched cres" where
  "new_stack t sz s =
     (case malloc s of
        (False, s) \<Rightarrow> Inl Abort
      | (True, s) \<Rightarrow>
          and_then (the_stack (Some topmost_stack) s) (\<lambda>top.
            let k = next_stk s;
                s = s\<lparr>next_stk := k + 1, stacks := (stacks s)(k := Some \<lparr>stack_size = sz,
                       stack_base = stack_base top, stack_top = stack_base top - sz, owner = t,
                       regs = None, base = None\<rparr>)\<rparr>;
                s = upd_thread t (\<lambda>th. th\<lparr>stack := Some k, state := TH_RUNNABLE\<rparr>) s;
                s = s\<lparr>active_stacks := k # active_stacks s\<rparr>
            in and_then (dthr_semaphore_drop_no_yield Newq_sema s) (dthr_new_topmost_thread k sz)))"

definition launcher_scan :: "sched \<Rightarrow> sched cres" where
  "launcher_scan s =
     (case dequeue Newq s of
        (None, s) \<Rightarrow> dthr_event_wait Newq_event Newq_sema (push [Scan] s)
      | (Some t, s) \<Rightarrow>
          and_then (checked_thread t s) (\<lambda>th.
          and_then (dthr_find_free_stack (th_stack_size th) s) (\<lambda>r.
            case r of
              Some k \<Rightarrow> Inr (push [Scan] (reuse_stack k t s))
            | None \<Rightarrow> new_stack t (th_stack_size th) s)))"

definition code_frames :: "code \<Rightarrow> tid \<Rightarrow> instr list" where
  "code_frames f t =
     (case f of Fn is v \<Rightarrow> is @ [Fn_return t v] | DThr_MultiThread \<Rightarrow> [Multi_loop, Fn_return t 0])"

definition launch :: "stkid \<Rightarrow> sched \<Rightarrow> sched cres" where
  "launch k s =
     and_then (the_stack (Some k) s) (\<lambda>d.
       let s = upd_stack k (\<lambda>d. d\<lparr>base := Some [Launch k]\<rparr>) s;
           t = owner d;
           s = s\<lparr>cur := Some t\<rparr>
       in and_then (checked_thread t s) (\<lambda>th.
            case fn th of None \<Rightarrow> Inl Fault | Some f \<Rightarrow> Inr (s\<lparr>frames := code_frames f t\<rparr>)))"

definition fn_return :: "tid \<Rightarrow> int \<Rightarrow> sched \<Rightarrow> sched cres" where
  "fn_return t v s =
     and_then (the_thread t s) (\<lambda>_. Inr (push [Leave t] (upd_thread t (\<lambda>th. th\<lparr>exit_value := v\<rparr>) s)))"

definition leave_thread :: "tid \<Rightarrow> sched \<Rightarrow> sched cres" where
  "leave_thread t s =
     and_then (the_thread t s) (\<lambda>th.
       case on_exit th of
         x # xs \<Rightarrow> Inr (push (exit_frames x t @ [Leave t]) (upd_thread t (\<lambda>th. th\<lparr>on_exit := xs\<rparr>) s))
       | [] \<Rightarrow> dthr_thread_sleep True (upd_thread t (\<lambda>th. th\<lparr>state := TH_EXITED\<rparr>) s))"

definition dthr_thread_multithread :: "tid \<Rightarrow> sched \<Rightarrow> sched cres" where
  "dthr_thread_multithread t s =
     Inr ((enqueue Newq t s)\<lparr>cur := Some topmost_thread, deadlock_saved := True, frames := [Launcher]\<rparr>)"

section \<open>The higher-level interface\<close>

definition mark_of_death_push :: "tid \<Rightarrow> sched \<Rightarrow> sched cres" where
  "mark_of_death_push t s = and_then (the_thread t s) (\<lambda>_. Inr (s\<lparr>to_be_freed := t # to_be_freed s\<rparr>))"

definition free_thread :: "tid \<Rightarrow> sched \<Rightarrow> sched" where
  "free_thread t s = s\<lparr>threads := (threads s)(t := None), semas := (semas s)(Exit_sema t := None)\<rparr>"

text \<open>The loop of \<open>reaper\<close>.\<close>

definition reaper_loop :: "sched \<Rightarrow> sched cres" where
  "reaper_loop s =
     (case to_be_freed s of
        t # ts \<Rightarrow>
          and_then (the_thread t s) (\<lambda>_.
            dthr_semaphore_drop Num_sema
              (push [Reap_loop] (free_thread t (s\<lparr>to_be_freed := ts\<rparr>))))
      | [] \<Rightarrow>
          and_then (dthr_semaphore_try Num_sema s) (\<lambda>(ok, s).
            if \<not> ok then dthr_semaphore_drop Freed_sema s
            else dthr_event_wait Freed_event Freed_sema (push [Reap_loop] s)))"

text \<open>The loop of \<open>DThr_MultiThread\<close>, then the call of \<open>reaper\<close>.\<close>

definition multi_loop :: "sched \<Rightarrow> sched cres" where
  "multi_loop s =
     (case thread_q s of
        t # ts \<Rightarrow>
          and_then (the_thread t s) (\<lambda>th.
            let s = dthr_thread_init t (fn th) (th_stack_size th) (s\<lparr>thread_q := ts\<rparr>) in
            and_then (dthr_thread_on_exit t Mark_of_death s) (\<lambda>(ok, s).
              if \<not> ok then Inl Abort else Inr (push [Run t, Detach t, Multi_loop] s)))
      | [] \<Rightarrow> dthr_semaphore_take Freed_sema (push [Reap_loop] s))"

text \<open>A thread descriptor fresh from \<open>malloc\<close>: its magic number is garbage.\<close>

definition fresh_thread :: "code option \<Rightarrow> int \<Rightarrow> sched \<Rightarrow> tid \<times> sched" where
  "fresh_thread f sz s =
     (let t = next_tid s in
      (t, s\<lparr>next_tid := t + 1,
            threads := (threads s)(t := Some (blank_thread\<lparr>fn := f, th_stack_size := sz\<rparr>))\<rparr>))"

definition DThr_begin :: "sched \<Rightarrow> sched cres" where
  "DThr_begin s =
     (let main_th = next_tid s;
          s = dthr_thread_init main_th (Some DThr_MultiThread) 0x1000 (s\<lparr>next_tid := main_th + 1\<rparr>);
          s = s\<lparr>dthr_state := 2\<rparr>
      in dthr_thread_multithread main_th s)"

definition DThr_queue :: "code \<Rightarrow> int \<Rightarrow> sched \<Rightarrow> sched cres" where
  "DThr_queue f sz s =
     (case malloc s of
        (False, s) \<Rightarrow> Inr s
      | (True, s) \<Rightarrow>
          (case fresh_thread (Some f) sz s of (t, s) \<Rightarrow>
             dthr_semaphore_drop Num_sema (s\<lparr>thread_q := t # thread_q s\<rparr>)))"

definition DThr_spawn :: "code option \<Rightarrow> int \<Rightarrow> sched \<Rightarrow> sched cres" where
  "DThr_spawn f sz s =
     (case malloc s of
        (False, s) \<Rightarrow> Inr s
      | (True, s) \<Rightarrow>
          (case fresh_thread f sz s of (t, s) \<Rightarrow>
             dthr_semaphore_drop Num_sema (push [Mark_on_exit t, Run t, Detach t] s)))"

definition DThr_setup :: "sched \<Rightarrow> sched" where
  "DThr_setup s =
     (if dthr_state s = 0 then
        (dthr_event_init Freed_event (dthr_semaphore_init Num_sema 0
           (dthr_semaphore_init Freed_sema 0 (dthr_init s)))) \<lparr>dthr_state := 1\<rparr>
      else s)"

definition DThr_Thread_Run :: "code option \<Rightarrow> int \<Rightarrow> sched \<Rightarrow> sched cres" where
  "DThr_Thread_Run f sz s =
     (let s = DThr_setup s in
      if dthr_state s = 1 then
        (case f of None \<Rightarrow> DThr_begin s | Some f \<Rightarrow> DThr_queue f sz s)
      else DThr_spawn f sz s)"

section \<open>Running\<close>

fun exec :: "instr \<Rightarrow> sched \<Rightarrow> sched cres" where
  "exec Yield s = dthr_thread_yield s"
| "exec (Take k) s = dthr_semaphore_take k s"
| "exec (Take_ny k) s = dthr_semaphore_take_no_yield k s"
| "exec (Drop k) s = dthr_semaphore_drop k s"
| "exec (Drop_ny k) s = dthr_semaphore_drop_no_yield k s"
| "exec (Try k) s = and_then (dthr_semaphore_try k s) (\<lambda>(_, s). Inr s)"
| "exec (Event_wait e k) s = dthr_event_wait e k s"
| "exec (Broadcast e) s = dthr_event_broadcast e s"
| "exec (Broadcast_ny e) s = dthr_event_broadcast_no_yield e s"
| "exec (Signal e) s = dthr_event_signal e s"
| "exec (Signal_ny e) s = dthr_event_signal_no_yield e s"
| "exec (Thread_init t f sz) s = Inr (dthr_thread_init t (Some f) sz s)"
| "exec (On_exit t f) s = and_then (dthr_thread_on_exit t f s) (\<lambda>(_, s). Inr s)"
| "exec (Mark_on_exit t) s =
     and_then (dthr_thread_on_exit t Mark_of_death s) (\<lambda>(ok, s). if ok then Inr s else Inl Abort)"
| "exec (Run t) s = dthr_thread_run t s"
| "exec (Newq_put t) s = newq_put t s"
| "exec (Wait t) s = dthr_thread_wait t s"
| "exec (Detach t) s = dthr_thread_detach t s"
| "exec (Exit v) s = dthr_thread_exit v s"
| "exec (DThr_Run f sz) s = DThr_Thread_Run f sz s"
| "exec Launcher s = dthr_thread_launcher s"
| "exec Scan s = launcher_scan s"
| "exec (Csw_return k) s = csw_return k s"
| "exec (Launch k) s = launch k s"
| "exec (Fn_return t v) s = fn_return t v s"
| "exec (Leave t) s = leave_thread t s"
| "exec (Push_freed t) s = mark_of_death_push t s"
| "exec Reap_loop s = reaper_loop s"
| "exec Multi_loop s = multi_loop s"

text \<open>One step of the running context; with no frames left \<open>dthr_thread_multithread\<close> has returned.\<close>

definition step :: "sched \<Rightarrow> sched cres" where
  "step s = (case frames s of [] \<Rightarrow> Inr s | i # is \<Rightarrow> exec i (s\<lparr>frames := is\<rparr>))"

fun run :: "nat \<Rightarrow> sched \<Rightarrow> sched cres" where
  "run 0 s = Inr s"
| "run (Suc n) s = and_then (step s) (run n)"

text \<open>Before the first call of the library.\<close>

definition boot :: "nat \<Rightarrow> int \<Rightarrow> nat \<Rightarrow> instr list \<Rightarrow> sched" where
  "boot mem addr frame is =
     \<lparr>cur = None, threads = (\<lambda>_. None), stacks = (\<lambda>_. None), semas = (\<lambda>_. None), events = (\<lambda>_. False),
      queue = (\<lambda>_. []), active_stacks = [], free_stacks = [], frames = is, deadlock_saved = False,
      next_tid = 1, next_stk = 1, mem_left = mem, sp = addr, frame_bytes = frame, thread_q = [],
      to_be_freed = [], dthr_state = 0\<rparr>"

end
