(* ===== verification/Dread_Queues.thy ===== *)
theory Dread_Queues
  imports Dread
begin

text \<open>
  The discipline of the chains: a thread is linked into at most one of them, the running thread
  into none, and a context switch continues the thread it was meant for.  This is what makes the
  chains of \<open>Chain\<close> behave as the lists \<open>Dread\<close> takes them for: no link is inserted twice.
  It holds as long as no stack is reused (\<open>legal\<close>); \<open>Dread_Defects\<close> shows what happens otherwise.
\<close>

section \<open>Definitions\<close>

text \<open>Instructions other than the two entry points of a saved context, all through their code.\<close>

fun plain :: "instr \<Rightarrow> bool" and plain_code :: "code \<Rightarrow> bool" and plain_exit :: "exit_fn \<Rightarrow> bool" where
  "plain (Csw_return k) = False"
| "plain (Launch k) = False"
| "plain (Thread_init t f n) = plain_code f"
| "plain (On_exit t f) = plain_exit f"
| "plain (DThr_Run (Some f) n) = plain_code f"
| "plain i = True"
| "plain_code (Fn is v) = list_all plain is"
| "plain_code DThr_MultiThread = True"
| "plain_exit Mark_of_death = True"
| "plain_exit (Exit_fn is) = list_all plain is"

definition plain_thread :: "thread \<Rightarrow> bool" where
  "plain_thread th \<longleftrightarrow> (\<forall>f. fn th = Some f \<longrightarrow> plain_code f) \<and> list_all plain_exit (on_exit th)"

definition context_ok :: "stkid \<Rightarrow> instr list \<Rightarrow> bool" where
  "context_ok k fs \<longleftrightarrow> (\<exists>r. (fs = Csw_return k # r \<or> fs = Launch k # r) \<and> list_all plain r)"

definition unqueued :: "tid \<Rightarrow> (place \<Rightarrow> tid list) \<Rightarrow> bool" where
  "unqueued t Q \<longleftrightarrow> (\<forall>p. t \<notin> set (Q p))"

definition queues_ok :: "(place \<Rightarrow> tid list) \<Rightarrow> tid \<Rightarrow> bool" where
  "queues_ok Q n \<longleftrightarrow> (\<forall>p. distinct (Q p)) \<and> (\<forall>p q. p \<noteq> q \<longrightarrow> set (Q p) \<inter> set (Q q) = {}) \<and>
     (\<forall>p. \<forall>t \<in> set (Q p). t < n)"

definition stacks_ok :: "(tid \<Rightarrow> thread option) \<Rightarrow> (stkid \<Rightarrow> stack_desc option) \<Rightarrow> stkid \<Rightarrow> bool" where
  "stacks_ok T S n \<longleftrightarrow> 0 < n \<and>
     (\<forall>t th k. T t = Some th \<longrightarrow> stack th = Some k \<longrightarrow>
        (\<exists>d. S k = Some d \<and> owner d = t) \<and> k < n \<and> (k = 0 \<longrightarrow> t = 0)) \<and>
     (\<forall>k d fs. S k = Some d \<longrightarrow> regs d = Some fs \<longrightarrow> context_ok k fs) \<and>
     (\<forall>t th. T t = Some th \<longrightarrow> plain_thread th)"

definition core :: "sched \<Rightarrow> bool" where
  "core s \<longleftrightarrow> queues_ok (queue s) (next_tid s) \<and> stacks_ok (threads s) (stacks s) (next_stk s)"

text \<open>Who runs: the owner of the stack that is being continued, or the current thread.\<close>

fun running_of :: "instr list \<Rightarrow> tid option \<Rightarrow> (stkid \<Rightarrow> stack_desc option) \<Rightarrow> tid option" where
  "running_of (Csw_return k # fs) c S = map_option owner (S k)"
| "running_of (Launch k # fs) c S = map_option owner (S k)"
| "running_of fs c S = c"

definition running :: "sched \<Rightarrow> tid option" where
  "running s = running_of (frames s) (cur s) (stacks s)"

definition settled :: "sched \<Rightarrow> bool" where
  "settled s \<longleftrightarrow> core s \<and>
     (frames s \<noteq> [] \<longrightarrow> list_all plain (tl (frames s)) \<and>
       (plain (hd (frames s)) \<or> (\<exists>k. hd (frames s) \<in> {Csw_return k, Launch k})) \<and>
       (\<exists>c. running s = Some c \<and> unqueued c (queue s) \<and> c < next_tid s))"

text \<open>
  What the callers have to respect: a thread is started once, the higher-level interface is set up
  before the multithreading, and no stack is reused.
\<close>

fun legal_instr :: "instr \<Rightarrow> sched \<Rightarrow> bool" where
  "legal_instr (Newq_put t) s \<longleftrightarrow> unqueued t (queue s) \<and> cur s \<noteq> Some t \<and> t < next_tid s"
| "legal_instr (DThr_Run f n) s \<longleftrightarrow> dthr_state s = 2"
| "legal_instr Scan s \<longleftrightarrow>
     (\<forall>t th. hd (queue s Newq) = t \<longrightarrow> threads s t = Some th \<longrightarrow>
        dthr_find_free_stack (th_stack_size th) s = Inr None)"
| "legal_instr i s \<longleftrightarrow> True"

definition legal :: "sched \<Rightarrow> bool" where
  "legal s \<longleftrightarrow> (case frames s of [] \<Rightarrow> True | i # _ \<Rightarrow> legal_instr i s)"

text \<open>The runs that respect it.\<close>

inductive sched_step :: "sched \<Rightarrow> sched \<Rightarrow> bool" where
  "legal s \<Longrightarrow> step s = Inr s' \<Longrightarrow> sched_step s s'"

inductive sched_run :: "sched \<Rightarrow> sched \<Rightarrow> bool" for s where
  start: "sched_run s s"
| more: "sched_run s s' \<Longrightarrow> sched_step s' s'' \<Longrightarrow> sched_run s s''"

inductive_cases sched_stepE: "sched_step s s'"

section \<open>The access functions\<close>

lemma dequeue_Some:
  "dequeue p s = (Some t, s') \<longleftrightarrow> (\<exists>ts. queue s p = t # ts \<and> s' = s\<lparr>queue := (queue s)(p := ts)\<rparr>)"
  by (auto simp: dequeue_def split: list.splits)

lemma dequeue_None: "dequeue p s = (None, s') \<longleftrightarrow> queue s p = [] \<and> s' = s"
  by (auto simp: dequeue_def split: list.splits)

lemma field_simps_sched [simp]:
  "queue (push is s) = queue s" "threads (push is s) = threads s" "stacks (push is s) = stacks s"
  "next_tid (push is s) = next_tid s" "next_stk (push is s) = next_stk s" "cur (push is s) = cur s"
  "frames (push is s) = is @ frames s" "dthr_state (push is s) = dthr_state s"
  "queue (upd_thread t f s) = queue s" "stacks (upd_thread t f s) = stacks s"
  "next_tid (upd_thread t f s) = next_tid s" "next_stk (upd_thread t f s) = next_stk s"
  "cur (upd_thread t f s) = cur s" "frames (upd_thread t f s) = frames s"
  "queue (upd_stack k g s) = queue s" "threads (upd_stack k g s) = threads s"
  "next_tid (upd_stack k g s) = next_tid s" "next_stk (upd_stack k g s) = next_stk s"
  "cur (upd_stack k g s) = cur s" "frames (upd_stack k g s) = frames s"
  "queue (set_sema m v s) = queue s" "threads (set_sema m v s) = threads s" "stacks (set_sema m v s) = stacks s"
  "next_tid (set_sema m v s) = next_tid s" "next_stk (set_sema m v s) = next_stk s"
  "cur (set_sema m v s) = cur s" "frames (set_sema m v s) = frames s"
  "queue (enqueue p t s) = (queue s)(p := queue s p @ [t])"
  "threads (enqueue p t s) = threads s" "stacks (enqueue p t s) = stacks s"
  "next_tid (enqueue p t s) = next_tid s" "next_stk (enqueue p t s) = next_stk s"
  "cur (enqueue p t s) = cur s" "frames (enqueue p t s) = frames s"
  "semas (enqueue p t s) = semas s" "semas (push is s) = semas s" "semas (upd_thread t f s) = semas s"
  "semas (upd_stack k g s) = semas s" "semas (set_sema m v s) = (semas s)(m := Some v)"
  by (simp_all add: push_def upd_thread_def upd_stack_def set_sema_def enqueue_def)

lemma queues_okD:
  assumes "queues_ok Q n"
  shows "distinct (Q p)" "p \<noteq> q \<Longrightarrow> set (Q p) \<inter> set (Q q) = {}" "t \<in> set (Q p) \<Longrightarrow> t < n"
  using assms by (auto simp: queues_ok_def)

lemma queues_dequeue:
  assumes "queues_ok Q n" "Q p = t # ts"
  shows "queues_ok (Q(p := ts)) n" "unqueued t (Q(p := ts))" "t < n"
proof -
  note d = queues_okD [OF assms(1)]
  have ts: "set ts \<subseteq> set (Q p)" "t \<in> set (Q p)" "t \<notin> set ts" "distinct ts"
    using assms(2) d(1) [of p] by auto
  show "t < n" using d(3) ts(2) by blast
  have "t \<notin> set (Q q)" if "q \<noteq> p" for q using d(2) [of p q] ts(2) that by blast
  then show "unqueued t (Q(p := ts))" using ts(3) by (simp add: unqueued_def)
  show "queues_ok (Q(p := ts)) n"
    unfolding queues_ok_def
  proof (intro conjI allI impI ballI)
    fix q
    show "distinct ((Q(p := ts)) q)" using ts(4) d(1) by simp
    fix u assume "u \<in> set ((Q(p := ts)) q)"
    then show "u < n" using d(3) ts(1) by (cases "q = p") auto
  next
    fix q r :: place assume "q \<noteq> r"
    then show "set ((Q(p := ts)) q) \<inter> set ((Q(p := ts)) r) = {}"
      using d(2) [of q r] ts(1) by auto
  qed
qed

lemma unqueued_dequeue: "unqueued c Q \<Longrightarrow> Q p = t # ts \<Longrightarrow> unqueued c (Q(p := ts)) \<and> c \<noteq> t"
  unfolding unqueued_def by (metis fun_upd_apply list.set_intros)

lemma queues_enqueue:
  assumes "queues_ok Q n" "unqueued t Q" "t < n"
  shows "queues_ok (Q(p := Q p @ [t])) n"
  using assms unfolding queues_ok_def unqueued_def by auto

lemma unqueued_enqueue: "unqueued c (Q(p := Q p @ [t])) \<longleftrightarrow> c \<noteq> t \<and> unqueued c Q"
  by (auto simp: unqueued_def)

lemma queues_clear: "queues_ok Q n \<Longrightarrow> queues_ok (Q(p := [])) n" "unqueued c Q \<Longrightarrow> unqueued c (Q(p := []))"
  by (auto simp: queues_ok_def unqueued_def)

lemma stacks_ok_thread:
  assumes "stacks_ok T S n" "\<And>th. T t = Some th \<Longrightarrow> stack (f th) = stack th \<or> stack (f th) = None"
    "\<And>th. plain_thread th \<Longrightarrow> plain_thread (f th)"
  shows "stacks_ok (T(t := map_option f (T t))) S n"
  using assms unfolding stacks_ok_def by auto metis+

lemma stacks_ok_regs:
  assumes "stacks_ok T S n" "\<And>d. owner (f d) = owner d"
    "\<And>d fs. regs (f d) = Some fs \<Longrightarrow> context_ok k fs \<or> regs d = Some fs"
  shows "stacks_ok T (S(k := map_option f (S k))) n"
  using assms unfolding stacks_ok_def by auto (metis option.sel)+

section \<open>The operations\<close>

text \<open>Operations that switch no context and queue nobody new.\<close>

definition calm :: "sched \<Rightarrow> sched \<Rightarrow> bool" where
  "calm s s' \<longleftrightarrow> (core s \<longrightarrow> core s') \<and> cur s' = cur s \<and> frames s' = frames s \<and> next_tid s' = next_tid s \<and>
     (\<forall>u. unqueued u (queue s) \<longrightarrow> unqueued u (queue s'))"

text \<open>The state in which a thread calls the library.\<close>

definition ready :: "tid \<Rightarrow> sched \<Rightarrow> bool" where
  "ready c s \<longleftrightarrow> core s \<and> cur s = Some c \<and> unqueued c (queue s) \<and> c < next_tid s \<and> list_all plain (frames s)"

lemma calm_refl [simp]: "calm s s"
  by (simp add: calm_def)

lemma calm_trans: "calm s s' \<Longrightarrow> calm s' s'' \<Longrightarrow> calm s s''"
  by (simp add: calm_def)

lemma ready_calm: "ready c s \<Longrightarrow> calm s s' \<Longrightarrow> ready c s'"
  by (auto simp: ready_def calm_def)

lemma running_plain: "plain i \<Longrightarrow> running_of (i # fs) c S = c"
  by (cases i) auto

lemma ready_settled: "ready c s \<Longrightarrow> settled s"
  by (cases "frames s") (auto simp: ready_def settled_def running_def running_plain)

lemma ready_push: "ready c s \<Longrightarrow> list_all plain is \<Longrightarrow> ready c (push is s)"
  by (auto simp: ready_def core_def)

lemma core_simps [simp]:
  "core (push is s) = core s" "core (set_sema k v s) = core s" "core (s\<lparr>frames := fs\<rparr>) = core s"
  by (simp_all add: core_def)

lemma core_thread:
  assumes "core s" "\<And>th. stack (f th) = stack th \<or> stack (f th) = None"
    "\<And>th. plain_thread th \<Longrightarrow> plain_thread (f th)"
  shows "core (upd_thread t f s)"
  using assms stacks_ok_thread [of "threads s" "stacks s" "next_stk s" t f]
  by (simp add: core_def upd_thread_def)

lemma core_stack:
  "core s \<Longrightarrow> threads s t = Some th \<Longrightarrow> stack th = Some k \<Longrightarrow> \<exists>d. stacks s k = Some d \<and> owner d = t"
  unfolding core_def stacks_ok_def by blast

lemma calm_state: "calm s (upd_thread t (\<lambda>th. th\<lparr>state := x\<rparr>) s)"
  by (auto simp: calm_def intro!: core_thread simp: plain_thread_def)

lemma core_dequeue:
  assumes "core s" "queue s p = t # ts"
  shows "core (s\<lparr>queue := (queue s)(p := ts)\<rparr>)" "unqueued t ((queue s)(p := ts))" "t < next_tid s"
  using assms queues_dequeue by (auto simp: core_def)

lemma core_enqueue:
  "core s \<Longrightarrow> unqueued t (queue s) \<Longrightarrow> t < next_tid s \<Longrightarrow> core (enqueue p t s)"
  by (simp add: core_def queues_enqueue)

text \<open>Waking a thread.\<close>

lemma calm_move:
  assumes "queue s p = t # ts"
  shows "calm s (enqueue q t (upd_thread t (\<lambda>th. th\<lparr>state := x\<rparr>) (s\<lparr>queue := (queue s)(p := ts)\<rparr>)))"
proof -
  let ?s = "upd_thread t (\<lambda>th. th\<lparr>state := x\<rparr>) (s\<lparr>queue := (queue s)(p := ts)\<rparr>)"
  have "core (enqueue q t ?s)" if "core s"
  proof (rule core_enqueue)
    show "core ?s"
      using calm_state [of "s\<lparr>queue := (queue s)(p := ts)\<rparr>"] core_dequeue(1) [OF that assms]
      by (simp add: calm_def)
  qed (use core_dequeue(2,3) [OF that assms] in simp_all)
  moreover have "unqueued u (queue (enqueue q t ?s))" if "unqueued u (queue s)" for u
    using unqueued_dequeue [OF that assms] by (simp add: unqueued_enqueue del: fun_upd_apply)
  ultimately show ?thesis by (simp add: calm_def)
qed

lemma drop_ny_calm:
  assumes "dthr_semaphore_drop_no_yield k s = Inr s'"
  shows "calm s s'"
proof -
  obtain v where v: "sema_value k s = Inr v" using assms
    by (auto simp: dthr_semaphore_drop_no_yield_def and_then_eq_Inr)
  let ?s = "set_sema k (v + 1) s"
  have c: "calm s ?s" by (simp add: calm_def)
  show ?thesis
  proof (cases "queue s (Sema_q k)")
    case Nil
    then show ?thesis using assms v c
      by (simp add: dthr_semaphore_drop_no_yield_def dequeue_def)
  next
    case (Cons t ts)
    then show ?thesis
      using assms v calm_trans [OF c calm_move [of ?s "Sema_q k" t ts Runq TH_RUNNABLE]]
      by (simp add: dthr_semaphore_drop_no_yield_def dequeue_def)
  qed
qed

lemma move_waiters_calm: "move_waiters n e s = Inr s' \<Longrightarrow> calm s s'"
proof (induction n e s rule: move_waiters.induct)
  case (2 n e s)
  show ?case
  proof (cases "queue s (Event_q e)")
    case Nil
    then show ?thesis using "2.prems" by (simp add: dequeue_def)
  next
    case (Cons t ts)
    let ?s = "enqueue Runq t (upd_thread t (\<lambda>th. th\<lparr>state := TH_RUNNABLE\<rparr>)
      (s\<lparr>queue := (queue s)(Event_q e := ts)\<rparr>))"
    have "move_waiters n e ?s = Inr s'" using "2.prems" Cons by (auto simp: dequeue_def and_then_eq_Inr)
    moreover obtain th where "checked_thread t (s\<lparr>queue := (queue s)(Event_q e := ts)\<rparr>) = Inr th"
      using "2.prems" Cons by (auto simp: dequeue_def and_then_eq_Inr)
    ultimately have "calm ?s s'" using "2.IH" Cons by (simp add: dequeue_def)
    then show ?thesis by (rule calm_trans [OF calm_move [OF Cons]])
  qed
qed simp

lemma eventq_calm: "dthr_eventq_to_runq e n s = Inr s' \<Longrightarrow> calm s s'"
  by (auto simp: dthr_eventq_to_runq_def and_then_eq_Inr dest: move_waiters_calm)

section \<open>Context switches\<close>

lemma load_settled:
  assumes "core s" "stacks s k = Some d" "unqueued (owner d) (queue s)" "owner d < next_tid s"
    "load_regs (Some k) s = Inr s'"
  shows "settled s'"
proof -
  obtain fs where fs: "regs d = Some fs" "s' = s\<lparr>frames := fs\<rparr>"
    using assms(2,5) by (auto simp: load_regs_def the_stack_def split: option.splits)
  then have "context_ok k fs" using assms(1,2) by (auto simp: core_def stacks_ok_def)
  then obtain r where "fs = Csw_return k # r \<or> fs = Launch k # r" "list_all plain r"
    by (auto simp: context_ok_def)
  then show ?thesis using assms fs by (auto simp: settled_def running_def)
qed

lemma csw_settled:
  assumes "core s" "list_all plain (frames s)" "threads s t = Some th" "unqueued t (queue s)"
    "t < next_tid s" "dthr_csw (stack th) lv s = Inr s'"
  shows "settled s'"
proof -
  obtain c cth this where c: "cur s = Some c" "threads s c = Some cth" "stack cth = Some this"
    using assms(6) by (auto simp: dthr_csw_def the_cur_def the_thread_def and_then_eq_Inr split: option.splits)
  show ?thesis
  proof (cases "stack th")
    case None
    then show ?thesis using assms(6) c
      by (auto simp: dthr_csw_def the_cur_def the_thread_def load_regs_def the_stack_def Let_def split: if_splits)
  next
    case (Some k)
    then obtain d where d: "stacks s k = Some d" "owner d = t"
      using core_stack [OF assms(1,3)] by blast
    let ?exit = "upd_thread c (\<lambda>th. th\<lparr>fn := None, th_stack_size := 0\<rparr>)
      (upd_stack this (\<lambda>d. d\<lparr>regs := None\<rparr>) (upd_thread c (\<lambda>th. th\<lparr>stack := None\<rparr>) s)
         \<lparr>active_stacks := remove1 this (active_stacks s), free_stacks := remove1 this (free_stacks s) @ [this]\<rparr>)"
    let ?save = "upd_stack this (\<lambda>d. d\<lparr>regs := Some (Csw_return this # frames s)\<rparr>) s"
    have "load_regs (Some k) (if lv then ?exit else ?save) = Inr s'"
      using assms(6) c Some
      by (auto simp: dthr_csw_def the_cur_def the_thread_def Let_def upd_thread_def upd_stack_def split: if_splits)
    moreover have "core ?save"
      using assms(1,2) stacks_ok_regs [of "threads s" "stacks s" "next_stk s"
          "\<lambda>d. d\<lparr>regs := Some (Csw_return this # frames s)\<rparr>" this]
      by (auto simp: core_def upd_stack_def context_ok_def)
    moreover have "core ?exit"
    proof -
      have s1: "stacks_ok ((threads s)(c := map_option (\<lambda>th. th\<lparr>stack := None\<rparr>) (threads s c))) (stacks s) (next_stk s)"
        by (rule stacks_ok_thread) (use assms(1) in \<open>auto simp: core_def plain_thread_def\<close>)
      note s2 = stacks_ok_regs [OF s1, of "\<lambda>d. d\<lparr>regs := None\<rparr>" this]
      show ?thesis
        using assms(1) s2
        by (intro core_thread) (auto simp: core_def upd_thread_def upd_stack_def plain_thread_def)
    qed
    moreover obtain d' where "stacks (if lv then ?exit else ?save) k = Some d'" "owner d' = t"
      using d by (cases "k = this"; cases lv) (auto simp: upd_stack_def upd_thread_def)
    ultimately show ?thesis
      using load_settled [of "if lv then ?exit else ?save" k d' s'] assms(4,5)
      by (auto split: if_splits)
  qed
qed

lemma sleep_settled:
  assumes "core s" "list_all plain (frames s)" "dthr_thread_sleep lv s = Inr s'"
  shows "settled s'"
proof (cases "queue s Runq")
  case Nil
  then show ?thesis using assms
    by (auto simp: dthr_thread_sleep_def dequeue_def settled_def split: if_splits)
next
  case (Cons t ts)
  let ?s = "s\<lparr>queue := (queue s)(Runq := ts)\<rparr>"
  obtain th where "threads s t = Some th" "dthr_csw (stack th) lv ?s = Inr s'"
    using assms(3) Cons
    by (auto simp: dthr_thread_sleep_def dequeue_def and_then_eq_Inr checked_thread_def the_thread_def
        split: option.splits if_splits)
  then show ?thesis
    using csw_settled [of ?s t th lv s'] core_dequeue [OF assms(1) Cons] assms(2) by simp
qed

lemma yield_settled:
  assumes "ready c s" "dthr_thread_yield s = Inr s'"
  shows "settled s'"
proof (cases "queue s Runq")
  case Nil
  then show ?thesis using assms ready_settled by (auto simp: dthr_thread_yield_def dequeue_def)
next
  case (Cons t ts)
  let ?s = "s\<lparr>queue := (queue s)(Runq := ts)\<rparr>"
  have r: "core s" "cur s = Some c" "unqueued c (queue s)" "c < next_tid s" "list_all plain (frames s)"
    using assms(1) by (auto simp: ready_def)
  obtain th where th: "threads s t = Some th" "dthr_csw (stack th) False (enqueue Runq c ?s) = Inr s'"
    using assms(2) Cons r(2)
    by (auto simp: dthr_thread_yield_def dequeue_def and_then_eq_Inr checked_thread_def the_thread_def
        the_cur_def split: option.splits if_splits)
  note u = unqueued_dequeue [OF r(3) Cons]
  have "core (enqueue Runq c ?s)"
    by (rule core_enqueue) (use u core_dequeue(1) [OF r(1) Cons] r(4) in simp_all)
  moreover have "unqueued t (queue (enqueue Runq c ?s))"
    using core_dequeue(2) [OF r(1) Cons] u unqueued_enqueue [of t "queue ?s" Runq c] by simp
  ultimately show ?thesis
    using csw_settled [of "enqueue Runq c ?s" t th False s'] th core_dequeue(3) [OF r(1) Cons] r(5) by simp
qed

section \<open>Every instruction\<close>

lemma take_ny_settled:
  assumes "ready c s" "dthr_semaphore_take_no_yield k s = Inr s'"
  shows "settled s'"
proof -
  have r: "core s" "cur s = Some c" "unqueued c (queue s)" "c < next_tid s" "list_all plain (frames s)"
    using assms(1) by (auto simp: ready_def)
  obtain v where v: "sema_value k s = Inr v" using assms(2)
    by (auto simp: dthr_semaphore_take_no_yield_def and_then_eq_Inr)
  show ?thesis
  proof (cases "v = 0")
    case False
    then have "calm s s'" using assms(2) v by (auto simp: dthr_semaphore_take_no_yield_def calm_def)
    then show ?thesis using ready_settled ready_calm assms(1) by blast
  next
    case True
    let ?s = "push [Take_ny k] (upd_thread c (\<lambda>th. th\<lparr>state := TH_SEMA_WAIT\<rparr>) (enqueue (Sema_q k) c s))"
    have "core (enqueue (Sema_q k) c s)" using r by (simp add: core_enqueue)
    then have "core ?s" using calm_state [of "enqueue (Sema_q k) c s" c] by (simp add: calm_def)
    moreover have "dthr_thread_sleep False ?s = Inr s'"
      using assms(2) v True r(2) by (simp add: dthr_semaphore_take_no_yield_def the_cur_def)
    ultimately show ?thesis using sleep_settled [of ?s False s'] r(5) by simp
  qed
qed

lemma event_wait_settled:
  assumes "ready c s" "dthr_event_wait e k s = Inr s'"
  shows "settled s'"
proof -
  have r: "core s" "cur s = Some c" "unqueued c (queue s)" "c < next_tid s" "list_all plain (frames s)"
    using assms(1) by (auto simp: ready_def)
  let ?s = "upd_thread c (\<lambda>th. th\<lparr>state := TH_EVENT_WAIT\<rparr>) (enqueue (Event_q e) c s)"
  obtain s1 where s1: "dthr_semaphore_drop_no_yield k ?s = Inr s1"
      "dthr_thread_sleep False (push [Take_ny k] s1) = Inr s'"
    using assms(2) r(2) by (auto simp: dthr_event_wait_def the_cur_def and_then_eq_Inr)
  have "core (enqueue (Event_q e) c s)" using r by (simp add: core_enqueue)
  then have "core ?s" using calm_state [of "enqueue (Event_q e) c s" c] by (simp add: calm_def)
  then have "core s1" "frames s1 = frames s" using drop_ny_calm [OF s1(1)] by (simp_all add: calm_def)
  then show ?thesis using sleep_settled [of "push [Take_ny k] s1" False s'] s1(2) r(5) by simp
qed

lemma take_settled: "ready c s \<Longrightarrow> dthr_semaphore_take k s = Inr s' \<Longrightarrow> settled s'"
  using yield_settled [of c "push [Take_ny k] s" s'] ready_push [of c s "[Take_ny k]"]
  by (simp add: dthr_semaphore_take_def)

lemma drop_settled: "ready c s \<Longrightarrow> dthr_semaphore_drop k s = Inr s' \<Longrightarrow> settled s'"
  by (auto simp: dthr_semaphore_drop_def and_then_eq_Inr dest: drop_ny_calm ready_calm yield_settled)

lemma checked_threadD: "checked_thread t s = Inr th \<Longrightarrow> threads s t = Some th \<and> th_magic th"
  by (auto simp: checked_thread_def the_thread_def and_then_eq_Inr split: option.splits if_splits)

text \<open>Initialisation of semaphores, threads, and allocation.\<close>

lemma sema_init_calm: "calm s (dthr_semaphore_init k v s)"
  by (auto simp: calm_def core_def dthr_semaphore_init_def queues_clear)

lemma thread_init_calm:
  assumes "\<forall>g. f = Some g \<longrightarrow> plain_code g"
  shows "calm s (dthr_thread_init t f n s)"
proof -
  let ?s = "s\<lparr>threads := (threads s)(t := Some \<lparr>th_magic = True, fn = f, th_stack_size = n,
    state = TH_RUNNABLE, stack = None, on_exit = [], exit_value = 0\<rparr>)\<rparr>"
  have "core ?s" if "core s"
    using that assms unfolding core_def stacks_ok_def by (auto simp: plain_thread_def)
  then have "calm s ?s" by (simp add: calm_def)
  then show ?thesis unfolding dthr_thread_init_def by (rule calm_trans [OF _ sema_init_calm])
qed

lemma malloc_calm: "malloc s = (ok, s') \<Longrightarrow> calm s s' \<and> threads s' = threads s"
  by (auto simp: malloc_def calm_def core_def split: if_splits)

lemma on_exit_calm:
  assumes "dthr_thread_on_exit t f s = Inr (ok, s')" "plain_exit f"
  shows "calm s s'"
proof -
  obtain b s1 where m: "malloc s = (b, s1)" by (cases "malloc s")
  have "calm s1 (upd_thread t (\<lambda>th. th\<lparr>on_exit := f # on_exit th\<rparr>) s1)"
    using assms(2) by (auto simp: calm_def plain_thread_def intro!: core_thread)
  then show ?thesis using assms(1) m malloc_calm [OF m] calm_trans
    by (auto simp: dthr_thread_on_exit_def and_then_eq_Inr split: bool.splits)
qed

text \<open>Leaving a thread.\<close>

lemma plain_exit_frames: "plain_exit f \<Longrightarrow> list_all plain (exit_frames f t)"
  by (cases f) (auto simp: exit_frames_def)

lemma core_plain: "core s \<Longrightarrow> threads s t = Some th \<Longrightarrow> plain_thread th"
  unfolding core_def stacks_ok_def by blast

lemma exit_step_settled:
  assumes "ready c s" "threads s t = Some th" "on_exit th = x # xs" "plain i"
  shows "settled (push (exit_frames x t @ [i]) (upd_thread t (\<lambda>th. th\<lparr>on_exit := xs\<rparr>) s))"
proof -
  have p: "plain_exit x" "list_all plain_exit xs"
    using core_plain [of s t th] assms(1-3) by (auto simp: ready_def plain_thread_def)
  then have "stacks_ok ((threads s)(t := map_option (\<lambda>th. th\<lparr>on_exit := xs\<rparr>) (threads s t))) (stacks s) (next_stk s)"
    using assms(1) by (intro stacks_ok_thread) (auto simp: ready_def core_def plain_thread_def)
  then have "calm s (upd_thread t (\<lambda>th. th\<lparr>on_exit := xs\<rparr>) s)"
    by (simp add: calm_def core_def upd_thread_def)
  then show ?thesis
    using ready_settled [OF ready_push [OF ready_calm [OF assms(1)]]] plain_exit_frames [OF p(1)] assms(4)
    by simp
qed

lemma final_sleep_settled:
  assumes "ready c s" "dthr_thread_sleep True (upd_thread t f s) = Inr s'"
    "\<And>th. stack (f th) = stack th" "\<And>th. plain_thread th \<Longrightarrow> plain_thread (f th)"
  shows "settled s'"
  by (rule sleep_settled [OF _ _ assms(2)])
     (use assms in \<open>auto simp: ready_def intro!: core_thread\<close>)

lemma thread_exit_settled:
  assumes "ready c s" "dthr_thread_exit v s = Inr s'"
  shows "settled s'"
proof -
  have c: "cur s = Some c" using assms(1) by (simp add: ready_def)
  obtain th where th: "threads s c = Some th"
    using assms(2) c by (auto simp: dthr_thread_exit_def the_cur_def the_thread_def and_then_eq_Inr split: option.splits)
  show ?thesis
  proof (cases "on_exit th")
    case Nil
    then have "dthr_thread_sleep True (upd_thread c (\<lambda>th. th\<lparr>exit_value := v, state := TH_EXITED\<rparr>) s) = Inr s'"
      using assms(2) c th by (auto simp: dthr_thread_exit_def the_cur_def the_thread_def and_then_eq_Inr)
    then show ?thesis by (rule final_sleep_settled [OF assms(1)]) (simp_all add: plain_thread_def)
  next
    case (Cons x xs)
    then show ?thesis using assms(2) c th exit_step_settled [OF assms(1) th Cons, of "Exit v"]
      by (auto simp: dthr_thread_exit_def the_cur_def the_thread_def)
  qed
qed

lemma leave_settled:
  assumes "ready c s" "leave_thread t s = Inr s'"
  shows "settled s'"
proof -
  obtain th where th: "threads s t = Some th"
    using assms(2) by (auto simp: leave_thread_def the_thread_def and_then_eq_Inr split: option.splits)
  show ?thesis
  proof (cases "on_exit th")
    case Nil
    then have "dthr_thread_sleep True (upd_thread t (\<lambda>th. th\<lparr>state := TH_EXITED\<rparr>) s) = Inr s'"
      using assms(2) th by (auto simp: leave_thread_def the_thread_def)
    then show ?thesis by (rule final_sleep_settled [OF assms(1)]) (simp_all add: plain_thread_def)
  next
    case (Cons x xs)
    then show ?thesis using assms(2) th exit_step_settled [OF assms(1) th Cons, of "Leave t"]
      by (auto simp: leave_thread_def the_thread_def)
  qed
qed

text \<open>Starting a thread.\<close>

lemma newq_put_settled:
  assumes "ready c s" "unqueued t (queue s)" "t \<noteq> c" "t < next_tid s" "newq_put t s = Inr s'"
  shows "settled s'"
proof -
  have "ready c (enqueue Newq t s)"
    using assms(1-4) unqueued_enqueue [of c "queue s" Newq t] by (auto simp: ready_def core_enqueue)
  moreover obtain s1 s2 where "dthr_eventq_to_runq Newq_event 1 (enqueue Newq t s) = Inr s1"
      "dthr_semaphore_drop_no_yield Newq_sema s1 = Inr s2" "dthr_thread_yield s2 = Inr s'"
    using assms(5) by (auto simp: newq_put_def dthr_event_signal_no_yield_def and_then_eq_Inr)
  ultimately show ?thesis
    by (meson ready_calm eventq_calm drop_ny_calm yield_settled)
qed

lemma run_settled:
  assumes "ready c s" "dthr_thread_run t s = Inr s'"
  shows "settled s'"
  using assms take_ny_settled [OF ready_push [OF assms(1), of "[Newq_put t]"], of Newq_sema s']
  by (auto simp: dthr_thread_run_def and_then_eq_Inr)

lemma fresh_calm:
  assumes "fresh_thread f n s = (t, s')" "\<forall>g. f = Some g \<longrightarrow> plain_code g" "ready c s"
  shows "ready c s'"
proof -
  have q: "queues_ok (queue s) (Suc (next_tid s))"
    using assms(3) by (auto simp: ready_def core_def queues_ok_def less_Suc_eq)
  have "stacks_ok ((threads s)(next_tid s := Some (blank_thread\<lparr>fn := f, th_stack_size := n\<rparr>))) (stacks s) (next_stk s)"
    using assms(2,3) unfolding ready_def core_def stacks_ok_def
    by (auto simp: plain_thread_def blank_thread_def)
  then show ?thesis using assms(1,3) q by (auto simp: fresh_thread_def Let_def ready_def core_def)
qed

lemma spawn_settled:
  assumes "ready c s" "DThr_spawn f n s = Inr s'" "\<forall>g. f = Some g \<longrightarrow> plain_code g"
  shows "settled s'"
proof -
  obtain ok s1 where m: "malloc s = (ok, s1)" by (cases "malloc s")
  have r1: "ready c s1" using malloc_calm [OF m] ready_calm assms(1) by blast
  show ?thesis
  proof (cases ok)
    case False
    then show ?thesis using assms(2) m ready_settled [OF r1] by (simp add: DThr_spawn_def)
  next
    case True
    obtain t s2 where f: "fresh_thread f n s1 = (t, s2)" by (cases "fresh_thread f n s1")
    have "ready c (push [Mark_on_exit t, Run t, Detach t] s2)"
      by (rule ready_push [OF fresh_calm [OF f assms(3) r1]]) simp
    moreover have "dthr_semaphore_drop Num_sema (push [Mark_on_exit t, Run t, Detach t] s2) = Inr s'"
      using assms(2) m True f by (simp add: DThr_spawn_def)
    ultimately show ?thesis by (rule drop_settled)
  qed
qed

text \<open>The launcher.\<close>

lemma new_topmost_settled:
  assumes "core s" "cur s = Some c" "unqueued c (queue s)" "c < next_tid s"
    "stacks s k = Some d" "unqueued (owner d) (queue s)" "owner d < next_tid s" "owner d \<noteq> c"
    "dthr_new_topmost_thread k n s = Inr s'"
  shows "settled s'"
proof -
  let ?s = "upd_stack k (\<lambda>d. d\<lparr>regs := Some [Launch k]\<rparr>) s"
  have "core ?s" using assms(1) stacks_ok_regs [of "threads s" "stacks s" "next_stk s"
        "\<lambda>d. d\<lparr>regs := Some [Launch k]\<rparr>" k]
    by (auto simp: core_def upd_stack_def context_ok_def)
  then have "core (enqueue Runq (owner d) ?s)" using assms by (simp add: core_enqueue)
  then have "ready c ((enqueue Runq (owner d) (?s\<lparr>sp := x\<rparr>))\<lparr>frames := [Launcher]\<rparr>)" for x
    using assms(2-4,8) unqueued_enqueue [of c "queue s" Runq "owner d"] by (auto simp: ready_def core_def)
  then show ?thesis
    using assms(5,9) ready_settled
    by (auto simp: dthr_new_topmost_thread_def the_stack_def Let_def)
qed

lemma launcher_settled:
  assumes "ready c s" "dthr_thread_launcher s = Inr s'"
  shows "settled s'"
proof -
  let ?d = "\<lparr>stack_size = 0, stack_base = sp s, stack_top = 0, owner = 0,
     regs = Option.bind (stacks s 0) regs, base = Option.bind (stacks s 0) base\<rparr>"
  let ?s = "upd_thread 0 (\<lambda>th. th\<lparr>stack := Some 0\<rparr>) (s\<lparr>stacks := (stacks s)(0 := Some ?d)\<rparr>)"
  have "stacks_ok (threads ?s) (stacks ?s) (next_stk ?s)"
    using assms(1) unfolding ready_def core_def stacks_ok_def
    by (auto simp: upd_thread_def plain_thread_def bind_eq_Some_conv)
  then have "ready c ?s" using assms(1) by (simp add: ready_def core_def)
  then have "ready c (push [Scan] ?s)" by (rule ready_push) simp
  then show ?thesis
    using assms(2) take_ny_settled by (auto simp: dthr_thread_launcher_def Let_def)
qed

lemma new_stack_settled:
  assumes "ready c s" "unqueued t (queue s)" "t < next_tid s" "t \<noteq> c" "new_stack t n s = Inr s'"
  shows "settled s'"
proof -
  obtain s1 where m: "malloc s = (True, s1)"
    using assms(5) by (cases "malloc s") (auto simp: new_stack_def split: bool.splits)
  have r1: "core s1" "cur s1 = Some c" "unqueued c (queue s1)" "c < next_tid s1"
    using malloc_calm [OF m] assms(1) by (auto simp: ready_def calm_def)
  have u1: "unqueued t (queue s1)" "t < next_tid s1" using malloc_calm [OF m] assms(2,3) by (auto simp: calm_def)
  obtain top where top: "stacks s1 0 = Some top"
    using assms(5) m by (auto simp: new_stack_def the_stack_def and_then_eq_Inr split: option.splits)
  define d where "d = \<lparr>stack_size = n, stack_base = stack_base top, stack_top = stack_base top - n,
    owner = t, regs = None, base = None\<rparr>"
  define k where "k = next_stk s1"
  define s2 where "s2 = (upd_thread t (\<lambda>th. th\<lparr>stack := Some k, state := TH_RUNNABLE\<rparr>)
      (s1\<lparr>next_stk := k + 1, stacks := (stacks s1)(k := Some d)\<rparr>))
      \<lparr>active_stacks := k # active_stacks s1\<rparr>"
  have c2: "core s2"
    using r1(1) unfolding core_def stacks_ok_def s2_def d_def k_def
    by (auto simp: upd_thread_def plain_thread_def split: if_splits intro: less_SucI)
  obtain s3 where s3: "dthr_semaphore_drop_no_yield Newq_sema s2 = Inr s3" "dthr_new_topmost_thread k n s3 = Inr s'"
    using assms(5) m top
    by (auto simp: new_stack_def the_stack_def Let_def and_then_eq_Inr s2_def d_def k_def upd_thread_def)
  have s2f: "cur s2 = Some c" "queue s2 = queue s1" "next_tid s2 = next_tid s1" "stacks s2 k = Some d"
    using r1(2) by (simp_all add: s2_def)
  have stk: "stacks s3 = stacks s2"
    using s3(1) by (cases "queue s2 (Sema_q Newq_sema)")
      (auto simp: dthr_semaphore_drop_no_yield_def and_then_eq_Inr dequeue_def)
  note c = drop_ny_calm [OF s3(1)]
  show ?thesis
    by (rule new_topmost_settled [OF _ _ _ _ _ _ _ _ s3(2), of c d])
       (use c c2 s2f r1 u1 stk assms(4) in \<open>auto simp: calm_def d_def\<close>)
qed

lemma scan_settled:
  assumes "ready c s" "legal_instr Scan s" "launcher_scan s = Inr s'"
  shows "settled s'"
proof (cases "queue s Newq")
  case Nil
  then show ?thesis
    using assms(3) event_wait_settled [OF ready_push [OF assms(1), of "[Scan]"]]
    by (auto simp: launcher_scan_def dequeue_def)
next
  case (Cons t ts)
  let ?s = "s\<lparr>queue := (queue s)(Newq := ts)\<rparr>"
  have r: "core s" "cur s = Some c" "unqueued c (queue s)" "c < next_tid s" "list_all plain (frames s)"
    using assms(1) by (auto simp: ready_def)
  obtain th r where th: "threads s t = Some th" "dthr_find_free_stack (th_stack_size th) ?s = Inr r"
      "(case r of Some k \<Rightarrow> Inr (push [Scan] (reuse_stack k t ?s)) | None \<Rightarrow> new_stack t (th_stack_size th) ?s) = Inr s'"
    using assms(3) Cons
    by (auto simp: launcher_scan_def dequeue_def and_then_eq_Inr dest!: checked_threadD)
  have bf: "best_fit sz ?s ks b bd = best_fit sz s ks b bd" for sz ks b bd
    by (induction sz s ks b bd rule: best_fit.induct) (auto simp: the_stack_def Let_def split: option.splits)
  then have "r = None" using assms(2) th Cons by (simp add: dthr_find_free_stack_def)
  then have "new_stack t (th_stack_size th) ?s = Inr s'" using th(3) by simp
  moreover have "ready c ?s" "unqueued t (queue ?s)" "t < next_tid ?s" "t \<noteq> c"
    using core_dequeue [OF r(1) Cons] unqueued_dequeue [OF r(3) Cons] r by (auto simp: ready_def)
  ultimately show ?thesis using new_stack_settled by blast
qed

lemma fn_return_settled:
  assumes "ready c s" "fn_return t v s = Inr s'"
  shows "settled s'"
proof -
  have "calm s (upd_thread t (\<lambda>th. th\<lparr>exit_value := v\<rparr>) s)"
    by (auto simp: calm_def plain_thread_def intro!: core_thread)
  then have "ready c (push [Leave t] (upd_thread t (\<lambda>th. th\<lparr>exit_value := v\<rparr>) s))"
    using ready_push [OF ready_calm [OF assms(1)]] by simp
  then show ?thesis using assms(2) ready_settled by (auto simp: fn_return_def and_then_eq_Inr)
qed

lemma launch_settled:
  assumes "core s" "stacks s k = Some d" "unqueued (owner d) (queue s)" "owner d < next_tid s"
    "launch k s = Inr s'"
  shows "settled s'"
proof -
  let ?s = "upd_stack k (\<lambda>d. d\<lparr>base := Some [Launch k]\<rparr>) s"
  obtain th f where th: "threads s (owner d) = Some th" "fn th = Some f"
      "s' = ?s\<lparr>cur := Some (owner d), frames := code_frames f (owner d)\<rparr>"
    using assms(2,5)
    by (auto simp: launch_def the_stack_def Let_def and_then_eq_Inr upd_stack_def
        dest!: checked_threadD split: option.splits)
  have "core ?s"
    using assms(1,2) stacks_ok_regs [of "threads s" "stacks s" "next_stk s" "\<lambda>d. d\<lparr>base := Some [Launch k]\<rparr>" k]
    by (simp add: core_def upd_stack_def)
  moreover have "list_all plain (code_frames f (owner d))"
    using core_plain [OF assms(1) th(1)] th(2) by (cases f) (auto simp: plain_thread_def code_frames_def)
  ultimately show ?thesis
    using assms(3,4) th(3) by (intro ready_settled [of "owner d"]) (simp add: ready_def core_def)
qed

text \<open>The higher-level interface.\<close>

lemma free_calm: "calm s (free_thread t (s\<lparr>to_be_freed := ts\<rparr>))"
  by (auto simp: calm_def core_def free_thread_def stacks_ok_def)

lemma try_calm: "dthr_semaphore_try k s = Inr (ok, s') \<Longrightarrow> calm s s'"
  by (auto simp: dthr_semaphore_try_def and_then_eq_Inr calm_def split: if_splits)

lemma reaper_settled:
  assumes "ready c s" "reaper_loop s = Inr s'"
  shows "settled s'"
proof (cases "to_be_freed s")
  case (Cons t ts)
  have "ready c (push [Reap_loop] (free_thread t (s\<lparr>to_be_freed := ts\<rparr>)))"
    using ready_push [OF ready_calm [OF assms(1) free_calm]] by simp
  then show ?thesis using assms(2) Cons drop_settled by (auto simp: reaper_loop_def and_then_eq_Inr)
next
  case Nil
  then obtain ok s1 where s1: "dthr_semaphore_try Num_sema s = Inr (ok, s1)"
      "(if \<not> ok then dthr_semaphore_drop Freed_sema s1
        else dthr_event_wait Freed_event Freed_sema (push [Reap_loop] s1)) = Inr s'"
    using assms(2) by (auto simp: reaper_loop_def and_then_eq_Inr)
  have "ready c s1" by (rule ready_calm [OF assms(1) try_calm [OF s1(1)]])
  then show ?thesis
    using s1(2) drop_settled event_wait_settled ready_push [of c s1 "[Reap_loop]"]
    by (auto split: if_splits)
qed

lemma multi_settled:
  assumes "ready c s" "multi_loop s = Inr s'"
  shows "settled s'"
proof (cases "thread_q s")
  case Nil
  then show ?thesis
    using assms(2) take_settled [OF ready_push [OF assms(1), of "[Reap_loop]"]] by (simp add: multi_loop_def)
next
  case (Cons t ts)
  let ?s = "s\<lparr>thread_q := ts\<rparr>"
  obtain th s1 where th: "threads s t = Some th"
      "dthr_thread_on_exit t Mark_of_death (dthr_thread_init t (fn th) (th_stack_size th) ?s) = Inr (True, s1)"
      "s' = push [Run t, Detach t, Multi_loop] s1"
    using assms(2) Cons
    by (auto simp: multi_loop_def the_thread_def Let_def and_then_eq_Inr split: option.splits if_splits)
  have "plain_thread th" using assms(1) th(1) core_plain by (auto simp: ready_def)
  then have "calm ?s (dthr_thread_init t (fn th) (th_stack_size th) ?s)"
    by (intro thread_init_calm) (simp add: plain_thread_def)
  moreover have "calm s ?s" by (simp add: calm_def core_def)
  ultimately have "calm s (dthr_thread_init t (fn th) (th_stack_size th) ?s)"
    using calm_trans by blast
  then have "ready c s1" using ready_calm [OF ready_calm [OF assms(1)] on_exit_calm [OF th(2)]] by simp
  then show ?thesis unfolding th(3) by (intro ready_settled [of c] ready_push) auto
qed

section \<open>The invariant\<close>

lemma csw_return_settled:
  assumes "core s" "stacks s k = Some d" "unqueued (owner d) (queue s)" "owner d < next_tid s"
    "list_all plain (frames s)" "csw_return k s = Inr s'"
  shows "settled s'"
  using assms by (intro ready_settled [of "owner d"]) (auto simp: csw_return_def the_stack_def ready_def core_def)

lemma exec_settled:
  assumes "ready c s" "plain i" "legal_instr i s" "exec i s = Inr s'"
  shows "settled s'"
proof (cases i)
  case (Thread_init t f n)
  then show ?thesis
    using assms ready_settled [OF ready_calm [OF assms(1) thread_init_calm]] by auto
next
  case (On_exit t f)
  then show ?thesis using assms(2,4) ready_settled [OF ready_calm [OF assms(1) on_exit_calm]]
    by (auto simp: and_then_eq_Inr)
next
  case (Mark_on_exit t)
  then show ?thesis using assms(4) ready_settled [OF ready_calm [OF assms(1) on_exit_calm]]
    by (auto simp: and_then_eq_Inr split: if_splits)
next
  case (Newq_put t)
  then show ?thesis using assms newq_put_settled [OF assms(1)] by (auto simp: ready_def)
next
  case (DThr_Run f n)
  then have "DThr_spawn f n s = Inr s'" using assms(3,4) by (simp add: DThr_Thread_Run_def DThr_setup_def)
  moreover have "\<forall>g. f = Some g \<longrightarrow> plain_code g" using assms(2) DThr_Run by auto
  ultimately show ?thesis using spawn_settled assms(1) by blast
next
  case (Push_freed t)
  then show ?thesis
    using assms(4) ready_settled [OF ready_calm [OF assms(1), of s']]
    by (auto simp: mark_of_death_push_def and_then_eq_Inr calm_def core_def)
next
  case (Try k)
  then show ?thesis using assms(4) ready_settled [OF ready_calm [OF assms(1) try_calm]]
    by (auto simp: and_then_eq_Inr)
next
  case (Drop_ny k)
  then show ?thesis using assms(4) ready_settled [OF ready_calm [OF assms(1) drop_ny_calm]] by simp
next
  case (Broadcast e)
  then show ?thesis using assms(4) yield_settled [OF ready_calm [OF assms(1) eventq_calm]]
    by (auto simp: dthr_event_broadcast_def and_then_eq_Inr)
next
  case (Broadcast_ny e)
  then show ?thesis using assms(4) ready_settled [OF ready_calm [OF assms(1) eventq_calm]]
    by (auto simp: dthr_event_broadcast_no_yield_def)
next
  case (Signal e)
  then show ?thesis using assms(4) yield_settled [OF ready_calm [OF assms(1) eventq_calm]]
    by (auto simp: dthr_event_signal_def and_then_eq_Inr)
next
  case (Signal_ny e)
  then show ?thesis using assms(4) ready_settled [OF ready_calm [OF assms(1) eventq_calm]]
    by (auto simp: dthr_event_signal_no_yield_def)
next
  case (Wait t)
  then show ?thesis
    using assms(4) take_settled [OF ready_push [OF assms(1), of "[Drop (Exit_sema t)]"]]
    by (auto simp: dthr_thread_wait_def and_then_eq_Inr)
next
  case (Detach t)
  then show ?thesis using assms(4) drop_settled [OF assms(1)]
    by (auto simp: dthr_thread_detach_def and_then_eq_Inr)
qed (use assms yield_settled take_settled take_ny_settled drop_settled event_wait_settled run_settled
      thread_exit_settled launcher_settled scan_settled fn_return_settled leave_settled reaper_settled
      multi_settled in auto)

lemma step_settled:
  assumes "settled s" "sched_step s s'"
  shows "settled s'"
proof -
  from assms(2) have st: "legal s" "step s = Inr s'" by (auto elim: sched_stepE)
  show ?thesis
  proof (cases "frames s")
    case Nil
    then show ?thesis using assms(1) st(2) by (simp add: step_def)
  next
    case (Cons i fs)
    let ?s = "s\<lparr>frames := fs\<rparr>"
    from assms(1) Cons obtain c where c: "core s" "list_all plain fs" "running s = Some c"
      "unqueued c (queue s)" "c < next_tid s" by (auto simp: settled_def)
    have ex: "exec i ?s = Inr s'" using st(2) Cons by (simp add: step_def)
    show ?thesis
    proof (cases "plain i")
      case True
      then have "ready c ?s" using c Cons by (simp add: ready_def running_def running_plain)
      moreover have "legal_instr i ?s"
      proof -
        have "best_fit sz ?s ks b bd = best_fit sz s ks b bd" for sz ks b bd
          by (induction sz s ks b bd rule: best_fit.induct) (auto simp: the_stack_def Let_def split: option.splits)
        then show ?thesis using st(1) Cons
          by (cases i) (auto simp: legal_def dthr_find_free_stack_def)
      qed
      ultimately show ?thesis using exec_settled True ex by blast
    next
      case False
      then consider (r) k where "i = Csw_return k" | (l) k where "i = Launch k"
        using assms(1) Cons by (auto simp: settled_def)
      then show ?thesis
      proof cases
        case r
        then show ?thesis using csw_return_settled [of ?s k _ s'] c ex Cons
          by (auto simp: running_def)
      next
        case l
        then show ?thesis using launch_settled [of ?s k _ s'] c ex Cons
          by (auto simp: running_def)
      qed
    qed
  qed
qed

lemma run_settled_all: "sched_run s s' \<Longrightarrow> settled s \<Longrightarrow> settled s'"
  by (induction rule: sched_run.induct) (auto intro: step_settled)

text \<open>The state in which \<open>dthr_thread_multithread\<close> starts the launcher.\<close>

definition started :: "nat \<Rightarrow> int \<Rightarrow> nat \<Rightarrow> tid \<Rightarrow> code \<Rightarrow> int \<Rightarrow> sched" where
  "started mem addr frame t f n =
     (enqueue Newq t (dthr_thread_init t (Some f) n (dthr_init ((boot mem addr frame [])\<lparr>next_tid := t + 1\<rparr>))))
       \<lparr>cur := Some topmost_thread, deadlock_saved := True, frames := [Launcher]\<rparr>"

lemma started_multithread:
  "dthr_thread_multithread t (dthr_thread_init t (Some f) n (dthr_init ((boot mem addr frame [])\<lparr>next_tid := t + 1\<rparr>)))
    = Inr (started mem addr frame t f n)"
  by (simp add: started_def dthr_thread_multithread_def)

lemma started_settled:
  assumes "plain_code f" "0 < t"
  shows "settled (started mem addr frame t f n)"
proof -
  let ?s = "dthr_init ((boot mem addr frame [])\<lparr>next_tid := t + 1\<rparr>)"
  have "core ?s"
    by (simp add: core_def queues_ok_def stacks_ok_def dthr_init_def Let_def dthr_event_init_def
        dthr_semaphore_init_def boot_def blank_thread_def plain_thread_def)
  moreover have "unqueued u (queue ?s)" for u
    by (simp add: unqueued_def dthr_init_def Let_def dthr_event_init_def dthr_semaphore_init_def boot_def)
  moreover have "next_tid ?s = t + 1"
    by (simp add: dthr_init_def Let_def dthr_event_init_def dthr_semaphore_init_def)
  moreover have "calm ?s (dthr_thread_init t (Some f) n ?s)"
    by (rule thread_init_calm) (use assms(1) in simp)
  ultimately have i: "core (dthr_thread_init t (Some f) n ?s)" "\<And>u. unqueued u (queue (dthr_thread_init t (Some f) n ?s))"
      "next_tid (dthr_thread_init t (Some f) n ?s) = t + 1"
    by (auto simp: calm_def)
  then have "core (enqueue Newq t (dthr_thread_init t (Some f) n ?s))" by (simp add: core_enqueue)
  then show ?thesis
    using assms(2) i unqueued_enqueue [of 0 "queue (dthr_thread_init t (Some f) n ?s)" Newq t]
    by (intro ready_settled [of 0]) (simp add: ready_def started_def core_def)
qed



end
