(* ===== verification/Chain.thy ===== *)
theory Chain
  imports Prelude
begin

text \<open>
  \<open>dread_chain.c\<close>: circular doubly linked chains through anchors, on an explicit heap of
  \<open>prev\<close> and \<open>next\<close> pointers, and their refinement to lists.  The scheduler of \<open>Dread\<close> uses the
  chains as the lists they represent; \<open>ring\<close> is the representation.
\<close>

section \<open>The code\<close>

type_synonym addr = nat

record chain_heap =
  prv :: "addr \<Rightarrow> addr"
  nxt :: "addr \<Rightarrow> addr"

definition set_next :: "addr \<Rightarrow> addr \<Rightarrow> chain_heap \<Rightarrow> chain_heap" where
  "set_next p q h = h\<lparr>nxt := (nxt h)(p := q)\<rparr>"

definition set_prev :: "addr \<Rightarrow> addr \<Rightarrow> chain_heap \<Rightarrow> chain_heap" where
  "set_prev p q h = h\<lparr>prv := (prv h)(p := q)\<rparr>"

definition dthr_chain_empty :: "chain_heap \<Rightarrow> addr \<Rightarrow> bool" where
  "dthr_chain_empty h anchor \<longleftrightarrow> nxt h anchor = anchor"

definition dthr_chain_init :: "chain_heap \<Rightarrow> addr \<Rightarrow> chain_heap" where
  "dthr_chain_init h anchor = set_prev anchor anchor (set_next anchor anchor h)"

definition dthr_chain_delete :: "chain_heap \<Rightarrow> addr \<Rightarrow> chain_heap" where
  "dthr_chain_delete h link =
     (let h = set_next (prv h link) (nxt h link) h;
          h = set_prev (nxt h link) (prv h link) h;
          h = set_next link link h
      in set_prev link link h)"

definition dthr_chain_dequeue :: "chain_heap \<Rightarrow> addr \<Rightarrow> addr option \<times> chain_heap" where
  "dthr_chain_dequeue h anchor =
     (if dthr_chain_empty h anchor then (None, h)
      else (Some (nxt h anchor), dthr_chain_delete h (nxt h anchor)))"

definition dthr_chain_insert_after :: "chain_heap \<Rightarrow> addr \<Rightarrow> addr \<Rightarrow> chain_heap" where
  "dthr_chain_insert_after h link new_link =
     (let h = set_next new_link (nxt h link) h;
          h = set_prev new_link link h;
          h = set_prev (nxt h link) new_link h
      in set_next link new_link h)"

definition dthr_chain_insert_before :: "chain_heap \<Rightarrow> addr \<Rightarrow> addr \<Rightarrow> chain_heap" where
  "dthr_chain_insert_before h link new_link =
     (let h = set_prev new_link (prv h link) h;
          h = set_next new_link link h;
          h = set_next (prv h link) new_link h
      in set_prev link new_link h)"

section \<open>Chains as lists\<close>

text \<open>The links lead from \<open>a\<close> through \<open>xs\<close> to \<open>b\<close>, and back.\<close>

fun seg :: "chain_heap \<Rightarrow> addr \<Rightarrow> addr list \<Rightarrow> addr \<Rightarrow> bool" where
  "seg h a [] b \<longleftrightarrow> nxt h a = b \<and> prv h b = a"
| "seg h a (x # xs) b \<longleftrightarrow> nxt h a = x \<and> prv h x = a \<and> seg h x xs b"

definition ring :: "chain_heap \<Rightarrow> addr \<Rightarrow> addr list \<Rightarrow> bool" where
  "ring h a xs \<longleftrightarrow> seg h a xs a \<and> distinct (a # xs)"

named_theorems chain_simps \<open>the pointer writes\<close>

lemma set_next_simps [simp, chain_simps]:
  "nxt (set_next p q h) = (nxt h)(p := q)" "prv (set_next p q h) = prv h"
  "nxt (set_prev p q h) = nxt h" "prv (set_prev p q h) = (prv h)(p := q)"
  by (simp_all add: set_next_def set_prev_def)

lemma seg_append: "seg h a (xs @ y # ys) b \<longleftrightarrow> seg h a xs y \<and> seg h y ys b"
  by (induction xs arbitrary: a) auto

lemma seg_frame:
  assumes "\<And>p. p \<in> set (a # xs) \<Longrightarrow> nxt h' p = nxt h p"
    "\<And>p. p \<in> set (b # xs) \<Longrightarrow> prv h' p = prv h p"
  shows "seg h' a xs b \<longleftrightarrow> seg h a xs b"
  using assms
proof (induction xs arbitrary: a)
  case (Cons x xs)
  have "seg h' x xs b \<longleftrightarrow> seg h x xs b" by (rule Cons.IH) (use Cons.prems in auto)
  then show ?case using Cons.prems by simp
qed simp

lemma seg_last: "seg h a xs b \<Longrightarrow> prv h b = last (a # xs)"
  by (induction xs arbitrary: a) auto

lemma ring_empty: "ring h a xs \<Longrightarrow> dthr_chain_empty h a \<longleftrightarrow> xs = []"
  by (cases xs) (auto simp: ring_def dthr_chain_empty_def)

lemma ring_init: "ring (dthr_chain_init h a) a []"
  by (simp add: ring_def dthr_chain_init_def)

lemma ring_next: "ring h a xs \<Longrightarrow> nxt h a = hd (xs @ [a])"
  by (cases xs) (auto simp: ring_def)

lemma ring_prev: "ring h a xs \<Longrightarrow> prv h a = last (a # xs)"
  using seg_last by (auto simp: ring_def)

text \<open>The neighbours of a member.\<close>

lemma ring_split:
  assumes "ring h a (xs @ x # ys)"
  shows "prv h x = last (a # xs)" "nxt h x = hd (ys @ [a])" "seg h a xs x" "seg h x ys a"
    "distinct (a # xs @ x # ys)"
proof -
  show s: "seg h a xs x" "seg h x ys a" and "distinct (a # xs @ x # ys)"
    using assms by (auto simp: ring_def seg_append)
  show "prv h x = last (a # xs)" using seg_last [OF s(1)] .
  show "nxt h x = hd (ys @ [a])" using s(2) by (cases ys) auto
qed

text \<open>Writes outside a stretch do not change it.\<close>

lemma seg_write [simp]:
  "p \<notin> set (a # xs) \<Longrightarrow> seg (set_next p q h) a xs b = seg h a xs b"
  "p \<notin> set (b # xs) \<Longrightarrow> seg (set_prev p q h) a xs b = seg h a xs b"
  by (rule seg_frame; auto)+

lemma ring_write:
  assumes "p \<notin> set (a # xs)"
  shows "ring (set_next p q h) a xs = ring h a xs" "ring (set_prev p q h) a xs = ring h a xs"
  using assms by (auto simp: ring_def)

section \<open>The operations on rings\<close>

lemma delete_writes:
  assumes "ring h a (xs @ x # ys)"
  shows "dthr_chain_delete h x = set_prev x x (set_next x x
      (set_prev (hd (ys @ [a])) (last (a # xs)) (set_next (last (a # xs)) (hd (ys @ [a])) h)))"
  using ring_split(1,2,5) [OF assms]
  by (auto simp: dthr_chain_delete_def Let_def split: if_splits)

lemma ring_delete:
  assumes "ring h a (xs @ x # ys)"
  shows "ring (dthr_chain_delete h x) a (xs @ ys)" "ring (dthr_chain_delete h x) x []"
proof -
  note s = ring_split [OF assms] and d = delete_writes [OF assms]
  show "ring (dthr_chain_delete h x) x []" unfolding d by (simp add: ring_def)
  have "seg (dthr_chain_delete h x) a (xs @ ys) a"
  proof (cases xs rule: rev_cases)
    case Nil
    then show ?thesis using s unfolding d by (cases ys) auto
  next
    case (snoc us p)
    then have "seg h a us p" using s(3) by (simp add: seg_append)
    then show ?thesis using s snoc unfolding d by (cases ys) (auto simp: seg_append)
  qed
  then show "ring (dthr_chain_delete h x) a (xs @ ys)" using s(5) by (auto simp: ring_def)
qed

lemma ring_insert_before:
  assumes "ring h a xs" "x \<notin> set (a # xs)"
  shows "ring (dthr_chain_insert_before h a x) a (xs @ [x])"
proof -
  have p: "prv h a = last (a # xs)" by (rule ring_prev [OF assms(1)])
  have s: "seg h a xs a" "distinct (a # xs)" using assms(1) by (auto simp: ring_def)
  have ne: "x \<noteq> a" "x \<noteq> last (a # xs)" using assms(2) last_in_set [of "a # xs"] by fastforce+
  have d: "dthr_chain_insert_before h a x = set_prev a x (set_next (last (a # xs)) x
      (set_next x a (set_prev x (last (a # xs)) h)))"
    using p ne by (simp add: dthr_chain_insert_before_def Let_def)
  have "seg (dthr_chain_insert_before h a x) a (xs @ [x]) a"
  proof (cases xs rule: rev_cases)
    case Nil
    then show ?thesis using s ne unfolding d by (simp add: seg_append)
  next
    case (snoc us y)
    then have "seg h a us y" using s(1) by (simp add: seg_append)
    then show ?thesis using s snoc assms(2) unfolding d by (auto simp: seg_append)
  qed
  then show ?thesis using s(2) assms(2) by (auto simp: ring_def)
qed

lemma ring_insert_after:
  assumes "ring h a xs" "x \<notin> set (a # xs)"
  shows "ring (dthr_chain_insert_after h a x) a (x # xs)"
proof -
  have s: "seg h a xs a" "distinct (a # xs)" using assms(1) by (auto simp: ring_def)
  have d: "dthr_chain_insert_after h a x = set_next a x (set_prev (hd (xs @ [a])) x
      (set_prev x a (set_next x (hd (xs @ [a])) h)))"
    using ring_next [OF assms(1)] assms(2)
    by (simp add: dthr_chain_insert_after_def Let_def)
  have "seg (dthr_chain_insert_after h a x) a (x # xs) a"
    using s assms(2) unfolding d by (cases xs) auto
  then show ?thesis using s(2) assms(2) by (auto simp: ring_def)
qed

text \<open>Rings that share no link with the one changed stay as they are.\<close>

definition touched :: "chain_heap \<Rightarrow> chain_heap \<Rightarrow> addr set" where
  "touched h h' = {p. nxt h' p \<noteq> nxt h p \<or> prv h' p \<noteq> prv h p}"

lemma ring_untouched:
  assumes "set (b # ys) \<inter> touched h h' = {}"
  shows "ring h' b ys = ring h b ys"
  unfolding ring_def using assms by (subst seg_frame [of b ys h' h b]) (auto simp: touched_def)

lemma touched_delete:
  assumes "ring h a (xs @ x # ys)"
  shows "touched h (dthr_chain_delete h x) \<subseteq> set (a # xs @ x # ys)"
proof -
  have "last (a # xs) \<in> set (a # xs)" "hd (ys @ [a]) \<in> set (a # ys)"
    using last_in_set [of "a # xs"] by (cases ys; simp)+
  moreover have "touched h (dthr_chain_delete h x) \<subseteq> {x, last (a # xs), hd (ys @ [a])}"
    unfolding delete_writes [OF assms] touched_def by auto
  ultimately show ?thesis by auto
qed

lemma touched_insert_before:
  assumes "ring h a xs"
  shows "touched h (dthr_chain_insert_before h a x) \<subseteq> set (x # a # xs)"
  using ring_prev [OF assms] last_in_set [of "a # xs"]
  by (auto simp: touched_def dthr_chain_insert_before_def Let_def split: if_splits)

lemma touched_insert_after:
  assumes "ring h a xs"
  shows "touched h (dthr_chain_insert_after h a x) \<subseteq> set (x # a # xs)"
  using ring_next [OF assms]
  by (cases xs) (auto simp: touched_def dthr_chain_insert_after_def Let_def split: if_splits)

section \<open>The interface the scheduler relies on\<close>

text \<open>
  A family of queues in one store: \<open>repr s q xs\<close> says that the queue \<open>q\<close> holds \<open>xs\<close>.
\<close>

locale fifo =
  fixes repr :: "'s \<Rightarrow> 'q \<Rightarrow> 'x list \<Rightarrow> bool"
    and footprint :: "'q \<Rightarrow> 'x list \<Rightarrow> 'x set"
    and enq :: "'s \<Rightarrow> 'q \<Rightarrow> 'x \<Rightarrow> 's"
    and deq :: "'s \<Rightarrow> 'q \<Rightarrow> 'x option \<times> 's"
  assumes enq_repr: "repr s q xs \<Longrightarrow> x \<notin> footprint q xs \<Longrightarrow> repr (enq s q x) q (xs @ [x])"
    and deq_empty: "repr s q [] \<Longrightarrow> deq s q = (None, s)"
    and deq_repr: "repr s q (x # xs) \<Longrightarrow> \<exists>s'. deq s q = (Some x, s') \<and> repr s' q xs"
    and footprint_append: "footprint q (xs @ ys) = footprint q xs \<union> set ys"
    and footprint_mono: "footprint q xs \<subseteq> footprint q (x # xs)"
begin

definition enq_all :: "'s \<Rightarrow> 'q \<Rightarrow> 'x list \<Rightarrow> 's" where
  "enq_all s q ys = foldl (\<lambda>s y. enq s q y) s ys"

fun deq_n :: "nat \<Rightarrow> 's \<Rightarrow> 'q \<Rightarrow> 'x list \<times> 's" where
  "deq_n 0 s q = ([], s)"
| "deq_n (Suc n) s q =
     (case deq s q of
        (None, s) \<Rightarrow> ([], s)
      | (Some x, s) \<Rightarrow> (case deq_n n s q of (xs, s) \<Rightarrow> (x # xs, s)))"

lemma enq_all_repr:
  assumes "repr s q xs" "distinct ys" "set ys \<inter> footprint q xs = {}"
  shows "repr (enq_all s q ys) q (xs @ ys)"
  using assms
proof (induction ys arbitrary: s xs)
  case Nil
  then show ?case by (simp add: enq_all_def)
next
  case (Cons y ys)
  have "repr (enq s q y) q (xs @ [y])" using Cons.prems enq_repr by auto
  then have "repr (enq_all (enq s q y) q ys) q ((xs @ [y]) @ ys)"
    by (rule Cons.IH) (use Cons.prems in \<open>auto simp: footprint_append\<close>)
  then show ?case by (simp add: enq_all_def)
qed

lemma deq_n_repr: "repr s q xs \<Longrightarrow> fst (deq_n (length xs) s q) = xs"
proof (induction xs arbitrary: s)
  case (Cons x xs)
  obtain s' where "deq s q = (Some x, s')" "repr s' q xs" using deq_repr [OF Cons.prems] by blast
  then show ?case using Cons.IH [of s'] by (cases "deq_n (length xs) s' q") simp
qed simp

text \<open>What goes in comes out, in order.\<close>

lemma first_in_first_out:
  assumes "repr s q xs" "distinct ys" "set ys \<inter> footprint q xs = {}"
  shows "fst (deq_n (length (xs @ ys)) (enq_all s q ys) q) = xs @ ys"
  by (rule deq_n_repr [OF enq_all_repr [OF assms]])

end

lemma dequeue_ring:
  assumes "ring h a (x # xs)"
  shows "dthr_chain_dequeue h a = (Some x, dthr_chain_delete h x)"
  using assms ring_empty [OF assms] ring_next [OF assms] by (simp add: dthr_chain_dequeue_def)

interpretation chain: fifo ring "\<lambda>a xs. set (a # xs)" dthr_chain_insert_before dthr_chain_dequeue
proof unfold_locales
  fix h a x xs
  assume "ring h a (x # xs)"
  then show "\<exists>h'. dthr_chain_dequeue h a = (Some x, h') \<and> ring h' a xs"
    using dequeue_ring ring_delete(1) [of h a "[]" x xs] by fastforce
next
  fix h a
  assume "ring h a []"
  then show "dthr_chain_dequeue h a = (None, h)"
    using ring_empty [of h a "[]"] by (simp add: dthr_chain_dequeue_def)
qed (auto intro: ring_insert_before)

text \<open>C7: The doubly linked chains refine a FIFO queue: what dthr_chain_insert_before enqueues at the
  anchor is taken out by dthr_chain_dequeue in the same order, after what was there.\<close>

theorem enqueue_dequeue_order:
  assumes "ring h a xs" "distinct ys" "set ys \<inter> set (a # xs) = {}"
  shows "fst (chain.deq_n (length (xs @ ys)) (chain.enq_all h a ys) a) = xs @ ys"
  by (rule chain.first_in_first_out [OF assms])

theorem enqueue_dequeue_order_witness:
  "fst (chain.deq_n 2 (chain.enq_all (dthr_chain_init \<lparr>prv = id, nxt = id\<rparr> 0) 0 [5, 3]) 0) = [5, 3]"
proof -
  have "ring (dthr_chain_init \<lparr>prv = id, nxt = id\<rparr> 0) 0 []" by code_simp
  from enqueue_dequeue_order [OF this, of "[5, 3]"] show ?thesis by (simp del: chain.deq_n.simps add: numeral_2_eq_2)
qed

end
