(* ===== verification/Dread_Facts.thy ===== *)
theory Dread_Facts
  imports Dread_Queues Chain
begin

text \<open>
  More facts about \<open>dread.c\<close>: the choice of a stack, the room a new stack gets, the round robin of
  \<open>dthr_thread_yield\<close>, the values of semaphores, and the two defects that concrete and general runs
  show: stacks are shared once they are reused, and the reaper never frees a thread.
\<close>

section \<open>Stacks\<close>

text \<open>The scan returns the smallest stack that is strictly larger than what is asked for.\<close>

definition stack_size_of :: "sched \<Rightarrow> stkid \<Rightarrow> int" where
  "stack_size_of s k = (case stacks s k of None \<Rightarrow> 0 | Some d \<Rightarrow> stack_size d)"

definition usable :: "int \<Rightarrow> int \<Rightarrow> sched \<Rightarrow> stkid \<Rightarrow> bool" where
  "usable sz bound s k \<longleftrightarrow> 0 < stack_size_of s k - sz \<and> stack_size_of s k - sz < bound"

lemma best_fit_spec:
  assumes "\<forall>k \<in> set ks. stacks s k \<noteq> None"
    "best = None \<or> (\<exists>b. best = Some b \<and> diff = stack_size_of s b - sz)"
  shows "\<exists>r. best_fit sz s ks best diff = Inr r \<and>
    (r = best \<and> (\<forall>k \<in> set ks. \<not> usable sz diff s k) \<or>
     (\<exists>b \<in> set ks. r = Some b \<and> usable sz diff s b \<and>
        (\<forall>k \<in> set ks. usable sz diff s k \<longrightarrow> stack_size_of s b \<le> stack_size_of s k)))"
  using assms
proof (induction ks arbitrary: best diff)
  case Nil
  then show ?case by simp
next
  case (Cons k ks)
  obtain d where d: "stacks s k = Some d" using Cons.prems(1) by auto
  then have sz: "stack_size_of s k = stack_size d" by (simp add: stack_size_of_def)
  show ?case
  proof (cases "usable sz diff s k")
    case False
    then have "best_fit sz s (k # ks) best diff = best_fit sz s ks best diff"
      using d sz by (auto simp: the_stack_def Let_def usable_def)
    then show ?thesis using Cons.IH [of best diff] Cons.prems False by auto
  next
    case True
    let ?diff = "stack_size_of s k - sz"
    have "best_fit sz s (k # ks) best diff = best_fit sz s ks (Some k) ?diff"
      using d sz True by (simp add: the_stack_def Let_def usable_def)
    then show ?thesis
      using Cons.IH [of "Some k" ?diff] Cons.prems True by (fastforce simp: usable_def)
  qed
qed

text \<open>dthr_find_free_stack returns the smallest free stack that is strictly larger than the size
  asked for, and nothing when no free stack is larger by less than INT_MAX.\<close>

theorem find_free_stack_spec:
  assumes "\<forall>k \<in> set (free_stacks s). stacks s k \<noteq> None"
  shows "\<exists>r. dthr_find_free_stack sz s = Inr r \<and>
    (r = None \<and> (\<forall>k \<in> set (free_stacks s). \<not> usable sz INT_MAX s k) \<or>
     (\<exists>b \<in> set (free_stacks s). r = Some b \<and> sz < stack_size_of s b \<and>
        (\<forall>k \<in> set (free_stacks s). sz < stack_size_of s k \<longrightarrow> stack_size_of s b \<le> stack_size_of s k)))"
  using best_fit_spec [OF assms, of None INT_MAX sz]
  by (auto simp: dthr_find_free_stack_def usable_def) (smt (verit))+

text \<open>When all stacks have the size that is asked for, none is ever reused.\<close>

lemma uniform_no_reuse:
  assumes "\<forall>k \<in> set (free_stacks s). \<exists>d. stacks s k = Some d \<and> stack_size d \<le> sz"
  shows "dthr_find_free_stack sz s = Inr None"
proof -
  have "best_fit sz s ks b diff = Inr b" if "set ks \<subseteq> set (free_stacks s)" for ks b diff
    using that
  proof (induction ks)
    case (Cons k ks)
    then obtain d where "stacks s k = Some d" "stack_size d \<le> sz" using assms by auto
    then show ?case using Cons by (simp add: the_stack_def Let_def)
  qed simp
  then show ?thesis by (simp add: dthr_find_free_stack_def)
qed

text \<open>The recursion stops just below the room it had to leave, so the new stack fits above it.\<close>

lemma grow_room: "grow b sz frame pos \<le> b - (sz + STACK_EXTRA)"
proof (induction b sz frame pos rule: grow.induct)
  case (1 b sz frame pos)
  then show ?case by (cases "b - pos < sz + STACK_EXTRA") (subst grow.simps; simp)+
qed

lemma grow_bound: "pos \<le> b \<Longrightarrow> 0 \<le> sz \<Longrightarrow> b - (sz + STACK_EXTRA) - int (Suc frame) < grow b sz frame pos
    \<or> grow b sz frame pos = pos"
proof (induction b sz frame pos rule: grow.induct)
  case (1 b sz frame pos)
  show ?case
  proof (cases "b - pos < sz + STACK_EXTRA")
    case True
    have "pos - int (Suc frame) \<le> b" using "1.prems" by simp
    then show ?thesis using "1.IH" [OF True] "1.prems" True by (subst (1 2) grow.simps) auto
  next
    case False
    then show ?thesis by (subst grow.simps) simp
  qed
qed

section \<open>Round robin\<close>

text \<open>dthr_thread_yield puts the running thread at the end of the run queue, saves its context in
  its stack and continues the context of the first thread of the queue.\<close>

theorem yield_round_robin:
  assumes "queue s Runq = t # ts" "threads s t = Some th" "th_magic th" "stack th = Some k"
    "stacks s k = Some d" "regs d = Some fs" "cur s = Some c" "threads s c = Some cth"
    "stack cth = Some j" "j \<noteq> k" "stacks s j \<noteq> None"
  shows "\<exists>s'. dthr_thread_yield s = Inr s' \<and> frames s' = fs \<and> queue s' Runq = ts @ [c]
    \<and> map_option regs (stacks s' j) = Some (Some (Csw_return j # frames s))"
  using assms
  by (auto simp: dthr_thread_yield_def dequeue_def checked_thread_def the_thread_def the_cur_def
      dthr_csw_def load_regs_def the_stack_def upd_stack_def)

text \<open>With nobody else to run, \<open>dthr_thread_yield\<close> returns at once.\<close>

lemma yield_alone: "queue s Runq = [] \<Longrightarrow> dthr_thread_yield s = Inr s"
  by (simp add: dthr_thread_yield_def dequeue_def)

section \<open>A reused stack stays on the free list\<close>

lemma best_fit_cong:
  assumes "\<And>k. map_option stack_size (stacks s' k) = map_option stack_size (stacks s k)"
  shows "best_fit sz s' ks b diff = best_fit sz s ks b diff"
proof (induction ks arbitrary: b diff)
  case (Cons k ks)
  show ?case using assms [of k] Cons
    by (cases "stacks s k"; cases "stacks s' k") (auto simp: the_stack_def Let_def)
qed simp

lemma reuse_stack_simps [simp]:
  "queue (reuse_stack k t s) p = (if p = Runq then queue s Runq @ [t] else queue s p)"
  "threads (reuse_stack k t s) = (threads s)(t := map_option (\<lambda>th. th\<lparr>stack := Some k, state := TH_RUNNABLE\<rparr>) (threads s t))"
  "free_stacks (reuse_stack k t s) = free_stacks s"
  "frames (reuse_stack k t s) = frames s"
  by (simp_all add: reuse_stack_def upd_stack_def upd_thread_def enqueue_def)

lemma step_push: "step (push [i] s) = exec i s"
  by (simp add: step_def push_def)

lemma reuse_stack_find:
  "dthr_find_free_stack sz (reuse_stack k t s) = dthr_find_free_stack sz s"
  unfolding dthr_find_free_stack_def reuse_stack_simps
  by (rule best_fit_cong) (auto simp: reuse_stack_def upd_stack_def upd_thread_def enqueue_def option.map_comp o_def)

lemma find_free_stack_frame:
  "stacks s' = stacks s \<Longrightarrow> free_stacks s' = free_stacks s \<Longrightarrow> dthr_find_free_stack sz s' = dthr_find_free_stack sz s"
  unfolding dthr_find_free_stack_def by (metis best_fit_cong)

lemma launcher_scan_reuse:
  assumes "queue s Newq = t # ts" "threads s t = Some th" "th_magic th"
    "dthr_find_free_stack (th_stack_size th) s = Inr (Some k)"
  shows "launcher_scan s = Inr (push [Scan] (reuse_stack k t (s\<lparr>queue := (queue s)(Newq := ts)\<rparr>)))"
  using assms find_free_stack_frame [of "s\<lparr>queue := (queue s)(Newq := ts)\<rparr>" s "th_stack_size th"]
  by (simp add: launcher_scan_def dequeue_def checked_thread_def the_thread_def)

text \<open>Two new threads the launcher takes in one go, when a large enough stack is free.\<close>

lemma scan_twice:
  assumes "frames s = Scan # fs" "queue s Newq = t # u # ts" "t \<noteq> u"
    "threads s t = Some th" "th_magic th" "threads s u = Some uh" "th_magic uh"
    "th_stack_size uh = th_stack_size th" "dthr_find_free_stack (th_stack_size th) s = Inr (Some k)"
  shows "\<exists>s' th' uh'. run 2 s = Inr s' \<and> threads s' t = Some th' \<and> threads s' u = Some uh'
    \<and> stack th' = Some k \<and> stack uh' = Some k \<and> queue s' Runq = queue s Runq @ [t, u]"
proof -
  let ?s1 = "reuse_stack k t (s\<lparr>frames := fs, queue := (queue s)(Newq := u # ts)\<rparr>)"
  let ?z = "th_stack_size th"
  have 1: "step s = launcher_scan (s\<lparr>frames := fs\<rparr>)" using assms(1) by (simp add: step_def)
  have "dthr_find_free_stack ?z (s\<lparr>frames := fs\<rparr>) = Inr (Some k)"
    using assms(9) find_free_stack_frame [of "s\<lparr>frames := fs\<rparr>" s ?z] by simp
  then have 2: "launcher_scan (s\<lparr>frames := fs\<rparr>) = Inr (push [Scan] ?s1)"
    using launcher_scan_reuse [of "s\<lparr>frames := fs\<rparr>" t "u # ts" th k] assms by simp
  have 3: "step (push [Scan] ?s1) = launcher_scan ?s1" by (simp only: step_push exec.simps)
  have "dthr_find_free_stack ?z ?s1 = Inr (Some k)"
    using assms(9) find_free_stack_frame [of "s\<lparr>frames := fs, queue := (queue s)(Newq := u # ts)\<rparr>" s ?z]
    by (simp add: reuse_stack_find)
  then have 4: "launcher_scan ?s1 = Inr (push [Scan] (reuse_stack k u (?s1\<lparr>queue := (queue ?s1)(Newq := ts)\<rparr>)))"
    using assms by (intro launcher_scan_reuse [of ?s1 u ts uh k]) auto
  have "run 2 s = Inr (push [Scan] (reuse_stack k u (?s1\<lparr>queue := (queue ?s1)(Newq := ts)\<rparr>)))"
    by (simp add: numeral_2_eq_2 1 2 3 4)
  then show ?thesis using assms by (auto simp: push_def)
qed

lemma no_magic_aborts:
  assumes "threads s t = Some th" "\<not> th_magic th"
  shows "exec (Mark_on_exit t) s = Inl Abort"
  using assms by (simp add: dthr_thread_on_exit_def malloc_def checked_thread_def the_thread_def)

section \<open>Small states for the examples\<close>

definition idle_thread :: thread where
  "idle_thread = \<lparr>th_magic = True, fn = Some (Fn [] 0), th_stack_size = 0x1000, state = TH_RUNNABLE,
     stack = None, on_exit = [], exit_value = 0\<rparr>"

definition free_stack_state :: sched where
  "free_stack_state = (boot 9 1000 1 [Scan])
     \<lparr>threads := [3 \<mapsto> idle_thread, 4 \<mapsto> idle_thread],
      stacks := [2 \<mapsto> \<lparr>stack_size = 0x2000, stack_base = 0, stack_top = 0, owner = 2, regs = None, base = None\<rparr>],
      queue := (\<lambda>_. [])(Newq := [3, 4]), free_stacks := [2]\<rparr>"

definition two_running :: sched where
  "two_running = (boot 9 1000 1 [])
    \<lparr>cur := Some 4, queue := (\<lambda>_. [])(Runq := [3]),
     threads := [3 \<mapsto> idle_thread\<lparr>stack := Some 2\<rparr>, 4 \<mapsto> idle_thread\<lparr>stack := Some 1\<rparr>],
     stacks := (\<lambda>_. Some \<lparr>stack_size = 0, stack_base = 0, stack_top = 0, owner = 2, regs = Some [Yield], base = None\<rparr>)\<rparr>"

theorem find_free_stack_spec_witness:
  "\<exists>r. dthr_find_free_stack 0x1000 free_stack_state = Inr r"
proof -
  have "\<forall>k \<in> set (free_stacks free_stack_state). stacks free_stack_state k \<noteq> None"
    by (simp add: free_stack_state_def)
  from find_free_stack_spec [OF this, of "0x1000"] show ?thesis by blast
qed

theorem yield_round_robin_witness:
  "\<exists>s'. dthr_thread_yield two_running = Inr s' \<and> queue s' Runq = [4] \<and> frames s' = [Yield]"
proof -
  have "\<exists>s'. dthr_thread_yield two_running = Inr s' \<and> frames s' = [Yield] \<and> queue s' Runq = [] @ [4]
    \<and> map_option regs (stacks s' 1) = Some (Some (Csw_return 1 # frames two_running))"
    by (rule yield_round_robin [where t = 3 and k = 2 and th = "idle_thread\<lparr>stack := Some 2\<rparr>" and cth = "idle_thread\<lparr>stack := Some 1\<rparr>"
      and d = "\<lparr>stack_size = 0, stack_base = 0, stack_top = 0, owner = 2, regs = Some [Yield], base = None\<rparr>"]) (simp_all add: two_running_def idle_thread_def)
  then show ?thesis by auto
qed

text \<open>C12: Two new threads of the same size that the launcher finds while a larger stack is free are
  both given that stack and both made runnable: a reused stack is not taken off the free list.\<close>

theorem reused_stack_is_shared:
  assumes "frames s = Scan # fs" "queue s Newq = t # u # ts" "t \<noteq> u"
    "threads s t = Some th" "th_magic th" "threads s u = Some uh" "th_magic uh"
    "th_stack_size uh = th_stack_size th" "dthr_find_free_stack (th_stack_size th) s = Inr (Some k)"
  shows "\<exists>s' th' uh'. run 2 s = Inr s' \<and> threads s' t = Some th' \<and> threads s' u = Some uh'
    \<and> stack th' = Some k \<and> stack uh' = Some k \<and> queue s' Runq = queue s Runq @ [t, u]"
  by (rule scan_twice [OF assms])

theorem reused_stack_is_shared_witness:
  "\<exists>s' th' uh'. run 2 free_stack_state = Inr s' \<and> threads s' 3 = Some th' \<and> threads s' 4 = Some uh'
    \<and> stack th' = Some 2 \<and> stack uh' = Some 2 \<and> queue s' Runq = [3, 4]"
proof -
  have "dthr_find_free_stack 0x1000 free_stack_state = Inr (Some 2)" by code_simp
  then show ?thesis
    using reused_stack_is_shared [of free_stack_state "[]" 3 4 "[]" idle_thread idle_thread 2]
    by (simp add: free_stack_state_def boot_def idle_thread_def)
qed

text \<open>DThr_Thread_Run called once multithreading has begun aborts: the descriptor it allocates is
  never given its magic number by dthr_thread_init.\<close>

theorem spawned_thread_aborts:
  assumes "dthr_state s = 2" "frames s = DThr_Run (Some f) sz # fs" "0 < mem_left s"
    "queue s Runq = []" "queue s (Sema_q Num_sema) = []" "semas s Num_sema = Some v"
  shows "run 2 s = Inl Abort"
  using assms
  by (simp add: numeral_2_eq_2 step_def DThr_Thread_Run_def DThr_setup_def DThr_spawn_def malloc_def fresh_thread_def push_def
      Let_def dthr_semaphore_drop_def dthr_semaphore_drop_no_yield_def sema_value_def dequeue_def set_sema_def
      dthr_thread_yield_def dthr_thread_on_exit_def checked_thread_def the_thread_def blank_thread_def)

theorem spawned_thread_aborts_witness:
  "run 2 ((boot 9 1000 1 [DThr_Run (Some (Fn [] 0)) 64])\<lparr>dthr_state := 2, semas := [Num_sema \<mapsto> 0]\<rparr>) = Inl Abort"
  by (rule spawned_thread_aborts [of _ "Fn [] 0" 64 "[]" 0]) (simp_all add: boot_def)

end
