(* ===== verification/Dread_Reaper.thy ===== *)
theory Dread_Reaper
  imports Dread_Queues
begin

text \<open>
  Semaphore values never become negative; and a defect of the higher-level interface:
  \<open>to_be_freed_sema\<close> starts at 0 and only a thread that already holds it drops it, so every thread
  that reaches \<open>mark_of_death\<close> or \<open>reaper\<close> sleeps for ever and no descriptor is freed.
\<close>

section \<open>Which operations touch what\<close>

lemma freed_simps [simp]:
  "to_be_freed (push fs s) = to_be_freed s" "to_be_freed (upd_thread t f s) = to_be_freed s"
  "to_be_freed (upd_stack k g s) = to_be_freed s" "to_be_freed (set_sema m v s) = to_be_freed s"
  "to_be_freed (enqueue p t s) = to_be_freed s"
  by (simp_all add: push_def upd_thread_def upd_stack_def set_sema_def enqueue_def)

text \<open>
  A vault: what a context switch saves and what it restores satisfies \<open>ok\<close>.  The interface is a
  predicate on frame lists and one on threads; the switching functions keep any such vault.
\<close>

locale vault =
  fixes ok :: "instr list \<Rightarrow> bool" and thread_ok :: "thread \<Rightarrow> bool"
  assumes ok_Nil: "ok []"
    and ok_csw: "ok fs \<Longrightarrow> ok (Csw_return k # fs)"
    and ok_launch: "ok [Launch k]" "ok [Launcher]"
    and thread_ok_fields: "thread_ok th \<Longrightarrow> thread_ok (th\<lparr>stack := x\<rparr>)"
      "thread_ok th \<Longrightarrow> thread_ok (th\<lparr>state := y\<rparr>)"
      "thread_ok th \<Longrightarrow> thread_ok (th\<lparr>fn := None, th_stack_size := n\<rparr>)"
begin

definition kept :: "sched \<Rightarrow> bool" where
  "kept s \<longleftrightarrow> (\<forall>k d fs. stacks s k = Some d \<longrightarrow> regs d = Some fs \<or> base d = Some fs \<longrightarrow> ok fs) \<and>
     (\<forall>t th. threads s t = Some th \<longrightarrow> thread_ok th)"

text \<open>\<open>same\<close>: the rest of the state that a switch leaves alone.\<close>

definition same :: "sched \<Rightarrow> sched \<Rightarrow> bool" where
  "same s s' \<longleftrightarrow> semas s' = semas s \<and> to_be_freed s' = to_be_freed s"

lemma kept_fields [simp]:
  "kept (s\<lparr>queue := Q\<rparr>) = kept s" "kept (s\<lparr>frames := fs\<rparr>) = kept s" "kept (s\<lparr>cur := c\<rparr>) = kept s"
  "kept (enqueue p t s) = kept s" "kept (push is s) = kept s" "kept (set_sema k v s) = kept s"
  "kept (s\<lparr>active_stacks := a, free_stacks := b\<rparr>) = kept s" "kept (s\<lparr>sp := x\<rparr>) = kept s"
  by (simp_all add: kept_def)

lemma kept_thread:
  "kept s \<Longrightarrow> (\<And>th. thread_ok th \<Longrightarrow> thread_ok (f th)) \<Longrightarrow> kept (upd_thread t f s)"
  by (auto simp: kept_def upd_thread_def)

lemma kept_stack:
  "kept s \<Longrightarrow> (\<And>d fs. regs (f d) = Some fs \<or> base (f d) = Some fs \<Longrightarrow> ok fs \<or> regs d = Some fs \<or> base d = Some fs)
    \<Longrightarrow> kept (upd_stack k f s)"
  unfolding kept_def upd_stack_def by auto (metis | blast)+

lemma kept_load:
  "kept s \<Longrightarrow> load_regs k s = Inr s' \<Longrightarrow> kept s' \<and> ok (frames s') \<and> same s s'"
  by (auto simp: load_regs_def the_stack_def and_then_eq_Inr kept_def same_def split: option.splits)

lemma kept_csw:
  assumes "kept s" "ok (frames s)" "dthr_csw k lv s = Inr s'"
  shows "kept s' \<and> ok (frames s') \<and> same s s'"
proof -
  obtain c th j where c: "cur s = Some c" "threads s c = Some th" "stack th = Some j"
    using assms(3) by (auto simp: dthr_csw_def the_cur_def the_thread_def and_then_eq_Inr split: option.splits)
  let ?exit = "upd_thread c (\<lambda>th. th\<lparr>fn := None, th_stack_size := 0\<rparr>)
      (upd_stack j (\<lambda>d. d\<lparr>regs := None\<rparr>) (upd_thread c (\<lambda>th. th\<lparr>stack := None\<rparr>) s)
         \<lparr>active_stacks := remove1 j (active_stacks s), free_stacks := remove1 j (free_stacks s) @ [j]\<rparr>)"
  let ?save = "upd_stack j (\<lambda>d. d\<lparr>regs := Some (Csw_return j # frames s)\<rparr>) s"
  have "load_regs k (if lv then ?exit else ?save) = Inr s'"
    using assms(3) c
    by (auto simp: dthr_csw_def the_cur_def the_thread_def Let_def upd_thread_def upd_stack_def split: if_splits)
  moreover have "kept ?save"
    by (rule kept_stack [OF assms(1)]) (use ok_csw [OF assms(2)] in auto)
  moreover have "kept ?exit"
  proof (rule kept_thread)
    have "kept (upd_stack j (\<lambda>d. d\<lparr>regs := None\<rparr>) (upd_thread c (\<lambda>th. th\<lparr>stack := None\<rparr>) s))"
      by (intro kept_stack kept_thread assms(1) thread_ok_fields) auto
    then show "kept (upd_stack j (\<lambda>d. d\<lparr>regs := None\<rparr>) (upd_thread c (\<lambda>th. th\<lparr>stack := None\<rparr>) s)
         \<lparr>active_stacks := remove1 j (active_stacks s), free_stacks := remove1 j (free_stacks s) @ [j]\<rparr>)"
      by simp
  qed (rule thread_ok_fields)
  ultimately show ?thesis
    using kept_load [of "if lv then ?exit else ?save" k s']
    by (auto simp: same_def upd_thread_def upd_stack_def split: if_splits)
qed

lemma kept_sleep:
  assumes "kept s" "ok (frames s)" "dthr_thread_sleep lv s = Inr s'"
  shows "kept s' \<and> ok (frames s') \<and> same s s'"
proof (cases "queue s Runq")
  case Nil
  then show ?thesis using assms ok_Nil
    by (auto simp: dthr_thread_sleep_def dequeue_def same_def split: if_splits)
next
  case (Cons t ts)
  then obtain th :: thread where "dthr_csw (stack th) lv (s\<lparr>queue := (queue s)(Runq := ts)\<rparr>) = Inr s'"
    using assms(3) by (auto simp: dthr_thread_sleep_def dequeue_def and_then_eq_Inr)
  from kept_csw [OF _ _ this] show ?thesis using assms(1,2) by (simp add: same_def)
qed

lemma kept_yield:
  assumes "kept s" "ok (frames s)" "dthr_thread_yield s = Inr s'"
  shows "kept s' \<and> ok (frames s') \<and> same s s'"
proof (cases "queue s Runq")
  case Nil
  then show ?thesis using assms by (simp add: dthr_thread_yield_def dequeue_def same_def)
next
  case (Cons t ts)
  then obtain th :: thread and c where "dthr_csw (stack th) False (enqueue Runq c (s\<lparr>queue := (queue s)(Runq := ts)\<rparr>)) = Inr s'"
    using assms(3) by (auto simp: dthr_thread_yield_def dequeue_def and_then_eq_Inr)
  from kept_csw [OF _ _ this] show ?thesis using assms(1,2) by (simp add: same_def enqueue_def)
qed

lemma kept_drop_ny:
  assumes "kept s" "dthr_semaphore_drop_no_yield k s = Inr s'"
  shows "kept s' \<and> frames s' = frames s \<and> to_be_freed s' = to_be_freed s
    \<and> (\<exists>v. semas s k = Some v \<and> semas s' = (semas s)(k \<mapsto> v + 1))"
proof -
  obtain v where v: "semas s k = Some v" "sema_value k s = Inr v"
    using assms(2) by (auto simp: dthr_semaphore_drop_no_yield_def and_then_eq_Inr sema_value_def split: option.splits)
  show ?thesis
  proof (cases "queue s (Sema_q k)")
    case Nil
    then show ?thesis using assms v by (auto simp: dthr_semaphore_drop_no_yield_def dequeue_def)
  next
    case (Cons t ts)
    let ?s = "upd_thread t (\<lambda>th. th\<lparr>state := TH_RUNNABLE\<rparr>)
        ((set_sema k (v + 1) s)\<lparr>queue := (queue s)(Sema_q k := ts)\<rparr>)"
    have "s' = enqueue Runq t ?s"
      using assms(2) v Cons by (simp add: dthr_semaphore_drop_no_yield_def dequeue_def)
    moreover have "kept ?s" using assms(1) by (intro kept_thread) (simp_all add: thread_ok_fields)
    ultimately show ?thesis using v by simp
  qed
qed

lemma kept_move: "kept s \<Longrightarrow> move_waiters n e s = Inr s' \<Longrightarrow> kept s' \<and> frames s' = frames s \<and> same s s'"
proof (induction n e s rule: move_waiters.induct)
  case (2 n e s)
  show ?case
  proof (cases "queue s (Event_q e)")
    case Nil
    then show ?thesis using "2.prems" by (simp add: dequeue_def same_def)
  next
    case (Cons t ts)
    let ?w = "s\<lparr>queue := (queue s)(Event_q e := ts)\<rparr>"
    let ?s = "enqueue Runq t (upd_thread t (\<lambda>th. th\<lparr>state := TH_RUNNABLE\<rparr>) ?w)"
    have m: "move_waiters n e ?s = Inr s'" using "2.prems" Cons by (auto simp: dequeue_def and_then_eq_Inr)
    obtain th :: thread where th: "checked_thread t ?w = Inr th"
      using "2.prems" Cons by (auto simp: dequeue_def and_then_eq_Inr)
    have k: "kept ?s" using "2.prems"(1) by (simp add: kept_thread thread_ok_fields)
    have "dequeue (Event_q e) s = (Some t, ?w)" using Cons by (simp add: dequeue_def)
    from "2.IH" [OF this [symmetric] refl th k m] show ?thesis
      by (simp add: same_def enqueue_def upd_thread_def)
  qed
qed (simp add: same_def)

lemma kept_eventq:
  "kept s \<Longrightarrow> dthr_eventq_to_runq e n s = Inr s' \<Longrightarrow> kept s' \<and> frames s' = frames s \<and> same s s'"
  by (auto simp: dthr_eventq_to_runq_def and_then_eq_Inr dest: kept_move)

lemma kept_take_ny:
  assumes "kept s" "ok (Take_ny k # frames s)" "ok (frames s) \<or> semas s k = Some 0"
    "dthr_semaphore_take_no_yield k s = Inr s'"
  shows "kept s' \<and> ok (frames s') \<and> to_be_freed s' = to_be_freed s \<and>
    (semas s k = Some 0 \<and> semas s' = semas s \<or>
     (\<exists>v. semas s k = Some v \<and> v \<noteq> 0 \<and> semas s' = (semas s)(k \<mapsto> v - 1)))"
proof -
  obtain v where v: "semas s k = Some v"
    using assms(4) by (auto simp: dthr_semaphore_take_no_yield_def and_then_eq_Inr sema_value_def split: option.splits)
  show ?thesis
  proof (cases "v = 0")
    case False
    then show ?thesis using assms v
      by (auto simp: dthr_semaphore_take_no_yield_def sema_value_def set_sema_def kept_def)
  next
    case True
    then obtain c where "dthr_thread_sleep False (push [Take_ny k]
        (upd_thread c (\<lambda>th. th\<lparr>state := TH_SEMA_WAIT\<rparr>) (enqueue (Sema_q k) c s))) = Inr s'"
      using assms(4) v by (auto simp: dthr_semaphore_take_no_yield_def sema_value_def and_then_eq_Inr)
    from kept_sleep [OF _ _ this] show ?thesis
      using assms(1,2) True v
      by (auto simp: kept_thread thread_ok_fields same_def)
  qed
qed

lemma kept_event_wait:
  assumes "kept s" "ok (Take_ny k # frames s)" "dthr_event_wait e k s = Inr s'"
  shows "kept s' \<and> ok (frames s') \<and> to_be_freed s' = to_be_freed s
    \<and> (\<exists>v. semas s k = Some v \<and> semas s' = (semas s)(k \<mapsto> v + 1))"
proof -
  obtain c s1 where s1: "dthr_semaphore_drop_no_yield k
        (upd_thread c (\<lambda>th. th\<lparr>state := TH_EVENT_WAIT\<rparr>) (enqueue (Event_q e) c s)) = Inr s1"
      "dthr_thread_sleep False (push [Take_ny k] s1) = Inr s'"
    using assms(3) by (auto simp: dthr_event_wait_def and_then_eq_Inr)
  have "kept (upd_thread c (\<lambda>th. th\<lparr>state := TH_EVENT_WAIT\<rparr>) (enqueue (Event_q e) c s))"
    using assms(1) by (simp add: kept_thread thread_ok_fields)
  from kept_drop_ny [OF this s1(1)] have d: "kept s1" "frames s1 = frames s" "to_be_freed s1 = to_be_freed s"
    "\<exists>v. semas s k = Some v \<and> semas s1 = (semas s)(k \<mapsto> v + 1)"
    by (auto simp: upd_thread_def enqueue_def)
  have "kept (push [Take_ny k] s1)" "ok (frames (push [Take_ny k] s1))" using d assms(2) by auto
  from kept_sleep [OF this s1(2)] show ?thesis using d by (simp add: same_def)
qed

end

interpretation any: vault "\<lambda>_. True" "\<lambda>_. True"
  by unfold_locales auto

lemma any_kept [simp]: "any.kept s"
  by (simp add: any.kept_def)

section \<open>Values stay non-negative\<close>

definition nonneg :: "sched \<Rightarrow> bool" where
  "nonneg s \<longleftrightarrow> (\<forall>k v. semas s k = Some v \<longrightarrow> 0 \<le> v)"

lemma nonneg_same: "any.same s s' \<Longrightarrow> nonneg s' = nonneg s"
  by (simp add: any.same_def nonneg_def)

lemma nonneg_fields [simp]:
  "nonneg (push fs s) = nonneg s" "nonneg (enqueue p t s) = nonneg s" "nonneg (upd_thread t f s) = nonneg s"
  "nonneg (upd_stack k g s) = nonneg s" "nonneg (s\<lparr>frames := fs\<rparr>) = nonneg s" "nonneg (s\<lparr>cur := c\<rparr>) = nonneg s"
  "nonneg (s\<lparr>queue := Q\<rparr>) = nonneg s" "nonneg (s\<lparr>to_be_freed := l\<rparr>) = nonneg s"
  by (simp_all add: nonneg_def)

lemma nonneg_yield: "dthr_thread_yield s = Inr s' \<Longrightarrow> nonneg s' = nonneg s"
  using any.kept_yield [of s s'] nonneg_same by simp

lemma nonneg_sleep: "dthr_thread_sleep lv s = Inr s' \<Longrightarrow> nonneg s' = nonneg s"
  using any.kept_sleep [of s lv s'] nonneg_same by simp

lemma nonneg_upd: "nonneg s \<Longrightarrow> 0 \<le> v \<Longrightarrow> semas s' = (semas s)(k \<mapsto> v) \<Longrightarrow> nonneg s'"
  by (simp add: nonneg_def)

lemma nonneg_drop_ny:
  assumes "nonneg s" "dthr_semaphore_drop_no_yield k s = Inr s'"
  shows "nonneg s'"
proof -
  obtain v where "semas s k = Some v" "semas s' = (semas s)(k \<mapsto> v + 1)"
    using any.kept_drop_ny [OF _ assms(2)] by auto
  then show ?thesis using assms(1) nonneg_upd [of s "v + 1" s' k] by (simp add: nonneg_def)
qed

lemma nonneg_drop: "nonneg s \<Longrightarrow> dthr_semaphore_drop k s = Inr s' \<Longrightarrow> nonneg s'"
  by (auto simp: dthr_semaphore_drop_def and_then_eq_Inr dest: nonneg_drop_ny nonneg_yield)

lemma nonneg_take_ny:
  assumes "nonneg s" "dthr_semaphore_take_no_yield k s = Inr s'"
  shows "nonneg s'"
proof -
  consider "semas s' = semas s" | v where "semas s k = Some v" "v \<noteq> 0" "semas s' = (semas s)(k \<mapsto> v - 1)"
    using any.kept_take_ny [OF _ _ _ assms(2)] by auto
  then show ?thesis
  proof cases
    case 1
    then show ?thesis using assms(1) by (simp add: nonneg_def)
  next
    case 2
    then have "0 \<le> v" using assms(1) by (simp add: nonneg_def)
    then show ?thesis using 2 assms(1) nonneg_upd [of s "v - 1" s' k] by simp
  qed
qed

lemma nonneg_take: "nonneg s \<Longrightarrow> dthr_semaphore_take k s = Inr s' \<Longrightarrow> nonneg s'"
  by (auto simp: dthr_semaphore_take_def dest: nonneg_yield)

lemma nonneg_event_wait:
  assumes "nonneg s" "dthr_event_wait e k s = Inr s'"
  shows "nonneg s'"
proof -
  obtain v where "semas s k = Some v" "semas s' = (semas s)(k \<mapsto> v + 1)"
    using any.kept_event_wait [OF _ _ assms(2)] by auto
  then show ?thesis using assms(1) nonneg_upd [of s "v + 1" s' k] by (simp add: nonneg_def)
qed

lemma nonneg_eventq: "dthr_eventq_to_runq e n s = Inr s' \<Longrightarrow> nonneg s' = nonneg s"
  using any.kept_eventq [of s e n s'] nonneg_same by simp

lemma nonneg_try: "nonneg s \<Longrightarrow> dthr_semaphore_try k s = Inr (ok, s') \<Longrightarrow> nonneg s'"
  by (fastforce simp: dthr_semaphore_try_def sema_value_def and_then_eq_Inr nonneg_def split: option.splits if_splits)

lemma nonneg_sema_init: "nonneg s \<Longrightarrow> 0 \<le> v \<Longrightarrow> nonneg (dthr_semaphore_init k v s)"
  by (simp add: nonneg_def dthr_semaphore_init_def)

lemma nonneg_thread_init: "nonneg s \<Longrightarrow> nonneg (dthr_thread_init t f n s)"
  unfolding dthr_thread_init_def by (rule nonneg_sema_init) (simp_all add: nonneg_def)

lemma nonneg_malloc: "malloc s = (ok, s') \<Longrightarrow> nonneg s' = nonneg s"
  by (auto simp: malloc_def nonneg_def split: if_splits)

lemma nonneg_on_exit:
  assumes "nonneg s" "dthr_thread_on_exit t f s = Inr (ok, s')"
  shows "nonneg s'"
proof -
  obtain b s1 where "malloc s = (b, s1)" by (cases "malloc s")
  with assms show ?thesis using nonneg_malloc
    by (auto simp: dthr_thread_on_exit_def and_then_eq_Inr split: bool.splits)
qed

lemma nonneg_dthr_init: "nonneg s \<Longrightarrow> nonneg (dthr_init s)"
  by (simp add: dthr_init_def Let_def dthr_event_init_def dthr_semaphore_init_def nonneg_def)

lemma nonneg_new_topmost: "dthr_new_topmost_thread k n s = Inr s' \<Longrightarrow> nonneg s' = nonneg s"
  by (auto simp: dthr_new_topmost_thread_def and_then_eq_Inr Let_def nonneg_def enqueue_def upd_stack_def)

text \<open>The state in which the launcher drops its lock for a new stack.\<close>

lemma new_stack_cases:
  assumes "new_stack t n s = Inr s'"
  obtains s1 top s3 where "malloc s = (True, s1)" "stacks s1 topmost_stack = Some top"
    "dthr_semaphore_drop_no_yield Newq_sema
       ((upd_thread t (\<lambda>th. th\<lparr>stack := Some (next_stk s1), state := TH_RUNNABLE\<rparr>)
          (s1\<lparr>next_stk := next_stk s1 + 1, stacks := (stacks s1)(next_stk s1 := Some \<lparr>stack_size = n,
             stack_base = stack_base top, stack_top = stack_base top - n, owner = t, regs = None, base = None\<rparr>)\<rparr>))
        \<lparr>active_stacks := next_stk s1 # active_stacks s1\<rparr>) = Inr s3"
    "dthr_new_topmost_thread (next_stk s1) n s3 = Inr s'"
proof -
  obtain s1 where m: "malloc s = (True, s1)"
    using assms by (cases "malloc s") (auto simp: new_stack_def split: bool.splits)
  moreover obtain top where top: "stacks s1 topmost_stack = Some top"
    using assms m by (auto simp: new_stack_def the_stack_def and_then_eq_Inr split: option.splits)
  ultimately show ?thesis using assms that
    by (auto simp: new_stack_def the_stack_def Let_def and_then_eq_Inr upd_thread_def)
qed

lemma nonneg_new_stack:
  assumes "nonneg s" "new_stack t n s = Inr s'"
  shows "nonneg s'"
  using assms(2)
proof (rule new_stack_cases)
  fix s1 top s3
  assume m: "malloc s = (True, s1)" and d: "dthr_new_topmost_thread (next_stk s1) n s3 = Inr s'"
    and s3: "dthr_semaphore_drop_no_yield Newq_sema
       ((upd_thread t (\<lambda>th. th\<lparr>stack := Some (next_stk s1), state := TH_RUNNABLE\<rparr>)
          (s1\<lparr>next_stk := next_stk s1 + 1, stacks := (stacks s1)(next_stk s1 := Some \<lparr>stack_size = n,
             stack_base = stack_base top, stack_top = stack_base top - n, owner = t, regs = None, base = None\<rparr>)\<rparr>))
        \<lparr>active_stacks := next_stk s1 # active_stacks s1\<rparr>) = Inr s3"
  have "nonneg s1" using assms(1) nonneg_malloc [OF m] by simp
  then have "nonneg s3" using nonneg_drop_ny [OF _ s3] by (simp add: nonneg_def)
  then show ?thesis using nonneg_new_topmost [OF d] by simp
qed

lemma nonneg_scan:
  assumes "nonneg s" "launcher_scan s = Inr s'"
  shows "nonneg s'"
proof (cases "queue s Newq")
  case Nil
  then show ?thesis using assms nonneg_event_wait [of "push [Scan] s"]
    by (simp add: launcher_scan_def dequeue_def)
next
  case (Cons t ts)
  let ?w = "s\<lparr>queue := (queue s)(Newq := ts)\<rparr>"
  obtain th :: thread and r where
    "(case r of Some k \<Rightarrow> Inr (push [Scan] (reuse_stack k t ?w)) | None \<Rightarrow> new_stack t (th_stack_size th) ?w) = Inr s'"
    using assms(2) Cons by (auto simp: launcher_scan_def dequeue_def and_then_eq_Inr)
  then show ?thesis using nonneg_new_stack [of ?w t "th_stack_size th" s'] assms(1)
    by (auto simp: reuse_stack_def Let_def split: option.splits)
qed

text \<open>What the two ends of a thread do.\<close>

lemma exit_cases:
  assumes "dthr_thread_exit v s = Inr s'"
  obtains c th x xs where "threads s c = Some th" "on_exit th = x # xs"
      "s' = push (exit_frames x c @ [Exit v]) (upd_thread c (\<lambda>th. th\<lparr>on_exit := xs\<rparr>) s)"
  | c where "dthr_thread_sleep True (upd_thread c (\<lambda>th. th\<lparr>exit_value := v, state := TH_EXITED\<rparr>) s) = Inr s'"
proof -
  obtain c th where c: "cur s = Some c" "threads s c = Some th"
    using assms by (auto simp: dthr_thread_exit_def the_cur_def the_thread_def and_then_eq_Inr split: option.splits)
  show ?thesis
  proof (cases "on_exit th")
    case Nil
    then show ?thesis using assms c that(2)
      by (auto simp: dthr_thread_exit_def the_cur_def the_thread_def and_then_eq_Inr)
  next
    case (Cons x xs)
    then show ?thesis using assms c that(1) by (auto simp: dthr_thread_exit_def the_cur_def the_thread_def)
  qed
qed

lemma leave_cases:
  assumes "leave_thread t s = Inr s'"
  obtains th x xs where "threads s t = Some th" "on_exit th = x # xs"
      "s' = push (exit_frames x t @ [Leave t]) (upd_thread t (\<lambda>th. th\<lparr>on_exit := xs\<rparr>) s)"
  | "dthr_thread_sleep True (upd_thread t (\<lambda>th. th\<lparr>state := TH_EXITED\<rparr>) s) = Inr s'"
proof -
  obtain th where th: "threads s t = Some th"
    using assms by (auto simp: leave_thread_def the_thread_def and_then_eq_Inr split: option.splits)
  show ?thesis
  proof (cases "on_exit th")
    case Nil
    then show ?thesis using assms th that(2) by (auto simp: leave_thread_def the_thread_def)
  next
    case (Cons x xs)
    then show ?thesis using assms th that(1) by (auto simp: leave_thread_def the_thread_def)
  qed
qed

lemma nonneg_exit: "nonneg s \<Longrightarrow> dthr_thread_exit v s = Inr s' \<Longrightarrow> nonneg s'"
  by (erule exit_cases) (auto dest: nonneg_sleep)

lemma nonneg_leave: "nonneg s \<Longrightarrow> leave_thread t s = Inr s' \<Longrightarrow> nonneg s'"
  by (erule leave_cases) (auto dest: nonneg_sleep)

lemma nonneg_free: "nonneg s \<Longrightarrow> nonneg (free_thread t s)"
  by (simp add: nonneg_def free_thread_def)

lemma reaper_cases:
  assumes "reaper_loop s = Inr s'"
  obtains t ts where "to_be_freed s = t # ts"
      "dthr_semaphore_drop Num_sema (push [Reap_loop] (free_thread t (s\<lparr>to_be_freed := ts\<rparr>))) = Inr s'"
  | s1 where "to_be_freed s = []" "dthr_semaphore_try Num_sema s = Inr (False, s1)"
      "dthr_semaphore_drop Freed_sema s1 = Inr s'"
  | s1 where "to_be_freed s = []" "dthr_semaphore_try Num_sema s = Inr (True, s1)"
      "dthr_event_wait Freed_event Freed_sema (push [Reap_loop] s1) = Inr s'"
proof (cases "to_be_freed s")
  case Nil
  then obtain ok s1 where t: "dthr_semaphore_try Num_sema s = Inr (ok, s1)"
      "(if \<not> ok then dthr_semaphore_drop Freed_sema s1
        else dthr_event_wait Freed_event Freed_sema (push [Reap_loop] s1)) = Inr s'"
    using assms by (auto simp: reaper_loop_def and_then_eq_Inr)
  show ?thesis
  proof (cases ok)
    case True
    then show ?thesis using t Nil that(3) by simp
  next
    case False
    then show ?thesis using t Nil that(2) by simp
  qed
next
  case (Cons t ts)
  then show ?thesis using assms that(1) by (simp add: reaper_loop_def and_then_eq_Inr)
qed

lemma nonneg_reaper:
  assumes "nonneg s" "reaper_loop s = Inr s'"
  shows "nonneg s'"
  using assms(2)
proof (rule reaper_cases)
  fix t ts
  assume "dthr_semaphore_drop Num_sema (push [Reap_loop] (free_thread t (s\<lparr>to_be_freed := ts\<rparr>))) = Inr s'"
  then show ?thesis by (rule nonneg_drop [rotated]) (simp add: nonneg_free assms(1))
next
  fix s1
  assume s1: "dthr_semaphore_try Num_sema s = Inr (False, s1)" "dthr_semaphore_drop Freed_sema s1 = Inr s'"
  show ?thesis by (rule nonneg_drop [OF nonneg_try [OF assms(1) s1(1)] s1(2)])
next
  fix s1
  assume s1: "dthr_semaphore_try Num_sema s = Inr (True, s1)"
    "dthr_event_wait Freed_event Freed_sema (push [Reap_loop] s1) = Inr s'"
  show ?thesis by (rule nonneg_event_wait [OF _ s1(2)]) (simp add: nonneg_try [OF assms(1) s1(1)])
qed

lemma multi_cases:
  assumes "multi_loop s = Inr s'"
  obtains "thread_q s = []" "dthr_semaphore_take Freed_sema (push [Reap_loop] s) = Inr s'"
  | t ts th s1 where "thread_q s = t # ts" "threads s t = Some th"
      "dthr_thread_on_exit t Mark_of_death
         (dthr_thread_init t (fn th) (th_stack_size th) (s\<lparr>thread_q := ts\<rparr>)) = Inr (True, s1)"
      "s' = push [Run t, Detach t, Multi_loop] s1"
proof (cases "thread_q s")
  case Nil
  then show ?thesis using assms that(1) by (simp add: multi_loop_def)
next
  case (Cons t ts)
  obtain th where th: "threads s t = Some th"
    using assms Cons by (auto simp: multi_loop_def the_thread_def and_then_eq_Inr split: option.splits)
  then obtain ok s1 where "dthr_thread_on_exit t Mark_of_death
         (dthr_thread_init t (fn th) (th_stack_size th) (s\<lparr>thread_q := ts\<rparr>)) = Inr (ok, s1)"
      "(if \<not> ok then Inl Abort else Inr (push [Run t, Detach t, Multi_loop] s1)) = Inr s'"
    using assms Cons by (auto simp: multi_loop_def the_thread_def Let_def and_then_eq_Inr)
  then show ?thesis using that(2) [OF Cons th, of s1] by (cases ok) simp_all
qed

lemma nonneg_multi:
  assumes "nonneg s" "multi_loop s = Inr s'"
  shows "nonneg s'"
  using assms(2)
proof (rule multi_cases)
  assume "dthr_semaphore_take Freed_sema (push [Reap_loop] s) = Inr s'"
  then show ?thesis using assms(1) nonneg_take [of "push [Reap_loop] s"] by simp
next
  fix t ts th s1
  assume "dthr_thread_on_exit t Mark_of_death
         (dthr_thread_init t (fn th) (th_stack_size th) (s\<lparr>thread_q := ts\<rparr>)) = Inr (True, s1)"
    and s': "s' = push [Run t, Detach t, Multi_loop] s1"
  moreover have "nonneg (s\<lparr>thread_q := ts\<rparr>)" using assms(1) by (simp add: nonneg_def)
  ultimately have "nonneg s1" using nonneg_on_exit nonneg_thread_init by blast
  then show ?thesis by (simp add: s')
qed

lemma nonneg_fresh: "fresh_thread f n s = (t, s') \<Longrightarrow> nonneg s' = nonneg s"
  by (auto simp: fresh_thread_def Let_def nonneg_def)

lemma spawn_cases:
  assumes "DThr_spawn f n s = Inr s'"
  obtains "malloc s = (False, s')"
  | s1 t s2 where "malloc s = (True, s1)" "fresh_thread f n s1 = (t, s2)"
      "dthr_semaphore_drop Num_sema (push [Mark_on_exit t, Run t, Detach t] s2) = Inr s'"
proof -
  obtain b s1 where m: "malloc s = (b, s1)" by (cases "malloc s")
  obtain t s2 where f: "fresh_thread f n s1 = (t, s2)" by (cases "fresh_thread f n s1")
  show ?thesis
  proof (cases b)
    case True
    then show ?thesis using assms m f that(2) by (simp add: DThr_spawn_def)
  next
    case False
    then show ?thesis using assms m that(1) by (simp add: DThr_spawn_def)
  qed
qed

lemma queue_cases:
  assumes "DThr_queue f n s = Inr s'"
  obtains "malloc s = (False, s')"
  | s1 t s2 where "malloc s = (True, s1)" "fresh_thread (Some f) n s1 = (t, s2)"
      "dthr_semaphore_drop Num_sema (s2\<lparr>thread_q := t # thread_q s2\<rparr>) = Inr s'"
proof -
  obtain b s1 where m: "malloc s = (b, s1)" by (cases "malloc s")
  obtain t s2 where f: "fresh_thread (Some f) n s1 = (t, s2)" by (cases "fresh_thread (Some f) n s1")
  show ?thesis
  proof (cases b)
    case True
    then show ?thesis using assms m f that(2) by (simp add: DThr_queue_def)
  next
    case False
    then show ?thesis using assms m that(1) by (simp add: DThr_queue_def)
  qed
qed

lemma nonneg_spawn:
  assumes "nonneg s" "DThr_spawn f n s = Inr s'"
  shows "nonneg s'"
  using assms(2)
proof (rule spawn_cases)
  assume "malloc s = (False, s')"
  then show ?thesis using nonneg_malloc assms(1) by simp
next
  fix s1 t s2
  assume m: "malloc s = (True, s1)" and f: "fresh_thread f n s1 = (t, s2)"
    and d: "dthr_semaphore_drop Num_sema (push [Mark_on_exit t, Run t, Detach t] s2) = Inr s'"
  show ?thesis by (rule nonneg_drop [OF _ d]) (simp add: nonneg_fresh [OF f] nonneg_malloc [OF m] assms(1))
qed

lemma nonneg_queue:
  assumes "nonneg s" "DThr_queue f n s = Inr s'"
  shows "nonneg s'"
  using assms(2)
proof (rule queue_cases)
  assume "malloc s = (False, s')"
  then show ?thesis using nonneg_malloc assms(1) by simp
next
  fix s1 t s2
  assume m: "malloc s = (True, s1)" and f: "fresh_thread (Some f) n s1 = (t, s2)"
    and d: "dthr_semaphore_drop Num_sema (s2\<lparr>thread_q := t # thread_q s2\<rparr>) = Inr s'"
  have "nonneg s2" by (simp add: nonneg_fresh [OF f] nonneg_malloc [OF m] assms(1))
  then have "nonneg (s2\<lparr>thread_q := t # thread_q s2\<rparr>)" by (simp add: nonneg_def)
  then show ?thesis by (rule nonneg_drop [OF _ d])
qed

lemma nonneg_setup: "nonneg s \<Longrightarrow> nonneg (DThr_setup s)"
proof -
  assume n: "nonneg s"
  have "nonneg (dthr_semaphore_init Num_sema 0 (dthr_semaphore_init Freed_sema 0 (dthr_init s)))"
    by (intro nonneg_sema_init nonneg_dthr_init n) simp_all
  then show ?thesis using n by (simp add: DThr_setup_def dthr_event_init_def nonneg_def)
qed

lemma nonneg_begin:
  assumes "nonneg s" "DThr_begin s = Inr s'"
  shows "nonneg s'"
proof -
  have "nonneg (s\<lparr>next_tid := next_tid s + 1\<rparr>)" using assms(1) by (simp add: nonneg_def)
  from nonneg_thread_init [OF this, of "next_tid s" "Some DThr_MultiThread" "0x1000"]
  show ?thesis using assms(2)
    by (auto simp: DThr_begin_def Let_def dthr_thread_multithread_def nonneg_def enqueue_def)
qed

lemma nonneg_DThr:
  assumes "nonneg s" "DThr_Thread_Run f n s = Inr s'"
  shows "nonneg s'"
proof -
  have s: "nonneg (DThr_setup s)" by (rule nonneg_setup [OF assms(1)])
  show ?thesis
  proof (cases "dthr_state (DThr_setup s) = 1")
    case False
    then show ?thesis using assms(2) nonneg_spawn [OF s] by (simp add: DThr_Thread_Run_def Let_def)
  next
    case True
    then show ?thesis using assms(2) nonneg_begin [OF s] nonneg_queue [OF s]
      by (cases f) (simp_all add: DThr_Thread_Run_def Let_def)
  qed
qed

lemma nonneg_launcher:
  assumes "nonneg s" "dthr_thread_launcher s = Inr s'"
  shows "nonneg s'"
proof -
  have "nonneg (s\<lparr>stacks := S\<rparr>)" for S using assms(1) by (simp add: nonneg_def)
  then show ?thesis using assms(2)
    by (auto simp: dthr_thread_launcher_def Let_def intro: nonneg_take_ny [rotated])
qed

lemma nonneg_newq_put:
  assumes "nonneg s" "newq_put t s = Inr s'"
  shows "nonneg s'"
proof -
  obtain s1 s2 where "dthr_eventq_to_runq Newq_event 1 (enqueue Newq t s) = Inr s1"
      "dthr_semaphore_drop_no_yield Newq_sema s1 = Inr s2" "dthr_thread_yield s2 = Inr s'"
    using assms(2) by (auto simp: newq_put_def dthr_event_signal_no_yield_def and_then_eq_Inr)
  then show ?thesis using assms(1) nonneg_eventq nonneg_drop_ny nonneg_yield by (metis nonneg_fields(2))
qed

lemma nonneg_signal: "nonneg s \<Longrightarrow> and_then (dthr_eventq_to_runq e n s) dthr_thread_yield = Inr s' \<Longrightarrow> nonneg s'"
  by (auto simp: and_then_eq_Inr dest: nonneg_eventq nonneg_yield)

lemma nonneg_launch: "nonneg s \<Longrightarrow> launch k s = Inr s' \<Longrightarrow> nonneg s'"
  by (auto simp: launch_def and_then_eq_Inr Let_def split: option.splits)

lemmas nonneg_ops = nonneg_take nonneg_take_ny nonneg_drop nonneg_drop_ny nonneg_event_wait nonneg_exit
  nonneg_DThr nonneg_launcher nonneg_scan nonneg_launch nonneg_leave nonneg_reaper nonneg_multi nonneg_newq_put

lemma exec_nonneg:
  assumes "nonneg s" "exec i s = Inr s'"
  shows "nonneg s'"
proof (cases i)
  case Yield
  then show ?thesis using assms nonneg_yield by simp
next
  case (Try k)
  then show ?thesis using assms nonneg_try by (auto simp: and_then_eq_Inr)
next
  case (Broadcast e)
  then show ?thesis using assms nonneg_signal by (auto simp: dthr_event_broadcast_def)
next
  case (Broadcast_ny e)
  then show ?thesis using assms nonneg_eventq by (auto simp: dthr_event_broadcast_no_yield_def)
next
  case (Signal e)
  then show ?thesis using assms nonneg_signal by (auto simp: dthr_event_signal_def)
next
  case (Signal_ny e)
  then show ?thesis using assms nonneg_eventq by (auto simp: dthr_event_signal_no_yield_def)
next
  case (Thread_init t f n)
  then show ?thesis using assms nonneg_thread_init by auto
next
  case (On_exit t f)
  then show ?thesis using assms nonneg_on_exit by (auto simp: and_then_eq_Inr)
next
  case (Mark_on_exit t)
  then show ?thesis using assms nonneg_on_exit by (auto simp: and_then_eq_Inr split: if_splits)
next
  case (Detach t)
  then show ?thesis using assms nonneg_drop by (auto simp: dthr_thread_detach_def and_then_eq_Inr)
next
  case (Wait t)
  then show ?thesis using assms nonneg_take [of "push [Drop (Exit_sema t)] s"]
    by (auto simp: dthr_thread_wait_def and_then_eq_Inr)
next
  case (Run t)
  then show ?thesis using assms nonneg_take_ny [of "push [Newq_put t] s"]
    by (auto simp: dthr_thread_run_def and_then_eq_Inr)
next
  case (Csw_return k)
  then show ?thesis using assms by (auto simp: csw_return_def and_then_eq_Inr)
next
  case (Fn_return t v)
  then show ?thesis using assms by (auto simp: fn_return_def and_then_eq_Inr)
next
  case (Push_freed t)
  then show ?thesis using assms by (auto simp: mark_of_death_push_def and_then_eq_Inr)
qed (use assms in \<open>simp, blast intro: nonneg_ops\<close>)+

lemma step_nonneg: "nonneg s \<Longrightarrow> step s = Inr s' \<Longrightarrow> nonneg s'"
  using exec_nonneg [of "s\<lparr>frames := tl (frames s)\<rparr>" "hd (frames s)" s']
  by (auto simp: step_def split: list.splits)

lemma run_nonneg: "nonneg s \<Longrightarrow> run n s = Inr s' \<Longrightarrow> nonneg s'"
  by (induction n arbitrary: s) (auto simp: and_then_eq_Inr dest: step_nonneg)

section \<open>The reaper frees nothing\<close>

text \<open>
  \<open>clean\<close>: code that neither touches \<open>to_be_freed_sema\<close>, which is private to the file, nor enters
  the middle of \<open>mark_of_death\<close> or \<open>reaper\<close>.  A context is sealed if that holds up to its first
  attempt to take the semaphore.
\<close>

fun clean :: "instr \<Rightarrow> bool" and clean_code :: "code \<Rightarrow> bool" and clean_exit :: "exit_fn \<Rightarrow> bool" where
  "clean (Take k) = (k \<noteq> Freed_sema)"
| "clean (Take_ny k) = (k \<noteq> Freed_sema)"
| "clean (Drop k) = (k \<noteq> Freed_sema)"
| "clean (Drop_ny k) = (k \<noteq> Freed_sema)"
| "clean (Try k) = (k \<noteq> Freed_sema)"
| "clean (Event_wait e k) = (k \<noteq> Freed_sema)"
| "clean (Push_freed t) = False"
| "clean Reap_loop = False"
| "clean (Thread_init t f n) = clean_code f"
| "clean (On_exit t f) = clean_exit f"
| "clean (DThr_Run (Some f) n) = clean_code f"
| "clean i = True"
| "clean_code (Fn is v) = list_all clean is"
| "clean_code DThr_MultiThread = True"
| "clean_exit Mark_of_death = True"
| "clean_exit (Exit_fn is) = list_all clean is"

fun sealed :: "instr list \<Rightarrow> bool" where
  "sealed [] = True"
| "sealed (i # fs) \<longleftrightarrow> i = Take Freed_sema \<or> i = Take_ny Freed_sema \<or> clean i \<and> sealed fs"

definition clean_thread :: "thread \<Rightarrow> bool" where
  "clean_thread th \<longleftrightarrow> (\<forall>f. fn th = Some f \<longrightarrow> clean_code f) \<and> list_all clean_exit (on_exit th)"

interpretation seal: vault sealed clean_thread
  by unfold_locales (auto simp: clean_thread_def)

definition closed :: "sched \<Rightarrow> bool" where
  "closed s \<longleftrightarrow> semas s Freed_sema \<in> {None, Some 0} \<and> to_be_freed s = [] \<and> seal.kept s"

definition shut :: "sched \<Rightarrow> bool" where
  "shut s \<longleftrightarrow> closed s \<and> sealed (frames s)"

lemma sealed_append: "list_all clean xs \<Longrightarrow> sealed (xs @ fs) = sealed fs"
proof (induction xs)
  case (Cons i xs)
  then show ?case by (cases i) auto
qed simp

lemma sealed_code: "clean_code f \<Longrightarrow> sealed (code_frames f t)"
  by (cases f) (auto simp: code_frames_def sealed_append)

lemma sealed_exit: "clean_exit f \<Longrightarrow> clean i \<Longrightarrow> sealed fs \<Longrightarrow> sealed (exit_frames f t @ i # fs)"
  by (cases f) (auto simp: exit_frames_def sealed_append)

lemma closed_fields [simp]:
  "closed (push fs s) = closed s" "closed (enqueue p t s) = closed s" "closed (s\<lparr>frames := fs\<rparr>) = closed s"
  "closed (s\<lparr>cur := c\<rparr>) = closed s" "closed (s\<lparr>queue := Q\<rparr>) = closed s"
  by (simp_all add: closed_def)

lemma closed_same:
  "closed s \<Longrightarrow> seal.kept s' \<Longrightarrow> semas s' Freed_sema = semas s Freed_sema \<Longrightarrow> to_be_freed s' = to_be_freed s
    \<Longrightarrow> closed s'"
  by (simp add: closed_def)

lemma shut_yield: "shut s \<Longrightarrow> dthr_thread_yield s = Inr s' \<Longrightarrow> shut s'"
  using seal.kept_yield [of s s'] by (auto simp: shut_def closed_def seal.same_def)

lemma shut_sleep: "shut s \<Longrightarrow> dthr_thread_sleep lv s = Inr s' \<Longrightarrow> shut s'"
  using seal.kept_sleep [of s lv s'] by (auto simp: shut_def closed_def seal.same_def)

lemma shut_take: "closed s \<Longrightarrow> sealed (Take_ny k # frames s) \<Longrightarrow> dthr_semaphore_take k s = Inr s' \<Longrightarrow> shut s'"
  using shut_yield [of "push [Take_ny k] s" s'] by (simp add: dthr_semaphore_take_def shut_def)

lemma shut_take_ny:
  assumes "closed s" "sealed (Take_ny k # frames s)" "dthr_semaphore_take_no_yield k s = Inr s'"
  shows "shut s'"
proof -
  have "semas s k \<noteq> None"
    using assms(3) by (cases "semas s k") (simp_all add: dthr_semaphore_take_no_yield_def sema_value_def)
  then have b: "sealed (frames s) \<or> semas s k = Some 0"
    using assms(1,2) by (auto simp: closed_def)
  have "semas s' Freed_sema = semas s Freed_sema"
    using seal.kept_take_ny [OF _ assms(2) b assms(3)] assms(1)
    by (auto simp: closed_def)
  then show ?thesis
    using seal.kept_take_ny [OF _ assms(2) b assms(3)] assms(1) by (auto simp: shut_def closed_def)
qed

lemma shut_drop_ny:
  assumes "shut s" "k \<noteq> Freed_sema" "dthr_semaphore_drop_no_yield k s = Inr s'"
  shows "shut s'"
  using seal.kept_drop_ny [OF _ assms(3)] assms(1,2) by (auto simp: shut_def closed_def)

lemma shut_drop: "shut s \<Longrightarrow> k \<noteq> Freed_sema \<Longrightarrow> dthr_semaphore_drop k s = Inr s' \<Longrightarrow> shut s'"
  by (auto simp: dthr_semaphore_drop_def and_then_eq_Inr dest: shut_drop_ny shut_yield)

lemma shut_event_wait:
  assumes "shut s" "k \<noteq> Freed_sema" "dthr_event_wait e k s = Inr s'"
  shows "shut s'"
  using seal.kept_event_wait [OF _ _ assms(3)] assms(1,2) by (auto simp: shut_def closed_def)

lemma shut_eventq: "shut s \<Longrightarrow> dthr_eventq_to_runq e n s = Inr s' \<Longrightarrow> shut s'"
  using seal.kept_eventq [of s e n s'] by (auto simp: shut_def closed_def seal.same_def)

lemma shut_try: "shut s \<Longrightarrow> k \<noteq> Freed_sema \<Longrightarrow> dthr_semaphore_try k s = Inr (ok, s') \<Longrightarrow> shut s'"
  by (auto simp: dthr_semaphore_try_def and_then_eq_Inr shut_def closed_def split: if_splits)

lemma shut_thread:
  "shut s \<Longrightarrow> (\<And>th. clean_thread th \<Longrightarrow> clean_thread (f th)) \<Longrightarrow> shut (upd_thread t f s)"
  by (simp add: shut_def closed_def seal.kept_thread)

lemma shut_malloc: "malloc s = (ok, s') \<Longrightarrow> shut s' = shut s"
  by (auto simp: malloc_def shut_def closed_def seal.kept_def split: if_splits)

lemma shut_sema_init: "shut s \<Longrightarrow> k \<noteq> Freed_sema \<or> v = 0 \<Longrightarrow> shut (dthr_semaphore_init k v s)"
  by (auto simp: shut_def closed_def dthr_semaphore_init_def set_sema_def seal.kept_def)

lemma shut_thread_init:
  assumes "shut s" "\<forall>g. f = Some g \<longrightarrow> clean_code g"
  shows "shut (dthr_thread_init t f n s)"
  unfolding dthr_thread_init_def
  by (rule shut_sema_init) (use assms in \<open>auto simp: shut_def closed_def seal.kept_def clean_thread_def\<close>)

lemma shut_on_exit:
  assumes "shut s" "clean_exit f" "dthr_thread_on_exit t f s = Inr (ok, s')"
  shows "shut s'"
proof -
  obtain b s1 where m: "malloc s = (b, s1)" by (cases "malloc s")
  have "shut (upd_thread t (\<lambda>th. th\<lparr>on_exit := f # on_exit th\<rparr>) s1)"
    by (rule shut_thread) (use assms shut_malloc [OF m] in \<open>auto simp: clean_thread_def\<close>)
  then show ?thesis using assms m shut_malloc [OF m]
    by (cases b) (auto simp: dthr_thread_on_exit_def and_then_eq_Inr)
qed

lemma shut_push: "shut s \<Longrightarrow> list_all clean fs \<Longrightarrow> shut (push fs s)"
  by (simp add: shut_def sealed_append)

lemma shut_exit_step:
  assumes "shut s" "threads s t = Some th" "on_exit th = x # xs" "clean i"
  shows "shut (push (exit_frames x t @ [i]) (upd_thread t (\<lambda>th. th\<lparr>on_exit := xs\<rparr>) s))"
proof -
  have c: "clean_exit x" "list_all clean_exit xs"
    using assms(1-3) by (auto simp: shut_def closed_def seal.kept_def clean_thread_def) fastforce+
  have "seal.kept (upd_thread t (\<lambda>th. th\<lparr>on_exit := xs\<rparr>) s)"
    using assms(1) c(2) by (auto simp: shut_def closed_def seal.kept_def clean_thread_def upd_thread_def)
  then show ?thesis using assms(1,4) sealed_exit [OF c(1) assms(4)]
    by (simp add: shut_def closed_def)
qed

lemma shut_exit: "shut s \<Longrightarrow> dthr_thread_exit v s = Inr s' \<Longrightarrow> shut s'"
proof (erule exit_cases)
  fix c
  assume "shut s" "dthr_thread_sleep True (upd_thread c (\<lambda>th. th\<lparr>exit_value := v, state := TH_EXITED\<rparr>) s) = Inr s'"
  then show "shut s'" by (elim shut_sleep [OF shut_thread, rotated 2]) (auto simp: clean_thread_def)
qed (simp add: shut_exit_step)

lemma shut_leave: "shut s \<Longrightarrow> leave_thread t s = Inr s' \<Longrightarrow> shut s'"
proof (erule leave_cases)
  assume "shut s" "dthr_thread_sleep True (upd_thread t (\<lambda>th. th\<lparr>state := TH_EXITED\<rparr>) s) = Inr s'"
  then show "shut s'" by (elim shut_sleep [OF shut_thread, rotated 2]) (auto simp: clean_thread_def)
qed (simp add: shut_exit_step)

lemma shut_newq_put:
  assumes "shut s" "newq_put t s = Inr s'"
  shows "shut s'"
proof -
  obtain s1 s2 where s: "dthr_eventq_to_runq Newq_event 1 (enqueue Newq t s) = Inr s1"
      "dthr_semaphore_drop_no_yield Newq_sema s1 = Inr s2" "dthr_thread_yield s2 = Inr s'"
    using assms(2) by (auto simp: newq_put_def dthr_event_signal_no_yield_def and_then_eq_Inr)
  have "shut (enqueue Newq t s)" using assms(1) by (simp add: shut_def)
  then have "shut s2" using shut_drop_ny [OF shut_eventq _ s(2)] s(1) by blast
  then show ?thesis using shut_yield s(3) by blast
qed

lemma shut_new_topmost:
  assumes "closed s" "dthr_new_topmost_thread k n s = Inr s'"
  shows "shut s'"
proof -
  have "seal.kept (upd_stack k (\<lambda>d. d\<lparr>regs := Some [Launch k]\<rparr>) s)"
    by (rule seal.kept_stack) (use assms(1) in \<open>auto simp: closed_def\<close>)
  then show ?thesis using assms
    by (auto simp: dthr_new_topmost_thread_def and_then_eq_Inr Let_def shut_def closed_def seal.kept_def)
qed

lemma shut_new_stack:
  assumes "shut s" "new_stack t n s = Inr s'"
  shows "shut s'"
  using assms(2)
proof (rule new_stack_cases)
  fix s1 top s3
  assume m: "malloc s = (True, s1)" and d: "dthr_new_topmost_thread (next_stk s1) n s3 = Inr s'"
    and s3: "dthr_semaphore_drop_no_yield Newq_sema
       ((upd_thread t (\<lambda>th. th\<lparr>stack := Some (next_stk s1), state := TH_RUNNABLE\<rparr>)
          (s1\<lparr>next_stk := next_stk s1 + 1, stacks := (stacks s1)(next_stk s1 := Some \<lparr>stack_size = n,
             stack_base = stack_base top, stack_top = stack_base top - n, owner = t, regs = None, base = None\<rparr>)\<rparr>))
        \<lparr>active_stacks := next_stk s1 # active_stacks s1\<rparr>) = Inr s3"
  have "shut s1" using assms(1) shut_malloc [OF m] by simp
  then have "shut ((upd_thread t (\<lambda>th. th\<lparr>stack := Some (next_stk s1), state := TH_RUNNABLE\<rparr>)
          (s1\<lparr>next_stk := next_stk s1 + 1, stacks := (stacks s1)(next_stk s1 := Some \<lparr>stack_size = n,
             stack_base = stack_base top, stack_top = stack_base top - n, owner = t, regs = None, base = None\<rparr>)\<rparr>))
        \<lparr>active_stacks := next_stk s1 # active_stacks s1\<rparr>)"
    by (auto simp: shut_def closed_def seal.kept_def upd_thread_def clean_thread_def split: if_splits)
  from shut_drop_ny [OF this _ s3] have "closed s3" by (simp add: shut_def)
  then show ?thesis by (rule shut_new_topmost [OF _ d])
qed

lemma shut_scan:
  assumes "shut s" "launcher_scan s = Inr s'"
  shows "shut s'"
proof (cases "queue s Newq")
  case Nil
  have "shut (push [Scan] s)" by (rule shut_push [OF assms(1)]) simp
  then show ?thesis using assms(2) Nil shut_event_wait [of "push [Scan] s" Newq_sema]
    by (simp add: launcher_scan_def dequeue_def)
next
  case (Cons t ts)
  let ?w = "s\<lparr>queue := (queue s)(Newq := ts)\<rparr>"
  have w: "shut ?w" using assms(1) by (simp add: shut_def)
  obtain th :: thread and r where r:
    "(case r of Some k \<Rightarrow> Inr (push [Scan] (reuse_stack k t ?w)) | None \<Rightarrow> new_stack t (th_stack_size th) ?w) = Inr s'"
    using assms(2) Cons by (auto simp: launcher_scan_def dequeue_def and_then_eq_Inr)
  show ?thesis
  proof (cases r)
    case None
    then show ?thesis using r shut_new_stack [OF w] by simp
  next
    case (Some k)
    have "shut (upd_stack k (\<lambda>d. d\<lparr>regs := base d, owner := t\<rparr>) ?w)"
      using w seal.kept_stack [of ?w "\<lambda>d. d\<lparr>regs := base d, owner := t\<rparr>" k]
      by (auto simp: shut_def closed_def)
    then have "shut (upd_thread t (\<lambda>th. th\<lparr>stack := Some k, state := TH_RUNNABLE\<rparr>)
        (upd_stack k (\<lambda>d. d\<lparr>regs := base d, owner := t\<rparr>) ?w))"
      by (rule shut_thread) (auto simp: clean_thread_def)
    then have "shut (reuse_stack k t ?w)" by (simp add: reuse_stack_def Let_def shut_def)
    then show ?thesis using r Some shut_push [of _ "[Scan]"] by auto
  qed
qed

lemma shut_launch:
  assumes "shut s" "launch k s = Inr s'"
  shows "shut s'"
proof -
  obtain d th f where f: "stacks s k = Some d" "threads s (owner d) = Some th" "fn th = Some f"
      "s' = (upd_stack k (\<lambda>d. d\<lparr>base := Some [Launch k]\<rparr>) s)\<lparr>cur := Some (owner d), frames := code_frames f (owner d)\<rparr>"
    using assms(2)
    by (auto simp: launch_def the_stack_def Let_def and_then_eq_Inr dest!: checked_threadD split: option.splits)
  have "seal.kept (upd_stack k (\<lambda>d. d\<lparr>base := Some [Launch k]\<rparr>) s)"
    by (rule seal.kept_stack) (use assms(1) in \<open>auto simp: shut_def closed_def\<close>)
  moreover have "clean_code f" using assms(1) f(2,3) by (auto simp: shut_def closed_def seal.kept_def clean_thread_def)
  ultimately show ?thesis using f(4) assms(1) sealed_code by (simp add: shut_def closed_def)
qed

lemma shut_multi:
  assumes "shut s" "multi_loop s = Inr s'"
  shows "shut s'"
  using assms(2)
proof (rule multi_cases)
  assume "dthr_semaphore_take Freed_sema (push [Reap_loop] s) = Inr s'"
  then show ?thesis using assms(1) by (intro shut_take [of "push [Reap_loop] s"]) (auto simp: shut_def)
next
  fix t ts th s1
  assume th: "threads s t = Some th" "dthr_thread_on_exit t Mark_of_death
         (dthr_thread_init t (fn th) (th_stack_size th) (s\<lparr>thread_q := ts\<rparr>)) = Inr (True, s1)"
    and s': "s' = push [Run t, Detach t, Multi_loop] s1"
  have "shut (s\<lparr>thread_q := ts\<rparr>)" using assms(1) by (auto simp: shut_def closed_def seal.kept_def)
  moreover have "\<forall>g. fn th = Some g \<longrightarrow> clean_code g"
    using assms(1) th(1) by (auto simp: shut_def closed_def seal.kept_def clean_thread_def)
  ultimately have "shut s1" by (intro shut_on_exit [OF shut_thread_init _ th(2)]) auto
  then show ?thesis unfolding s' by (rule shut_push) simp
qed

lemma shut_fresh: "fresh_thread f n s = (t, s') \<Longrightarrow> \<forall>g. f = Some g \<longrightarrow> clean_code g \<Longrightarrow> shut s \<Longrightarrow> shut s'"
  by (auto simp: fresh_thread_def Let_def shut_def closed_def seal.kept_def clean_thread_def blank_thread_def
      split: if_splits)

lemma shut_setup: "shut s \<Longrightarrow> shut (DThr_setup s)"
proof -
  assume s: "shut s"
  then have "shut (dthr_init s)"
    by (auto simp: dthr_init_def Let_def dthr_event_init_def dthr_semaphore_init_def shut_def closed_def
        set_sema_def seal.kept_def clean_thread_def blank_thread_def)
  then have "shut (dthr_semaphore_init Num_sema 0 (dthr_semaphore_init Freed_sema 0 (dthr_init s)))"
    by (intro shut_sema_init) simp_all
  then show ?thesis using s
    by (auto simp: DThr_setup_def dthr_event_init_def shut_def closed_def seal.kept_def)
qed

lemma shut_DThr:
  assumes "shut s" "\<forall>g. f = Some g \<longrightarrow> clean_code g" "DThr_Thread_Run f n s = Inr s'"
  shows "shut s'"
proof -
  have s: "shut (DThr_setup s)" by (rule shut_setup [OF assms(1)])
  show ?thesis
  proof (cases "dthr_state (DThr_setup s) = 1")
    case False
    then have "DThr_spawn f n (DThr_setup s) = Inr s'" using assms(3) by (simp add: DThr_Thread_Run_def Let_def)
    then show ?thesis
    proof (rule spawn_cases)
      fix s1 t s2
      assume m: "malloc (DThr_setup s) = (True, s1)" and fr: "fresh_thread f n s1 = (t, s2)"
        and d: "dthr_semaphore_drop Num_sema (push [Mark_on_exit t, Run t, Detach t] s2) = Inr s'"
      have "shut s2" using shut_fresh [OF fr assms(2)] shut_malloc [OF m] s by simp
      then show ?thesis by (intro shut_drop [OF shut_push _ d]) simp_all
    qed (use shut_malloc s in simp)
  next
    case True
    show ?thesis
    proof (cases f)
      case None
      let ?s = "(DThr_setup s)\<lparr>next_tid := next_tid (DThr_setup s) + 1\<rparr>"
      have "shut ?s" using s by (auto simp: shut_def closed_def seal.kept_def)
      from shut_thread_init [OF this, of "Some DThr_MultiThread" "next_tid (DThr_setup s)" "0x1000"]
      have "closed (dthr_thread_init (next_tid (DThr_setup s)) (Some DThr_MultiThread) 0x1000 ?s)"
        by (simp add: shut_def)
      then have "closed ((dthr_thread_init (next_tid (DThr_setup s)) (Some DThr_MultiThread) 0x1000 ?s)\<lparr>dthr_state := 2\<rparr>)"
        by (simp add: closed_def seal.kept_def)
      then have "shut ((enqueue Newq (next_tid (DThr_setup s))
          ((dthr_thread_init (next_tid (DThr_setup s)) (Some DThr_MultiThread) 0x1000 ?s)\<lparr>dthr_state := 2\<rparr>))
          \<lparr>cur := Some 0, deadlock_saved := True, frames := [Launcher]\<rparr>)"
        by (simp add: shut_def closed_def seal.kept_def)
      then show ?thesis using assms(3) True None
        by (simp add: DThr_Thread_Run_def DThr_begin_def Let_def dthr_thread_multithread_def)
    next
      case (Some g)
      then have "DThr_queue g n (DThr_setup s) = Inr s'" using assms(3) True by (simp add: DThr_Thread_Run_def Let_def)
      then show ?thesis
      proof (rule queue_cases)
        fix s1 t s2
        assume m: "malloc (DThr_setup s) = (True, s1)" and fr: "fresh_thread (Some g) n s1 = (t, s2)"
          and d: "dthr_semaphore_drop Num_sema (s2\<lparr>thread_q := t # thread_q s2\<rparr>) = Inr s'"
        have "shut s2" using shut_fresh [OF fr] assms(2) Some shut_malloc [OF m] s by simp
        then have "shut (s2\<lparr>thread_q := t # thread_q s2\<rparr>)" by (auto simp: shut_def closed_def seal.kept_def)
        then show ?thesis by (intro shut_drop [OF _ _ d]) simp_all
      qed (use shut_malloc s in simp)
    qed
  qed
qed

lemma shut_launcher:
  assumes "shut s" "dthr_thread_launcher s = Inr s'"
  shows "shut s'"
proof -
  let ?S = "(stacks s)(0 \<mapsto> \<lparr>stack_size = 0, stack_base = sp s, stack_top = 0, owner = 0,
        regs = Option.bind (stacks s 0) regs, base = Option.bind (stacks s 0) base\<rparr>)"
  have "shut (s\<lparr>stacks := ?S\<rparr>)"
    using assms(1) by (auto simp: shut_def closed_def seal.kept_def bind_eq_Some_conv)
  then have "shut (upd_thread 0 (\<lambda>th. th\<lparr>stack := Some 0\<rparr>) (s\<lparr>stacks := ?S\<rparr>))"
    by (rule shut_thread) (simp add: clean_thread_def)
  then show ?thesis
    using assms(2) shut_take_ny [of "push [Scan] (upd_thread 0 (\<lambda>th. th\<lparr>stack := Some 0\<rparr>) (s\<lparr>stacks := ?S\<rparr>))" Newq_sema s']
    by (simp add: dthr_thread_launcher_def Let_def shut_def)
qed

lemma shut_signal: "shut s \<Longrightarrow> and_then (dthr_eventq_to_runq e n s) dthr_thread_yield = Inr s' \<Longrightarrow> shut s'"
  by (auto simp: and_then_eq_Inr dest: shut_eventq shut_yield)

lemma exec_shut:
  assumes "closed s" "sealed (i # frames s)" "exec i s = Inr s'"
  shows "shut s'"
proof (cases "i = Take Freed_sema \<or> i = Take_ny Freed_sema")
  case True
  then show ?thesis using assms(1,3) shut_take [of s Freed_sema s'] shut_take_ny [of s Freed_sema s'] by auto
next
  case False
  then have s: "shut s" "clean i" using assms(1,2) by (auto simp: shut_def)
  show ?thesis
  proof (cases i)
    case (Thread_init t f n)
    then show ?thesis using assms(3) s shut_thread_init by auto
  next
    case (On_exit t f)
    then show ?thesis using assms(3) s shut_on_exit by (auto simp: and_then_eq_Inr)
  next
    case (Mark_on_exit t)
    then show ?thesis using assms(3) shut_on_exit [OF s(1), of Mark_of_death]
      by (auto simp: and_then_eq_Inr split: if_splits)
  next
    case (DThr_Run f n)
    have "\<forall>g. f = Some g \<longrightarrow> clean_code g" using s(2) DThr_Run by auto
    then show ?thesis using shut_DThr [OF s(1) _ ] assms(3) DThr_Run by simp
  next
    case (Take k)
    then show ?thesis using shut_take [of s k s'] assms(3) s by (auto simp: shut_def)
  next
    case (Take_ny k)
    then show ?thesis using shut_take_ny [of s k s'] assms(3) s by (auto simp: shut_def)
  next
    case (Try k)
    then show ?thesis using shut_try assms(3) s by (auto simp: and_then_eq_Inr)
  next
    case (Broadcast e)
    then show ?thesis using assms(3) s shut_signal by (auto simp: dthr_event_broadcast_def)
  next
    case (Broadcast_ny e)
    then show ?thesis using assms(3) s shut_eventq by (auto simp: dthr_event_broadcast_no_yield_def)
  next
    case (Signal e)
    then show ?thesis using assms(3) s shut_signal by (auto simp: dthr_event_signal_def)
  next
    case (Signal_ny e)
    then show ?thesis using assms(3) s shut_eventq by (auto simp: dthr_event_signal_no_yield_def)
  next
    case (Detach t)
    then show ?thesis using assms(3) s shut_drop [of s "Exit_sema t"]
      by (auto simp: dthr_thread_detach_def and_then_eq_Inr)
  next
    case (Wait t)
    then show ?thesis using assms(3) s shut_take [of "push [Drop (Exit_sema t)] s" "Exit_sema t"]
      by (auto simp: dthr_thread_wait_def and_then_eq_Inr shut_def)
  next
    case (Run t)
    then show ?thesis using assms(3) s shut_take_ny [of "push [Newq_put t] s" Newq_sema]
      by (auto simp: dthr_thread_run_def and_then_eq_Inr shut_def)
  next
    case (Csw_return k)
    then show ?thesis using assms(3) s by (auto simp: csw_return_def and_then_eq_Inr shut_def)
  next
    case (Fn_return t v)
    have "shut (upd_thread t (\<lambda>th. th\<lparr>exit_value := v\<rparr>) s)"
      by (rule shut_thread [OF s(1)]) (simp add: clean_thread_def)
    then show ?thesis using assms(3) Fn_return shut_push [of _ "[Leave t]"]
      by (auto simp: fn_return_def and_then_eq_Inr)
  next
    case Yield
    then show ?thesis using shut_yield [OF s(1)] assms(3) s(2) by simp
  next
    case (Drop k)
    then show ?thesis using shut_drop [OF s(1), of k] assms(3) s(2) by simp
  next
    case (Drop_ny k)
    then show ?thesis using shut_drop_ny [OF s(1), of k] assms(3) s(2) by simp
  next
    case (Event_wait e k)
    then show ?thesis using shut_event_wait [OF s(1), of k] assms(3) s(2) by simp
  next
    case (Exit v)
    then show ?thesis using shut_exit [OF s(1)] assms(3) s(2) by simp
  next
    case (Newq_put t)
    then show ?thesis using shut_newq_put [OF s(1)] assms(3) s(2) by simp
  next
    case Scan
    then show ?thesis using shut_scan [OF s(1)] assms(3) s(2) by simp
  next
    case Launcher
    then show ?thesis using shut_launcher [OF s(1)] assms(3) s(2) by simp
  next
    case (Launch k)
    then show ?thesis using shut_launch [OF s(1)] assms(3) s(2) by simp
  next
    case (Leave t)
    then show ?thesis using shut_leave [OF s(1)] assms(3) s(2) by simp
  next
    case Multi_loop
    then show ?thesis using shut_multi [OF s(1)] assms(3) s(2) by simp
  qed (use s(2) in simp_all)
qed

lemma step_shut: "shut s \<Longrightarrow> step s = Inr s' \<Longrightarrow> shut s'"
  using exec_shut [of "s\<lparr>frames := tl (frames s)\<rparr>" "hd (frames s)" s']
  by (auto simp: step_def shut_def split: list.splits)

lemma run_shut: "shut s \<Longrightarrow> run n s = Inr s' \<Longrightarrow> shut s'"
  by (induction n arbitrary: s) (auto simp: and_then_eq_Inr dest: step_shut)

lemma boot_shut: "list_all clean fs \<Longrightarrow> shut (boot mem addr frame fs)"
  using sealed_append [of fs "[]"]
  by (simp add: shut_def closed_def boot_def seal.kept_def)





end
