(* ===== verification/Qsort.thy ===== *)
theory Qsort
  imports Prelude "HOL-Library.Multiset"
begin

text \<open>
  \<open>qsort_r\<close> of \<open>qsort_r.c\<close>: Bentley and McIlroy's quicksort with a three-way partition.  The array
  is a list, a pointer into it the index of an element (the code's pointers move by \<open>es\<close> bytes);
  \<open>a\<close> is the index of the first element of the part being sorted.  \<open>swap\<close> exchanges two elements
  whatever \<open>swaptype\<close> is.  The comparison function is an argument, with \<open>arg\<close> applied to it.
\<close>

section \<open>The code\<close>

definition swap_at :: "nat \<Rightarrow> nat \<Rightarrow> 'a list \<Rightarrow> 'a list" where
  "swap_at i j xs = xs[i := xs ! j, j := xs ! i]"

text \<open>\<open>swapfunc\<close> on a block of \<open>n\<close> elements, and \<open>vecswap\<close>.\<close>

fun vecswap :: "nat \<Rightarrow> nat \<Rightarrow> nat \<Rightarrow> 'a list \<Rightarrow> 'a list" where
  "vecswap i j 0 xs = xs"
| "vecswap i j (Suc n) xs = vecswap (i + 1) (j + 1) n (swap_at i j xs)"

definition med3 :: "('a \<Rightarrow> 'a \<Rightarrow> int) \<Rightarrow> 'a list \<Rightarrow> nat \<Rightarrow> nat \<Rightarrow> nat \<Rightarrow> nat" where
  "med3 cmp xs a b c =
     (if cmp (xs ! a) (xs ! b) < 0 then
        (if cmp (xs ! b) (xs ! c) < 0 then b else if cmp (xs ! a) (xs ! c) < 0 then c else a)
      else
        (if cmp (xs ! b) (xs ! c) > 0 then b else if cmp (xs ! a) (xs ! c) < 0 then a else c))"

text \<open>The insertion sort: the inner loop moves one element down, the outer one takes each in turn.\<close>

function sift :: "('a \<Rightarrow> 'a \<Rightarrow> int) \<Rightarrow> nat \<Rightarrow> nat \<Rightarrow> 'a list \<Rightarrow> 'a list" where
  "sift cmp a pl xs =
     (if pl > a \<and> cmp (xs ! (pl - 1)) (xs ! pl) > 0 then sift cmp a (pl - 1) (swap_at pl (pl - 1) xs)
      else xs)"
  by pat_completeness auto
termination
  by (relation "measure (\<lambda>(cmp, a, pl, xs). pl)") auto

function insertion :: "('a \<Rightarrow> 'a \<Rightarrow> int) \<Rightarrow> nat \<Rightarrow> nat \<Rightarrow> nat \<Rightarrow> 'a list \<Rightarrow> 'a list" where
  "insertion cmp a e pm xs =
     (if pm < e then insertion cmp a e (pm + 1) (sift cmp a pm xs) else xs)"
  by pat_completeness auto
termination
  by (relation "measure (\<lambda>(cmp, a, e, pm, xs). e - pm)") auto

text \<open>The choice of the pivot: the middle, the median of three, or of three medians of three.\<close>

definition pivot :: "('a \<Rightarrow> 'a \<Rightarrow> int) \<Rightarrow> nat \<Rightarrow> nat \<Rightarrow> 'a list \<Rightarrow> nat" where
  "pivot cmp a n xs =
     (let pm = a + n div 2 in
      if n > 7 then
        (let pl = a; pn = a + (n - 1) in
         if n > 40 then
           (let d = n div 8;
                pl = med3 cmp xs pl (pl + d) (pl + 2 * d);
                pm = med3 cmp xs (pm - d) pm (pm + d);
                pn = med3 cmp xs (pn - 2 * d) (pn - d) pn
            in med3 cmp xs pl pm pn)
         else med3 cmp xs pl pm pn)
      else pm)"

text \<open>The two inner loops of the partition, with \<open>swap_cnt\<close>.  \<open>pb\<close> is above \<open>a\<close>, so the test
  \<open>pc > 0\<close>, which the code does not make, follows from \<open>pb \<le> pc\<close>.\<close>

function scan_up ::
  "('a \<Rightarrow> 'a \<Rightarrow> int) \<Rightarrow> nat \<Rightarrow> nat \<Rightarrow> nat \<Rightarrow> nat \<Rightarrow> bool \<Rightarrow> 'a list \<Rightarrow> nat \<times> nat \<times> bool \<times> 'a list" where
  "scan_up cmp a pc pa pb cnt xs =
     (if pb \<le> pc \<and> cmp (xs ! pb) (xs ! a) \<le> 0 then
        (if cmp (xs ! pb) (xs ! a) = 0 then scan_up cmp a pc (pa + 1) (pb + 1) True (swap_at pa pb xs)
         else scan_up cmp a pc pa (pb + 1) cnt xs)
      else (pa, pb, cnt, xs))"
  by pat_completeness auto
termination
  by (relation "measure (\<lambda>(cmp, a, pc, pa, pb, cnt, xs). Suc pc - pb)") auto

function scan_down ::
  "('a \<Rightarrow> 'a \<Rightarrow> int) \<Rightarrow> nat \<Rightarrow> nat \<Rightarrow> nat \<Rightarrow> nat \<Rightarrow> bool \<Rightarrow> 'a list \<Rightarrow> nat \<times> nat \<times> bool \<times> 'a list" where
  "scan_down cmp a pb pc pd cnt xs =
     (if pb \<le> pc \<and> pc > 0 \<and> cmp (xs ! pc) (xs ! a) \<ge> 0 then
        (if cmp (xs ! pc) (xs ! a) = 0 then scan_down cmp a pb (pc - 1) (pd - 1) True (swap_at pc pd xs)
         else scan_down cmp a pb (pc - 1) pd cnt xs)
      else (pc, pd, cnt, xs))"
  by pat_completeness auto
termination
  by (relation "measure (\<lambda>(cmp, a, pb, pc, pd, cnt, xs). pc)") auto

declare sift.simps [simp del] insertion.simps [simp del] scan_up.simps [simp del] scan_down.simps [simp del]

text \<open>The rules of the loops: what their bodies keep holds after them, with the exit condition.\<close>

lemma scan_up_rule:
  assumes "scan_up cmp a pc pa pb cnt xs = (pa', pb', cnt', xs')" "P pa pb cnt xs"
    "\<And>pa pb cnt xs. P pa pb cnt xs \<Longrightarrow> pb \<le> pc \<Longrightarrow> cmp (xs ! pb) (xs ! a) = 0
      \<Longrightarrow> P (pa + 1) (pb + 1) True (swap_at pa pb xs)"
    "\<And>pa pb cnt xs. P pa pb cnt xs \<Longrightarrow> pb \<le> pc \<Longrightarrow> cmp (xs ! pb) (xs ! a) < 0 \<Longrightarrow> P pa (pb + 1) cnt xs"
  shows "P pa' pb' cnt' xs' \<and> (pb' \<le> pc \<longrightarrow> 0 < cmp (xs' ! pb') (xs' ! a))"
  using assms
proof (induction cmp a pc pa pb cnt xs rule: scan_up.induct [case_names loop])
  case (loop cmp a pc pa pb cnt xs)
  consider "pb \<le> pc" "cmp (xs ! pb) (xs ! a) = 0" | "pb \<le> pc" "cmp (xs ! pb) (xs ! a) < 0"
    | "\<not> (pb \<le> pc \<and> cmp (xs ! pb) (xs ! a) \<le> 0)" by fastforce
  then show ?case
  proof cases
    case 1
    have "scan_up cmp a pc (pa + 1) (pb + 1) True (swap_at pa pb xs) = (pa', pb', cnt', xs')"
      using 1 loop.prems by (simp add: scan_up.simps [of cmp a pc pa pb cnt xs])
    then show ?thesis using 1 loop.prems by (intro loop.IH(1)) auto
  next
    case 2
    have "scan_up cmp a pc pa (pb + 1) cnt xs = (pa', pb', cnt', xs')"
      using 2 loop.prems by (simp add: scan_up.simps [of cmp a pc pa pb cnt xs])
    then show ?thesis using 2 loop.prems by (intro loop.IH(2)) auto
  next
    case 3
    then show ?thesis using loop.prems by (auto simp: scan_up.simps [of cmp a pc pa pb cnt xs])
  qed
qed

lemma scan_down_rule:
  assumes "scan_down cmp a pb pc pd cnt xs = (pc', pd', cnt', xs')" "P pc pd cnt xs" "0 < pb"
    "\<And>pc pd cnt xs. P pc pd cnt xs \<Longrightarrow> pb \<le> pc \<Longrightarrow> cmp (xs ! pc) (xs ! a) = 0
      \<Longrightarrow> P (pc - 1) (pd - 1) True (swap_at pc pd xs)"
    "\<And>pc pd cnt xs. P pc pd cnt xs \<Longrightarrow> pb \<le> pc \<Longrightarrow> 0 < cmp (xs ! pc) (xs ! a) \<Longrightarrow> P (pc - 1) pd cnt xs"
  shows "P pc' pd' cnt' xs' \<and> (pb \<le> pc' \<longrightarrow> cmp (xs' ! pc') (xs' ! a) < 0)"
  using assms
proof (induction cmp a pb pc pd cnt xs rule: scan_down.induct [case_names loop])
  case (loop cmp a pb pc pd cnt xs)
  consider "pb \<le> pc" "cmp (xs ! pc) (xs ! a) = 0" | "pb \<le> pc" "0 < cmp (xs ! pc) (xs ! a)"
    | "\<not> (pb \<le> pc \<and> cmp (xs ! pc) (xs ! a) \<ge> 0)" by fastforce
  then show ?case
  proof cases
    case 1
    have "scan_down cmp a pb (pc - 1) (pd - 1) True (swap_at pc pd xs) = (pc', pd', cnt', xs')"
      using 1 loop.prems by (simp add: scan_down.simps [of cmp a pb pc pd cnt xs])
    then show ?thesis using 1 loop.prems by (intro loop.IH(1)) auto
  next
    case 2
    have "scan_down cmp a pb (pc - 1) pd cnt xs = (pc', pd', cnt', xs')"
      using 2 loop.prems by (simp add: scan_down.simps [of cmp a pb pc pd cnt xs])
    then show ?thesis using 2 loop.prems by (intro loop.IH(2)) auto
  next
    case 3
    then show ?thesis using loop.prems by (auto simp: scan_down.simps [of cmp a pb pc pd cnt xs])
  qed
qed

lemma scan_up_bounds:
  assumes "scan_up cmp a pc pa pb cnt xs = (pa', pb', cnt', xs')"
  shows "pb \<le> pb'"
  using scan_up_rule [OF assms, of "\<lambda>_ q _ _. pb \<le> q"] by simp

lemma scan_down_bounds:
  assumes "scan_down cmp a pb pc pd cnt xs = (pc', pd', cnt', xs')"
  shows "pc' \<le> pc"
  using assms
proof (induction cmp a pb pc pd cnt xs rule: scan_down.induct [case_names loop])
  case (loop cmp a pb pc pd cnt xs)
  then show ?case by (auto simp: scan_down.simps [of cmp a pb pc pd cnt xs] split: if_splits)
qed

text \<open>The loop of the partition.\<close>

type_synonym 'a part = "nat \<times> nat \<times> nat \<times> nat \<times> bool \<times> 'a list"

function part_loop ::
  "('a \<Rightarrow> 'a \<Rightarrow> int) \<Rightarrow> nat \<Rightarrow> nat \<Rightarrow> nat \<Rightarrow> nat \<Rightarrow> nat \<Rightarrow> bool \<Rightarrow> 'a list \<Rightarrow> 'a part" where
  "part_loop cmp a pa pb pc pd cnt xs =
     (case scan_up cmp a pc pa pb cnt xs of (pa, pb, cnt, xs) \<Rightarrow>
      case scan_down cmp a pb pc pd cnt xs of (pc, pd, cnt, xs) \<Rightarrow>
      if pb > pc then (pa, pb, pc, pd, cnt, xs)
      else part_loop cmp a pa (pb + 1) (pc - 1) pd True (swap_at pb pc xs))"
  by pat_completeness auto
termination
  by (relation "measure (\<lambda>(cmp, a, pa, pb, pc, pd, cnt, xs). Suc pc - pb)")
     (fastforce dest!: scan_up_bounds [OF sym] scan_down_bounds [OF sym])+

declare part_loop.simps [simp del]

section \<open>Permutations of a part of the array\<close>

definition within :: "nat \<Rightarrow> nat \<Rightarrow> 'a list \<Rightarrow> 'a list \<Rightarrow> bool" where
  "within a e xs ys \<longleftrightarrow>
     length ys = length xs \<and> mset ys = mset xs \<and> (\<forall>k. k < a \<or> e \<le> k \<longrightarrow> ys ! k = xs ! k)"

lemma within_refl [simp, intro]: "within a e xs xs"
  by (simp add: within_def)

lemma within_trans [trans]: "within a e xs ys \<Longrightarrow> within a e ys zs \<Longrightarrow> within a e xs zs"
  by (simp add: within_def)

lemma within_wider: "within a e xs ys \<Longrightarrow> a' \<le> a \<Longrightarrow> e \<le> e' \<Longrightarrow> within a' e' xs ys"
  by (auto simp: within_def)

lemma within_length: "within a e xs ys \<Longrightarrow> length ys = length xs"
  by (simp add: within_def)

lemma within_outside: "within a e xs ys \<Longrightarrow> k < a \<or> e \<le> k \<Longrightarrow> ys ! k = xs ! k"
  by (auto simp: within_def)

lemma within_swap:
  assumes "a \<le> i" "i < e" "a \<le> j" "j < e" "e \<le> length xs"
  shows "within a e xs (swap_at i j xs)"
  using assms mset_swap [of j xs i] by (auto simp: within_def swap_at_def nth_list_update)

lemma swap_nth:
  "i < length xs \<Longrightarrow> j < length xs \<Longrightarrow>
    swap_at i j xs ! k = (if k = i then xs ! j else if k = j then xs ! i else xs ! k)"
  by (auto simp: swap_at_def nth_list_update)

lemma swap_other: "k \<noteq> i \<Longrightarrow> k \<noteq> j \<Longrightarrow> swap_at i j xs ! k = xs ! k"
  by (simp add: swap_at_def)

lemma length_swap [simp]: "length (swap_at i j xs) = length xs"
  by (simp add: swap_at_def)

text \<open>The values in the part are the same before and after.\<close>

lemma within_values:
  assumes "within a e xs ys" "a \<le> e" "e \<le> length xs"
  shows "set (take (e - a) (drop a ys)) = set (take (e - a) (drop a xs))"
proof -
  have split: "zs = take a zs @ take (e - a) (drop a zs) @ drop e zs" for zs :: "'a list"
    using assms(2) by (metis append.assoc append_take_drop_id le_add_diff_inverse take_add)
  have "take a ys = take a xs" "drop e ys = drop e xs"
    using assms by (auto simp: within_def intro: nth_equalityI)
  moreover have "mset (take a xs @ take (e - a) (drop a xs) @ drop e xs)
      = mset (take a ys @ take (e - a) (drop a ys) @ drop e ys)"
    using assms(1) split by (metis within_def)
  ultimately have "mset (take (e - a) (drop a ys)) = mset (take (e - a) (drop a xs))" by simp
  then show ?thesis by (rule mset_eq_setD)
qed

lemma part_all:
  assumes "e \<le> length xs"
  shows "(\<forall>x \<in> set (take (e - a) (drop a xs)). Q x) \<longleftrightarrow> (\<forall>k. a \<le> k \<longrightarrow> k < e \<longrightarrow> Q (xs ! k))"
proof -
  have "(\<forall>x \<in> set (take (e - a) (drop a xs)). Q x) \<longleftrightarrow> (\<forall>i < e - a. Q (xs ! (a + i)))"
    using assms by (auto simp: all_set_conv_all_nth)
  also have "\<dots> \<longleftrightarrow> (\<forall>k. a \<le> k \<longrightarrow> k < e \<longrightarrow> Q (xs ! k))"
  proof safe
    fix k assume *: "\<forall>i < e - a. Q (xs ! (a + i))" "a \<le> k" "k < e"
    show "Q (xs ! k)" using *(1) [rule_format, of "k - a"] *(2,3) by simp
  next
    fix i assume "\<forall>k \<ge> a. k < e \<longrightarrow> Q (xs ! k)" "i < e - a"
    then show "Q (xs ! (a + i))" by simp
  qed
  finally show ?thesis .
qed

lemma within_all:
  assumes "within a e xs ys" "a \<le> e" "e \<le> length xs" "\<And>k. a \<le> k \<Longrightarrow> k < e \<Longrightarrow> Q (xs ! k)"
    "a \<le> k" "k < e"
  shows "Q (ys ! k)"
proof -
  have "\<forall>x \<in> set (take (e - a) (drop a ys)). Q x"
    using assms(4) part_all [OF assms(3), of a Q] within_values [OF assms(1-3)] by simp
  then show ?thesis using part_all [of e ys a Q] assms within_length [OF assms(1)] by auto
qed

section \<open>The partition\<close>

text \<open>
  Between the turns: the elements equal to the pivot are at both ends, then those below and above
  it, and what has not been looked at lies from \<open>pb\<close> to \<open>pc\<close>.
\<close>

definition part_inv ::
  "('a \<Rightarrow> 'a \<Rightarrow> int) \<Rightarrow> nat \<Rightarrow> nat \<Rightarrow> 'a list \<Rightarrow> nat \<Rightarrow> nat \<Rightarrow> nat \<Rightarrow> nat \<Rightarrow> 'a list \<Rightarrow> bool" where
  "part_inv cmp a e xs0 pa pb pc pd xs \<longleftrightarrow>
     a < pa \<and> pa \<le> pb \<and> pb \<le> Suc pc \<and> pc \<le> pd \<and> pd < e \<and> e \<le> length xs \<and> within a e xs0 xs
     \<and> (\<forall>k. a < k \<longrightarrow> k < pa \<longrightarrow> cmp (xs ! k) (xs ! a) = 0)
     \<and> (\<forall>k. pa \<le> k \<longrightarrow> k < pb \<longrightarrow> cmp (xs ! k) (xs ! a) < 0)
     \<and> (\<forall>k. pc < k \<longrightarrow> k \<le> pd \<longrightarrow> 0 < cmp (xs ! k) (xs ! a))
     \<and> (\<forall>k. pd < k \<longrightarrow> k < e \<longrightarrow> cmp (xs ! k) (xs ! a) = 0)"

lemma part_inv_up_eq:
  assumes "part_inv cmp a e xs0 pa pb pc pd xs" "pb \<le> pc" "cmp (xs ! pb) (xs ! a) = 0"
  shows "part_inv cmp a e xs0 (pa + 1) (pb + 1) pc pd (swap_at pa pb xs)"
proof -
  have b: "a < pa" "pa \<le> pb" "pb < length xs" "pa < length xs" "a \<noteq> pa" "a \<noteq> pb" "pb < e" "e \<le> length xs"
    using assms by (auto simp: part_inv_def)
  have "within a e xs (swap_at pa pb xs)" using b by (intro within_swap) auto
  then have "within a e xs0 (swap_at pa pb xs)" using assms(1) by (auto simp: part_inv_def intro: within_trans)
  then show ?thesis using assms b by (auto simp: part_inv_def swap_nth less_Suc_eq)
qed

lemma part_inv_up_less:
  assumes "part_inv cmp a e xs0 pa pb pc pd xs" "pb \<le> pc" "cmp (xs ! pb) (xs ! a) < 0"
  shows "part_inv cmp a e xs0 pa (pb + 1) pc pd xs"
  using assms by (auto simp: part_inv_def less_Suc_eq)

lemma part_inv_down_eq:
  assumes "part_inv cmp a e xs0 pa pb pc pd xs" "pb \<le> pc" "cmp (xs ! pc) (xs ! a) = 0"
  shows "part_inv cmp a e xs0 pa pb (pc - 1) (pd - 1) (swap_at pc pd xs)"
proof -
  have b: "a < pc" "pc \<le> pd" "pd < length xs" "pc < length xs" "a \<noteq> pd" "a \<noteq> pc" "pd < e" "e \<le> length xs"
    using assms by (auto simp: part_inv_def)
  have "within a e xs (swap_at pc pd xs)" using b by (intro within_swap) auto
  then have "within a e xs0 (swap_at pc pd xs)" using assms(1) by (auto simp: part_inv_def intro: within_trans)
  moreover have "k = pd \<or> pd < k" if "pd - 1 < k" for k using that by auto
  ultimately show ?thesis using assms b by (fastforce simp: part_inv_def swap_nth)
qed

lemma part_inv_down_greater:
  assumes "part_inv cmp a e xs0 pa pb pc pd xs" "pb \<le> pc" "0 < cmp (xs ! pc) (xs ! a)"
  shows "part_inv cmp a e xs0 pa pb (pc - 1) pd xs"
proof -
  have "k = pc \<or> pc < k" if "pc - 1 < k" for k using that by auto
  then show ?thesis using assms by (fastforce simp: part_inv_def)
qed

lemma part_inv_swap:
  assumes "part_inv cmp a e xs0 pa pb pc pd xs" "pb < pc" "0 < cmp (xs ! pb) (xs ! a)" "cmp (xs ! pc) (xs ! a) < 0"
  shows "part_inv cmp a e xs0 pa (pb + 1) (pc - 1) pd (swap_at pb pc xs)"
proof -
  have b: "a < pb" "pc < length xs" "pb < length xs" "a \<noteq> pb" "a \<noteq> pc" "pc < e" "e \<le> length xs"
    using assms by (auto simp: part_inv_def)
  have "within a e xs (swap_at pb pc xs)" using b assms(2) by (intro within_swap) auto
  then have "within a e xs0 (swap_at pb pc xs)" using assms(1) by (auto simp: part_inv_def intro: within_trans)
  moreover have "k = pc \<or> pc < k" if "pc - 1 < k" for k using that by auto
  ultimately show ?thesis using assms b by (fastforce simp: part_inv_def swap_nth less_Suc_eq)
qed

lemma part_loop_rule:
  assumes "part_loop cmp a pa pb pc pd cnt xs = (pa', pb', pc', pd', cnt', xs')"
    "part_inv cmp a e xs0 pa pb pc pd xs"
  shows "part_inv cmp a e xs0 pa' pb' pc' pd' xs' \<and> pc' < pb'"
  using assms
proof (induction cmp a pa pb pc pd cnt xs rule: part_loop.induct [case_names loop])
  case (loop cmp a pa pb pc pd cnt xs)
  obtain pa1 pb1 cnt1 xs1 where up: "scan_up cmp a pc pa pb cnt xs = (pa1, pb1, cnt1, xs1)"
    by (metis prod_cases4)
  obtain pc1 pd1 cnt2 xs2 where down: "scan_down cmp a pb1 pc pd cnt1 xs1 = (pc1, pd1, cnt2, xs2)"
    by (metis prod_cases4)
  have inv1: "part_inv cmp a e xs0 pa1 pb1 pc pd xs1 \<and> (pb1 \<le> pc \<longrightarrow> 0 < cmp (xs1 ! pb1) (xs1 ! a))"
    by (rule scan_up_rule [OF up, of "\<lambda>pa pb _ xs. part_inv cmp a e xs0 pa pb pc pd xs"])
       (use loop.prems part_inv_up_eq part_inv_up_less in blast)+
  let ?P = "\<lambda>pc pd _ xs. part_inv cmp a e xs0 pa1 pb1 pc pd xs \<and>
    (pb1 \<le> pc \<longrightarrow> 0 < cmp (xs ! pb1) (xs ! a))"
  have keep: "swap_at pc pd xs ! pb1 = xs ! pb1 \<and> swap_at pc pd xs ! a = xs ! a"
    if "part_inv cmp a e xs0 pa1 pb1 pc pd xs" "pb1 \<le> pc - 1" "pb1 \<le> pc" for pc pd xs
  proof -
    have "0 < pb1" "pb1 < pc" "pb1 < pd" "a < pb1" "pd < length xs"
      using that by (auto simp: part_inv_def)
    then show ?thesis by (simp add: swap_other)
  qed
  have "?P pc1 pd1 cnt2 xs2 \<and> (pb1 \<le> pc1 \<longrightarrow> cmp (xs2 ! pc1) (xs2 ! a) < 0)"
  proof (rule scan_down_rule [OF down, of ?P])
    show "?P pc pd cnt1 xs1" using inv1 .
    show "0 < pb1" using inv1 by (auto simp: part_inv_def)
  next
    fix pc pd cnt xs
    assume *: "?P pc pd cnt xs" "pb1 \<le> pc" "cmp (xs ! pc) (xs ! a) = 0"
    then show "?P (pc - 1) (pd - 1) True (swap_at pc pd xs)"
      using part_inv_down_eq [of cmp a e xs0 pa1 pb1 pc pd xs] keep [of pc pd xs] by simp
  next
    fix pc pd cnt xs
    assume *: "?P pc pd cnt xs" "pb1 \<le> pc" "0 < cmp (xs ! pc) (xs ! a)"
    then show "?P (pc - 1) pd cnt xs"
      using part_inv_down_greater [of cmp a e xs0 pa1 pb1 pc pd xs] by simp
  qed
  then have inv2: "part_inv cmp a e xs0 pa1 pb1 pc1 pd1 xs2"
    "pb1 \<le> pc1 \<Longrightarrow> 0 < cmp (xs2 ! pb1) (xs2 ! a)" "pb1 \<le> pc1 \<Longrightarrow> cmp (xs2 ! pc1) (xs2 ! a) < 0" by auto
  show ?case
  proof (cases "pb1 > pc1")
    case True
    then show ?thesis using loop.prems(1) inv2(1) up down by (simp add: part_loop.simps [of cmp a pa])
  next
    case False
    then have "pb1 \<noteq> pc1" using inv2(2,3) by force
    then have "part_inv cmp a e xs0 pa1 (pb1 + 1) (pc1 - 1) pd1 (swap_at pb1 pc1 xs2)"
      using part_inv_swap [OF inv2(1)] inv2(2,3) False by auto
    moreover have "part_loop cmp a pa1 (pb1 + 1) (pc1 - 1) pd1 True (swap_at pb1 pc1 xs2)
        = (pa', pb', pc', pd', cnt', xs')"
      using loop.prems(1) up down False by (simp add: part_loop.simps [of cmp a pa])
    ultimately show ?thesis using loop.IH [OF up [symmetric] refl refl down [symmetric] refl refl False] by blast
  qed
qed

section \<open>qsort_r\<close>

text \<open>The bounds alone, which hold for any array, make the recursion end.\<close>

definition part_bounds :: "nat \<Rightarrow> nat \<Rightarrow> nat \<Rightarrow> nat \<Rightarrow> nat \<Rightarrow> nat \<Rightarrow> bool" where
  "part_bounds a e pa pb pc pd \<longleftrightarrow> a < pa \<and> pa \<le> pb \<and> pb \<le> e \<and> a \<le> pc \<and> pc \<le> pd \<and> pd < e"

lemma part_loop_bounds:
  assumes "part_loop cmp a pa pb pc pd cnt xs = (pa', pb', pc', pd', cnt', xs')" "part_bounds a e pa pb pc pd"
  shows "part_bounds a e pa' pb' pc' pd'"
  using assms
proof (induction cmp a pa pb pc pd cnt xs rule: part_loop.induct [case_names loop])
  case (loop cmp a pa pb pc pd cnt xs)
  obtain pa1 pb1 cnt1 xs1 where up: "scan_up cmp a pc pa pb cnt xs = (pa1, pb1, cnt1, xs1)"
    by (metis prod_cases4)
  obtain pc1 pd1 cnt2 xs2 where down: "scan_down cmp a pb1 pc pd cnt1 xs1 = (pc1, pd1, cnt2, xs2)"
    by (metis prod_cases4)
  have 1: "part_bounds a e pa1 pb1 pc pd"
    using scan_up_rule [OF up, of "\<lambda>pa pb _ _. part_bounds a e pa pb pc pd"] loop.prems(2)
    by (auto simp: part_bounds_def)
  have 2: "part_bounds a e pa1 pb1 pc1 pd1"
    by (rule scan_down_rule [OF down, of "\<lambda>pc pd _ _. part_bounds a e pa1 pb1 pc pd", THEN conjunct1])
       (use 1 in \<open>auto simp: part_bounds_def\<close>)
  show ?case
  proof (cases "pb1 > pc1")
    case True
    then show ?thesis using loop.prems(1) 2 up down by (simp add: part_loop.simps [of cmp a pa])
  next
    case False
    then have "part_bounds a e pa1 (pb1 + 1) (pc1 - 1) pd1" using 2 by (auto simp: part_bounds_def)
    moreover have "part_loop cmp a pa1 (pb1 + 1) (pc1 - 1) pd1 True (swap_at pb1 pc1 xs2)
        = (pa', pb', pc', pd', cnt', xs')"
      using loop.prems(1) up down False by (simp add: part_loop.simps [of cmp a pa])
    ultimately show ?thesis using loop.IH [OF up [symmetric] refl refl down [symmetric] refl refl False] by blast
  qed
qed

lemma part_smaller:
  assumes "(pa, pb, pc, pd, cnt', xs') = part_loop cmp a (a + 1) (a + 1) (a + n - 1) (a + n - 1) cnt xs" "\<not> n < 7"
  shows "pb - pa < n" "pd - pc < n"
proof -
  have "part_bounds a (a + n) (a + 1) (a + 1) (a + n - 1) (a + n - 1)" using assms(2) by (auto simp: part_bounds_def)
  from part_loop_bounds [OF assms(1) [symmetric] this] show "pb - pa < n" "pd - pc < n"
    by (auto simp: part_bounds_def)
qed

function qsort_r :: "('a \<Rightarrow> 'a \<Rightarrow> int) \<Rightarrow> nat \<Rightarrow> nat \<Rightarrow> 'a list \<Rightarrow> 'a list" where
  "qsort_r cmp a n xs =
     (if n < 7 then insertion cmp a (a + n) (a + 1) xs
      else
        (case part_loop cmp a (a + 1) (a + 1) (a + n - 1) (a + n - 1) False
                (swap_at a (pivot cmp a n xs) xs) of
           (pa, pb, pc, pd, swap_cnt, xs) \<Rightarrow>
             if \<not> swap_cnt then insertion cmp a (a + n) (a + 1) xs
             else
               (let pn = a + n;
                    r = min (pa - a) (pb - pa);
                    xs = vecswap a (pb - r) r xs;
                    r = min (pd - pc) (pn - pd - 1);
                    xs = vecswap pb (pn - r) r xs;
                    xs = (if pb - pa > 1 then qsort_r cmp a (pb - pa) xs else xs)
                in if pd - pc > 1 then qsort_r cmp (pn - (pd - pc)) (pd - pc) xs else xs)))"
  by pat_completeness auto
termination
  by (relation "measure (\<lambda>(cmp, a, n, xs). n)") (auto dest: part_smaller [simplified])

declare qsort_r.simps [simp del]

end
