(* ===== verification/Qsort_Correct.thy ===== *)
theory Qsort_Correct
  imports Qsort
begin

text \<open>
  \<open>qsort_r\<close> sorts: whatever the comparison function, it permutes the part of the array it is given
  and leaves the rest alone; when the comparison function is consistent, that part ends up in order.
\<close>

section \<open>Order\<close>

definition comparator :: "('a \<Rightarrow> 'a \<Rightarrow> int) \<Rightarrow> bool" where
  "comparator cmp \<longleftrightarrow> (\<forall>x y. cmp x y < 0 \<longleftrightarrow> 0 < cmp y x)
     \<and> (\<forall>x y z. cmp x y \<le> 0 \<longrightarrow> cmp y z \<le> 0 \<longrightarrow> cmp x z \<le> 0)"

definition sorted_on :: "('a \<Rightarrow> 'a \<Rightarrow> int) \<Rightarrow> nat \<Rightarrow> nat \<Rightarrow> 'a list \<Rightarrow> bool" where
  "sorted_on cmp a e xs \<longleftrightarrow> (\<forall>i j. a \<le> i \<longrightarrow> i < j \<longrightarrow> j < e \<longrightarrow> cmp (xs ! i) (xs ! j) \<le> 0)"

lemma comparator_sym: "comparator cmp \<Longrightarrow> cmp x y \<le> 0 \<longleftrightarrow> 0 \<le> cmp y x"
  unfolding comparator_def by (meson not_le)

lemma comparator_refl: "comparator cmp \<Longrightarrow> cmp x x = 0"
  unfolding comparator_def by (metis less_asym not_less_iff_gr_or_eq)

lemma comparator_trans: "comparator cmp \<Longrightarrow> cmp x y \<le> 0 \<Longrightarrow> cmp y z \<le> 0 \<Longrightarrow> cmp x z \<le> 0"
  unfolding comparator_def by blast

lemma sorted_on_small: "e \<le> Suc a \<Longrightarrow> sorted_on cmp a e xs"
  by (auto simp: sorted_on_def)

lemma sorted_on_cong:
  assumes "\<And>k. a \<le> k \<Longrightarrow> k < e \<Longrightarrow> ys ! k = xs ! k"
  shows "sorted_on cmp a e ys = sorted_on cmp a e xs"
  using assms by (auto simp: sorted_on_def)

lemma sorted_on_join:
  assumes "sorted_on cmp a m xs" "sorted_on cmp m e xs"
    "\<And>i j. a \<le> i \<Longrightarrow> i < m \<Longrightarrow> m \<le> j \<Longrightarrow> j < e \<Longrightarrow> cmp (xs ! i) (xs ! j) \<le> 0"
  shows "sorted_on cmp a e xs"
  unfolding sorted_on_def
proof (intro allI impI)
  fix i j assume "a \<le> i" "i < j" "j < e"
  then consider "j < m" | "i < m" "m \<le> j" | "m \<le> i" by linarith
  then show "cmp (xs ! i) (xs ! j) \<le> 0"
    using assms \<open>a \<le> i\<close> \<open>i < j\<close> \<open>j < e\<close> by cases (auto simp: sorted_on_def)
qed

section \<open>The insertion sort\<close>

lemma sift_stop: "\<not> (pl > a \<and> cmp (xs ! (pl - 1)) (xs ! pl) > 0) \<Longrightarrow> sift cmp a pl xs = xs"
  by (subst sift.simps) (rule if_not_P)

lemma insertion_stop: "\<not> pm < e \<Longrightarrow> insertion cmp a e pm xs = xs"
  by (subst insertion.simps) simp

lemma sift_within:
  "a \<le> pl \<Longrightarrow> pl < e \<Longrightarrow> e \<le> length xs \<Longrightarrow> within a e xs (sift cmp a pl xs)"
proof (induction cmp a pl xs rule: sift.induct [case_names loop])
  case (loop cmp a pl xs)
  show ?case
  proof (cases "pl > a \<and> cmp (xs ! (pl - 1)) (xs ! pl) > 0")
    case True
    then have "within a e xs (swap_at pl (pl - 1) xs)" using loop.prems by (intro within_swap) auto
    also have "within a e (swap_at pl (pl - 1) xs) (sift cmp a (pl - 1) (swap_at pl (pl - 1) xs))"
      using True loop.prems by (intro loop.IH) auto
    finally show ?thesis using True by (simp add: sift.simps [of cmp a pl xs])
  next
    case False
    show ?thesis using sift_stop [where cmp = cmp and a = a and pl = pl and xs = xs, OF False] by simp
  qed
qed

text \<open>While an element moves down, the others up to \<open>pm\<close> are in order and it is below those it passed.\<close>

lemma sift_sorted:
  assumes "comparator cmp" "a \<le> pl" "pl \<le> pm" "pm < length xs"
    "\<And>i j. a \<le> i \<Longrightarrow> i < j \<Longrightarrow> j \<le> pm \<Longrightarrow> j \<noteq> pl \<Longrightarrow> cmp (xs ! i) (xs ! j) \<le> 0"
  shows "sorted_on cmp a (Suc pm) (sift cmp a pl xs)"
  using assms
proof (induction cmp a pl xs rule: sift.induct [case_names loop])
  case (loop cmp a pl xs)
  show ?case
  proof (cases "pl > a \<and> cmp (xs ! (pl - 1)) (xs ! pl) > 0")
    case True
    let ?ys = "swap_at pl (pl - 1) xs"
    have y: "?ys ! k = (if k = pl then xs ! (pl - 1) else if k = pl - 1 then xs ! pl else xs ! k)" for k
      using True loop.prems by (subst swap_nth) auto
    have "sorted_on cmp a (Suc pm) (sift cmp a (pl - 1) ?ys)"
    proof (rule loop.IH [OF True loop.prems(1)])
      fix i j assume ij: "a \<le> i" "i < j" "j \<le> pm" "j \<noteq> pl - 1"
      have "cmp (xs ! pl) (xs ! (pl - 1)) \<le> 0" using True comparator_sym [OF loop.prems(1)] by fastforce
      moreover have "cmp (xs ! i) (xs ! (pl - 1)) \<le> 0" if "i < pl - 1" using that ij True loop.prems by auto
      moreover have "cmp (xs ! pl) (xs ! j) \<le> 0" "cmp (xs ! (pl - 1)) (xs ! j) \<le> 0" if "pl < j"
        using that ij True loop.prems by auto
      moreover have "cmp (xs ! i) (xs ! j) \<le> 0" if "j \<noteq> pl" using that ij loop.prems by auto
      ultimately show "cmp (?ys ! i) (?ys ! j) \<le> 0" using ij y True by (auto split: if_splits)
    qed (use True loop.prems in auto)
    then show ?thesis using True by (simp add: sift.simps [of cmp a pl xs])
  next
    case False
    have "cmp (xs ! i) (xs ! j) \<le> 0" if ij: "a \<le> i" "i < j" "j < Suc pm" for i j
    proof (cases "j = pl")
      case True
      then have "cmp (xs ! (pl - 1)) (xs ! pl) \<le> 0" using False that by auto
      moreover have "i = pl - 1 \<or> i < pl - 1" using True that by linarith
      then have "i = pl - 1 \<or> cmp (xs ! i) (xs ! (pl - 1)) \<le> 0"
        using True that loop.prems(3) loop.prems(5) [of i "pl - 1"] by linarith
      ultimately show ?thesis using True comparator_trans [OF loop.prems(1)] by blast
    qed (use that loop.prems in auto)
    then show ?thesis unfolding sift_stop [where cmp = cmp and a = a and pl = pl and xs = xs, OF False] by (auto simp: sorted_on_def)
  qed
qed

lemma insertion_within:
  "a \<le> pm \<Longrightarrow> e \<le> length xs \<Longrightarrow> within a e xs (insertion cmp a e pm xs)"
proof (induction cmp a e pm xs rule: insertion.induct [case_names loop])
  case (loop cmp a e pm xs)
  show ?case
  proof (cases "pm < e")
    case True
    then have *: "within a e xs (sift cmp a pm xs)" using loop.prems by (intro sift_within) auto
    also have "within a e (sift cmp a pm xs) (insertion cmp a e (pm + 1) (sift cmp a pm xs))"
      using True loop.prems within_length [OF *] by (intro loop.IH) auto
    finally show ?thesis using True by (simp add: insertion.simps [of cmp a e pm xs])
  qed (simp add: insertion_stop)
qed

lemma insertion_sorted:
  assumes "comparator cmp" "a \<le> pm" "pm \<le> e" "e \<le> length xs" "sorted_on cmp a pm xs"
  shows "sorted_on cmp a e (insertion cmp a e pm xs)"
  using assms
proof (induction cmp a e pm xs rule: insertion.induct [case_names loop])
  case (loop cmp a e pm xs)
  show ?case
  proof (cases "pm < e")
    case True
    then have *: "within a e xs (sift cmp a pm xs)" using loop.prems by (intro sift_within) auto
    have "sorted_on cmp a (Suc pm) (sift cmp a pm xs)"
      using True loop.prems by (intro sift_sorted) (auto simp: sorted_on_def)
    then have "sorted_on cmp a e (insertion cmp a e (pm + 1) (sift cmp a pm xs))"
      using True loop.prems within_length [OF *] by (intro loop.IH) auto
    then show ?thesis using True by (simp add: insertion.simps [of cmp a e pm xs])
  qed (use loop.prems in \<open>simp add: insertion_stop\<close>)
qed

section \<open>Exchanging blocks\<close>

lemma vecswap_nth:
  "i + n \<le> j \<Longrightarrow> j + n \<le> length xs \<Longrightarrow> vecswap i j n xs ! k =
    (if i \<le> k \<and> k < i + n then xs ! (j + (k - i)) else if j \<le> k \<and> k < j + n then xs ! (i + (k - j)) else xs ! k)"
proof (induction i j n xs rule: vecswap.induct)
  case (2 i j n xs)
  have "vecswap (i + 1) (j + 1) n (swap_at i j xs) ! k =
      (if i + 1 \<le> k \<and> k < i + 1 + n then swap_at i j xs ! (j + 1 + (k - (i + 1)))
       else if j + 1 \<le> k \<and> k < j + 1 + n then swap_at i j xs ! (i + 1 + (k - (j + 1))) else swap_at i j xs ! k)"
    using 2 by (intro "2.IH") auto
  moreover consider "i < k" "k < i + Suc n" | "k = i" | "j < k" "k < j + Suc n" | "k = j"
    | "k < i \<or> i + Suc n \<le> k \<and> k < j \<or> j + Suc n \<le> k" by linarith
  then have "(if i + 1 \<le> k \<and> k < i + 1 + n then swap_at i j xs ! (j + 1 + (k - (i + 1)))
       else if j + 1 \<le> k \<and> k < j + 1 + n then swap_at i j xs ! (i + 1 + (k - (j + 1))) else swap_at i j xs ! k)
     = (if i \<le> k \<and> k < i + Suc n then xs ! (j + (k - i)) else if j \<le> k \<and> k < j + Suc n then xs ! (i + (k - j)) else xs ! k)"
  proof cases
    case 1
    then have "j + 1 + (k - (i + 1)) = j + (k - i)" by simp
    then show ?thesis using 1 "2.prems" by (simp add: swap_other)
  next
    case 3
    then have "i + 1 + (k - (j + 1)) = i + (k - j)" by simp
    then show ?thesis using 3 "2.prems" by (simp add: swap_other)
  qed (use "2.prems" in \<open>auto simp: swap_nth\<close>)
  ultimately show ?case by simp
qed auto

lemma vecswap_within:
  "a \<le> i \<Longrightarrow> i + n \<le> j \<Longrightarrow> j + n \<le> e \<Longrightarrow> e \<le> length xs \<Longrightarrow> within a e xs (vecswap i j n xs)"
proof (induction i j n xs rule: vecswap.induct)
  case (2 i j n xs)
  have "within a e xs (swap_at i j xs)" using "2.prems" by (intro within_swap) auto
  also have "within a e (swap_at i j xs) (vecswap (i + 1) (j + 1) n (swap_at i j xs))"
    using "2.prems" by (intro "2.IH") auto
  finally show ?case by simp
qed simp

lemma exchange:
  assumes "i \<le> m" "m \<le> e" "e \<le> length xs" "\<And>k. i \<le> k \<Longrightarrow> k < m \<Longrightarrow> P (xs ! k)" "\<And>k. m \<le> k \<Longrightarrow> k < e \<Longrightarrow> Q (xs ! k)"
    "r = min (m - i) (e - m)" "i \<le> k" "k < e"
  shows "if k < i + (e - m) then Q (vecswap i (e - r) r xs ! k) else P (vecswap i (e - r) r xs ! k)"
proof -
  have r: "i + r \<le> e - r" "e - r + r \<le> length xs" "r \<le> m - i" "r \<le> e - m" "r = m - i \<or> r = e - m"
    using assms(1-3,6) by (auto simp: min_def)
  show ?thesis using assms(1-5,7,8) r(3-5) by (auto simp: vecswap_nth [OF r(1,2)])
qed

section \<open>The pivot\<close>

lemma med3_cases: "med3 cmp xs x y z \<in> {x, y, z}"
  by (simp add: med3_def)

lemma med3_bounds:
  assumes "a \<le> x" "x < e" "a \<le> y" "y < e" "a \<le> z" "z < e"
  shows "a \<le> med3 cmp xs x y z \<and> med3 cmp xs x y z < e"
  using med3_cases [of cmp xs x y z] assms by auto

lemma pivot_bounds:
  assumes "7 \<le> n"
  shows "a \<le> pivot cmp a n xs \<and> pivot cmp a n xs < a + n"
proof -
  define d h where "d = n div 8" and "h = n div 2"
  have "8 * d \<le> n" "2 * h \<le> n" "n < 2 * h + 2" unfolding d_def h_def by simp_all
  then have b: "2 * d < n" "d \<le> h" "h + d < n" "2 * d \<le> n - 1" "d \<le> n - 1" "h < n" "0 < n" using assms by linarith+
  have m: "a \<le> med3 cmp xs x y z \<and> med3 cmp xs x y z < a + n"
    if "a \<le> x" "x < a + n" "a \<le> y" "y < a + n" "a \<le> z" "z < a + n" for x y z
    using that by (rule med3_bounds)
  have "a \<le> med3 cmp xs a (a + d) (a + 2 * d) \<and> med3 cmp xs a (a + d) (a + 2 * d) < a + n"
    by (rule m) (use b in auto)
  moreover have "a \<le> med3 cmp xs (a + h - d) (a + h) (a + h + d) \<and> med3 cmp xs (a + h - d) (a + h) (a + h + d) < a + n"
    by (rule m) (use b in auto)
  moreover have "a \<le> med3 cmp xs (a + (n - 1) - 2 * d) (a + (n - 1) - d) (a + (n - 1))
      \<and> med3 cmp xs (a + (n - 1) - 2 * d) (a + (n - 1) - d) (a + (n - 1)) < a + n"
    by (rule m) (use b in auto)
  moreover have "a \<le> med3 cmp xs a (a + h) (a + (n - 1)) \<and> med3 cmp xs a (a + h) (a + (n - 1)) < a + n"
    by (rule m) (use b in auto)
  ultimately show ?thesis using m b unfolding pivot_def Let_def d_def [symmetric] h_def [symmetric] by simp
qed

section \<open>qsort_r\<close>

text \<open>The state after the partition and the two exchanges.\<close>

lemma partition_done:
  assumes n: "7 \<le> n" "a + n \<le> length xs"
    and part: "part_loop cmp a (a + 1) (a + 1) (a + n - 1) (a + n - 1) False (swap_at a (pivot cmp a n xs) xs)
      = (pa, pb, pc, pd, cnt, ys)"
    and zs: "zs = vecswap pb (a + n - min (pd - pc) (a + n - pd - 1)) (min (pd - pc) (a + n - pd - 1))
      (vecswap a (pb - min (pa - a) (pb - pa)) (min (pa - a) (pb - pa)) ys)"
  shows "within a (a + n) xs ys" "within a (a + n) xs zs" "a \<le> pb" "pb - pa < n" "pd - pc < n"
    "pb - pa + (pd - pc) < n"
    "\<And>k. \<forall>x. cmp x x = 0 \<Longrightarrow> a \<le> k \<Longrightarrow> k < a + (pb - pa) \<Longrightarrow> cmp (zs ! k) (ys ! a) < 0"
    "\<And>k. \<forall>x. cmp x x = 0 \<Longrightarrow> a + (pb - pa) \<le> k \<Longrightarrow> k < a + n - (pd - pc) \<Longrightarrow> cmp (zs ! k) (ys ! a) = 0"
    "\<And>k. a + n - (pd - pc) \<le> k \<Longrightarrow> k < a + n \<Longrightarrow> 0 < cmp (zs ! k) (ys ! a)"
proof -
  let ?xs = "swap_at a (pivot cmp a n xs) xs" and ?e = "a + n"
  have start: "within a ?e xs ?xs" using pivot_bounds [OF n(1), of a cmp xs] n by (intro within_swap) auto
  have "part_inv cmp a ?e ?xs (a + 1) (a + 1) (?e - 1) (?e - 1) ?xs" using n by (auto simp: part_inv_def)
  from part_loop_rule [OF part this] have inv: "part_inv cmp a ?e ?xs pa pb pc pd ys" "pc < pb" by auto
  have b: "a < pa" "pa \<le> pb" "pb = Suc pc" "pc \<le> pd" "pd < ?e" "?e \<le> length ys" "within a ?e ?xs ys"
    and v: "\<And>k. a < k \<Longrightarrow> k < pa \<Longrightarrow> cmp (ys ! k) (ys ! a) = 0" "\<And>k. pa \<le> k \<Longrightarrow> k < pb \<Longrightarrow> cmp (ys ! k) (ys ! a) < 0"
      "\<And>k. pc < k \<Longrightarrow> k \<le> pd \<Longrightarrow> 0 < cmp (ys ! k) (ys ! a)" "\<And>k. pd < k \<Longrightarrow> k < ?e \<Longrightarrow> cmp (ys ! k) (ys ! a) = 0"
    using inv by (auto simp: part_inv_def)
  show ys: "within a ?e xs ys" using start b(7) by (rule within_trans)
  show "a \<le> pb" "pb - pa < n" "pd - pc < n" "pb - pa + (pd - pc) < n" using b by auto
  define us where "us = vecswap a (pb - min (pa - a) (pb - pa)) (min (pa - a) (pb - pa)) ys"
  have w1: "within a pb ys us" unfolding us_def using b by (intro vecswap_within) (auto simp: min_def)
  have w2: "within pb ?e us zs"
    unfolding zs us_def [symmetric] using b within_length [OF w1] by (intro vecswap_within) (auto simp: min_def)
  show "within a ?e xs zs"
  proof (rule within_trans [OF within_trans [OF ys]])
    show "within a ?e ys us" using b by (intro within_wider [OF w1]) auto
    show "within a ?e us zs" using b by (intro within_wider [OF w2]) auto
  qed
  have us: "if k < a + (pb - pa) then cmp (us ! k) (ys ! a) < 0 else cmp (us ! k) (ys ! a) = 0"
    if "\<forall>x. cmp x x = 0" "a \<le> k" "k < pb" for k
    unfolding us_def
    by (rule exchange [of a pa pb ys "\<lambda>x. cmp x (ys ! a) = 0" "\<lambda>x. cmp x (ys ! a) < 0"])
       (use b v that in \<open>auto simp: le_less\<close>)
  have e: "?e - pd - 1 = ?e - Suc pd" "pd - pc = Suc pd - pb" using b by auto
  have zs': "if k < pb + (?e - Suc pd) then cmp (zs ! k) (ys ! a) = 0 else 0 < cmp (zs ! k) (ys ! a)"
    if "pb \<le> k" "k < ?e" for k
    unfolding zs us_def [symmetric] e
    by (rule exchange [of pb "Suc pd" ?e us "\<lambda>x. 0 < cmp x (ys ! a)" "\<lambda>x. cmp x (ys ! a) = 0"])
       (use b v that within_outside [OF w1] within_length [OF w1] in \<open>auto simp: min_def\<close>)
  have "pb + (?e - Suc pd) = ?e - (pd - pc)" using b by auto
  then show "\<And>k. ?e - (pd - pc) \<le> k \<Longrightarrow> k < ?e \<Longrightarrow> 0 < cmp (zs ! k) (ys ! a)"
    using zs' b by (metis add_leD1 le_trans not_le)
  show "\<And>k. \<forall>x. cmp x x = 0 \<Longrightarrow> a \<le> k \<Longrightarrow> k < a + (pb - pa) \<Longrightarrow> cmp (zs ! k) (ys ! a) < 0"
  proof -
    fix k assume "\<forall>x. cmp x x = 0" "a \<le> k" "k < a + (pb - pa)"
    moreover from this have "k < pb" using b by auto
    ultimately show "cmp (zs ! k) (ys ! a) < 0" using us [of k] within_outside [OF w2, of k] by simp
  qed
  show "\<And>k. \<forall>x. cmp x x = 0 \<Longrightarrow> a + (pb - pa) \<le> k \<Longrightarrow> k < ?e - (pd - pc) \<Longrightarrow> cmp (zs ! k) (ys ! a) = 0"
  proof -
    fix k assume k: "\<forall>x. cmp x x = 0" "a + (pb - pa) \<le> k" "k < ?e - (pd - pc)"
    show "cmp (zs ! k) (ys ! a) = 0"
    proof (cases "k < pb")
      case True
      then show ?thesis using us [of k] within_outside [OF w2, of k] k by simp
    next
      case False
      then show ?thesis using zs' [of k] k b by (auto split: if_splits)
    qed
  qed
qed

text \<open>A run on a large part: the insertion sort, or the partition and two shorter runs.\<close>

lemma qsort_small: "n < 7 \<Longrightarrow> qsort_r cmp a n xs = insertion cmp a (a + n) (a + 1) xs"
  by (simp add: qsort_r.simps [of cmp a n xs])

lemma qsort_large:
  assumes "\<not> n < 7" "part_loop cmp a (a + 1) (a + 1) (a + n - 1) (a + n - 1) False (swap_at a (pivot cmp a n xs) xs)
      = (pa, pb, pc, pd, cnt, ys)"
    "zs = vecswap pb (a + n - min (pd - pc) (a + n - pd - 1)) (min (pd - pc) (a + n - pd - 1))
      (vecswap a (pb - min (pa - a) (pb - pa)) (min (pa - a) (pb - pa)) ys)"
    "us = (if pb - pa > 1 then qsort_r cmp a (pb - pa) zs else zs)"
  shows "qsort_r cmp a n xs = (if \<not> cnt then insertion cmp a (a + n) (a + 1) ys
    else if pd - pc > 1 then qsort_r cmp (a + n - (pd - pc)) (pd - pc) us else us)"
  using assms by (simp add: qsort_r.simps [of cmp a n xs] Let_def)

text \<open>Three parts in order, the second equal to a value that lies between the others.\<close>

lemma sorted_three_parts:
  assumes "comparator cmp" "sorted_on cmp a m vs" "sorted_on cmp k b vs"
    and lo: "\<And>i. a \<le> i \<Longrightarrow> i < m \<Longrightarrow> cmp (vs ! i) v \<le> 0"
    and mid: "\<And>i. m \<le> i \<Longrightarrow> i < k \<Longrightarrow> cmp (vs ! i) v = 0"
    and hi: "\<And>i. k \<le> i \<Longrightarrow> i < b \<Longrightarrow> 0 < cmp (vs ! i) v"
  shows "sorted_on cmp a b vs"
proof -
  have up: "cmp v (vs ! i) \<le> 0" if "m \<le> i" "i < b" for i
    using mid [of i] hi [of i] comparator_sym [OF assms(1), of v "vs ! i"] that by linarith
  have join: "cmp (vs ! i) (vs ! j) \<le> 0" if "cmp (vs ! i) v \<le> 0" "m \<le> j" "j < b" for i j
    using comparator_trans [OF assms(1) that(1) up [OF that(2,3)]] .
  have low: "cmp (vs ! i) v \<le> 0" if "a \<le> i" "i < k" for i
    using lo [of i] mid [of i] that by (cases "i < m") auto
  show ?thesis
  proof (unfold sorted_on_def, intro allI impI)
    fix i j assume ij: "a \<le> i" "i < j" "j < b"
    show "cmp (vs ! i) (vs ! j) \<le> 0"
    proof (cases "j < m \<or> k \<le> i")
      case True
      then show ?thesis using assms(2,3) ij by (auto simp: sorted_on_def)
    next
      case False
      then show ?thesis using join [OF low, of i j] ij by auto
    qed
  qed
qed

lemma qsort_facts:
  assumes "a + n \<le> length xs"
  shows "within a (a + n) xs (qsort_r cmp a n xs)
    \<and> (comparator cmp \<longrightarrow> sorted_on cmp a (a + n) (qsort_r cmp a n xs))"
  using assms
proof (induction n arbitrary: a xs rule: less_induct)
  case (less n)
  show ?case
  proof (cases "n < 7")
    case True
    have "within a (a + n) xs (insertion cmp a (a + n) (a + 1) xs)" using less.prems by (intro insertion_within) auto
    moreover have "sorted_on cmp a (a + n) (insertion cmp a (a + n) (a + 1) xs)" if "comparator cmp"
      using that less.prems insertion_sorted [of cmp a "a + 1" "a + n" xs] sorted_on_small [of "a + 1" a cmp xs]
      by (cases "n = 0") (auto intro: sorted_on_small)
    ultimately show ?thesis using True by (simp add: qsort_small)
  next
    case False
    obtain pa pb pc pd cnt ys where part: "part_loop cmp a (a + 1) (a + 1) (a + n - 1) (a + n - 1) False
        (swap_at a (pivot cmp a n xs) xs) = (pa, pb, pc, pd, cnt, ys)"
      by (metis prod_cases6)
    define zs where "zs = vecswap pb (a + n - min (pd - pc) (a + n - pd - 1)) (min (pd - pc) (a + n - pd - 1))
      (vecswap a (pb - min (pa - a) (pb - pa)) (min (pa - a) (pb - pa)) ys)"
    define us where "us = (if pb - pa > 1 then qsort_r cmp a (pb - pa) zs else zs)"
    define m k where "m = a + (pb - pa)" and "k = a + n - (pd - pc)"
    note large = qsort_large [OF False part zs_def us_def]
    note fin = partition_done [OF _ less.prems part zs_def]
    show ?thesis
    proof (cases cnt)
      case False
      then show ?thesis using large fin(1) less.prems insertion_within [of a "a + 1" "a + n" ys cmp]
          insertion_sorted [of cmp a "a + 1" "a + n" ys] within_length [OF fin(1)] \<open>\<not> n < 7\<close>
        by (auto intro: within_trans sorted_on_small)
    next
      case True
      define vs where "vs = (if pd - pc > 1 then qsort_r cmp k (pd - pc) us else us)"
      have vs: "qsort_r cmp a n xs = vs" using large True by (simp add: vs_def k_def)
      have n: "7 \<le> n" using \<open>\<not> n < 7\<close> by simp
      have b: "a \<le> m" "m \<le> k" "k \<le> a + n" "k + (pd - pc) = a + n" "length zs = length xs"
        using fin(6) [OF n] within_length [OF fin(2) [OF n]] by (auto simp: m_def k_def)
      have us: "within a m zs us \<and> (comparator cmp \<longrightarrow> sorted_on cmp a m us)"
        using less.IH [OF fin(4) [OF n], of a zs] b less.prems
        by (auto simp: us_def m_def intro: sorted_on_small)
      have "within k (a + n) us vs \<and> (comparator cmp \<longrightarrow> sorted_on cmp k (a + n) vs)"
        using less.IH [OF fin(5) [OF n], of k us] b less.prems within_length [OF conjunct1 [OF us]]
        by (auto simp: vs_def intro: sorted_on_small)
      then have wv: "within k (a + n) us vs" and sv: "comparator cmp \<Longrightarrow> sorted_on cmp k (a + n) vs" by auto
      have wu: "within a m zs us" and su: "comparator cmp \<Longrightarrow> sorted_on cmp a m us" using us by auto
      have len: "length us = length xs" using within_length [OF wu] b by simp
      have "within a (a + n) xs vs"
      proof (rule within_trans [OF within_trans [OF fin(2) [OF n]]])
        show "within a (a + n) zs us" using b by (intro within_wider [OF wu]) auto
        show "within a (a + n) us vs" using b by (intro within_wider [OF wv]) auto
      qed
      moreover have "sorted_on cmp a (a + n) vs" if c: "comparator cmp"
      proof -
        have refl: "\<forall>x. cmp x x = 0" using comparator_refl [OF c] by blast
        have lo: "cmp (vs ! i) (ys ! a) \<le> 0" if i: "a \<le> i" "i < m" for i
          using within_all [OF wu b(1), of "\<lambda>x. cmp x (ys ! a) < 0" i] fin(7) [OF n refl] i b less.prems
            within_outside [OF wv, of i] by (force simp: m_def)
        have mid: "cmp (vs ! i) (ys ! a) = 0" if i: "m \<le> i" "i < k" for i
          using fin(8) [OF n refl, of i] i within_outside [OF wu, of i] within_outside [OF wv, of i]
          by (simp add: m_def k_def)
        have hi: "0 < cmp (vs ! i) (ys ! a)" if i: "k \<le> i" "i < a + n" for i
          using within_all [OF wv b(3), of "\<lambda>x. 0 < cmp x (ys ! a)" i] fin(9) [OF n] i b len less.prems
            within_outside [OF wu] by (force simp: k_def)
        have "sorted_on cmp a m vs"
          using su [OF c] sorted_on_cong [of a m vs us cmp] within_outside [OF wv] b by auto
        from sorted_three_parts [OF c this sv [OF c] lo mid hi] show ?thesis .
      qed
      ultimately show ?thesis by (simp add: vs)
    qed
  qed
qed

section \<open>What qsort_r promises\<close>

text \<open>C16: Whatever the comparison function answers, qsort_r returns, permutes the part of the array
  it is given and leaves all other elements alone.\<close>

theorem qsort_permutes:
  assumes "a + n \<le> length xs"
  shows "within a (a + n) xs (qsort_r cmp a n xs)"
  using qsort_facts [OF assms, of cmp] by blast

theorem qsort_permutes_witness:
  "within 1 4 [9, 3, 1, 2 :: int] (qsort_r (\<lambda>x y. 1) 1 3 [9, 3, 1, 2])"
  using qsort_permutes [of 1 3 "[9, 3, 1, 2 :: int]" "\<lambda>x y. 1"] by simp

text \<open>With the order of the integers the result on a whole array is that of the library's \<open>sort\<close>.\<close>

lemma comparator_diff: "comparator (\<lambda>x y. x - y)"
  by (auto simp: comparator_def)

text \<open>On a whole array of integers with their difference as comparison, qsort_r computes the
  sorted list.\<close>

theorem qsort_is_sort: "qsort_r (\<lambda>x y. x - y) 0 (length xs) xs = sort xs"
proof -
  have *: "within 0 (length xs) xs (qsort_r (\<lambda>x y. x - y) 0 (length xs) xs)"
    "sorted_on (\<lambda>x y. x - y) 0 (length xs) (qsort_r (\<lambda>x y. x - y) 0 (length xs) xs)"
    using qsort_facts [of 0 "length xs" xs "\<lambda>x y. x - y"] comparator_diff by auto
  then show ?thesis
    by (intro properties_for_sort [symmetric]) (auto simp: within_def sorted_on_def sorted_iff_nth_mono_less)
qed

text \<open>C15: For any consistent comparison function, the part of the array that qsort_r is given is in
  order afterwards.\<close>

theorem qsort_sorts:
  assumes "comparator cmp" "a + n \<le> length xs"
  shows "sorted_on cmp a (a + n) (qsort_r cmp a n xs)"
  using qsort_facts [OF assms(2), of cmp] assms(1) by blast

theorem qsort_sorts_witness:
  "sorted_on (\<lambda>x y. x - y) 0 8 (qsort_r (\<lambda>x y. x - y) 0 8 [5, 3, 9, 3, 1, 7, 2, 8 :: int])"
  using qsort_sorts [OF comparator_diff, of 0 8 "[5, 3, 9, 3, 1, 7, 2, 8 :: int]"] by simp

end
