(* ===== verification/Res_State.thy ===== *)
theory Res_State
  imports Res_Comp
begin

text \<open>
  The state of the resolver, \<open>struct __res_state\<close> of \<open>resolv.h\<close>, with the option bits.  A socket
  address is an address, its bytes in network order, and a port.  \<open>dnsrch\<close> holds offsets into
  \<open>defdname\<close>, a buffer of 256 bytes, up to the null pointer.  Hooks are null.
\<close>

datatype h_err = Netdb_internal | Netdb_success | Host_not_found | Try_again | No_recovery | No_data

datatype sock_addr = Sin "u8 list" u16 | Sin6 "u8 list" u16

record res_state =
  retrans :: int
  retry :: int
  options :: u32
  nscount :: int
  nsaddr_list :: "sock_addr list"
  id_of :: u16
  dnsrch :: "nat list"
  defdname :: cstring
  ndots :: nat
  nsort :: nat
  sort_list :: "(u8 list \<times> u8 list) list"
  res_h_errno :: h_err
  vcsock :: int
  flags_of :: u32
  nsaddrs :: "sock_addr option list"
  nssocks :: "int list"
  nsmap :: "nat list"
  nscount6 :: int
  nsinit :: int
  nscount_ext :: nat
  pfcode :: u32
  initstamp :: "64 word"

definition RES_INIT :: u32 where "RES_INIT = 0x1"
definition RES_USEVC :: u32 where "RES_USEVC = 0x8"
definition RES_IGNTC :: u32 where "RES_IGNTC = 0x20"
definition RES_STAYOPEN :: u32 where "RES_STAYOPEN = 0x100"
definition RES_INSECURE1 :: u32 where "RES_INSECURE1 = 0x400"
definition RES_INSECURE2 :: u32 where "RES_INSECURE2 = 0x800"
definition RES_BLAST :: u32 where "RES_BLAST = 0x20000"
definition RES_RECURSE :: u32 where "RES_RECURSE = 0x40"
definition RES_DEFNAMES :: u32 where "RES_DEFNAMES = 0x80"
definition RES_DNSRCH :: u32 where "RES_DNSRCH = 0x200"
definition RES_NOALIASES :: u32 where "RES_NOALIASES = 0x1000"
definition RES_USE_INET6 :: u32 where "RES_USE_INET6 = 0x2000"
definition RES_ROTATE :: u32 where "RES_ROTATE = 0x4000"
definition RES_NOCHECKNAME :: u32 where "RES_NOCHECKNAME = 0x8000"
definition RES_USEBSTRING :: u32 where "RES_USEBSTRING = 0x40000"
definition RES_NOIP6DOTINT :: u32 where "RES_NOIP6DOTINT = 0x80000"
definition RES_DEFAULT :: u32 where
  "RES_DEFAULT = (((RES_RECURSE + RES_DEFNAMES) + RES_DNSRCH) + RES_NOIP6DOTINT)"

definition opt :: "u32 \<Rightarrow> res_state \<Rightarrow> bool" where
  "opt b st \<longleftrightarrow> and (options st) b \<noteq> 0"

definition MAXNS :: nat where "MAXNS = 3"
definition MAXRESOLVSORT :: nat where "MAXRESOLVSORT = 10"
definition MAXDNSRCH :: nat where "MAXDNSRCH = 6"

text \<open>The C string at an offset of a buffer.\<close>

definition cstr_at :: "cstring \<Rightarrow> nat \<Rightarrow> cstring" where
  "cstr_at buf off = takeWhile (\<lambda>c. c \<noteq> 0) (drop off buf)"

text \<open>The domains of the search list.\<close>

definition domains :: "res_state \<Rightarrow> cstring list" where
  "domains st = map (cstr_at (defdname st)) (dnsrch st)"

end
