(* ===== verification/Res_Mkquery.thy ===== *)
theory Res_Mkquery
  imports Res_State
begin

text \<open>
  \<open>res_nmkquery\<close> of \<open>res_mkquery.c\<close>.  The message under construction is the list of the bytes
  below \<open>cp\<close>, so \<open>cp - buf\<close> is its length; \<open>buflen\<close> is what is left.  \<open>clock\<close> lists the values
  that the expression over the clock takes in the loop that looks for random bits.
\<close>

unbundle bit_operations_syntax

section \<open>The code\<close>

datatype opcode = Query | Iquery | Notify | Other_op int

definition HFIXEDSZ :: int where "HFIXEDSZ = 12"
definition QFIXEDSZ :: int where "QFIXEDSZ = 4"
definition RRFIXEDSZ :: int where "RRFIXEDSZ = 10"

text \<open>The loop until the low 16 bits are not all zero, and the readings that are left.\<close>

fun randombits :: "int list \<Rightarrow> (int \<times> int list) cres" where
  "randombits [] = Inl Diverges"
| "randombits (r # rs) = (if r mod 65536 = 0 then randombits rs else Inr (r, rs))"

text \<open>The header: \<open>hp->id\<close>, \<open>opcode\<close> and \<open>rd\<close>, and the four counts in network order.\<close>

definition op_bits :: "opcode \<Rightarrow> u8" where
  "op_bits op = (case op of Query \<Rightarrow> 0 | Iquery \<Rightarrow> 1 | Notify \<Rightarrow> 4 | Other_op n \<Rightarrow> of_int n AND 0xf)"

definition header :: "u16 \<Rightarrow> opcode \<Rightarrow> bool \<Rightarrow> u8 list" where
  "header i op rd = [ucast (drop_bit 8 i), ucast i, push_bit 3 (op_bits op) + (if rd then 1 else 0), 0,
     0, 0, 0, 0, 0, 0, 0, 0]"

text \<open>\<open>hp->qdcount = htons (1)\<close>, and the same for the other counts.\<close>

definition qdcount_1 :: "u8 list \<Rightarrow> u8 list" where "qdcount_1 msg = msg[4 := 0, 5 := 1]"
definition ancount_1 :: "u8 list \<Rightarrow> u8 list" where "ancount_1 msg = msg[6 := 0, 7 := 1]"
definition arcount_1 :: "u8 list \<Rightarrow> u8 list" where "arcount_1 msg = msg[10 := 0, 11 := 1]"

text \<open>\<open>dn_comp\<close> at the end of the message, with the table of names and what is left of the buffer.\<close>

definition put_name ::
  "cstring \<Rightarrow> u8 list \<Rightarrow> int \<Rightarrow> nat list \<Rightarrow> (u8 list \<times> int \<times> nat list) option cres" where
  "put_name name msg buflen ents =
     (case dn_comp name msg buflen (Some \<lparr>entries = ents, cap = Some 20\<rparr>) of
        (Inl (Errno _), _) \<Rightarrow> Inr None
      | (Inl e, _) \<Rightarrow> Inl e
      | (Inr out, ents) \<Rightarrow> Inr (Some (msg @ out, buflen - int (length out), ents)))"

text \<open>The question, and for a notification with data the additional record.\<close>

definition mk_question ::
  "cstring \<Rightarrow> u32 \<Rightarrow> u32 \<Rightarrow> u8 list \<Rightarrow> int \<Rightarrow> (u8 list \<times> int \<times> nat list) option cres" where
  "mk_question dname cls typ msg buflen =
     (let buflen = buflen - QFIXEDSZ in
      if buflen < 0 then Inr None
      else and_then (put_name dname msg buflen []) (\<lambda>r.
        case r of None \<Rightarrow> Inr None
        | Some (msg, buflen, ents) \<Rightarrow>
            Inr (Some (qdcount_1 (msg @ put16_bytes typ @ put16_bytes cls), buflen, ents))))"

definition mk_completion ::
  "cstring \<Rightarrow> u32 \<Rightarrow> u8 list \<Rightarrow> int \<Rightarrow> nat list \<Rightarrow> u8 list option cres" where
  "mk_completion data cls msg buflen ents =
     and_then (put_name data msg (buflen - RRFIXEDSZ) ents) (\<lambda>r.
       case r of None \<Rightarrow> Inr None
       | Some (msg, _, _) \<Rightarrow>
           Inr (Some (arcount_1 (msg @ put16_bytes 10 @ put16_bytes cls @ put32_bytes 0 @ put16_bytes 0))))"

text \<open>The inverse query: an answer section of one record with the given data.\<close>

definition mk_iquery ::
  "u32 \<Rightarrow> u32 \<Rightarrow> u8 list option \<Rightarrow> int \<Rightarrow> u8 list \<Rightarrow> int \<Rightarrow> u8 list option cres" where
  "mk_iquery cls typ data datalen msg buflen =
     (if buflen < 1 + RRFIXEDSZ + datalen then Inr None
      else
        (let msg = msg @ [0] @ put16_bytes typ @ put16_bytes cls @ put32_bytes 0 @ put16_bytes (of_int datalen) in
         if datalen \<noteq> 0 then
           (case data of
              Some d \<Rightarrow> if datalen < 0 \<or> int (length d) < datalen then Inl Fault
                        else Inr (Some (ancount_1 (msg @ take (nat datalen) d)))
            | None \<Rightarrow> Inl Fault)
         else Inr (Some (ancount_1 msg))))"

text \<open>The result is the message, or nothing for \<open>-1\<close>, the new state and the clock.\<close>

definition res_nmkquery ::
  "int list \<Rightarrow> res_state \<Rightarrow> opcode \<Rightarrow> cstring \<Rightarrow> u32 \<Rightarrow> u32 \<Rightarrow> u8 list option \<Rightarrow> int \<Rightarrow> int
    \<Rightarrow> (u8 list option \<times> res_state \<times> int list) cres" where
  "res_nmkquery clock st op dname cls typ data datalen buflen =
     (if buflen < HFIXEDSZ then Inr (None, st, clock)
      else and_then (randombits clock) (\<lambda>(r, clock).
        let msg = header (id_of st) op (opt RES_RECURSE st);
            st = st\<lparr>id_of := id_of st + of_int r\<rparr>;
            buflen = buflen - HFIXEDSZ in
        and_then
          (case op of
             Query \<Rightarrow>
               and_then (mk_question dname cls typ msg buflen) (\<lambda>r.
                 case r of None \<Rightarrow> Inr None | Some (msg, _, _) \<Rightarrow> Inr (Some msg))
           | Notify \<Rightarrow>
               and_then (mk_question dname cls typ msg buflen) (\<lambda>r.
                 case r of None \<Rightarrow> Inr None
                 | Some (msg, buflen, ents) \<Rightarrow>
                     (case data of None \<Rightarrow> Inr (Some msg)
                      | Some d \<Rightarrow> mk_completion d cls msg buflen ents))
           | Iquery \<Rightarrow> mk_iquery cls typ data datalen msg buflen
           | Other_op _ \<Rightarrow> Inr None)
          (\<lambda>r. Inr (r, st, clock))))"

end
