(* ===== verification/Res_Query.thy ===== *)
theory Res_Query
  imports Res_Mkquery Ns_Samedomain
begin

text \<open>
  \<open>res_query.c\<close>: one query with its error codes, the query for a name in a domain, the search
  through the domains of the search list, and the aliases of \<open>HOSTALIASES\<close>.  The exchange with the
  servers (\<open>__libc_res_nsend\<close>) is an argument; \<open>answerp\<close> is null, as in the public functions.
\<close>

unbundle bit_operations_syntax

section \<open>State\<close>

text \<open>
  \<open>res_h_errno\<close> of the resolver state stands for \<open>h_errno\<close> too, which is always set with it.
  \<open>aliases\<close> are the lines that \<open>fgets\<close> reads from the file of aliases, if there is one;
  \<open>big_ok\<close> says whether the large buffer of the retry can be allocated.
\<close>

record 'w query_state =
  rs :: res_state
  clock :: "int list"
  errno_of :: "errno option"
  answer :: "u8 list"
  aliases :: "cstring list option"
  big_ok :: bool
  world :: 'w

type_synonym 'w nsend = "u8 list \<Rightarrow> 'w query_state \<Rightarrow> (int \<times> 'w query_state) cres"
type_synonym 'w nquery = "cstring \<Rightarrow> 'w query_state \<Rightarrow> (int \<times> 'w query_state) cres"

text \<open>\<open>RES_SET_H_ERRNO\<close>, and the fields of the header of the answer.\<close>

definition set_herr :: "h_err \<Rightarrow> 'w query_state \<Rightarrow> 'w query_state" where
  "set_herr e s = s\<lparr>rs := (rs s)\<lparr>res_h_errno := e\<rparr>\<rparr>"

definition rcode :: "'w query_state \<Rightarrow> u8 cres" where
  "rcode s = and_then (fetch (answer s) 3) (\<lambda>b. Inr (b AND 0xf))"

definition ancount :: "'w query_state \<Rightarrow> u32 cres" where
  "ancount s = ns_get16 (answer s) 6"

section \<open>One query\<close>

definition MAXPACKET :: int where "MAXPACKET = 65536"
definition QUERYSIZE :: int where "QUERYSIZE = 12 + 4 + 255 + 1"

text \<open>The call of \<open>res_nmkquery\<close> with a buffer of the given size.\<close>

definition make_query ::
  "int \<Rightarrow> cstring \<Rightarrow> u32 \<Rightarrow> u32 \<Rightarrow> 'w query_state \<Rightarrow> (u8 list option \<times> 'w query_state) cres" where
  "make_query siz name cls typ s =
     and_then (res_nmkquery (clock s) (rs s) Query name cls typ None 0 siz) (\<lambda>(msg, st, c).
       Inr (msg, s\<lparr>rs := st, clock := c\<rparr>))"

definition herr_of_rcode :: "u8 \<Rightarrow> h_err" where
  "herr_of_rcode r =
     (if r = 3 then Host_not_found else if r = 2 then Try_again else if r = 0 then No_data
      else No_recovery)"

definition libc_res_nquery :: "'w nsend \<Rightarrow> u32 \<Rightarrow> u32 \<Rightarrow> 'w nquery" where
  "libc_res_nquery nsend cls typ name s =
     and_then (fetch (answer s) 3) (\<lambda>b.
     let s = s\<lparr>answer := (answer s)[3 := b AND 0xf0]\<rparr> in
     and_then (make_query QUERYSIZE name cls typ s) (\<lambda>(msg, s).
     and_then (if msg = None \<and> big_ok s then make_query MAXPACKET name cls typ s else Inr (msg, s)) (\<lambda>(msg, s).
     case msg of
       None \<Rightarrow> Inr (-1, set_herr No_recovery s)
     | Some msg \<Rightarrow>
         and_then (nsend msg s) (\<lambda>(n, s).
         if n < 0 then Inr (n, set_herr Try_again s)
         else
           and_then (rcode s) (\<lambda>r.
           and_then (ancount s) (\<lambda>an.
             if r \<noteq> 0 \<or> an = 0 then Inr (-1, set_herr (herr_of_rcode r) s)
             else Inr (n, s)))))))"

definition res_nquery :: "'w nsend \<Rightarrow> u32 \<Rightarrow> u32 \<Rightarrow> 'w nquery" where
  "res_nquery nsend cls typ = libc_res_nquery nsend cls typ"

section \<open>A name in a domain\<close>

definition libc_res_nquerydomain ::
  "'w nquery \<Rightarrow> cstring \<Rightarrow> cstring option \<Rightarrow> 'w query_state \<Rightarrow> (int \<times> 'w query_state) cres" where
  "libc_res_nquerydomain nquery name domain s =
     (case domain of
        None \<Rightarrow>
          if length name \<ge> NS_MAXDNAME then Inr (-1, set_herr No_recovery s)
          else if name \<noteq> [] \<and> last name = 0x2E then nquery (butlast name) s
          else nquery name s
      | Some d \<Rightarrow>
          if length name + length d + 1 \<ge> NS_MAXDNAME then Inr (-1, set_herr No_recovery s)
          else nquery (name @ 0x2E # d) s)"

definition res_nquerydomain ::
  "'w nsend \<Rightarrow> u32 \<Rightarrow> u32 \<Rightarrow> cstring \<Rightarrow> cstring option \<Rightarrow> 'w query_state \<Rightarrow> (int \<times> 'w query_state) cres" where
  "res_nquerydomain nsend cls typ = libc_res_nquerydomain (libc_res_nquery nsend cls typ)"

section \<open>Aliases\<close>

text \<open>One line after the other; the result is the alias, cut to \<open>siz - 1\<close> bytes.\<close>

fun hostalias_lines :: "cstring list \<Rightarrow> cstring \<Rightarrow> nat \<Rightarrow> cstring option cres" where
  "hostalias_lines [] name siz = Inr None"
| "hostalias_lines (l # ls) name siz =
     (let w = takeWhile (\<lambda>c. \<not> isspace c) l; r = dropWhile (\<lambda>c. \<not> isspace c) l in
      if r = [] then Inr None
      else
        (case ns_samename w name of
           Inl (Errno _) \<Rightarrow> hostalias_lines ls name siz
         | Inl e \<Rightarrow> Inl e
         | Inr False \<Rightarrow> hostalias_lines ls name siz
         | Inr True \<Rightarrow>
             let r = dropWhile isspace (tl r) in
             if r = [] then Inr None else Inr (Some (take (siz - 1) (takeWhile (\<lambda>c. \<not> isspace c) r)))))"

definition res_hostalias :: "res_state \<Rightarrow> cstring list option \<Rightarrow> cstring \<Rightarrow> nat \<Rightarrow> cstring option cres" where
  "res_hostalias st file name siz =
     (if opt RES_NOALIASES st then Inr None
      else case file of None \<Rightarrow> Inr None | Some ls \<Rightarrow> hostalias_lines ls name siz)"

section \<open>The search\<close>

definition dots_of :: "cstring \<Rightarrow> nat" where
  "dots_of name = length (filter (\<lambda>c. c = 0x2E) name)"

definition trailing_dot :: "cstring \<Rightarrow> bool" where
  "trailing_dot name \<longleftrightarrow> name \<noteq> [] \<and> last name = 0x2E"

record search_flags =
  got_nodata :: bool
  got_servfail :: bool
  root_on_list :: bool

text \<open>The loop over the search list: it returns a result of the function, or goes on after it.\<close>

fun search_loop ::
  "'w nquery \<Rightarrow> cstring \<Rightarrow> cstring list \<Rightarrow> search_flags \<Rightarrow> 'w query_state
    \<Rightarrow> ((int \<times> 'w query_state) + (search_flags \<times> 'w query_state)) cres" where
  "search_loop nquery name [] fl s = Inr (Inr (fl, s))"
| "search_loop nquery name (d # ds) fl s =
     (let fl = (if d = [] \<or> d = [0x2E] then fl\<lparr>root_on_list := True\<rparr> else fl) in
      and_then (libc_res_nquerydomain nquery name (Some d) s) (\<lambda>(ret, s).
        if ret > 0 then Inr (Inl (ret, s))
        else if errno_of s = Some ECONNREFUSED then Inr (Inl (-1, set_herr Try_again s))
        else
          and_then
            (case res_h_errno (rs s) of
               No_data \<Rightarrow> Inr (fl\<lparr>got_nodata := True\<rparr>, False)
             | Host_not_found \<Rightarrow> Inr (fl, False)
             | Try_again \<Rightarrow>
                 and_then (rcode s) (\<lambda>r. Inr (if r = 2 then (fl\<lparr>got_servfail := True\<rparr>, False) else (fl, True)))
             | _ \<Rightarrow> Inr (fl, True))
            (\<lambda>(fl, done).
               if done \<or> \<not> opt RES_DNSRCH (rs s) then Inr (Inr (fl, s))
               else search_loop nquery name ds fl s)))"

text \<open>The error code left when the search has failed; \<open>-1\<close> is \<open>NETDB_INTERNAL\<close> too.\<close>

definition search_herr :: "h_err option \<Rightarrow> search_flags \<Rightarrow> 'w query_state \<Rightarrow> 'w query_state" where
  "search_herr saved fl s =
     (if saved \<noteq> None \<and> saved \<noteq> Some Netdb_internal then set_herr (the saved) s
      else if got_nodata fl then set_herr No_data s
      else if got_servfail fl then set_herr Try_again s
      else s)"

definition searches :: "cstring \<Rightarrow> res_state \<Rightarrow> bool" where
  "searches name st \<longleftrightarrow> dots_of name = 0 \<and> opt RES_DEFNAMES st
     \<or> dots_of name > 0 \<and> \<not> trailing_dot name \<and> opt RES_DNSRCH st"

text \<open>After the alias and the first query of the name as it is, \<open>saved\<close> its error code.\<close>

definition search_domains ::
  "'w nquery \<Rightarrow> cstring \<Rightarrow> h_err option \<Rightarrow> 'w query_state \<Rightarrow> (int \<times> 'w query_state) cres" where
  "search_domains nquery name saved s =
     and_then
       (let fl = \<lparr>got_nodata = False, got_servfail = False, root_on_list = False\<rparr> in
        if searches name (rs s) then search_loop nquery name (domains (rs s)) fl s else Inr (Inr (fl, s)))
       (\<lambda>r. case r of
          Inl res \<Rightarrow> Inr res
        | Inr (fl, s) \<Rightarrow>
            and_then
              (if dots_of name > 0 \<and> \<not> (saved \<noteq> None \<or> root_on_list fl)
               then libc_res_nquerydomain nquery name None s else Inr (-1, s))
              (\<lambda>(ret, s). if ret > 0 then Inr (ret, s) else Inr (-1, search_herr saved fl s)))"

definition libc_res_nsearch :: "'w nquery \<Rightarrow> 'w nquery" where
  "libc_res_nsearch nquery name s =
     (let s = set_herr Host_not_found (s\<lparr>errno_of := None\<rparr>) in
      and_then (if dots_of name = 0 then res_hostalias (rs s) (aliases s) name NS_MAXDNAME else Inr None) (\<lambda>alias.
        case alias of
          Some cp \<Rightarrow> nquery cp s
        | None \<Rightarrow>
            if dots_of name \<ge> ndots (rs s) \<or> trailing_dot name then
              and_then (libc_res_nquerydomain nquery name None s) (\<lambda>(ret, s).
                if ret > 0 \<or> trailing_dot name then Inr (ret, s)
                else search_domains nquery name (Some (res_h_errno (rs s))) s)
            else search_domains nquery name None s))"

definition res_nsearch :: "'w nsend \<Rightarrow> u32 \<Rightarrow> u32 \<Rightarrow> 'w nquery" where
  "res_nsearch nsend cls typ = libc_res_nsearch (libc_res_nquery nsend cls typ)"

end
