(* ===== verification/Res_Query_Correct.thy ===== *)
theory Res_Query_Correct
  imports Res_Query
begin

text \<open>
  What the search asks for and in which order, what it answers, and the error code it leaves; and
  when a single query succeeds.
\<close>

section \<open>The names to be tried\<close>

definition as_is :: "cstring \<Rightarrow> cstring" where
  "as_is name = (if trailing_dot name then butlast name else name)"

definition search_plan :: "res_state \<Rightarrow> cstring \<Rightarrow> cstring list" where
  "search_plan st name =
     (let first = dots_of name \<ge> ndots st \<or> trailing_dot name;
          ds = (if searches name st then (if opt RES_DNSRCH st then domains st else take 1 (domains st)) else []) in
      (if first then [as_is name] else [])
      @ (if trailing_dot name then [] else
           map (\<lambda>d. name @ 0x2E # d) ds
           @ (if dots_of name > 0 \<and> \<not> first \<and> \<not> (\<exists>d \<in> set ds. d = [] \<or> d = [0x2E]) then [as_is name] else [])))"

text \<open>
  Queries answered from a table: the number returned and the error code for each name.  The world
  lists the names asked for.
\<close>

definition table_query :: "(cstring \<Rightarrow> int \<times> h_err) \<Rightarrow> (cstring list) nquery" where
  "table_query f name s =
     Inr (fst (f name), (if fst (f name) > 0 then s else set_herr (snd (f name)) s)\<lparr>world := world s @ [name]\<rparr>)"

definition misses :: "(cstring \<Rightarrow> int \<times> h_err) \<Rightarrow> cstring \<Rightarrow> bool" where
  "misses f n \<longleftrightarrow> f n = (-1, Host_not_found) \<or> f n = (-1, No_data)"

definition hits :: "(cstring \<Rightarrow> int \<times> h_err) \<Rightarrow> cstring \<Rightarrow> bool" where
  "hits f n \<longleftrightarrow> fst (f n) > 0"

text \<open>Going through a list of names until one is found: what is returned and what was asked.\<close>

fun try_all :: "(cstring \<Rightarrow> int \<times> h_err) \<Rightarrow> cstring list \<Rightarrow> int \<times> cstring list" where
  "try_all f [] = (-1, [])"
| "try_all f (n # ns) = (if hits f n then (fst (f n), [n]) else (case try_all f ns of (r, ms) \<Rightarrow> (r, n # ms)))"

lemma try_all_append:
  "try_all f (ms @ ns) = (if \<exists>n \<in> set ms. hits f n then try_all f ms
     else (case try_all f ns of (r, qs) \<Rightarrow> (r, ms @ qs)))"
  by (induction ms) (auto split: prod.splits)

lemma set_herr_simps [simp]:
  "world (set_herr e s) = world s" "answer (set_herr e s) = answer s" "errno_of (set_herr e s) = errno_of s"
  "res_h_errno (rs (set_herr e s)) = e" "options (rs (set_herr e s)) = options (rs s)"
  "ndots (rs (set_herr e s)) = ndots (rs s)" "domains (rs (set_herr e s)) = domains (rs s)"
  "aliases (set_herr e s) = aliases s"
  by (simp_all add: set_herr_def domains_def)

text \<open>States that agree on what steers the search.\<close>

definition steady :: "'w query_state \<Rightarrow> 'w query_state \<Rightarrow> bool" where
  "steady s s' \<longleftrightarrow> options (rs s') = options (rs s) \<and> domains (rs s') = domains (rs s) \<and> errno_of s' = errno_of s"

lemma querydomain_table:
  assumes "case dm of None \<Rightarrow> length name < NS_MAXDNAME | Some d \<Rightarrow> length name + length d + 1 < NS_MAXDNAME"
  shows "libc_res_nquerydomain (table_query f) name dm s
    = table_query f (case dm of None \<Rightarrow> as_is name | Some d \<Rightarrow> name @ 0x2E # d) s"
  using assms by (auto simp: libc_res_nquerydomain_def as_is_def trailing_dot_def split: option.splits)

lemma table_hit: "hits f n \<Longrightarrow> table_query f n s = Inr (fst (f n), s\<lparr>world := world s @ [n]\<rparr>)"
  by (simp add: table_query_def hits_def)

lemma table_miss: "misses f n \<Longrightarrow> table_query f n s = Inr (-1, (set_herr (snd (f n)) s)\<lparr>world := world s @ [n]\<rparr>)"
  by (auto simp: table_query_def misses_def)

lemma hits_pos: "hits f n \<Longrightarrow> 0 < fst (f n)"
  by (simp add: hits_def)

lemma misses_herr: "misses f n \<Longrightarrow> snd (f n) = Host_not_found \<or> snd (f n) = No_data"
  by (auto simp: misses_def)

text \<open>The loop: it stops at the first name that is found.\<close>

lemma search_loop_table:
  assumes "\<forall>d \<in> set ds. length name + length d + 1 < NS_MAXDNAME \<and>
      (hits f (name @ 0x2E # d) \<or> misses f (name @ 0x2E # d))"
    "errno_of s = None" "ds' = (if opt RES_DNSRCH (rs s) then ds else take 1 ds)"
    "ns = map (\<lambda>d. name @ 0x2E # d) ds'"
  shows "(if \<exists>n \<in> set ns. hits f n
    then \<exists>s'. search_loop (table_query f) name ds fl s = Inr (Inl (fst (try_all f ns), s'))
      \<and> world s' = world s @ snd (try_all f ns)
    else \<exists>s' fl'. search_loop (table_query f) name ds fl s = Inr (Inr (fl', s'))
      \<and> world s' = world s @ ns \<and> steady s s'
      \<and> root_on_list fl' = (root_on_list fl \<or> (\<exists>d \<in> set ds'. d = [] \<or> d = [0x2E]))
      \<and> got_nodata fl' = (got_nodata fl \<or> (\<exists>n \<in> set ns. snd (f n) = No_data))
      \<and> got_servfail fl' = got_servfail fl
      \<and> (res_h_errno (rs s) = Host_not_found \<longrightarrow> (\<forall>n \<in> set ns. snd (f n) \<noteq> No_data)
            \<longrightarrow> res_h_errno (rs s') = Host_not_found))"
  using assms
proof (induction ds arbitrary: fl s ds' ns)
  case Nil
  then show ?case by (auto simp: steady_def split: if_splits)
next
  case (Cons d ds)
  let ?n = "name @ 0x2E # d"
  have len: "length name + length d + 1 < NS_MAXDNAME" and or: "hits f ?n \<or> misses f ?n"
    using Cons.prems(1) by auto
  have q: "libc_res_nquerydomain (table_query f) name (Some d) s = table_query f ?n s"
    using querydomain_table [where dm = "Some d" and name = name and f = f and s = s] len by simp
  show ?case
  proof (cases "hits f ?n")
    case True
    then show ?thesis using q table_hit [OF True, of s] hits_pos [OF True] Cons.prems(3,4)
      by (auto simp: Let_def)
  next
    case False
    then have m: "misses f ?n" using or by simp
    define fl1 where "fl1 = (let fl = (if d = [] \<or> d = [0x2E] then fl\<lparr>root_on_list := True\<rparr> else fl) in
      if snd (f ?n) = No_data then fl\<lparr>got_nodata := True\<rparr> else fl)"
    define s1 where "s1 = (set_herr (snd (f ?n)) s)\<lparr>world := world s @ [?n]\<rparr>"
    have s1: "world s1 = world s @ [?n]" "errno_of s1 = None" "opt RES_DNSRCH (rs s1) = opt RES_DNSRCH (rs s)" "steady s s1"
      "snd (f ?n) \<noteq> No_data \<Longrightarrow> res_h_errno (rs s1) = Host_not_found"
      using Cons.prems(2) misses_herr [OF m] by (auto simp: s1_def opt_def steady_def)
    have step: "search_loop (table_query f) name (d # ds) fl s =
        (if opt RES_DNSRCH (rs s) then search_loop (table_query f) name ds fl1 s1 else Inr (Inr (fl1, s1)))"
      using q table_miss [OF m, of s] misses_herr [OF m] s1 Cons.prems(2)
      by (auto simp: Let_def fl1_def s1_def opt_def)
    have fl1: "root_on_list fl1 = (root_on_list fl \<or> d = [] \<or> d = [0x2E])"
      "got_nodata fl1 = (got_nodata fl \<or> snd (f ?n) = No_data)" "got_servfail fl1 = got_servfail fl"
      by (auto simp: fl1_def Let_def)
    show ?thesis
    proof (cases "opt RES_DNSRCH (rs s)")
      case False
      then show ?thesis using step s1 fl1 m Cons.prems(3,4) \<open>\<not> hits f ?n\<close> by auto
    next
      case True
      let ?ns = "map (\<lambda>d. name @ 0x2E # d) ds"
      have ns: "ns = ?n # ?ns" "ds' = d # ds" using Cons.prems(3,4) True by auto
      have step': "search_loop (table_query f) name (d # ds) fl s = search_loop (table_query f) name ds fl1 s1"
        using step True by simp
      have p: "\<forall>d \<in> set ds. length name + length d + 1 < NS_MAXDNAME \<and>
          (hits f (name @ 0x2E # d) \<or> misses f (name @ 0x2E # d))" "ds = (if opt RES_DNSRCH (rs s1) then ds else take 1 ds)"
        using Cons.prems(1) True s1(3) by auto
      note IH = Cons.IH [OF p(1) s1(2) p(2) refl, of fl1]
      show ?thesis
      proof (cases "\<exists>n \<in> set ?ns. hits f n")
        case T: True
        then obtain s' where "search_loop (table_query f) name ds fl1 s1 = Inr (Inl (fst (try_all f ?ns), s'))"
          "world s' = world s1 @ snd (try_all f ?ns)"
          using IH by (simp only: if_True) blast
        then show ?thesis using T s1(1) \<open>\<not> hits f ?n\<close> unfolding step' ns by (auto split: prod.splits)
      next
        case F: False
        then obtain s' fl' where *: "search_loop (table_query f) name ds fl1 s1 = Inr (Inr (fl', s'))"
          "world s' = world s1 @ ?ns" "steady s1 s'" "root_on_list fl' = (root_on_list fl1 \<or> (\<exists>d \<in> set ds. d = [] \<or> d = [0x2E]))"
          "got_nodata fl' = (got_nodata fl1 \<or> (\<exists>n \<in> set ?ns. snd (f n) = No_data))" "got_servfail fl' = got_servfail fl1"
          "res_h_errno (rs s1) = Host_not_found \<longrightarrow> (\<forall>n \<in> set ?ns. snd (f n) \<noteq> No_data)
            \<longrightarrow> res_h_errno (rs s') = Host_not_found"
          using IH by (simp only: if_False) blast
        have "\<not> (\<exists>n \<in> set ns. hits f n)" using F \<open>\<not> hits f ?n\<close> ns(1) by auto
        moreover have "steady s s'" using s1(4) *(3) by (simp add: steady_def)
        ultimately show ?thesis using * s1(1,5) fl1 unfolding step' ns by auto
      qed
    qed
  qed
qed

text \<open>The part of the search after the first query of the name itself.\<close>

lemma search_domains_table:
  assumes "\<forall>d \<in> set (domains (rs s)). length name + length d + 1 < NS_MAXDNAME"
    "length name < NS_MAXDNAME" "\<forall>n. hits f n \<or> misses f n" "errno_of s = None" "\<not> trailing_dot name"
    "ds = (if searches name (rs s) then (if opt RES_DNSRCH (rs s) then domains (rs s) else take 1 (domains (rs s))) else [])"
    "tail = (if dots_of name > 0 \<and> saved = None \<and> \<not> (\<exists>d \<in> set ds. d = [] \<or> d = [0x2E]) then [name] else [])"
    "ns = map (\<lambda>d. name @ 0x2E # d) ds" "saved \<noteq> Some Netdb_internal"
    "res_h_errno (rs s) = (case saved of None \<Rightarrow> Host_not_found | Some e \<Rightarrow> e)"
  shows "\<exists>s'. search_domains (table_query f) name saved s = Inr (fst (try_all f (ns @ tail)), s')
    \<and> world s' = world s @ snd (try_all f (ns @ tail))
    \<and> ((\<exists>n \<in> set (ns @ tail). hits f n) \<or> res_h_errno (rs s') = (case saved of Some e \<Rightarrow> e
         | None \<Rightarrow> if \<exists>n \<in> set (ns @ tail). snd (f n) = No_data then No_data else Host_not_found))"
proof -
  define fl where "fl = \<lparr>got_nodata = False, got_servfail = False, root_on_list = False\<rparr>"
  have miss_all: "try_all f ms = (-1, ms)" if "\<not> (\<exists>n \<in> set ms. hits f n)" for ms
    using that by (induction ms) auto
  define r where "r = (if searches name (rs s) then search_loop (table_query f) name (domains (rs s)) fl s else Inr (Inr (fl, s)))"
  have r: "if \<exists>n \<in> set ns. hits f n
    then \<exists>s'. r = Inr (Inl (fst (try_all f ns), s')) \<and> world s' = world s @ snd (try_all f ns)
    else \<exists>s' fl'. r = Inr (Inr (fl', s')) \<and> world s' = world s @ ns \<and> steady s s'
      \<and> root_on_list fl' = (\<exists>d \<in> set ds. d = [] \<or> d = [0x2E])
      \<and> got_nodata fl' = (\<exists>n \<in> set ns. snd (f n) = No_data) \<and> \<not> got_servfail fl'
      \<and> (res_h_errno (rs s) = Host_not_found \<longrightarrow> (\<forall>n \<in> set ns. snd (f n) \<noteq> No_data)
            \<longrightarrow> res_h_errno (rs s') = Host_not_found)"
  proof (cases "searches name (rs s)")
    case True
    have prem: "\<forall>d \<in> set (domains (rs s)). length name + length d + 1 < NS_MAXDNAME \<and>
      (hits f (name @ 0x2E # d) \<or> misses f (name @ 0x2E # d))" using assms(1,3) by blast
    have dsq: "ds = (if opt RES_DNSRCH (rs s) then domains (rs s) else take 1 (domains (rs s)))"
      using assms(6) True by simp
    have flf: "root_on_list fl = False" "got_nodata fl = False" "got_servfail fl = False" by (simp_all add: fl_def)
    show ?thesis using search_loop_table [OF prem assms(4) dsq assms(8), of fl]
      by (simp only: r_def True if_True flf simp_thms)
  next
    case False
    then show ?thesis using assms(6,8) by (simp add: r_def fl_def steady_def)
  qed
  have D: "search_domains (table_query f) name saved s = and_then r (\<lambda>r. case r of
      Inl res \<Rightarrow> Inr res
    | Inr (fl, s) \<Rightarrow> and_then (if dots_of name > 0 \<and> \<not> (saved \<noteq> None \<or> root_on_list fl)
               then libc_res_nquerydomain (table_query f) name None s else Inr (-1, s))
              (\<lambda>(ret, s). if ret > 0 then Inr (ret, s) else Inr (-1, search_herr saved fl s)))"
    by (simp add: search_domains_def r_def fl_def)
  show ?thesis
  proof (cases "\<exists>n \<in> set ns. hits f n")
    case True
    then show ?thesis using r by (auto simp: D try_all_append)
  next
    case False
    then obtain s1 fl1 where r1: "r = Inr (Inr (fl1, s1))" "world s1 = world s @ ns"
      "root_on_list fl1 = (\<exists>d \<in> set ds. d = [] \<or> d = [0x2E])"
      "got_nodata fl1 = (\<exists>n \<in> set ns. snd (f n) = No_data)" "\<not> got_servfail fl1"
      "res_h_errno (rs s) = Host_not_found \<Longrightarrow> \<forall>n \<in> set ns. snd (f n) \<noteq> No_data \<Longrightarrow> res_h_errno (rs s1) = Host_not_found"
      using r by auto
    have tail: "tail = (if dots_of name > 0 \<and> \<not> (saved \<noteq> None \<or> root_on_list fl1) then [name] else [])"
      using assms(7) r1(3) by auto
    have q: "libc_res_nquerydomain (table_query f) name None s1 = table_query f name s1"
      using querydomain_table [where dm = None and name = name and f = f and s = s1] assms(2,5) by (simp add: as_is_def)
    have or: "hits f name \<or> misses f name" using assms(3) by simp
    show ?thesis
    proof (cases "tail = []")
      case True
      then show ?thesis using r1 tail False assms(9,10) miss_all [of ns]
        by (auto simp: D search_herr_def split: option.splits if_splits)
    next
      case tl: False
      then have t: "tail = [name]" "dots_of name > 0" "saved = None" "\<not> root_on_list fl1" using tail by (auto split: if_splits)
      show ?thesis
      proof (cases "hits f name")
        case True
        then show ?thesis using r1 t False q table_hit [OF True, of s1] hits_pos [OF True] miss_all [of ns]
          by (auto simp: D [unfolded t(3)] try_all_append)
      next
        case False
        then have m: "misses f name" using or by simp
        show ?thesis using r1 t \<open>\<not> (\<exists>n \<in> set ns. hits f n)\<close> False q table_miss [OF m, of s1] misses_herr [OF m] miss_all [of "ns @ [name]"] assms(10)
          by (auto simp: D [unfolded t(3)] search_herr_def)
      qed
    qed
  qed
qed

text \<open>The domains that a search goes through, and its state when it begins.\<close>

definition plan_domains :: "'w query_state \<Rightarrow> cstring \<Rightarrow> cstring list" where
  "plan_domains s name =
     (if searches name (rs s) then (if opt RES_DNSRCH (rs s) then domains (rs s) else take 1 (domains (rs s))) else [])"

definition search_start :: "'w query_state \<Rightarrow> 'w query_state" where
  "search_start s = set_herr Host_not_found (s\<lparr>errno_of := None\<rparr>)"

lemma search_start_fields [simp]:
  "domains (rs (search_start s)) = domains (rs s)" "ndots (rs (search_start s)) = ndots (rs s)"
  "world (search_start s) = world s" "errno_of (search_start s) = None" "aliases (search_start s) = aliases s"
  "res_h_errno (rs (search_start s)) = Host_not_found" "opt b (rs (search_start s)) = opt b (rs s)"
  "searches name (rs (search_start s)) = searches name (rs s)"
  by (simp_all add: search_start_def opt_def searches_def)

lemma nsearch_start:
  assumes "aliases s = None"
  shows "libc_res_nsearch (table_query f) name s = (if dots_of name \<ge> ndots (rs s) \<or> trailing_dot name then
      and_then (libc_res_nquerydomain (table_query f) name None (search_start s)) (\<lambda>(ret, s).
                if ret > 0 \<or> trailing_dot name then Inr (ret, s)
                else search_domains (table_query f) name (Some (res_h_errno (rs s))) s)
      else search_domains (table_query f) name None (search_start s))"
proof -
  have "res_hostalias r None name n = Inr None" for r n by (simp add: res_hostalias_def)
  then show ?thesis using assms by (simp add: libc_res_nsearch_def search_start_def [symmetric] Let_def)
qed

lemma plan_cases:
  "search_plan (rs s) name = (if dots_of name \<ge> ndots (rs s) \<or> trailing_dot name then [as_is name] else []) @
     (if trailing_dot name then [] else map (\<lambda>d. name @ 0x2E # d) (plan_domains s name) @
       (if dots_of name > 0 \<and> \<not> (dots_of name \<ge> ndots (rs s) \<or> trailing_dot name) \<and>
           \<not> (\<exists>d \<in> set (plan_domains s name). d = [] \<or> d = [0x2E]) then [as_is name] else []))"
  by (simp only: search_plan_def Let_def plan_domains_def)

text \<open>A name with fewer dots than \<open>ndots\<close> is looked for in the domains first.\<close>

lemma search_order_later:
  assumes "aliases s = None" "length name < NS_MAXDNAME"
    "\<forall>d \<in> set (domains (rs s)). length name + length d + 1 < NS_MAXDNAME"
    "\<forall>n. hits f n \<or> misses f n" "plan = search_plan (rs s) name"
    and few: "\<not> (dots_of name \<ge> ndots (rs s) \<or> trailing_dot name)"
  shows "\<exists>s'. libc_res_nsearch (table_query f) name s = Inr (fst (try_all f plan), s')
    \<and> world s' = world s @ snd (try_all f plan)
    \<and> ((\<exists>n \<in> set plan. hits f n) \<or> res_h_errno (rs s') =
         (if \<exists>n \<in> set plan. snd (f n) = No_data then No_data else Host_not_found))"
proof -
  define ns where "ns = map (\<lambda>d. name @ 0x2E # d) (plan_domains s name)"
  define tail where "tail = (if dots_of name > 0 \<and> (None :: h_err option) = None \<and>
    \<not> (\<exists>d \<in> set (plan_domains s name). d = [] \<or> d = [0x2E]) then [name] else [])"
  have td: "\<not> trailing_dot name" using few by simp
  have plan: "plan = ns @ tail" using few by (simp add: assms(5) plan_cases ns_def tail_def as_is_def)
  have "\<exists>s'. search_domains (table_query f) name None (search_start s) = Inr (fst (try_all f (ns @ tail)), s')
    \<and> world s' = world (search_start s) @ snd (try_all f (ns @ tail))
    \<and> ((\<exists>n \<in> set (ns @ tail). hits f n) \<or> res_h_errno (rs s') = (case None of Some e \<Rightarrow> e
       | None \<Rightarrow> if \<exists>n \<in> set (ns @ tail). snd (f n) = No_data then No_data else Host_not_found))"
    by (rule search_domains_table [OF _ assms(2,4) _ td _ tail_def ns_def])
       (use assms(3) in \<open>simp_all add: plan_domains_def\<close>)
  then show ?thesis using few unfolding nsearch_start [OF assms(1)] plan by simp
qed

text \<open>Any other name is asked for as it is first.\<close>

lemma search_order_first:
  assumes "aliases s = None" "length name < NS_MAXDNAME"
    "\<forall>d \<in> set (domains (rs s)). length name + length d + 1 < NS_MAXDNAME"
    "\<forall>n. hits f n \<or> misses f n" "plan = search_plan (rs s) name"
    and first: "dots_of name \<ge> ndots (rs s) \<or> trailing_dot name"
  shows "\<exists>s'. libc_res_nsearch (table_query f) name s = Inr (fst (try_all f plan), s')
    \<and> world s' = world s @ snd (try_all f plan)
    \<and> ((\<exists>n \<in> set plan. hits f n) \<or> res_h_errno (rs s') = snd (f (as_is name)))"
proof -
  let ?s = "search_start s"
  define ns where "ns = map (\<lambda>d. name @ 0x2E # d) (plan_domains s name)"
  have q: "libc_res_nquerydomain (table_query f) name None ?s = table_query f (as_is name) ?s"
    using querydomain_table [where dm = None and name = name and f = f and s = ?s] assms(2) by simp
  have p: "plan = as_is name # (if trailing_dot name then [] else ns)"
    using first by (auto simp: assms(5) plan_cases ns_def)
  show ?thesis
  proof (cases "hits f (as_is name)")
    case hit: True
    then show ?thesis using first p q table_hit [OF hit, of ?s] hits_pos [OF hit] by (auto simp: nsearch_start [OF assms(1)])
  next
    case False
    then have m: "misses f (as_is name)" using assms(4) by blast
    define s1 where "s1 = (set_herr (snd (f (as_is name))) ?s)\<lparr>world := world s @ [as_is name]\<rparr>"
    have s1: "domains (rs s1) = domains (rs s)" "world s1 = world s @ [as_is name]" "errno_of s1 = None"
      "res_h_errno (rs s1) = snd (f (as_is name))" "plan_domains s1 name = plan_domains s name"
      using search_start_fields(1,5,7,8) by (auto simp: s1_def opt_def searches_def plan_domains_def)
    have q1: "libc_res_nquerydomain (table_query f) name None ?s = Inr (-1, s1)"
      using q table_miss [OF m, of ?s] by (simp add: s1_def)
    show ?thesis
    proof (cases "trailing_dot name")
      case True
      then show ?thesis using q1 p False s1 by (auto simp: nsearch_start [OF assms(1)])
    next
      case td: False
      have nb: "snd (f (as_is name)) \<noteq> Netdb_internal" using misses_herr [OF m] by auto
      have "\<exists>s'. search_domains (table_query f) name (Some (snd (f (as_is name)))) s1 = Inr (fst (try_all f (ns @ [])), s')
        \<and> world s' = world s1 @ snd (try_all f (ns @ []))
        \<and> ((\<exists>n \<in> set (ns @ []). hits f n) \<or> res_h_errno (rs s') = (case Some (snd (f (as_is name))) of Some e \<Rightarrow> e
           | None \<Rightarrow> if \<exists>n \<in> set (ns @ []). snd (f n) = No_data then No_data else Host_not_found))"
        by (rule search_domains_table [OF _ assms(2,4) s1(3) td _ _ ns_def])
           (use assms(3) s1 nb in \<open>simp_all flip: s1(5) add: plan_domains_def\<close>)
      then show ?thesis using first q1 td False s1(2,4) unfolding nsearch_start [OF assms(1)] p
        by (auto split: prod.splits)
    qed
  qed
qed

text \<open>C25: When each query either succeeds or fails with HOST_NOT_FOUND or NO_DATA and no alias file
  is set, __libc_res_nsearch asks exactly for the names of the search plan (the name as it is and
  in each domain, in the order its dots and the options call for), one after the other up to the
  first that succeeds, and returns its result or the error code that the plan determines.\<close>

theorem search_order:
  assumes "aliases s = None" "length name < NS_MAXDNAME"
    "\<forall>d \<in> set (domains (rs s)). length name + length d + 1 < NS_MAXDNAME"
    "\<forall>n. hits f n \<or> misses f n" "plan = search_plan (rs s) name"
  shows "\<exists>s'. libc_res_nsearch (table_query f) name s = Inr (fst (try_all f plan), s')
    \<and> world s' = world s @ snd (try_all f plan)
    \<and> ((\<exists>n \<in> set plan. hits f n) \<or> res_h_errno (rs s') =
         (if dots_of name \<ge> ndots (rs s) \<or> trailing_dot name then snd (f (as_is name))
          else if \<exists>n \<in> set plan. snd (f n) = No_data then No_data else Host_not_found))"
proof (cases "dots_of name \<ge> ndots (rs s) \<or> trailing_dot name")
  case True
  from search_order_first [OF assms True] True show ?thesis by simp
next
  case False
  from search_order_later [OF assms False] False show ?thesis by simp
qed

text \<open>A state for examples: one domain, \<open>lan\<close>, to search.\<close>

definition example_state :: "'w \<Rightarrow> 'w query_state" where
  "example_state w =
     \<lparr>rs = \<lparr>retrans = 5, retry = 2, options = RES_DEFAULT, nscount = 1, nsaddr_list = [], id_of = 1, dnsrch = [0],
         defdname = ascii ''lan'', ndots = 1, nsort = 0, sort_list = [], res_h_errno = Netdb_success, vcsock = -1,
         flags_of = 0, nsaddrs = [], nssocks = [], nsmap = [], nscount6 = 0, nsinit = 0, nscount_ext = 0,
        pfcode = 0, initstamp = 0\<rparr>,
       clock = [7], errno_of = None, answer = replicate 12 0, aliases = None, big_ok = True, world = w\<rparr>"

theorem search_order_witness:
  "\<exists>s'. libc_res_nsearch (table_query (\<lambda>n. if n = ascii ''a.lan'' then (5, Netdb_success) else (-1, Host_not_found)))
      (ascii ''a'') (example_state []) = Inr (5, s')
    \<and> world s' = [ascii ''a.lan'']"
proof -
  let ?f = "\<lambda>n. if n = ascii ''a.lan'' then (5 :: int, Netdb_success) else (-1, Host_not_found)"
  have plan: "search_plan (rs (example_state ([] :: cstring list))) (ascii ''a'') = [ascii ''a.lan'']"
    "domains (rs (example_state ([] :: cstring list))) = [ascii ''lan'']" by code_simp+
  moreover have "\<forall>n. hits ?f n \<or> misses ?f n" by (simp add: hits_def misses_def)
  ultimately obtain s' where
    "libc_res_nsearch (table_query ?f) (ascii ''a'') (example_state []) = Inr (fst (try_all ?f [ascii ''a.lan'']), s')"
    "world s' = world (example_state []) @ snd (try_all ?f [ascii ''a.lan''])"
    using search_order [of "example_state []" "ascii ''a''" ?f "[ascii ''a.lan'']"]
    by (auto simp: NS_MAXDNAME_def ascii_def example_state_def)
  then show ?thesis by (auto simp: hits_def example_state_def)
qed

section \<open>When a query succeeds\<close>

text \<open>When __libc_res_nquery returns a positive length, it is what the exchange with the servers
  returned for a message, and the answer has response code NOERROR and a nonzero answer count.\<close>

theorem nquery_success:
  assumes "libc_res_nquery nsend cls typ name s = Inr (n, s')" "0 < n"
  shows "\<exists>msg s1. nsend msg s1 = Inr (n, s') \<and> rcode s' = Inr 0 \<and> ancount s' \<noteq> Inr 0"
  using assms
  by (fastforce simp: libc_res_nquery_def Let_def and_then_eq_Inr split: if_splits option.splits prod.splits)

definition answer_one :: "unit nsend" where
  "answer_one msg s = Inr (12, s\<lparr>answer := [0, 1, 0x80, 0, 0, 0, 0, 1, 0, 0, 0, 0]\<rparr>)"

theorem nquery_success_witness:
  "\<exists>s'. libc_res_nquery answer_one 1 1 (ascii ''a'') (example_state ()) = Inr (12, s') \<and> rcode s' = Inr 0"
proof -
  have "map_sum id fst (libc_res_nquery answer_one 1 1 (ascii ''a'') (example_state ())) = Inr 12" by code_simp
  then obtain s' where "libc_res_nquery answer_one 1 1 (ascii ''a'') (example_state ()) = Inr (12, s')"
    by (cases "libc_res_nquery answer_one 1 1 (ascii ''a'') (example_state ())") auto
  then show ?thesis using nquery_success by fastforce
qed

end
