(* ===== verification/Res_Init.thy ===== *)
theory Res_Init
  imports Res_State Inet
begin

text \<open>
  \<open>res_init.c\<close> and \<open>res_libc.c\<close>: setting up the state of the resolver from the environment and the
  lines of \<open>/etc/resolv.conf\<close>, and resetting it.  A line is the string that \<open>fgets\<close> left in the
  buffer, with its newline.
\<close>

unbundle bit_operations_syntax

section \<open>Strings\<close>

definition blank :: "u8 \<Rightarrow> bool" where
  "blank c \<longleftrightarrow> c = 0x20 \<or> c = 0x09"

definition skip_blanks :: "cstring \<Rightarrow> cstring" where
  "skip_blanks s = dropWhile blank s"

definition starts :: "cstring \<Rightarrow> cstring \<Rightarrow> bool" where
  "starts s name \<longleftrightarrow> take (length name) s = name"

text \<open>The macro \<open>MATCH\<close>.\<close>

definition match_keyword :: "cstring \<Rightarrow> cstring \<Rightarrow> bool" where
  "match_keyword line name \<longleftrightarrow>
     starts line name \<and> length name < length line \<and> blank (line ! length name)"

text \<open>\<open>strncpy (buf, s, 255); buf[255] = 0\<close> for a buffer of 256 bytes.\<close>

definition copy_256 :: "cstring \<Rightarrow> cstring" where
  "copy_256 s = (let s = take 255 s in s @ replicate (256 - length s) 0)"

text \<open>\<open>atoi\<close>, which saturates like \<open>strtol\<close>.\<close>

definition atoi :: "cstring \<Rightarrow> int" where
  "atoi s =
     (let s = skip_space s;
          neg = (s \<noteq> [] \<and> hd s = 0x2D);
          s = (if s \<noteq> [] \<and> (hd s = 0x2D \<or> hd s = 0x2B) then tl s else s);
          v = int (fst (digits_run 10 s 0));
          v = (if neg then - v else v)
      in max (- 2147483648) (min 2147483647 v))"

section \<open>Options\<close>

definition set_opt :: "u32 \<Rightarrow> res_state \<Rightarrow> res_state" where
  "set_opt b st = st\<lparr>options := options st OR b\<rparr>"

definition apply_option :: "cstring \<Rightarrow> res_state \<Rightarrow> res_state" where
  "apply_option cp st =
     (if starts cp (ascii ''ndots:'') then
        (let i = atoi (drop 6 cp) in st\<lparr>ndots := nat ((if i \<le> 15 then i else 15) mod 16)\<rparr>)
      else if starts cp (ascii ''timeout:'') then
        (let i = atoi (drop 8 cp) in st\<lparr>retrans := (if i \<le> 30 then i else 30)\<rparr>)
      else if starts cp (ascii ''attempts:'') then
        (let i = atoi (drop 9 cp) in st\<lparr>retry := (if i \<le> 5 then i else 5)\<rparr>)
      else if starts cp (ascii ''debug'') then st
      else if starts cp (ascii ''inet6'') then set_opt RES_USE_INET6 st
      else if starts cp (ascii ''ip6-bytestring'') then set_opt RES_USEBSTRING st
      else if starts cp (ascii ''no-ip6-dotint'') then set_opt RES_NOIP6DOTINT st
      else if starts cp (ascii ''ip6-dotint'') then st\<lparr>options := options st AND NOT RES_NOIP6DOTINT\<rparr>
      else if starts cp (ascii ''rotate'') then set_opt RES_ROTATE st
      else if starts cp (ascii ''no-check-names'') then set_opt RES_NOCHECKNAME st
      else st)"

function res_setoptions :: "res_state \<Rightarrow> cstring \<Rightarrow> res_state" where
  "res_setoptions st cp =
     (if cp = [] then st
      else let cp' = skip_blanks cp in
           res_setoptions (apply_option cp' st) (dropWhile (\<lambda>c. \<not> blank c) cp'))"
  by pat_completeness auto
termination
proof (relation "measure (\<lambda>(st, cp). length cp)", goal_cases)
  case (2 st cp x)
  have *: "length (dropWhile P xs) \<le> length xs" for P and xs :: cstring by (rule length_dropWhile_le)
  from 2 show ?case
  proof (cases cp)
    case (Cons c cs)
    show ?thesis using 2 Cons *[of "\<lambda>c. \<not> blank c" "dropWhile blank cs"] *[of blank cs] *[of "\<lambda>c. \<not> blank c" cs]
      by (cases "blank c") (auto simp: skip_blanks_def)
  qed simp
qed simp

declare res_setoptions.simps [simp del]

section \<open>Search lists\<close>

text \<open>\<open>if ((cp = strpbrk (b, ...)) != NULL) *cp = 0\<close>: ending a string at the first byte of a set.\<close>

definition cut_at :: "(u8 \<Rightarrow> bool) \<Rightarrow> u8 list \<Rightarrow> u8 list" where
  "cut_at P b = b[length (takeWhile (\<lambda>c. c \<noteq> 0 \<and> \<not> P c) b) := 0]"

text \<open>
  Cutting the string in \<open>defdname\<close> into words: \<open>cp\<close> is the position, \<open>n\<close> says whether a blank has
  just been passed, \<open>pp\<close> are the pointers stored so far.  In the environment a newline ends it.
\<close>

function split_finish :: "bool \<Rightarrow> u8 list \<Rightarrow> nat \<Rightarrow> u8 list" where
  "split_finish nl b cp =
     (if cp < length b \<and> b ! cp \<noteq> 0 \<and> \<not> blank (b ! cp) \<and> \<not> (nl \<and> b ! cp = 0x0A)
      then split_finish nl b (cp + 1) else b[cp := 0])"
  by pat_completeness auto
termination
  by (relation "measure (\<lambda>(nl, b, cp). length b - cp)") auto

function split_loop :: "bool \<Rightarrow> u8 list \<Rightarrow> nat \<Rightarrow> bool \<Rightarrow> nat list \<Rightarrow> u8 list \<times> nat list" where
  "split_loop nl b cp n pp =
     (if cp < length b \<and> b ! cp \<noteq> 0 \<and> length pp < MAXDNSRCH then
        (if nl \<and> b ! cp = 0x0A then (split_finish nl b cp, pp)
         else if blank (b ! cp) then split_loop nl (b[cp := 0]) (cp + 1) True pp
         else if n then split_loop nl b (cp + 1) False (pp @ [cp])
         else split_loop nl b (cp + 1) n pp)
      else (split_finish nl b cp, pp))"
  by pat_completeness auto
termination
  by (relation "measure (\<lambda>(nl, b, cp, n, pp). length b - cp)") auto

declare split_finish.simps [simp del] split_loop.simps [simp del]

definition set_search :: "bool \<Rightarrow> u8 list \<Rightarrow> res_state \<Rightarrow> res_state" where
  "set_search nl b st =
     (case split_loop nl b 0 False [0] of (b, pp) \<Rightarrow> st\<lparr>defdname := b, dnsrch := pp\<rparr>)"

section \<open>Sort lists\<close>

text \<open>\<open>strchr\<close> finds the terminating NUL too.\<close>

definition sortmask :: "u8 \<Rightarrow> bool" where
  "sortmask c \<longleftrightarrow> c = 0x2F \<or> c = 0x26 \<or> c = 0"

definition isascii :: "u8 \<Rightarrow> bool" where
  "isascii c \<longleftrightarrow> c < 0x80"

definition net_mask :: "u8 list \<Rightarrow> u8 list" where
  "net_mask a =
     (if hd a AND 0x80 = 0 then [255, 0, 0, 0]
      else if hd a AND 0xc0 = 0x80 then [255, 255, 0, 0]
      else [255, 255, 255, 0])"

text \<open>The first position from \<open>cp\<close> on whose byte does not satisfy \<open>P\<close>.\<close>

definition skip_at :: "(u8 \<Rightarrow> bool) \<Rightarrow> u8 list \<Rightarrow> nat \<Rightarrow> nat" where
  "skip_at P b cp = cp + length (takeWhile P (drop cp b))"

lemma skip_at_ge: "cp \<le> skip_at P b cp"
  by (simp add: skip_at_def)

lemma skip_at_ge2: "cp \<le> skip_at P b (skip_at Q b cp)"
  using skip_at_ge [of "skip_at Q b cp" P b] skip_at_ge [of cp Q b] by simp

lemma skip_at_ge3: "cp < skip_at R b (Suc (skip_at P b (skip_at Q b cp)))"
  using skip_at_ge [of "Suc (skip_at P b (skip_at Q b cp))" R b] skip_at_ge2 [of cp P b Q] by simp

definition addr_char :: "u8 \<Rightarrow> bool" where
  "addr_char c \<longleftrightarrow> c \<noteq> 0 \<and> \<not> sortmask c \<and> c \<noteq> 0x3B \<and> isascii c \<and> \<not> isspace c"

definition mask_char :: "u8 \<Rightarrow> bool" where
  "mask_char c \<longleftrightarrow> c \<noteq> 0 \<and> c \<noteq> 0x3B \<and> isascii c \<and> \<not> isspace c"

definition slice_of :: "u8 list \<Rightarrow> nat \<Rightarrow> nat \<Rightarrow> cstring" where
  "slice_of b i j = take (j - i) (drop i b)"

text \<open>
  The loop of a \<open>sortlist\<close> line over the buffer \<open>b\<close>, which the loop leaves as it was.  When nothing
  that reads as an address starts where the last turn ended, the next turn is this turn again.
\<close>

function sort_loop ::
  "u8 list \<Rightarrow> nat \<Rightarrow> nat \<Rightarrow> (u8 list \<times> u8 list) list \<Rightarrow> (nat \<times> (u8 list \<times> u8 list) list) cres" where
  "sort_loop b cp n sl =
     (if MAXRESOLVSORT \<le> n then Inr (n, sl)
      else
        let net = skip_at blank b cp in
        and_then (fetch b net) (\<lambda>c.
        if c = 0 \<or> c = 0x0A \<or> c = 0x3B then Inr (n, sl)
        else
          let e = skip_at addr_char b net in
          and_then (fetch b e) (\<lambda>nc.
          case inet_aton (slice_of b net e) of
            None \<Rightarrow> if e = cp then Inl Diverges else sort_loop b e n sl
          | Some a \<Rightarrow>
              if sortmask nc then
                let f = skip_at mask_char b (e + 1) in
                and_then (fetch b f) (\<lambda>mc.
                sort_loop b f (n + 1)
                  (sl[n := (a, case inet_aton (slice_of b (e + 1) f) of Some m \<Rightarrow> m | None \<Rightarrow> net_mask a)]))
              else sort_loop b e (n + 1) (sl[n := (a, net_mask a)]))))"
  by pat_completeness auto
termination
proof (relation "measure (\<lambda>(b, cp, n, sl). (length b - cp) + (MAXRESOLVSORT - n))", goal_cases)
  case (2 b cp n sl net c e nc)
  then have "net < length b" "e < length b" by (auto simp: fetch_def split: if_splits)
  with 2 show ?case using skip_at_ge2 [of cp addr_char b blank] by auto
next
  case (3 b cp n sl net c e nc a f mc)
  then have "f < length b" by (auto simp: fetch_def split: if_splits)
  with 3 show ?case using skip_at_ge3 [of cp mask_char b addr_char blank] by auto
next
  case (4 b cp n sl net c e nc a)
  then have "e < length b" by (auto simp: fetch_def split: if_splits)
  with 4 show ?case using skip_at_ge2 [of cp addr_char b blank] by auto
qed simp

declare sort_loop.simps [simp del]

section \<open>The lines of the configuration file\<close>

record conf_state =
  cst :: res_state
  cbuf :: "u8 list"
  nserv :: nat
  nservall :: nat
  havesearch :: bool
  csort :: nat
  mallocs :: "bool list"

text \<open>\<open>fgets\<close>: the line and a NUL over what the buffer held before.\<close>

definition load_line :: "cstring \<Rightarrow> conf_state \<Rightarrow> conf_state" where
  "load_line l c = c\<lparr>cbuf := l @ 0 # drop (length l + 1) (cbuf c)\<rparr>"

definition empty_rest :: "cstring \<Rightarrow> bool" where
  "empty_rest s \<longleftrightarrow> s = [] \<or> hd s = 0x0A"

definition domain_line :: "cstring \<Rightarrow> conf_state \<Rightarrow> conf_state" where
  "domain_line line c =
     (let s = skip_blanks (drop 6 line) in
      if empty_rest s then c
      else c\<lparr>cst := (cst c)\<lparr>defdname := cut_at (\<lambda>c. blank c \<or> c = 0x0A) (copy_256 s)\<rparr>,
             havesearch := False\<rparr>)"

definition search_line :: "cstring \<Rightarrow> conf_state \<Rightarrow> conf_state" where
  "search_line line c =
     (let s = skip_blanks (drop 6 line) in
      if empty_rest s then c
      else c\<lparr>cst := set_search False (cut_at (\<lambda>c. c = 0x0A) (copy_256 s)) (cst c), havesearch := True\<rparr>)"

definition nameserver_line :: "cstring \<Rightarrow> conf_state \<Rightarrow> conf_state" where
  "nameserver_line line c =
     (let s = skip_blanks (drop 10 line); st = cst c in
      case (if empty_rest s then None else inet_aton s) of
        Some a \<Rightarrow>
          c\<lparr>cst := st\<lparr>nsaddr_list := (nsaddr_list st)[nserv c := Sin a 53]\<rparr>,
            nserv := nserv c + 1, nservall := nservall c + 1\<rparr>
      | None \<Rightarrow>
          let c = c\<lparr>cbuf := (cbuf c)[length line - length s + length (takeWhile (\<lambda>x. x \<noteq> 0x0A) s) := 0]\<rparr>;
              s = takeWhile (\<lambda>x. x \<noteq> 0x0A) s in
          if s = [] then c
          else case inet_pton AF_INET6 s of
            Inr (Some a6) \<Rightarrow>
              (let ok = (mallocs c = [] \<or> hd (mallocs c)); c = c\<lparr>mallocs := tl (mallocs c)\<rparr> in
               if ok then
                 c\<lparr>cst := st\<lparr>nsaddrs := (nsaddrs st)[nservall c := Some (Sin6 a6 53)],
                             nssocks := (nssocks st)[nservall c := -1],
                             nsmap := (nsmap st)[nservall c := MAXNS + 1]\<rparr>,
                   nservall := nservall c + 1\<rparr>
               else c)
          | _ \<Rightarrow> c)"

definition sortlist_line :: "conf_state \<Rightarrow> conf_state cres" where
  "sortlist_line c =
     and_then (sort_loop (cbuf c) 8 (csort c) (sort_list (cst c))) (\<lambda>(n, sl).
       Inr (c\<lparr>cst := (cst c)\<lparr>sort_list := sl\<rparr>, csort := n\<rparr>))"

definition conf_line :: "bool \<Rightarrow> conf_state \<Rightarrow> conf_state cres" where
  "conf_line haveenv c =
     (let line = cstr_at (cbuf c) 0 in
      if line \<noteq> [] \<and> (hd line = 0x3B \<or> hd line = 0x23) then Inr c
      else if match_keyword line (ascii ''domain'') then
        Inr (if haveenv then c else domain_line line c)
      else if match_keyword line (ascii ''search'') then
        Inr (if haveenv then c else search_line line c)
      else if match_keyword line (ascii ''nameserver'') \<and> nservall c < MAXNS then
        Inr (nameserver_line line c)
      else if match_keyword line (ascii ''sortlist'') then sortlist_line c
      else if match_keyword line (ascii ''options'') then
        Inr (c\<lparr>cst := res_setoptions (cst c) (drop 7 line)\<rparr>)
      else Inr c)"

fun conf_file :: "bool \<Rightarrow> cstring list \<Rightarrow> conf_state \<Rightarrow> conf_state cres" where
  "conf_file haveenv [] c = Inr c"
| "conf_file haveenv (l # ls) c = and_then (conf_line haveenv (load_line l c)) (conf_file haveenv ls)"

section \<open>Initialisation\<close>

text \<open>
  What the functions ask of the system: the two variables of the environment, the lines that
  \<open>fgets\<close> returns if the file can be opened, the host name if it can be had, the outcomes of the
  allocations, what the line buffer on the stack holds, the time and the process number.
\<close>

record res_env =
  localdomain :: "cstring option"
  res_options :: "cstring option"
  conf_lines :: "cstring list option"
  hostname :: "cstring option"
  alloc :: "bool list"
  stack_buf :: "u8 list"
  tv_sec :: u32
  tv_usec :: u32
  pid :: u32

definition res_randomid :: "res_env \<Rightarrow> u32" where
  "res_randomid env = 0xffff AND ((tv_sec env XOR tv_usec env) XOR pid env)"

definition vinit_defaults :: "res_env \<Rightarrow> 64 word \<Rightarrow> bool \<Rightarrow> res_state \<Rightarrow> res_state" where
  "vinit_defaults env stamp preinit st =
     (let st = st\<lparr>initstamp := stamp\<rparr>;
          st = (if preinit then st
                else st\<lparr>retrans := 5, retry := 2, options := RES_DEFAULT, id_of := ucast (res_randomid env)\<rparr>) in
      st\<lparr>nsaddr_list := (nsaddr_list st)[0 := Sin [0, 0, 0, 0] 53], nscount := 1, ndots := 1, pfcode := 0,
         vcsock := -1, flags_of := 0, nsinit := 0, nscount_ext := 0, nscount6 := 0,
         nsaddrs := replicate MAXNS None, nsmap := replicate MAXNS MAXNS\<rparr>)"

text \<open>\<open>LOCALDOMAIN\<close>: the search list counts as given only if it has a second word.\<close>

definition vinit_env :: "cstring \<Rightarrow> res_state \<Rightarrow> res_state \<times> bool" where
  "vinit_env s st = (let st = set_search True (copy_256 s) st in (st, length (dnsrch st) > 1))"

definition vinit_conf :: "res_env \<Rightarrow> res_state \<times> bool \<Rightarrow> (res_state \<times> bool) cres" where
  "vinit_conf env st =
     (case conf_lines env of
        None \<Rightarrow> Inr st
      | Some ls \<Rightarrow>
          and_then
            (conf_file (localdomain env \<noteq> None) ls
               \<lparr>cst = fst st, cbuf = stack_buf env, nserv = 0, nservall = 0, havesearch = snd st,
                csort = 0, mallocs = alloc env\<rparr>)
            (\<lambda>c. let st = cst c;
                     st = (if nserv c > 1 then st\<lparr>nscount := int (nserv c)\<rparr> else st);
                     st = (if nservall c > nserv c then st\<lparr>nscount6 := int (nservall c - nserv c)\<rparr> else st)
                 in Inr (st\<lparr>nsort := csort c\<rparr>, havesearch c)))"

text \<open>The domain of the host when there is no other.\<close>

definition host_domain :: "res_env \<Rightarrow> res_state \<Rightarrow> res_state" where
  "host_domain env st =
     (if cstr_at (defdname st) 0 = [] then
        (case hostname env of
           None \<Rightarrow> st
         | Some h \<Rightarrow>
             let d = dropWhile (\<lambda>c. c \<noteq> 0x2E) h in
             if d = [] then st
             else st\<lparr>defdname := tl d @ 0 # drop (length d) (defdname st)\<rparr>)
      else st)"

definition res_vinit :: "res_env \<Rightarrow> 64 word \<Rightarrow> bool \<Rightarrow> res_state \<Rightarrow> res_state cres" where
  "res_vinit env stamp preinit st =
     (let st = vinit_defaults env stamp preinit st in
      and_then (vinit_conf env (case localdomain env of None \<Rightarrow> (st, False) | Some s \<Rightarrow> vinit_env s st)) (\<lambda>(st, hs).
      let st = host_domain env st;
          st = (if hs then st else st\<lparr>dnsrch := [0]\<rparr>);
          st = (case res_options env of None \<Rightarrow> st | Some s \<Rightarrow> res_setoptions st s) in
      Inr (set_opt RES_INIT st)))"

definition res_ninit :: "res_env \<Rightarrow> 64 word \<Rightarrow> res_state \<Rightarrow> res_state cres" where
  "res_ninit env stamp st = res_vinit env stamp False st"

section \<open>Closing\<close>

text \<open>The descriptors closed are returned, in order.\<close>

definition close_vc :: "res_state \<Rightarrow> res_state \<times> int list" where
  "close_vc st =
     (if vcsock st \<ge> 0 then (st\<lparr>vcsock := -1, flags_of := flags_of st AND NOT 3\<rparr>, [vcsock st]) else (st, []))"

definition close_ns :: "nat \<Rightarrow> res_state \<times> int list \<Rightarrow> res_state \<times> int list" where
  "close_ns i r =
     (case r of (st, fds) \<Rightarrow>
        if nsaddrs st ! i \<noteq> None \<and> nssocks st ! i \<noteq> -1
        then (st\<lparr>nssocks := (nssocks st)[i := -1]\<rparr>, fds @ [nssocks st ! i]) else r)"

definition res_nclose :: "res_state \<Rightarrow> res_state \<times> int list" where
  "res_nclose st = (case fold close_ns [0..<MAXNS] (close_vc st) of (st, fds) \<Rightarrow> (st\<lparr>nsinit := 0\<rparr>, fds))"

definition free_addrs :: "res_state \<Rightarrow> res_state" where
  "free_addrs st = st\<lparr>nsaddrs := replicate MAXNS None\<rparr>"

definition res_thread_freeres :: "res_state \<Rightarrow> res_state \<times> int list" where
  "res_thread_freeres st =
     (if nscount st = 0 then (st, [])
      else case res_nclose st of (st, fds) \<Rightarrow> ((free_addrs st)\<lparr>options := 0\<rparr>, fds))"

text \<open>\<open>res_libc.c\<close>: the defaults where the application has set nothing.\<close>

definition pre_defaults :: "res_state \<Rightarrow> res_state" where
  "pre_defaults st =
     (let st = (if retrans st = 0 then st\<lparr>retrans := 5\<rparr> else st) in
      if retry st = 0 then st\<lparr>retry := 4\<rparr> else st)"

definition pick_id :: "res_env \<Rightarrow> res_state \<Rightarrow> res_state" where
  "pick_id env st = (if id_of st = 0 then st\<lparr>id_of := ucast (res_randomid env)\<rparr> else st)"

definition res_init :: "res_env \<Rightarrow> 64 word \<Rightarrow> res_state \<Rightarrow> (64 word \<times> res_state \<times> int list) cres" where
  "res_init env stamp st =
     (let st = pre_defaults st;
          (st, fds) =
            (if \<not> opt RES_INIT st then (st\<lparr>options := RES_DEFAULT\<rparr>, [])
             else if nscount st > 0 then (case res_nclose st of (st, fds) \<Rightarrow> (free_addrs st, fds))
             else (st, []));
          st = pick_id env st;
          stamp = stamp + 1 in
      and_then (res_vinit env stamp True st) (\<lambda>st. Inr (stamp, st, fds)))"

definition res_maybe_init ::
  "res_env \<Rightarrow> 64 word \<Rightarrow> bool \<Rightarrow> res_state \<Rightarrow> (res_state \<times> int list) cres" where
  "res_maybe_init env stamp preinit st =
     (if opt RES_INIT st then
        (if stamp \<noteq> initstamp st \<and> nscount st > 0 then
           (case res_nclose st of (st, fds) \<Rightarrow>
              and_then (res_vinit env stamp True (free_addrs st)) (\<lambda>st. Inr (st, fds)))
         else Inr (st, []))
      else if preinit then
        and_then (res_vinit env stamp True (pick_id env ((pre_defaults st)\<lparr>options := RES_DEFAULT\<rparr>))) (\<lambda>st. Inr (st, []))
      else and_then (res_ninit env stamp st) (\<lambda>st. Inr (st, [])))"

end
