(* ===== verification/Res_Init_Safe.thy ===== *)
theory Res_Init_Safe
  imports Res_Init
begin

text \<open>
  The bounds that every initialisation establishes, whatever the environment and the lines of the
  configuration file are, and what closing and re-initialising do to the descriptors.
\<close>

section \<open>Bounds of the state\<close>

definition arrays_ok :: "res_state \<Rightarrow> bool" where
  "arrays_ok st \<longleftrightarrow>
     length (nsaddr_list st) = MAXNS \<and> length (nsaddrs st) = MAXNS \<and> length (nssocks st) = MAXNS \<and>
     length (nsmap st) = MAXNS \<and> length (sort_list st) = MAXRESOLVSORT \<and>
     length (defdname st) = 256 \<and> defdname st ! 255 = 0 \<and> nsort st \<le> MAXRESOLVSORT"

definition search_ok :: "res_state \<Rightarrow> bool" where
  "search_ok st \<longleftrightarrow> 1 \<le> length (dnsrch st) \<and> length (dnsrch st) \<le> MAXDNSRCH \<and> (\<forall>p \<in> set (dnsrch st). p < 256)"

definition res_ok :: "res_state \<Rightarrow> bool" where
  "res_ok st \<longleftrightarrow> arrays_ok st \<and> search_ok st \<and> ndots st \<le> 15 \<and>
     1 \<le> nscount st \<and> nscount st \<le> int MAXNS \<and> 0 \<le> nscount6 st \<and> nscount6 st \<le> int MAXNS \<and>
     opt RES_INIT st"

text \<open>Options change only these fields.\<close>

definition res_frame where
  "res_frame st =
     ((nscount st, nsaddr_list st, dnsrch st, defdname st, nsort st, sort_list st),
      (vcsock st, nsaddrs st, nssocks st, nsmap st, nscount6 st, initstamp st))"

lemma frame_apply_option: "res_frame (apply_option cp st) = res_frame st"
  by (simp add: apply_option_def set_opt_def Let_def res_frame_def)

lemma zmod_le_15: "i mod 16 \<le> (15 :: int)"
  by presburger

lemma ndots_apply_option: "ndots st \<le> 15 \<Longrightarrow> ndots (apply_option cp st) \<le> 15"
  by (auto simp: apply_option_def set_opt_def Let_def nat_le_iff zmod_le_15)

lemma frame_setoptions: "res_frame (res_setoptions st cp) = res_frame st"
proof (induction st cp rule: res_setoptions.induct)
  case (1 st cp)
  show ?case
    by (subst res_setoptions.simps) (use 1 in \<open>simp add: Let_def frame_apply_option\<close>)
qed

lemma ndots_setoptions: "ndots st \<le> 15 \<Longrightarrow> ndots (res_setoptions st cp) \<le> 15"
proof (induction st cp rule: res_setoptions.induct)
  case (1 st cp)
  show ?case
    by (subst res_setoptions.simps) (use 1 in \<open>simp add: Let_def ndots_apply_option\<close>)
qed

lemma setoptions_sel [simp]:
  "nscount (res_setoptions st cp) = nscount st" "nsaddr_list (res_setoptions st cp) = nsaddr_list st"
  "dnsrch (res_setoptions st cp) = dnsrch st" "defdname (res_setoptions st cp) = defdname st"
  "nsort (res_setoptions st cp) = nsort st" "sort_list (res_setoptions st cp) = sort_list st"
  "vcsock (res_setoptions st cp) = vcsock st" "nsaddrs (res_setoptions st cp) = nsaddrs st"
  "nssocks (res_setoptions st cp) = nssocks st" "nsmap (res_setoptions st cp) = nsmap st"
  "nscount6 (res_setoptions st cp) = nscount6 st" "initstamp (res_setoptions st cp) = initstamp st"
  using frame_setoptions [of st cp] by (simp_all add: res_frame_def)

section \<open>Search lists\<close>

lemma copy_256_length [simp]: "length (copy_256 s) = 256"
  by (simp add: copy_256_def Let_def)

lemma copy_256_last [simp]: "copy_256 s ! 255 = 0"
  by (auto simp: copy_256_def Let_def nth_append)

lemma cut_at_length [simp]: "length (cut_at P b) = length b"
  by (simp add: cut_at_def)

lemma cut_at_zero [simp]: "b ! i = 0 \<Longrightarrow> i < length b \<Longrightarrow> cut_at P b ! i = 0"
  by (cases "i = length (takeWhile (\<lambda>c. c \<noteq> 0 \<and> \<not> P c) b)") (simp_all add: cut_at_def)

lemma split_finish_length [simp]: "length (split_finish nl b cp) = length b"
  by (induction nl b cp rule: split_finish.induct) (simp add: split_finish.simps)

lemma update_zero: "b ! i = 0 \<Longrightarrow> i < length b \<Longrightarrow> b[k := 0] ! i = (0 :: u8)"
  by (cases "i = k") auto

lemma split_finish_zero: "b ! i = 0 \<Longrightarrow> i < length b \<Longrightarrow> split_finish nl b cp ! i = 0"
proof (induction nl b cp rule: split_finish.induct)
  case (1 nl b cp)
  then show ?case by (subst split_finish.simps) (auto simp: update_zero)
qed

text \<open>The four ways of a turn.\<close>

lemma split_stop:
  assumes "length b \<le> cp \<or> b ! cp = 0 \<or> MAXDNSRCH \<le> length pp \<or> nl \<and> b ! cp = 0x0A"
  shows "split_loop nl b cp n pp = (split_finish nl b cp, pp)"
  using assms by (subst split_loop.simps) auto

lemma split_blank:
  assumes "cp < length b" "b ! cp \<noteq> 0" "length pp < MAXDNSRCH" "blank (b ! cp)"
  shows "split_loop nl b cp n pp = split_loop nl (b[cp := 0]) (cp + 1) True pp"
proof -
  have "b ! cp \<noteq> 0x0A" using assms(4) by (auto simp: blank_def)
  with assms show ?thesis by (subst split_loop.simps) simp
qed

lemma split_new:
  assumes "cp < length b" "b ! cp \<noteq> 0" "length pp < MAXDNSRCH" "\<not> blank (b ! cp)" "\<not> (nl \<and> b ! cp = 0x0A)"
  shows "split_loop nl b cp True pp = split_loop nl b (cp + 1) False (pp @ [cp])"
  using assms by (subst split_loop.simps) auto

lemma split_old:
  assumes "cp < length b" "b ! cp \<noteq> 0" "length pp < MAXDNSRCH" "\<not> blank (b ! cp)" "\<not> (nl \<and> b ! cp = 0x0A)"
  shows "split_loop nl b cp False pp = split_loop nl b (cp + 1) False pp"
  using assms by (subst split_loop.simps) auto

definition split_ok :: "u8 list \<Rightarrow> u8 list \<times> nat list \<Rightarrow> bool" where
  "split_ok b r \<longleftrightarrow>
     length (fst r) = length b \<and> (\<forall>p \<in> set (snd r). p < length b) \<and> snd r \<noteq> [] \<and>
     length (snd r) \<le> MAXDNSRCH \<and> (\<forall>i < length b. b ! i = 0 \<longrightarrow> fst r ! i = 0)"

lemma split_loop_ok:
  assumes "\<forall>p \<in> set pp. p < length b" "pp \<noteq> []" "length pp \<le> MAXDNSRCH"
  shows "split_ok b (split_loop nl b cp n pp)"
  using assms
proof (induction "length b - cp" arbitrary: b cp n pp rule: less_induct)
  case less
  show ?case
  proof (cases "length b \<le> cp \<or> b ! cp = 0 \<or> MAXDNSRCH \<le> length pp \<or> nl \<and> b ! cp = 0x0A")
    case True
    with less.prems show ?thesis by (simp add: split_stop split_ok_def split_finish_zero)
  next
    case False
    then have m: "length b - (cp + 1) < length b - cp" and l: "length pp < MAXDNSRCH" by auto
    consider (a) "blank (b ! cp)" | (b) "\<not> blank (b ! cp)" "n" | (c) "\<not> blank (b ! cp)" "\<not> n" by blast
    then show ?thesis
    proof cases
      case a
      have "split_ok (b[cp := 0]) (split_loop nl (b[cp := 0]) (cp + 1) True pp)"
        by (rule less.hyps) (use m less.prems in auto)
      then show ?thesis
        using False a l by (simp add: split_blank split_ok_def update_zero)
    next
      case b
      have "split_ok b (split_loop nl b (cp + 1) False (pp @ [cp]))"
        by (rule less.hyps) (use m l False less.prems in auto)
      then show ?thesis using False b l by (simp add: split_new)
    next
      case c
      have "split_ok b (split_loop nl b (cp + 1) False pp)"
        by (rule less.hyps) (use m less.prems in auto)
      then show ?thesis using False c l by (simp add: split_old)
    qed
  qed
qed

lemma set_search_ok:
  assumes "arrays_ok st" "length b = 256" "b ! 255 = 0"
  shows "arrays_ok (set_search nl b st)" "search_ok (set_search nl b st)"
proof -
  have "split_ok b (split_loop nl b 0 False [0])"
    by (rule split_loop_ok) (use assms(2) in \<open>auto simp: MAXDNSRCH_def\<close>)
  with assms show "arrays_ok (set_search nl b st)" "search_ok (set_search nl b st)"
    by (auto simp: set_search_def arrays_ok_def search_ok_def split_ok_def Suc_le_eq split: prod.splits)
qed

section \<open>The configuration file\<close>

text \<open>The ways of a turn of the loop of a sort list.\<close>

lemma sort_loop_turn:
  obtains "sort_loop b cp n sl = Inr (n, sl)" | "sort_loop b cp n sl = Inl Fault" | "sort_loop b cp n sl = Inl Diverges"
    | e where "sort_loop b cp n sl = sort_loop b e n sl" "cp < e" "e < length b"
    | e x where "sort_loop b cp n sl = sort_loop b e (n + 1) (sl[n := x])" "n < MAXRESOLVSORT" "cp \<le> e" "e < length b"
proof -
  define net where "net = skip_at blank b cp"
  define e where "e = skip_at addr_char b net"
  define f where "f = skip_at mask_char b (e + 1)"
  have ge: "cp \<le> e" "e < f"
    using skip_at_ge2 [of cp addr_char b blank] skip_at_ge [of "e + 1" mask_char b] by (simp_all add: e_def f_def net_def)
  have s: "sort_loop b cp n sl =
     (if MAXRESOLVSORT \<le> n then Inr (n, sl)
      else and_then (fetch b net) (\<lambda>c.
        if c = 0 \<or> c = 0x0A \<or> c = 0x3B then Inr (n, sl)
        else and_then (fetch b e) (\<lambda>nc.
          case inet_aton (slice_of b net e) of
            None \<Rightarrow> if e = cp then Inl Diverges else sort_loop b e n sl
          | Some a \<Rightarrow>
              if sortmask nc then
                and_then (fetch b f) (\<lambda>mc.
                sort_loop b f (n + 1)
                  (sl[n := (a, case inet_aton (slice_of b (e + 1) f) of Some m \<Rightarrow> m | None \<Rightarrow> net_mask a)]))
              else sort_loop b e (n + 1) (sl[n := (a, net_mask a)]))))"
    unfolding net_def e_def f_def by (subst sort_loop.simps) (simp only: Let_def)
  show thesis
  proof (cases "MAXRESOLVSORT \<le> n \<or> length b \<le> net \<or> b ! net = 0 \<or> b ! net = 0x0A \<or> b ! net = 0x3B \<or> length b \<le> e")
    case True
    with s show ?thesis using that(1,2) by (auto simp: fetch_def split: if_splits)
  next
    case False
    note t = s [simplified fetch_def]
    show ?thesis
    proof (cases "inet_aton (slice_of b net e)")
      case None
      with False t ge show ?thesis using that(3) that(4) [of e] by (cases "e = cp") auto
    next
      case (Some a)
      show ?thesis
      proof (cases "sortmask (b ! e)")
        case True
        with False Some t ge show ?thesis
          using that(2) that(5) [of f "(a, case inet_aton (slice_of b (e + 1) f) of Some m \<Rightarrow> m | None \<Rightarrow> net_mask a)"]
          by (cases "f < length b") auto
      next
        case mask: False
        with False Some t ge show ?thesis using that(5) [of e "(a, net_mask a)"] by auto
      qed
    qed
  qed
qed

lemma sort_loop_result:
  assumes "n \<le> MAXRESOLVSORT"
  shows "case sort_loop b cp n sl of
           Inl e \<Rightarrow> e = Fault \<or> e = Diverges
         | Inr r \<Rightarrow> fst r \<le> MAXRESOLVSORT \<and> length (snd r) = length sl"
  using assms
proof (induction "(length b - cp) + (MAXRESOLVSORT - n)" arbitrary: cp n sl rule: less_induct)
  case less
  show ?case
  proof (cases b cp n sl rule: sort_loop_turn)
    case (4 e)
    with less show ?thesis by simp
  next
    case (5 e x)
    then have "length b - e + (MAXRESOLVSORT - (n + 1)) < length b - cp + (MAXRESOLVSORT - n)" by simp
    from less.hyps [OF this, of "sl[n := x]"] 5 show ?thesis by (auto split: sum.splits)
  qed (use less.prems in simp_all)
qed

lemma sort_loop_ok:
  "sort_loop b cp n sl = Inr (n', sl') \<Longrightarrow> n \<le> MAXRESOLVSORT \<Longrightarrow> n' \<le> MAXRESOLVSORT \<and> length sl' = length sl"
  using sort_loop_result [of n sl b cp] by simp

text \<open>The errors of a configuration file come from its sort lists.\<close>

lemma sort_loop_errors: "sort_loop b cp n sl = Inl e \<Longrightarrow> e = Fault \<or> e = Diverges"
proof (cases "n \<le> MAXRESOLVSORT")
  case True
  then show "sort_loop b cp n sl = Inl e \<Longrightarrow> e = Fault \<or> e = Diverges"
    using sort_loop_result [of n sl b cp] by simp
next
  case False
  then show "sort_loop b cp n sl = Inl e \<Longrightarrow> e = Fault \<or> e = Diverges"
    by (simp add: sort_loop.simps)
qed

definition conf_ok :: "conf_state \<Rightarrow> bool" where
  "conf_ok c \<longleftrightarrow> arrays_ok (cst c) \<and> nserv c \<le> nservall c \<and> nservall c \<le> MAXNS \<and> csort c \<le> MAXRESOLVSORT \<and>
     (havesearch c \<longrightarrow> search_ok (cst c)) \<and> ndots (cst c) \<le> 15 \<and> nscount (cst c) = 1 \<and> nscount6 (cst c) = 0"

lemma set_search_sel [simp]:
  "ndots (set_search nl b st) = ndots st" "nscount (set_search nl b st) = nscount st"
  "nscount6 (set_search nl b st) = nscount6 st" "initstamp (set_search nl b st) = initstamp st"
  by (simp_all add: set_search_def split: prod.split)

lemma domain_line_ok: "conf_ok c \<Longrightarrow> conf_ok (domain_line line c)"
  by (simp add: domain_line_def Let_def conf_ok_def arrays_ok_def)

lemma search_line_ok: "conf_ok c \<Longrightarrow> conf_ok (search_line line c)"
  by (simp add: search_line_def Let_def conf_ok_def set_search_ok)

lemma nameserver_line_ok: "conf_ok c \<Longrightarrow> nservall c < MAXNS \<Longrightarrow> conf_ok (nameserver_line line c)"
  by (auto simp: nameserver_line_def Let_def conf_ok_def arrays_ok_def search_ok_def
      split: option.splits sum.splits)

lemma sortlist_line_ok: "conf_ok c \<Longrightarrow> sortlist_line c = Inr c' \<Longrightarrow> conf_ok c'"
  by (auto simp: sortlist_line_def and_then_eq_Inr conf_ok_def arrays_ok_def search_ok_def dest: sort_loop_ok)

lemma options_line_ok: "conf_ok c \<Longrightarrow> conf_ok (c\<lparr>cst := res_setoptions (cst c) s\<rparr>)"
  by (simp add: conf_ok_def arrays_ok_def search_ok_def ndots_setoptions)

lemma load_line_ok [simp]: "conf_ok (load_line l c) = conf_ok c"
  by (simp add: load_line_def conf_ok_def)

lemma conf_line_ok: "conf_ok c \<Longrightarrow> conf_line he c = Inr c' \<Longrightarrow> conf_ok c'"
  by (auto simp: conf_line_def Let_def domain_line_ok search_line_ok nameserver_line_ok sortlist_line_ok
      options_line_ok split: if_splits)

lemma conf_file_ok: "conf_ok c \<Longrightarrow> conf_file he ls c = Inr c' \<Longrightarrow> conf_ok c'"
  by (induction ls arbitrary: c) (simp, simp add: and_then_eq_Inr, metis conf_line_ok load_line_ok)

definition sortlist_of :: "cstring \<Rightarrow> bool" where
  "sortlist_of l \<longleftrightarrow> match_keyword (cstr_at (l @ [0]) 0) (ascii ''sortlist'')"

lemma load_line_cstr [simp]: "cstr_at (cbuf (load_line l c)) 0 = cstr_at (l @ [0]) 0"
  by (cases "0 \<in> set l") (auto simp: load_line_def cstr_at_def takeWhile_append)

lemma conf_line_errors:
  assumes "conf_line he (load_line l c) = Inl e"
  shows "(e = Fault \<or> e = Diverges) \<and> sortlist_of l"
  using assms sort_loop_errors
  by (auto simp: conf_line_def Let_def sortlist_of_def sortlist_line_def and_then_eq_Inl split: if_splits)

lemma conf_file_errors:
  "conf_file he ls c = Inl e \<Longrightarrow> (e = Fault \<or> e = Diverges) \<and> (\<exists>l \<in> set ls. sortlist_of l)"
  by (induction ls arbitrary: c) (auto simp: and_then_eq_Inl dest: conf_line_errors)

section \<open>Initialisation\<close>

definition env_ok :: "res_env \<Rightarrow> bool" where
  "env_ok env \<longleftrightarrow> (case hostname env of None \<Rightarrow> True | Some h \<Rightarrow> length h < 255)"

lemma vinit_defaults_ok:
  "arrays_ok st \<Longrightarrow> arrays_ok (vinit_defaults env stamp p st)"
  "ndots (vinit_defaults env stamp p st) = 1" "nscount (vinit_defaults env stamp p st) = 1"
  "nscount6 (vinit_defaults env stamp p st) = 0" "initstamp (vinit_defaults env stamp p st) = stamp"
  by (simp_all add: vinit_defaults_def Let_def arrays_ok_def)

lemma host_domain_sel [simp]:
  "ndots (host_domain env st) = ndots st" "nscount (host_domain env st) = nscount st"
  "nscount6 (host_domain env st) = nscount6 st" "nsort (host_domain env st) = nsort st"
  "dnsrch (host_domain env st) = dnsrch st" "initstamp (host_domain env st) = initstamp st"
  "nsaddr_list (host_domain env st) = nsaddr_list st" "nsaddrs (host_domain env st) = nsaddrs st"
  "nssocks (host_domain env st) = nssocks st" "nsmap (host_domain env st) = nsmap st"
  "sort_list (host_domain env st) = sort_list st"
  by (simp_all add: host_domain_def Let_def split: option.split)

lemma strcpy_ok:
  "length d < 255 \<Longrightarrow> d \<noteq> [] \<Longrightarrow> length b = 256 \<Longrightarrow> b ! 255 = (0 :: u8) \<Longrightarrow>
     length (tl d @ 0 # drop (length d) b) = 256 \<and> (tl d @ 0 # drop (length d) b) ! 255 = 0"
  by (cases d) (auto simp: nth_append nth_Cons')

lemma host_domain_ok:
  assumes "arrays_ok st" "env_ok env"
  shows "arrays_ok (host_domain env st)"
proof (cases "hostname env")
  case None
  then show ?thesis using assms by (simp add: host_domain_def)
next
  case (Some h)
  let ?d = "dropWhile (\<lambda>c. c \<noteq> 0x2E) h"
  show ?thesis
  proof (cases "cstr_at (defdname st) 0 = [] \<and> ?d \<noteq> []")
    case False
    then show ?thesis using Some assms by (auto simp: host_domain_def Let_def)
  next
    case True
    have "length ?d < 255"
      using Some assms(2) length_dropWhile_le [of "\<lambda>c. c \<noteq> 0x2E" h] by (simp add: env_ok_def)
    moreover have "host_domain env st = st\<lparr>defdname := tl ?d @ 0 # drop (length ?d) (defdname st)\<rparr>"
      using True Some by (simp only: host_domain_def Let_def if_True option.case simp_thms if_False)
    ultimately show ?thesis
      using strcpy_ok [of ?d "defdname st"] True assms(1) by (simp add: arrays_ok_def)
  qed
qed

lemma vinit_env_ok:
  assumes "arrays_ok st" "vinit_env s st = (st', hs)"
  shows "arrays_ok st'" "search_ok st'" "ndots st' = ndots st" "nscount st' = nscount st" "nscount6 st' = nscount6 st"
  using assms by (auto simp: vinit_env_def Let_def set_search_ok)

text \<open>The state in which the lines of the file are read.\<close>

definition conf_start :: "res_env \<Rightarrow> res_state \<times> bool \<Rightarrow> conf_state" where
  "conf_start env st =
     \<lparr>cst = fst st, cbuf = stack_buf env, nserv = 0, nservall = 0, havesearch = snd st, csort = 0, mallocs = alloc env\<rparr>"

definition env_start :: "res_env \<Rightarrow> 64 word \<Rightarrow> bool \<Rightarrow> res_state \<Rightarrow> res_state \<times> bool" where
  "env_start env stamp p st =
     (let st = vinit_defaults env stamp p st in
      case localdomain env of None \<Rightarrow> (st, False) | Some s \<Rightarrow> vinit_env s st)"

lemma conf_start_ok: "arrays_ok st \<Longrightarrow> conf_ok (conf_start env (env_start env stamp p st))"
  by (auto simp: conf_start_def env_start_def Let_def conf_ok_def vinit_defaults_ok vinit_env_def set_search_ok
      split: option.splits)

definition count_servers :: "conf_state \<Rightarrow> res_state" where
  "count_servers c =
     (let st = cst c;
          st = (if nserv c > 1 then st\<lparr>nscount := int (nserv c)\<rparr> else st);
          st = (if nservall c > nserv c then st\<lparr>nscount6 := int (nservall c - nserv c)\<rparr> else st)
      in st\<lparr>nsort := csort c\<rparr>)"

definition vinit_end :: "res_env \<Rightarrow> res_state \<times> bool \<Rightarrow> res_state" where
  "vinit_end env r =
     (case r of (st, hs) \<Rightarrow>
      let st = host_domain env st;
          st = (if hs then st else st\<lparr>dnsrch := [0]\<rparr>);
          st = (case res_options env of None \<Rightarrow> st | Some s \<Rightarrow> res_setoptions st s) in
      set_opt RES_INIT st)"

text \<open>The three parts of an initialisation.\<close>

lemma res_vinit_parts:
  "res_vinit env stamp p st =
     (case conf_lines env of
        None \<Rightarrow> Inr (vinit_end env (env_start env stamp p st))
      | Some ls \<Rightarrow>
          and_then (conf_file (localdomain env \<noteq> None) ls (conf_start env (env_start env stamp p st)))
            (\<lambda>c. Inr (vinit_end env (count_servers c, havesearch c))))"
  by (simp add: res_vinit_def vinit_conf_def env_start_def conf_start_def count_servers_def vinit_end_def Let_def
      and_then_def split: option.split sum.split prod.split)

lemma set_opt_init: "opt RES_INIT (set_opt RES_INIT st)"
proof -
  have "bit (options (set_opt RES_INIT st) AND RES_INIT) 0"
    by (simp add: set_opt_def RES_INIT_def bit_simps)
  then show ?thesis unfolding opt_def by (metis bit_0_eq bot_apply bot_bool_def)
qed

lemma set_opt_sel [simp]:
  "arrays_ok (set_opt b st) = arrays_ok st" "search_ok (set_opt b st) = search_ok st" "ndots (set_opt b st) = ndots st"
  "nscount (set_opt b st) = nscount st" "nscount6 (set_opt b st) = nscount6 st" "initstamp (set_opt b st) = initstamp st"
  by (simp_all add: set_opt_def arrays_ok_def search_ok_def)

lemma ok_sel [simp]:
  "arrays_ok (res_setoptions st s) = arrays_ok st" "search_ok (res_setoptions st s) = search_ok st"
  "arrays_ok (st\<lparr>dnsrch := ds\<rparr>) = arrays_ok st" "search_ok (st\<lparr>dnsrch := [0]\<rparr>)"
  "search_ok (host_domain env st) = search_ok st"
  by (simp_all add: arrays_ok_def search_ok_def MAXDNSRCH_def)

lemma vinit_end_ok:
  assumes "arrays_ok st" "hs \<Longrightarrow> search_ok st" "ndots st \<le> 15"
    and "1 \<le> nscount st" "nscount st \<le> int MAXNS" "0 \<le> nscount6 st" "nscount6 st \<le> int MAXNS" "env_ok env"
  shows "res_ok (vinit_end env (st, hs))"
  using assms host_domain_ok [OF assms(1,8)]
  by (simp add: vinit_end_def Let_def res_ok_def ndots_setoptions set_opt_init split: option.split)

text \<open>C28: Whatever the environment and the lines of the configuration file are, an initialisation
  that returns leaves all counts, offsets and array lengths of the state within their bounds; it
  fails to return only on a sortlist line.\<close>

theorem vinit_bounds:
  assumes "arrays_ok st" "env_ok env"
  shows "case res_vinit env stamp p st of
           Inr st' \<Rightarrow> res_ok st'
         | Inl e \<Rightarrow> (e = Fault \<or> e = Diverges) \<and> (\<exists>ls. conf_lines env = Some ls \<and> (\<exists>l \<in> set ls. sortlist_of l))"
proof (cases "conf_lines env")
  case None
  obtain st' hs where s: "env_start env stamp p st = (st', hs)" by fastforce
  have "arrays_ok st'" "hs \<Longrightarrow> search_ok st'" "ndots st' \<le> 15" "nscount st' = 1" "nscount6 st' = 0"
    using conf_start_ok [OF assms(1), of env stamp p] by (simp_all add: s conf_start_def conf_ok_def)
  then have "res_ok (vinit_end env (st', hs))" by (intro vinit_end_ok) (simp_all add: MAXNS_def assms(2))
  with None s show ?thesis by (simp add: res_vinit_parts)
next
  case (Some ls)
  let ?c = "conf_start env (env_start env stamp p st)"
  show ?thesis
  proof (cases "conf_file (localdomain env \<noteq> None) ls ?c")
    case (Inl e)
    with Some conf_file_errors [OF Inl] show ?thesis by (simp add: res_vinit_parts)
  next
    case (Inr c)
    have "conf_ok c" by (rule conf_file_ok [OF conf_start_ok [OF assms(1)] Inr])
    then have "res_ok (vinit_end env (count_servers c, havesearch c))"
      by (intro vinit_end_ok) (auto simp: count_servers_def Let_def conf_ok_def arrays_ok_def search_ok_def MAXNS_def assms(2))
    with Some Inr show ?thesis by (simp add: res_vinit_parts)
  qed
qed

text \<open>Without a sort list an initialisation returns.\<close>

lemma vinit_returns:
  assumes "\<And>ls. conf_lines env = Some ls \<Longrightarrow> \<not> (\<exists>l \<in> set ls. sortlist_of l)"
  shows "\<exists>st'. res_vinit env stamp p st = Inr st'"
proof (cases "conf_lines env")
  case None
  then show ?thesis by (simp add: res_vinit_parts)
next
  case (Some ls)
  show ?thesis
  proof (cases "conf_file (localdomain env \<noteq> None) ls (conf_start env (env_start env stamp p st))")
    case (Inl e)
    from conf_file_errors [OF this] assms [OF Some] show ?thesis by blast
  next
    case (Inr c)
    with Some show ?thesis by (simp add: res_vinit_parts)
  qed
qed

section \<open>Initialising once\<close>

lemma conf_line_stamp: "conf_line he c = Inr c' \<Longrightarrow> initstamp (cst c') = initstamp (cst c)"
  by (auto simp: conf_line_def Let_def domain_line_def search_line_def nameserver_line_def sortlist_line_def
      and_then_eq_Inr split: if_splits option.splits sum.splits)

lemma conf_file_stamp: "conf_file he ls c = Inr c' \<Longrightarrow> initstamp (cst c') = initstamp (cst c)"
  by (induction ls arbitrary: c) (auto simp: and_then_eq_Inr load_line_def dest: conf_line_stamp)

lemma env_start_stamp: "initstamp (fst (env_start env stamp p st)) = stamp"
  by (simp add: env_start_def Let_def vinit_env_def vinit_defaults_ok split: option.split)

lemma vinit_end_init: "opt RES_INIT (vinit_end env r)" "initstamp (vinit_end env r) = initstamp (fst r)"
  by (simp_all add: vinit_end_def Let_def set_opt_init split: prod.split option.split)

lemma vinit_stamp:
  assumes "res_vinit env stamp p st = Inr st'"
  shows "opt RES_INIT st'" "initstamp st' = stamp"
  using assms
  by (auto simp: res_vinit_parts and_then_eq_Inr vinit_end_init env_start_stamp count_servers_def Let_def conf_start_def
      dest!: conf_file_stamp split: option.splits)

text \<open>After __res_maybe_init has returned, a further call with the same initialisation stamp
  changes nothing and closes nothing.\<close>

theorem maybe_init_once:
  assumes "res_maybe_init env stamp p st = Inr (st', fds)"
  shows "res_maybe_init env' stamp p' st' = Inr (st', [])"
proof (cases "opt RES_INIT st \<and> \<not> (stamp \<noteq> initstamp st \<and> nscount st > 0)")
  case True
  with assms show ?thesis by (auto simp: res_maybe_init_def)
next
  case False
  with assms have "opt RES_INIT st' \<and> initstamp st' = stamp"
    by (auto simp: res_maybe_init_def res_ninit_def and_then_eq_Inr vinit_stamp split: if_splits prod.splits)
  then show ?thesis by (simp add: res_maybe_init_def)
qed

section \<open>Closing\<close>

definition open_fds :: "res_state \<Rightarrow> int list" where
  "open_fds st = (if vcsock st \<ge> 0 then [vcsock st] else []) @
     map (\<lambda>i. nssocks st ! i) (filter (\<lambda>i. nsaddrs st ! i \<noteq> None \<and> nssocks st ! i \<noteq> -1) [0..<MAXNS])"

lemma upt_MAXNS: "[0..<MAXNS] = [0, 1, 2]"
  by (simp add: MAXNS_def upt_rec)

lemma close_vc_sel [simp]:
  "nsaddrs (fst (close_vc st)) = nsaddrs st" "nssocks (fst (close_vc st)) = nssocks st" "vcsock (fst (close_vc st)) < 0"
  by (simp_all add: close_vc_def)

definition to_close :: "res_state \<Rightarrow> nat \<Rightarrow> nat list" where
  "to_close st k = filter (\<lambda>i. nsaddrs st ! i \<noteq> None \<and> nssocks st ! i \<noteq> -1) [0..<k]"

definition closed_socks :: "res_state \<Rightarrow> nat \<Rightarrow> int list" where
  "closed_socks st k =
     map (\<lambda>i. if i < k \<and> nsaddrs st ! i \<noteq> None then -1 else nssocks st ! i) [0..<length (nssocks st)]"

lemma closed_socks_step:
  assumes "k < length (nssocks st)"
  shows "closed_socks st (Suc k) = (if nsaddrs st ! k \<noteq> None then (closed_socks st k)[k := -1] else closed_socks st k)"
    and "closed_socks st k ! k = nssocks st ! k"
  using assms by (auto simp: closed_socks_def nth_list_update less_Suc_eq intro!: nth_equalityI)

lemma fold_close_ns:
  "k \<le> length (nssocks st) \<Longrightarrow>
     fold close_ns [0..<k] (st, fds) = (st\<lparr>nssocks := closed_socks st k\<rparr>, fds @ map (\<lambda>i. nssocks st ! i) (to_close st k))"
proof (induction k)
  case 0
  have "closed_socks st 0 = nssocks st" by (simp add: closed_socks_def map_nth)
  then show ?case by (simp add: to_close_def)
next
  case (Suc k)
  have "(closed_socks st k)[k := -1] = closed_socks st k" if "nssocks st ! k = -1"
    using Suc.prems that closed_socks_step(2) [of k st] by (metis Suc_le_eq list_update_id)
  then show ?case
    using Suc closed_socks_step [of k st] by (auto simp: close_ns_def to_close_def)
qed

text \<open>res_nclose closes the virtual circuit and every open server socket exactly once, in order,
  and leaves none open.\<close>

theorem nclose_closes:
  assumes "length (nssocks st) = MAXNS"
  shows "snd (res_nclose st) = open_fds st \<and> open_fds (fst (res_nclose st)) = []"
proof -
  obtain st1 fds where v: "close_vc st = (st1, fds)" by fastforce
  with close_vc_sel [of st] have s: "nsaddrs st1 = nsaddrs st" "nssocks st1 = nssocks st" "vcsock st1 < 0" by simp_all
  have fds: "fds = (if vcsock st \<ge> 0 then [vcsock st] else [])"
    using v by (auto simp: close_vc_def split: if_splits)
  have c: "res_nclose st =
      (st1\<lparr>nssocks := closed_socks st1 MAXNS, nsinit := 0\<rparr>, fds @ map (\<lambda>i. nssocks st ! i) (to_close st MAXNS))"
    using assms by (simp add: res_nclose_def v fold_close_ns s to_close_def)
  show ?thesis
    using assms s by (simp add: c open_fds_def fds to_close_def closed_socks_def filter_empty_conv)
qed

section \<open>Examples\<close>

definition zero_state :: res_state where
  "zero_state =
     \<lparr>retrans = 0, retry = 0, options = 0, nscount = 0, nsaddr_list = replicate 3 (Sin [0, 0, 0, 0] 0), id_of = 0,
      dnsrch = [], defdname = replicate 256 0, ndots = 0, nsort = 0,
      sort_list = replicate 10 ([0, 0, 0, 0], [0, 0, 0, 0]), res_h_errno = Netdb_success, vcsock = 0,
      flags_of = 0, nsaddrs = replicate 3 None, nssocks = replicate 3 0, nsmap = replicate 3 0, nscount6 = 0,
      nsinit = 0, nscount_ext = 0, pfcode = 0, initstamp = 0\<rparr>"

definition line_of :: "string \<Rightarrow> cstring" where
  "line_of s = ascii s @ [0x0A]"

definition env_of :: "cstring list \<Rightarrow> res_env" where
  "env_of ls =
     \<lparr>localdomain = None, res_options = Some (ascii ''rotate''), conf_lines = Some ls,
      hostname = Some (ascii ''h.net''), alloc = [], stack_buf = replicate 64 0, tv_sec = 1, tv_usec = 2, pid = 3\<rparr>"

definition example_env :: res_env where
  "example_env = env_of [line_of ''nameserver 1.2.3.4'', line_of ''search a.b c'', line_of ''options ndots:2'']"

lemma zero_state_ok: "arrays_ok zero_state"
  by (simp add: arrays_ok_def zero_state_def MAXNS_def MAXRESOLVSORT_def)

lemma example_env_ok: "env_ok example_env"
  by code_simp

lemma example_env_plain: "conf_lines example_env = Some ls \<Longrightarrow> \<not> (\<exists>l \<in> set ls. sortlist_of l)"
proof -
  have "\<not> list_ex sortlist_of (the (conf_lines example_env))" by code_simp
  then show "conf_lines example_env = Some ls \<Longrightarrow> \<not> (\<exists>l \<in> set ls. sortlist_of l)" by (auto simp: list_ex_iff)
qed

theorem vinit_bounds_witness: "\<exists>st'. res_vinit example_env 7 False zero_state = Inr st' \<and> res_ok st'"
  using vinit_bounds [OF zero_state_ok example_env_ok, of 7 False] example_env_plain by (auto split: sum.splits)

theorem maybe_init_once_witness:
  "\<exists>st fds. res_maybe_init example_env 7 True zero_state = Inr (st, fds) \<and> res_maybe_init example_env 7 True st = Inr (st, [])"
proof -
  have "\<not> opt RES_INIT zero_state" by (simp add: opt_def zero_state_def)
  then obtain st fds where "res_maybe_init example_env 7 True zero_state = Inr (st, fds)"
    using vinit_returns [of example_env 7 True] example_env_plain
    by (auto simp: res_maybe_init_def) (metis and_then_Inr)
  with maybe_init_once [OF this, of example_env True] show ?thesis by blast
qed

theorem nclose_closes_witness:
  "snd (res_nclose (zero_state\<lparr>nsaddrs := [None, Some (Sin [] 0), Some (Sin [] 0)], nssocks := [3, 4, -1]\<rparr>)) = [0, 4]"
proof -
  let ?st = "zero_state\<lparr>nsaddrs := [None, Some (Sin [] 0), Some (Sin [] 0)], nssocks := [3, 4, -1]\<rparr>"
  have "open_fds ?st = [0, 4]" by (simp add: open_fds_def upt_MAXNS zero_state_def)
  then show ?thesis using nclose_closes [of ?st] by (simp add: MAXNS_def)
qed

end
