(* ===== verification/Res_Init_Correct.thy ===== *)
theory Res_Init_Correct
  imports Res_Init_Safe
begin

text \<open>
  What the lines of the configuration file mean: the search list is the first six words of the last
  \<open>search\<close> line, the name servers are the first three of the file in order, options act one by one;
  and the sort list that never ends.
\<close>

section \<open>Words\<close>

definition word_end :: "cstring \<Rightarrow> cstring" where
  "word_end s = dropWhile (\<lambda>c. \<not> blank c) s"

definition first_word :: "cstring \<Rightarrow> cstring" where
  "first_word s = takeWhile (\<lambda>c. \<not> blank c) s"

function blank_words :: "cstring \<Rightarrow> cstring list" where
  "blank_words s =
     (let s = skip_blanks s in if s = [] then [] else first_word s # blank_words (word_end s))"
  by pat_completeness auto
termination
proof (relation "measure length", goal_cases)
  case (2 s x)
  then obtain c cs where s: "dropWhile blank s = c # cs" by (cases "dropWhile blank s") (auto simp: skip_blanks_def)
  then have "\<not> blank c" by (metis hd_dropWhile list.distinct(1) list.sel(1))
  moreover have "length (dropWhile (\<lambda>c. \<not> blank c) cs) \<le> length cs" by (rule length_dropWhile_le)
  moreover have "length cs < length s" using s length_dropWhile_le [of blank s] by simp
  ultimately show ?case using 2 s by (simp add: skip_blanks_def word_end_def)
qed simp

declare blank_words.simps [simp del]

lemma blank_words_nil [simp]: "blank_words [] = []"
  by (simp add: blank_words.simps skip_blanks_def)

lemma blank_words_blank [simp]: "blank c \<Longrightarrow> blank_words (c # s) = blank_words s"
  by (subst (1 2) blank_words.simps) (simp add: skip_blanks_def)

lemma blank_words_cons: "\<not> blank c \<Longrightarrow> blank_words (c # s) = (c # first_word s) # blank_words (word_end s)"
  by (subst blank_words.simps) (simp add: skip_blanks_def first_word_def word_end_def)

lemma first_word_cons [simp]: "first_word (c # s) = (if blank c then [] else c # first_word s)"
  by (simp add: first_word_def)

lemma word_end_cons [simp]: "word_end (c # s) = (if blank c then c # s else word_end s)"
  by (simp add: word_end_def)

lemma first_word_nil [simp]: "first_word [] = []" "word_end [] = []"
  by (simp_all add: first_word_def word_end_def)

section \<open>The search list\<close>

lemma split_finish_spec:
  assumes "0 \<notin> set R" "nl \<longrightarrow> 0x0A \<notin> set R"
  shows "\<exists>Z'. split_finish nl (P @ R @ 0 # Z) (length P) = P @ first_word R @ 0 # Z'"
  using assms
proof (induction R arbitrary: P)
  case Nil
  then show ?case by (simp add: split_finish.simps list_update_append)
next
  case (Cons c R)
  show ?case
  proof (cases "blank c")
    case True
    then show ?thesis by (simp add: split_finish.simps list_update_append)
  next
    case False
    from Cons.IH [of "P @ [c]"] Cons.prems False show ?thesis
      by (subst split_finish.simps) (auto simp: nth_append)
  qed
qed

lemma in_set_neq: "0 \<notin> set (W :: cstring) \<Longrightarrow> x \<in> set W \<Longrightarrow> x \<noteq> 0"
  by auto

lemma cstr_at_word: "0 \<notin> set W \<Longrightarrow> cstr_at (P @ W @ 0 # Z) (length P) = W"
  by (simp add: cstr_at_def takeWhile_append2 [of W "\<lambda>c. c \<noteq> 0"] in_set_neq)

text \<open>
  The loop at a position of the buffer: it leaves what is before it alone, ends the word it is in,
  and stores the positions of the words that follow, up to six in all.
\<close>

lemma split_loop_words:
  assumes "0 \<notin> set R" "nl \<longrightarrow> 0x0A \<notin> set R" "n \<longrightarrow> length pp < MAXDNSRCH" "length pp \<le> MAXDNSRCH"
  shows "\<exists>b' offs Z'. split_loop nl (P @ R @ 0 # Z) (length P) n pp = (b', pp @ offs) \<and>
      (if n then \<exists>Y. b' = P @ Y else b' = P @ first_word R @ 0 # Z') \<and>
      map (cstr_at b') offs = take (MAXDNSRCH - length pp) (blank_words (if n then R else word_end R))"
  using assms
proof (induction R arbitrary: P n pp)
  case Nil
  from split_finish_spec [of "[]" nl P Z]
  show ?case by (auto simp: split_stop)
next
  case (Cons c R)
  let ?b = "P @ (c # R) @ 0 # Z"
  have at: "length P < length ?b" "?b ! length P = c" by simp_all
  have c: "c \<noteq> 0" "\<not> (nl \<and> c = 0x0A)" using Cons.prems by auto
  show ?case
  proof (cases "length pp < MAXDNSRCH")
    case False
    with Cons.prems(3) have "\<not> n" by simp
    from split_finish_spec [OF Cons.prems(1,2), of P Z] False \<open>\<not> n\<close> show ?thesis by (auto simp: split_stop)
  next
    case l: True
    show ?thesis
    proof (cases "blank c")
      case True
      have "split_loop nl ?b (length P) n pp = split_loop nl (?b[length P := 0]) (length P + 1) True pp"
        by (rule split_blank) (use at c l True in simp_all)
      also have "?b[length P := 0] = (P @ [0]) @ R @ 0 # Z" by (simp add: list_update_append)
      finally have s: "split_loop nl ?b (length P) n pp = split_loop nl ((P @ [0]) @ R @ 0 # Z) (length (P @ [0])) True pp"
        by simp
      from Cons.IH [of True pp "P @ [0]"] Cons.prems l obtain b' offs Y where
        "split_loop nl ((P @ [0]) @ R @ 0 # Z) (length (P @ [0])) True pp = (b', pp @ offs)" "b' = (P @ [0]) @ Y"
        "map (cstr_at b') offs = take (MAXDNSRCH - length pp) (blank_words R)" by auto
      with s True show ?thesis by (intro exI [of _ b'] exI [of _ offs] exI [of _ Y]) auto
    next
      case nb: False
      show ?thesis
      proof (cases n)
        case True
        have s: "split_loop nl ?b (length P) n pp =
            split_loop nl ((P @ [c]) @ R @ 0 # Z) (length (P @ [c])) False (pp @ [length P])"
          using split_new [of "length P" ?b pp nl] at c l nb True by simp
        from Cons.IH [of False "pp @ [length P]" "P @ [c]"] Cons.prems l obtain b' offs Z' where o:
          "split_loop nl ((P @ [c]) @ R @ 0 # Z) (length (P @ [c])) False (pp @ [length P]) = (b', (pp @ [length P]) @ offs)"
          "b' = (P @ [c]) @ first_word R @ 0 # Z'"
          "map (cstr_at b') offs = take (MAXDNSRCH - length (pp @ [length P])) (blank_words (word_end R))" by auto
        have "0 \<notin> set (c # first_word R)" using Cons.prems(1) by (auto simp: first_word_def dest: set_takeWhileD)
        from cstr_at_word [OF this, of P Z'] o(2) have "cstr_at b' (length P) = c # first_word R" by simp
        moreover have "MAXDNSRCH - length pp = Suc (MAXDNSRCH - length (pp @ [length P]))" using l by simp
        ultimately have "map (cstr_at b') (length P # offs) = take (MAXDNSRCH - length pp) (blank_words (c # R))"
          using o(3) nb by (simp add: blank_words_cons)
        with s True nb o show ?thesis
          by (intro exI [of _ b'] exI [of _ "length P # offs"] exI [of _ Z']) auto
      next
        case False
        have s: "split_loop nl ?b (length P) n pp = split_loop nl ((P @ [c]) @ R @ 0 # Z) (length (P @ [c])) False pp"
          using split_old [of "length P" ?b pp nl] at c l nb False by simp
        from Cons.IH [of False pp "P @ [c]"] Cons.prems l obtain b' offs Z' where
          "split_loop nl ((P @ [c]) @ R @ 0 # Z) (length (P @ [c])) False pp = (b', pp @ offs)"
          "b' = (P @ [c]) @ first_word R @ 0 # Z'"
          "map (cstr_at b') offs = take (MAXDNSRCH - length pp) (blank_words (word_end R))" by auto
        with s False nb show ?thesis by (intro exI [of _ b'] exI [of _ offs] exI [of _ Z']) auto
      qed
    qed
  qed
qed

lemma set_search_domains:
  assumes "0 \<notin> set s" "nl \<longrightarrow> 0x0A \<notin> set s" "s \<noteq> []" "\<not> blank (hd s)"
  shows "domains (set_search nl (s @ 0 # Z) st) = take MAXDNSRCH (blank_words s)"
    and "cstr_at (defdname (set_search nl (s @ 0 # Z) st)) 0 \<noteq> []"
proof -
  obtain b' offs Z' where o: "split_loop nl (s @ 0 # Z) 0 False [0] = (b', 0 # offs)"
      "b' = first_word s @ 0 # Z'" "map (cstr_at b') offs = take (MAXDNSRCH - 1) (blank_words (word_end s))"
    using split_loop_words [OF assms(1,2), of False "[0]" "[]" Z] by (auto simp: MAXDNSRCH_def)
  have "0 \<notin> set (first_word s)" using assms(1) by (auto simp: first_word_def dest: set_takeWhileD)
  from cstr_at_word [OF this, of "[]" Z'] have "cstr_at b' 0 = first_word s" by (simp add: o(2))
  moreover have "blank_words s = first_word s # blank_words (word_end s)"
    using assms(3,4) by (cases s) (simp_all add: blank_words_cons)
  moreover have "first_word s \<noteq> []" using assms(3,4) by (cases s) simp_all
  ultimately show "domains (set_search nl (s @ 0 # Z) st) = take MAXDNSRCH (blank_words s)"
    "cstr_at (defdname (set_search nl (s @ 0 # Z) st)) 0 \<noteq> []"
    using o(3) by (simp_all add: set_search_def o(1) domains_def MAXDNSRCH_def)
qed

lemma copy_cut:
  assumes "0 \<notin> set t" "0x0A \<notin> set t"
  shows "\<exists>Z. cut_at (\<lambda>c. c = 0x0A) (copy_256 (t @ [0x0A])) = take 255 t @ 0 # Z"
proof -
  obtain d Z where "copy_256 (t @ [0x0A]) = take 255 t @ d # Z" "d = 0x0A \<or> d = 0"
    by (cases "length t < 255") (auto simp: copy_256_def Let_def Cons_replicate_eq)
  moreover have "takeWhile (\<lambda>c. c \<noteq> 0 \<and> c \<noteq> 0x0A) (take 255 t @ d # Z) = take 255 t" if "d = 0x0A \<or> d = 0"
    using assms that by (subst takeWhile_append2) (auto dest: in_set_takeD)
  ultimately show ?thesis by (auto simp: cut_at_def list_update_append)
qed

definition search_text :: "u8 \<Rightarrow> cstring \<Rightarrow> cstring" where
  "search_text sep s = ascii ''search'' @ sep # s @ [0x0A]"

lemma skip_blanks_append: "skip_blanks s \<noteq> [] \<Longrightarrow> skip_blanks (s @ t) = skip_blanks s @ t"
  unfolding skip_blanks_def by (induction s) auto

lemma skip_blanks_hd: "skip_blanks s \<noteq> [] \<Longrightarrow> \<not> blank (hd (skip_blanks s))"
  unfolding skip_blanks_def by (rule hd_dropWhile)

lemma skip_blanks_set: "x \<in> set (skip_blanks s) \<Longrightarrow> x \<in> set s"
  unfolding skip_blanks_def by (rule set_dropWhileD)

lemma blank_words_skip: "blank_words (skip_blanks s) = blank_words s"
  unfolding skip_blanks_def by (induction s) auto

lemma search_line_words:
  assumes "blank sep" "0 \<notin> set s" "0x0A \<notin> set s" "blank_words s \<noteq> []"
  shows "domains (cst (search_line (search_text sep s) c)) = take MAXDNSRCH (blank_words (take 255 (skip_blanks s)))"
    and "cstr_at (defdname (cst (search_line (search_text sep s) c))) 0 \<noteq> []"
    and "havesearch (search_line (search_text sep s) c)"
proof -
  let ?t = "skip_blanks s"
  let ?u = "take 255 ?t"
  have ne: "?t \<noteq> []" using assms(4) by (subst (asm) blank_words.simps) auto
  have "drop 6 (search_text sep s) = sep # s @ [0x0A]" by (simp add: search_text_def ascii_def)
  then have d: "skip_blanks (drop 6 (search_text sep s)) = ?t @ [0x0A]"
    using skip_blanks_append [OF ne, of "[0x0A]"] assms(1) by (simp add: skip_blanks_def)
  have "hd ?t \<noteq> 0x0A" using ne assms(3) skip_blanks_set [of "hd ?t" s] by auto
  then have e: "\<not> empty_rest (?t @ [0x0A])" using ne by (simp add: empty_rest_def)
  obtain Z where Z: "cut_at (\<lambda>c. c = 0x0A) (copy_256 (?t @ [0x0A])) = ?u @ 0 # Z"
    using copy_cut [of ?t] assms(2,3) skip_blanks_set by blast
  have u: "0 \<notin> set ?u" "False \<longrightarrow> 0x0A \<notin> set ?u" "?u \<noteq> []" "\<not> blank (hd ?u)"
    using assms(2) skip_blanks_set ne skip_blanks_hd [OF ne] by (auto dest: in_set_takeD)
  note set_search_domains [OF u, of Z "cst c"]
  then show "domains (cst (search_line (search_text sep s) c)) = take MAXDNSRCH (blank_words ?u)"
    "cstr_at (defdname (cst (search_line (search_text sep s) c))) 0 \<noteq> []" "havesearch (search_line (search_text sep s) c)"
    by (simp_all add: search_line_def d e Z)
qed

definition sets_search :: "cstring \<Rightarrow> bool" where
  "sets_search l \<longleftrightarrow>
     match_keyword (cstr_at (l @ [0]) 0) (ascii ''domain'') \<or> match_keyword (cstr_at (l @ [0]) 0) (ascii ''search'')"

text \<open>The part of the state that the search list is made of.\<close>

definition search_part :: "conf_state \<Rightarrow> nat list \<times> u8 list \<times> bool" where
  "search_part c = (dnsrch (cst c), defdname (cst c), havesearch c)"

lemma search_part_lines [simp]:
  "search_part (load_line l c) = search_part c"
  "search_part (c\<lparr>cst := res_setoptions (cst c) s\<rparr>) = search_part c"
  "search_part (nameserver_line line c) = search_part c"
  by (auto simp: search_part_def load_line_def nameserver_line_def Let_def split: option.split sum.split)

lemma search_part_sortlist: "sortlist_line c = Inr c' \<Longrightarrow> search_part c' = search_part c"
  by (auto simp: search_part_def sortlist_line_def and_then_eq_Inr)

lemma conf_line_search_part:
  assumes "\<not> sets_search l" "conf_line he (load_line l c) = Inr c'"
  shows "search_part c' = search_part c"
proof -
  let ?c = "load_line l c"
  from assms have "c' = ?c \<or> c' = nameserver_line (cstr_at (l @ [0]) 0) ?c \<or> sortlist_line ?c = Inr c' \<or>
      c' = ?c\<lparr>cst := res_setoptions (cst ?c) (drop 7 (cstr_at (l @ [0]) 0))\<rparr>"
    unfolding sets_search_def conf_line_def Let_def load_line_cstr by (simp split: if_splits)
  then show ?thesis using search_part_sortlist [of ?c c'] by auto
qed

lemma conf_file_search_part:
  "\<forall>l \<in> set ls. \<not> sets_search l \<Longrightarrow> conf_file he ls c = Inr c' \<Longrightarrow> search_part c' = search_part c"
  by (induction ls arbitrary: c) (auto simp: and_then_eq_Inr dest: conf_line_search_part)

lemma conf_file_append:
  "conf_file he (ls @ ls') c = and_then (conf_file he ls c) (conf_file he ls')"
  by (induction ls arbitrary: c) (auto simp: and_then_def split: sum.splits)

lemma conf_line_search:
  assumes "blank sep" "0 \<notin> set s"
  shows "conf_line False (load_line (search_text sep s) c) = Inr (search_line (search_text sep s) (load_line (search_text sep s) c))"
proof -
  have "sep \<noteq> 0" using assms(1) by (auto simp: blank_def)
  then have "cstr_at (search_text sep s @ [0]) 0 = search_text sep s"
    using assms by (subst cstr_at_word [of _ "[]", simplified]) (auto simp: search_text_def ascii_def)
  moreover have "match_keyword (search_text sep s) (ascii ''search'')" "\<not> match_keyword (search_text sep s) (ascii ''domain'')"
      "hd (search_text sep s) = 0x73"
    using assms(1) by (simp_all add: match_keyword_def starts_def search_text_def ascii_def blank_def)
  ultimately show ?thesis by (simp add: conf_line_def Let_def)
qed


section \<open>The name servers\<close>

definition server_text :: "cstring \<Rightarrow> cstring" where
  "server_text s = ascii ''nameserver '' @ s @ [0x0A]"

text \<open>An IPv4 or an IPv6 address.\<close>

definition server_of :: "cstring \<Rightarrow> (sock_addr + sock_addr) option" where
  "server_of s = (case inet_aton (s @ [0x0A]) of Some a \<Rightarrow> Some (Inl (Sin a 53)) | None \<Rightarrow> map_option (\<lambda>a. Inr (Sin6 a 53)) (inet_pton6 s))"

definition server_name :: "cstring \<Rightarrow> bool" where
  "server_name s \<longleftrightarrow> s \<noteq> [] \<and> \<not> blank (hd s) \<and> 0 \<notin> set s \<and> 0x0A \<notin> set s \<and> server_of s \<noteq> None"

fun ipv4_of :: "('a + 'b) list \<Rightarrow> 'a list" where
  "ipv4_of [] = []"
| "ipv4_of (Inl a # xs) = a # ipv4_of xs"
| "ipv4_of (Inr a # xs) = ipv4_of xs"

lemma ipv4_of_append [simp]: "ipv4_of (xs @ ys) = ipv4_of xs @ ipv4_of ys"
  by (induction xs rule: ipv4_of.induct) simp_all

lemma ipv4_of_length: "length (ipv4_of xs) \<le> length xs"
  by (induction xs rule: ipv4_of.induct) simp_all

definition ipv6_slots :: "(sock_addr + sock_addr) list \<Rightarrow> sock_addr option list" where
  "ipv6_slots S = map (case_sum (\<lambda>a. None) Some) S @ replicate (MAXNS - length S) None"

definition map_slots :: "(sock_addr + sock_addr) list \<Rightarrow> nat list" where
  "map_slots S = map (case_sum (\<lambda>a. MAXNS) (\<lambda>a. MAXNS + 1)) S @ replicate (MAXNS - length S) MAXNS"

definition servers_inv :: "(sock_addr + sock_addr) list \<Rightarrow> conf_state \<Rightarrow> bool" where
  "servers_inv S c \<longleftrightarrow>
     nservall c = length S \<and> nserv c = length (ipv4_of S) \<and> mallocs c = [] \<and>
     length (nsaddr_list (cst c)) = MAXNS \<and> take (nserv c) (nsaddr_list (cst c)) = ipv4_of S \<and>
     nsaddrs (cst c) = ipv6_slots S \<and> nsmap (cst c) = map_slots S"

lemma slots_snoc:
  assumes "length S < MAXNS"
  shows "(ipv6_slots S)[length S := Some a] = ipv6_slots (S @ [Inr a])" "ipv6_slots S = ipv6_slots (S @ [Inl b])"
    and "(map_slots S)[length S := MAXNS + 1] = map_slots (S @ [Inr a])" "map_slots S = map_slots (S @ [Inl b])"
proof -
  have r: "replicate (MAXNS - length S) x = x # replicate (MAXNS - length (S @ [y])) x" for x :: 'z and y
    using assms by (simp add: Suc_diff_Suc flip: replicate_Suc)
  show "(ipv6_slots S)[length S := Some a] = ipv6_slots (S @ [Inr a])" "ipv6_slots S = ipv6_slots (S @ [Inl b])"
    "(map_slots S)[length S := MAXNS + 1] = map_slots (S @ [Inr a])" "map_slots S = map_slots (S @ [Inl b])"
    by (simp_all add: ipv6_slots_def map_slots_def r [of _ "Inl b"] list_update_append)
qed

lemma conf_line_server:
  assumes "server_name s"
  shows "conf_line he (load_line (server_text s) c) =
      Inr (if nservall c < MAXNS then nameserver_line (server_text s) (load_line (server_text s) c)
           else load_line (server_text s) c)"
proof -
  have "cstr_at (server_text s @ [0]) 0 = server_text s"
    using assms by (subst cstr_at_word [of _ "[]", simplified]) (auto simp: server_text_def ascii_def server_name_def)
  moreover have "match_keyword (server_text s) (ascii ''nameserver'')" "\<not> match_keyword (server_text s) (ascii ''domain'')"
      "\<not> match_keyword (server_text s) (ascii ''search'')" "\<not> match_keyword (server_text s) (ascii ''sortlist'')"
      "\<not> match_keyword (server_text s) (ascii ''options'')" "hd (server_text s) = 0x6E"
    by (simp_all add: match_keyword_def starts_def server_text_def ascii_def blank_def)
  ultimately show ?thesis by (simp add: conf_line_def Let_def) (simp add: load_line_def)
qed

lemma nameserver_line_step:
  assumes "server_name s" "servers_inv S c" "length S < MAXNS"
  shows "servers_inv (S @ [the (server_of s)]) (nameserver_line (server_text s) c)"
proof -
  from assms(1) have "s \<noteq> []" "\<not> blank (hd s)" by (simp_all add: server_name_def)
  then have rest: "skip_blanks (drop 10 (server_text s)) = s @ [0x0A]"
    by (cases s) (simp_all add: server_text_def ascii_def skip_blanks_def blank_def)
  have ne: "\<not> empty_rest (s @ [0x0A])" using assms(1) by (cases s) (auto simp: empty_rest_def server_name_def)
  have tw: "takeWhile (\<lambda>x. x \<noteq> 0x0A) (s @ [0x0A]) = s"
    using assms(1) by (subst takeWhile_append2) (auto simp: server_name_def)
  have len: "length (ipv4_of S) < MAXNS" using ipv4_of_length [of S] assms(3) by simp
  show ?thesis
  proof (cases "inet_aton (s @ [0x0A])")
    case (Some a)
    then show ?thesis
      using assms(2,3) len slots_snoc(2,4) [OF assms(3), of "Sin a 53"]
      by (auto simp: nameserver_line_def rest ne server_of_def servers_inv_def Let_def take_Suc_conv_app_nth)
  next
    case None
    with assms(1) obtain a where "inet_pton6 s = Some a" by (auto simp: server_name_def server_of_def)
    with None \<open>s \<noteq> []\<close> show ?thesis
      using assms(2,3) slots_snoc(1,3) [OF assms(3)]
      by (auto simp: nameserver_line_def rest ne tw server_of_def servers_inv_def Let_def inet_pton_def)
  qed
qed

lemma load_line_inv [simp]: "servers_inv S (load_line l c) = servers_inv S c"
  by (simp add: servers_inv_def load_line_def)

lemma conf_file_servers:
  assumes "\<forall>s \<in> set ss. server_name s" "servers_inv S c" "length S \<le> MAXNS"
  shows "\<exists>c'. conf_file he (map server_text ss) c = Inr c' \<and>
      servers_inv (take MAXNS (S @ map (\<lambda>s. the (server_of s)) ss)) c'"
  using assms
proof (induction ss arbitrary: S c)
  case Nil
  then show ?case by simp
next
  case (Cons s ss)
  let ?c = "load_line (server_text s) c"
  from Cons.prems(2) have all: "nservall c = length S" by (simp add: servers_inv_def)
  show ?case
  proof (cases "length S < MAXNS")
    case True
    have "servers_inv (S @ [the (server_of s)]) (nameserver_line (server_text s) ?c)"
      by (rule nameserver_line_step) (use Cons.prems True in simp_all)
    from Cons.IH [OF _ this] Cons.prems(1) True show ?thesis by (simp add: conf_line_server all)
  next
    case False
    with Cons.IH [of S ?c] Cons.prems show ?thesis by (simp add: conf_line_server all)
  qed
qed

lemma env_start_servers:
  assumes "arrays_ok st" "alloc env = []"
  shows "servers_inv [] (conf_start env (env_start env stamp p st))"
  using assms
  by (auto simp: servers_inv_def conf_start_def env_start_def vinit_env_def vinit_defaults_def set_search_def Let_def
      arrays_ok_def ipv6_slots_def map_slots_def split: option.split prod.split)

lemma vinit_end_servers [simp]:
  "nsaddr_list (vinit_end env r) = nsaddr_list (fst r)" "nsaddrs (vinit_end env r) = nsaddrs (fst r)"
  "nsmap (vinit_end env r) = nsmap (fst r)" "nscount (vinit_end env r) = nscount (fst r)"
  "nscount6 (vinit_end env r) = nscount6 (fst r)"
  by (simp_all add: vinit_end_def Let_def set_opt_def split: prod.split option.split)

text \<open>C27: From a file of nameserver lines the first three are used: the IPv4 addresses in order in
  nsaddr_list, each IPv6 address in the slot of its position, with the counts and the map of the
  slots.\<close>

theorem nameservers_read:
  assumes "arrays_ok st" "alloc env = []" "conf_lines env = Some (map server_text ss)" "\<forall>s \<in> set ss. server_name s"
  shows "\<exists>st'. res_vinit env stamp p st = Inr st' \<and>
      (let S = take MAXNS (map (\<lambda>s. the (server_of s)) ss); v4 = ipv4_of S in
       take (length v4) (nsaddr_list st') = v4 \<and> nscount st' = max 1 (int (length v4)) \<and>
       nsaddrs st' = ipv6_slots S \<and> nscount6 st' = int (length S - length v4) \<and> nsmap st' = map_slots S)"
proof -
  let ?S = "take MAXNS (map (\<lambda>s. the (server_of s)) ss)"
  obtain c where c: "conf_file (localdomain env \<noteq> None) (map server_text ss) (conf_start env (env_start env stamp p st)) = Inr c"
    and inv: "servers_inv ?S c"
    using conf_file_servers [OF assms(4) env_start_servers [OF assms(1,2)]] by (metis append_Nil bot_nat_0.extremum list.size(3))
  have ok: "conf_ok c" by (rule conf_file_ok [OF conf_start_ok [OF assms(1)] c])
  have v: "res_vinit env stamp p st = Inr (vinit_end env (count_servers c, havesearch c))"
    using c by (simp add: res_vinit_parts assms(3))
  obtain S where S: "?S = S" by blast
  have "take (length (ipv4_of S)) (nsaddr_list (count_servers c)) = ipv4_of S"
      "nsaddrs (count_servers c) = ipv6_slots S" "nsmap (count_servers c) = map_slots S"
      "nscount (count_servers c) = max 1 (int (length (ipv4_of S)))"
      "nscount6 (count_servers c) = int (length S - length (ipv4_of S))"
    using inv ok unfolding S by (auto simp: count_servers_def servers_inv_def conf_ok_def Let_def)
  then show ?thesis unfolding v Let_def S by simp
qed

section \<open>A sort list that never ends\<close>

lemma skip_at_append:
  assumes "\<forall>c \<in> set s. P c" "\<not> P d"
  shows "skip_at P (pre @ s @ d # r) (length pre) = length pre + length s"
  using assms by (simp add: skip_at_def takeWhile_append2)

text \<open>An entry of a sort list: blanks, an address, and perhaps a separator and a mask.\<close>

type_synonym sort_entry = "cstring \<times> cstring \<times> (u8 \<times> cstring) option"

fun entry_text :: "sort_entry \<Rightarrow> cstring" where
  "entry_text (bs, a, None) = bs @ a"
| "entry_text (bs, a, Some (d, m)) = bs @ a @ d # m"

fun entry_ok :: "sort_entry \<Rightarrow> bool" where
  "entry_ok (bs, a, m) \<longleftrightarrow>
     bs \<noteq> [] \<and> list_all blank bs \<and> inet_aton a \<noteq> None \<and> list_all addr_char a \<and>
     (case m of None \<Rightarrow> True | Some (d, m) \<Rightarrow> (d = 0x2F \<or> d = 0x26) \<and> list_all mask_char m)"

definition sort_text :: "sort_entry list \<Rightarrow> cstring \<Rightarrow> cstring" where
  "sort_text es bs = ascii ''sortlist'' @ concat (map entry_text es) @ bs @ [0x0D, 0x0A]"

lemma aton_nil: "inet_aton [] = None"
  by (simp add: inet_aton_def aton_loop.simps strtoul0_def is_digit_of_def)

lemma list_all_hd: "xs \<noteq> [] \<Longrightarrow> list_all P xs \<Longrightarrow> P (hd xs)"
  by (cases xs) auto

lemma addr_char_facts:
  "addr_char c \<Longrightarrow> \<not> blank c \<and> c \<noteq> 0 \<and> c \<noteq> 0x0A \<and> c \<noteq> 0x3B"
  "isspace c \<Longrightarrow> \<not> addr_char c" "c = 0x2F \<or> c = 0x26 \<Longrightarrow> \<not> addr_char c \<and> sortmask c \<and> c \<noteq> 0"
  "isspace c \<Longrightarrow> \<not> mask_char c \<and> \<not> sortmask c"
  by (auto simp: addr_char_def mask_char_def blank_def isspace_def sortmask_def)

text \<open>One entry is one turn of the loop.\<close>

lemma sort_entry_turn:
  assumes "entry_ok e" "n < MAXRESOLVSORT" "isspace d" "b = pre @ entry_text e @ d # r"
  shows "\<exists>sl'. sort_loop b (length pre) n sl = sort_loop b (length (pre @ entry_text e)) (n + 1) sl'"
proof -
  obtain bs a m where e: "e = (bs, a, m)" by (cases e)
  obtain x where x: "inet_aton a = Some x" using assms(1) by (auto simp: e)
  have ne: "a \<noteq> []" using x aton_nil by auto
  have ok: "list_all blank bs" "list_all addr_char a" using assms(1) by (simp_all add: e)
  have h: "\<not> blank (hd a)" "hd a \<noteq> 0" "hd a \<noteq> 0x0A" "hd a \<noteq> 0x3B"
    using addr_char_facts(1) list_all_hd [OF ne ok(2)] by auto
  obtain stop tail where st: "entry_text e @ d # r = bs @ a @ stop # tail" "\<not> addr_char stop"
    "m = None \<Longrightarrow> stop = d" "\<And>c k. m = Some (c, k) \<Longrightarrow> stop = c \<and> tail = k @ d # r"
    using assms(1,3) addr_char_facts(2,3)
    by (cases m) (auto simp: e split: prod.splits)
  have b: "b = pre @ bs @ hd a # tl a @ stop # tail" "b = (pre @ bs) @ a @ stop # tail"
    using assms(4) st(1) ne by simp_all
  have net: "skip_at blank b (length pre) = length (pre @ bs)"
    using skip_at_append [of bs blank "hd a" pre "tl a @ stop # tail"] ok(1) h(1) b(1) by (simp add: list_all_iff)
  have en: "skip_at addr_char b (length (pre @ bs)) = length (pre @ bs @ a)"
    using skip_at_append [of a addr_char stop "pre @ bs" tail] ok(2) st(2) b(2) by (simp add: list_all_iff)
  have at: "length (pre @ bs) < length b" "b ! length (pre @ bs) = hd a" "length (pre @ bs @ a) < length b"
    "b ! length (pre @ bs @ a) = stop"
    using b ne by (auto simp: nth_append hd_conv_nth)
  have sl: "slice_of b (length (pre @ bs)) (length (pre @ bs @ a)) = a"
    by (simp add: slice_of_def b(2))
  show ?thesis
  proof (cases m)
    case None
    then have "\<not> sortmask stop" using st(3) assms(3) addr_char_facts(4) by simp
    then have "sort_loop b (length pre) n sl = sort_loop b (length (pre @ bs @ a)) (n + 1) (sl[n := (x, net_mask x)])"
      by (subst sort_loop.simps) (use assms(2) at h in \<open>simp add: Let_def net en [unfolded length_append] sl [unfolded length_append] x\<close>)
    then show ?thesis by (auto simp: e None)
  next
    case (Some p)
    then obtain c k where p: "m = Some (c, k)" by (cases p) auto
    have c: "stop = c" "sortmask c" "list_all mask_char k"
      using assms(1) st(4) [OF p] addr_char_facts(3) by (auto simp: e p)
    have b2: "b = (pre @ bs @ a @ [c]) @ k @ d # r" using b(2) st(4) [OF p] c(1) by simp
    have f: "skip_at mask_char b (length (pre @ bs @ a @ [c])) = length (pre @ bs @ a @ c # k)"
      using skip_at_append [of k mask_char d "pre @ bs @ a @ [c]" r] c(3) addr_char_facts(4) [OF assms(3)] b2
      by (simp add: list_all_iff)
    have fl: "length (pre @ bs @ a @ c # k) < length b" by (simp add: b2)
    have "\<exists>y. sort_loop b (length pre) n sl = sort_loop b (length (pre @ bs @ a @ c # k)) (n + 1) (sl[n := y])"
      by (subst sort_loop.simps)
         (use assms(2) at h c f fl in \<open>auto simp: Let_def net en [unfolded length_append] sl [unfolded length_append] x\<close>)
    then show ?thesis by (auto simp: e p)
  qed
qed

lemma sort_entries:
  assumes "list_all entry_ok es" "n + length es \<le> MAXRESOLVSORT" "isspace d" "b = pre @ concat (map entry_text es) @ d # r"
  shows "\<exists>sl'. sort_loop b (length pre) n sl =
    sort_loop b (length (pre @ concat (map entry_text es))) (n + length es) sl'"
  using assms
proof (induction es arbitrary: n pre sl)
  case (Cons e es)
  let ?rest = "concat (map entry_text es) @ d # r"
  obtain d' r' where d': "?rest = d' # r'" "isspace d'"
  proof (cases es)
    case (Cons e' es')
    obtain bs a m where e': "e' = (bs, a, m)" by (cases e')
    then have "bs \<noteq> []" "blank (hd bs)" using Cons.prems(1) \<open>es = e' # es'\<close> by (auto intro: list_all_hd)
    moreover have "\<exists>z. entry_text e' = bs @ z" by (cases m) (auto simp: e')
    ultimately show ?thesis
      using that [of "hd bs"] \<open>es = e' # es'\<close> by (cases bs) (auto simp: blank_def isspace_def)
  qed (use that Cons.prems(3) in simp)
  obtain sl1 where "sort_loop b (length pre) n sl = sort_loop b (length (pre @ entry_text e)) (n + 1) sl1"
    using sort_entry_turn [of e n d' b pre r' sl] Cons.prems d' by auto
  moreover obtain sl2 where "sort_loop b (length (pre @ entry_text e)) (n + 1) sl1 =
      sort_loop b (length ((pre @ entry_text e) @ concat (map entry_text es))) (n + 1 + length es) sl2"
    using Cons.IH [of "n + 1" "pre @ entry_text e" sl1] Cons.prems by auto
  ultimately show ?case by auto
qed auto

text \<open>At a carriage return the loop stays where it is.\<close>

lemma sort_stuck:
  assumes "b = pre @ 0x0D # r" "n < MAXRESOLVSORT"
  shows "sort_loop b (length pre) n sl = Inl Diverges"
proof -
  have "skip_at P b (length pre) = length pre" if "\<not> P 0x0D" for P
    using skip_at_append [of "[]" P "0x0D" pre r] that assms(1) by simp
  then have "skip_at blank b (length pre) = length pre" "skip_at addr_char b (length pre) = length pre"
    by (simp_all add: blank_def addr_char_def isspace_def)
  then show ?thesis
    by (subst sort_loop.simps) (use assms in \<open>simp add: Let_def slice_of_def aton_nil\<close>)
qed

lemma sort_blanks_stuck:
  assumes "b = pre @ bs @ 0x0D # r" "list_all blank bs" "n < MAXRESOLVSORT"
  shows "sort_loop b (length pre) n sl = Inl Diverges"
proof (cases "bs = []")
  case True
  then show ?thesis using sort_stuck [of b pre r n sl] assms by simp
next
  case False
  have stop: "\<not> blank 0x0D" "\<not> addr_char 0x0D" by (simp_all add: blank_def addr_char_def isspace_def)
  have "skip_at blank b (length pre) = length (pre @ bs)"
    using skip_at_append [of bs blank "0x0D" pre r] stop assms(1,2) by (simp add: list_all_iff)
  moreover have "skip_at addr_char b (length (pre @ bs)) = length (pre @ bs)"
    using skip_at_append [of "[]" addr_char "0x0D" "pre @ bs" r] stop assms(1) by simp
  ultimately have "sort_loop b (length pre) n sl = sort_loop b (length (pre @ bs)) n sl"
    by (subst sort_loop.simps) (use assms False in \<open>simp add: Let_def slice_of_def aton_nil nth_append\<close>)
  then show ?thesis using sort_stuck [of b "pre @ bs" r n sl] assms by simp
qed

lemma sortlist_stuck:
  assumes "list_all entry_ok es" "csort c + length es < MAXRESOLVSORT" "list_all blank bs" "es \<noteq> [] \<or> bs \<noteq> []"
  shows "conf_line he (load_line (sort_text es bs) c) = Inl Diverges"
proof -
  let ?l = "sort_text es bs" and ?pre = "ascii ''sortlist''"
  define z where "z = [0x0A] @ 0 # drop (length ?l + 1) (cbuf c)"
  define m where "m = concat (map entry_text es)"
  let ?c = "load_line ?l c"
  have pre: "length ?pre = 8" by (simp add: ascii_def)
  obtain d r where d: "bs @ 0x0D # z = d # r" "isspace d"
    using assms(3) by (cases bs) (auto simp: isspace_def blank_def)
  have b: "cbuf ?c = ?pre @ m @ bs @ 0x0D # z"
    by (simp add: load_line_def sort_text_def z_def m_def)
  have le: "csort c + length es \<le> MAXRESOLVSORT" using assms(2) by simp
  obtain sl where "sort_loop (cbuf ?c) (length ?pre) (csort c) (sort_list (cst c)) =
      sort_loop (cbuf ?c) (length (?pre @ m)) (csort c + length es) sl"
    using sort_entries [OF assms(1) le d(2) b [unfolded d(1) m_def], of "sort_list (cst c)"] unfolding m_def by blast
  moreover have "sort_loop (cbuf ?c) (length (?pre @ m)) (csort c + length es) sl = Inl Diverges"
    by (rule sort_blanks_stuck [OF _ assms(3,2), where r = z]) (simp add: b)
  moreover have "csort ?c = csort c" "sort_list (cst ?c) = sort_list (cst c)" by (simp_all add: load_line_def)
  ultimately have stuck: "sortlist_line ?c = Inl Diverges"
    unfolding sortlist_line_def pre by simp
  have no: "\<not> blank 0" "\<not> addr_char 0" "\<not> mask_char 0"
    by (simp_all add: blank_def addr_char_def mask_char_def)
  have all: "0 \<notin> set xs" if "list_all P xs" "\<not> P 0" for P and xs :: cstring
    using that by (auto simp: list_all_iff)
  have nz: "0 \<notin> set (entry_text e)" if "entry_ok e" for e
  proof (cases e)
    case (fields ws a m)
    then show ?thesis using that all [of blank ws] all [of addr_char a] all [of mask_char] no
      by (cases m) auto
  qed
  have "0 \<notin> set (concat (map entry_text es))" "0 \<notin> set bs" "0 \<notin> set ?pre"
    using assms(1) nz all [OF assms(3) no(1)] by (auto simp: list_all_iff ascii_def)
  then have "0 \<notin> set ?l" by (simp add: sort_text_def)
  then have "cstr_at (?l @ [0]) 0 = ?l" by (subst cstr_at_word [of _ "[]", simplified]) auto
  moreover obtain b0 y where "?l = ?pre @ b0 # y" "blank b0"
  proof (cases es)
    case Nil
    then show ?thesis using that assms(3,4) by (cases bs) (auto simp: sort_text_def)
  next
    case (Cons e es')
    obtain ws a m where e: "e = (ws, a, m)" by (cases e)
    then show ?thesis using that Cons assms(1)
      by (cases ws; cases m) (auto simp: sort_text_def)
  qed
  then have "match_keyword ?l (ascii ''sortlist'')" "\<not> match_keyword ?l (ascii ''domain'')"
      "\<not> match_keyword ?l (ascii ''search'')" "\<not> match_keyword ?l (ascii ''nameserver'')" "hd ?l = 0x73"
    by (simp_all add: match_keyword_def starts_def ascii_def)
  ultimately show ?thesis using stuck by (simp add: conf_line_def Let_def)
qed

lemma conf_line_csort:
  assumes "\<not> sortlist_of l" "conf_line he (load_line l c) = Inr c'"
  shows "csort c' = csort c"
proof -
  have "csort (load_line l c) = csort c" by (simp add: load_line_def)
  then show ?thesis
    using assms unfolding sortlist_of_def conf_line_def Let_def load_line_cstr
    by (auto simp: domain_line_def search_line_def nameserver_line_def Let_def
        split: if_splits option.splits sum.splits)
qed

lemma conf_file_csort:
  "\<forall>l \<in> set ls. \<not> sortlist_of l \<Longrightarrow> conf_file he ls c = Inr c' \<Longrightarrow> csort c' = csort c"
  by (induction ls arbitrary: c) (auto simp: and_then_eq_Inr dest: conf_line_csort)


section \<open>Options\<close>

definition opt_word :: "cstring \<Rightarrow> bool" where
  "opt_word w \<longleftrightarrow> w \<noteq> [] \<and> (\<forall>c \<in> set w. \<not> isspace c) \<and> last w \<noteq> 0x3A"

fun spaced :: "cstring list \<Rightarrow> cstring" where
  "spaced [] = []"
| "spaced [w] = w"
| "spaced (w # ws) = w @ 0x20 # spaced ws"

definition word_stop :: "cstring \<Rightarrow> bool" where
  "word_stop r \<longleftrightarrow> r = [] \<or> hd r = 0x20"

lemma starts_append:
  assumes "0x20 \<notin> set name" "word_stop r"
  shows "starts (w @ r) name = starts w name"
proof (cases "length name \<le> length w")
  case False
  have "r = []" if "take (length name) (w @ r) = name"
  proof (rule ccontr)
    assume "r \<noteq> []"
    with assms(2) obtain r' where "r = 0x20 # r'" by (cases r) (auto simp: word_stop_def)
    with False have "0x20 \<in> set (take (length name) (w @ r))" by (auto simp: take_Cons')
    with that assms(1) show False by simp
  qed
  then show ?thesis using False by (auto simp: starts_def)
qed (simp add: starts_def)

lemma digits_run_word:
  "word_stop r \<Longrightarrow> fst (digits_run 10 (v @ r) acc) = fst (digits_run 10 v acc)"
proof (induction v arbitrary: acc)
  case Nil
  then show ?case by (cases r) (auto simp: word_stop_def digit_val_def xdigit_val_def)
qed (auto split: option.split)

lemma atoi_word:
  assumes "v \<noteq> []" "\<not> isspace (hd v)" "word_stop r"
  shows "atoi (v @ r) = atoi v"
proof -
  obtain c u where v: "v = c # u" using assms(1) by (cases v) auto
  with assms(2) have s: "skip_space (v @ r) = v @ r" "skip_space v = v" by auto
  show ?thesis
    using digits_run_word [OF assms(3), of v 0] digits_run_word [OF assms(3), of u 0]
    unfolding atoi_def s by (simp add: v Let_def)
qed

lemma starts_drop:
  assumes "starts w name" "last name = 0x3A" "name \<noteq> []" "opt_word w"
  shows "drop (length name) w \<noteq> [] \<and> \<not> isspace (hd (drop (length name) w)) \<and> length name \<le> length w"
proof -
  have l: "length name \<le> length w" using assms(1) unfolding starts_def by (metis length_take min.cobounded1)
  have "length name \<noteq> length w"
  proof
    assume "length name = length w"
    then have "w = name" using assms(1) by (simp add: starts_def)
    with assms show False by (simp add: opt_word_def)
  qed
  with l assms(4) show ?thesis by (auto simp: opt_word_def hd_drop_conv_nth)
qed

lemma apply_option_word:
  assumes "opt_word w" "word_stop r"
  shows "apply_option (w @ r) st = apply_option w st"
proof -
  have s: "starts (w @ r) (ascii n) = starts w (ascii n)"
    if "n \<in> set [''ndots:'', ''timeout:'', ''attempts:'', ''debug'', ''inet6'', ''ip6-bytestring'', ''no-ip6-dotint'',
      ''ip6-dotint'', ''rotate'', ''no-check-names'']" for n
    using that by (intro starts_append [OF _ assms(2)]) (auto simp: ascii_def)
  have a: "atoi (drop (length (ascii n)) (w @ r)) = atoi (drop (length (ascii n)) w)"
    if "starts w (ascii n)" "last (ascii n) = 0x3A" "n \<noteq> []" for n
    using starts_drop [OF that(1,2) _ assms(1)] that(3) assms(2) atoi_word [of "drop (length (ascii n)) w" r]
    by (simp add: ascii_def)
  have len: "length (ascii ''ndots:'') = 6" "length (ascii ''timeout:'') = 8" "length (ascii ''attempts:'') = 9"
      "last (ascii ''ndots:'') = 0x3A" "last (ascii ''timeout:'') = 0x3A" "last (ascii ''attempts:'') = 0x3A"
    by (simp_all add: ascii_def)
  have "atoi (drop 6 (w @ r)) = atoi (drop 6 w)" if "starts w (ascii ''ndots:'')"
    using a [OF that len(4), unfolded len(1)] by simp
  moreover have "atoi (drop 8 (w @ r)) = atoi (drop 8 w)" if "starts w (ascii ''timeout:'')"
    using a [OF that len(5), unfolded len(2)] by simp
  moreover have "atoi (drop 9 (w @ r)) = atoi (drop 9 w)" if "starts w (ascii ''attempts:'')"
    using a [OF that len(6), unfolded len(3)] by simp
  ultimately show ?thesis
    unfolding apply_option_def Let_def by (simp add: s cong: if_cong)
qed

lemma spaced_step: "opt_word w \<Longrightarrow> \<exists>r. spaced (w # ws) = w @ r \<and> word_stop r \<and> skip_blanks r = skip_blanks (spaced ws)"
  by (cases ws) (auto simp: word_stop_def skip_blanks_def blank_def)

lemma opt_word_blank: "opt_word w \<Longrightarrow> c \<in> set w \<Longrightarrow> \<not> blank c"
  by (auto simp: opt_word_def blank_def isspace_def)

lemma setoptions_skip: "skip_blanks s = skip_blanks s' \<Longrightarrow> s \<noteq> [] \<Longrightarrow> s' \<noteq> [] \<Longrightarrow> res_setoptions st s = res_setoptions st s'"
  by (subst (1 2) res_setoptions.simps) simp

text \<open>On options separated by single blanks res_setoptions has the effect of applying them one
  after the other.\<close>

theorem options_one_by_one:
  assumes "\<forall>w \<in> set ws. opt_word w"
  shows "res_setoptions st (spaced ws) = fold apply_option ws st"
  using assms
proof (induction ws arbitrary: st)
  case Nil
  then show ?case by (simp add: res_setoptions.simps)
next
  case (Cons w ws)
  then have w: "opt_word w" "w \<noteq> []" by (auto simp: opt_word_def)
  from spaced_step [OF w(1)] obtain r where
    r: "spaced (w # ws) = w @ r" "word_stop r" "skip_blanks r = skip_blanks (spaced ws)" by blast
  have "skip_blanks (w @ r) = w @ r"
    using w opt_word_blank [OF w(1), of "hd w"] by (cases w) (simp_all add: skip_blanks_def)
  moreover have "dropWhile (\<lambda>c. \<not> blank c) (w @ r) = r"
    using r(2) opt_word_blank [OF w(1)] by (cases r) (auto simp: word_stop_def blank_def dropWhile_append)
  ultimately have "res_setoptions st (w @ r) = res_setoptions (apply_option w st) r"
    using w by (subst res_setoptions.simps) (simp add: apply_option_word r(2))
  also have "\<dots> = res_setoptions (apply_option w st) (spaced ws)"
  proof (cases "ws = []")
    case True
    with r(1) have "r = []" by simp
    with True show ?thesis by simp
  next
    case False
    then have "spaced ws \<noteq> []" using Cons.prems by (cases ws rule: spaced.cases) (auto simp: opt_word_def)
    moreover have "r \<noteq> []" using r(1) False by (cases ws) auto
    ultimately show ?thesis using r(3) by (intro setoptions_skip)
  qed
  also have "\<dots> = fold apply_option ws (apply_option w st)" using Cons by simp
  finally show ?case using r(1) by simp
qed

section \<open>Examples\<close>

lemma zeros16: "replicate 16 (0 :: u8) = [0, 0, 0, 0, 0, 0, 0, 0, 0, 0, 0, 0, 0, 0, 0, 0]"
  by code_simp

lemmas aton_simps = inet_aton_def aton_loop.simps strtoul0_def is_digit_of_def digit_val_def xdigit_val_def aton_value_def
  put32_bytes_def isspace_def ascii_def Let_def tolower_def isupper_def inet_pton6_def pton6_finish_def shift_loop.simps
  put_group_def zeros16


theorem nameservers_read_witness:
  "\<exists>st. res_vinit (env_of (map server_text [ascii ''10.0.0.1'', ascii ''::1'', ascii ''10.0.0.2'', ascii ''10.0.0.3''])) 7 False zero_state = Inr st \<and>
     take 2 (nsaddr_list st) = [Sin [10, 0, 0, 1] 53, Sin [10, 0, 0, 2] 53] \<and> nscount st = 2 \<and> nscount6 st = 1"
proof -
  let ?ss = "[ascii ''10.0.0.1'', ascii ''::1'', ascii ''10.0.0.2'', ascii ''10.0.0.3'']"
  have s: "map (\<lambda>s. server_of s) ?ss =
      [Some (Inl (Sin [10, 0, 0, 1] 53)), Some (Inr (Sin6 [0, 0, 0, 0, 0, 0, 0, 0, 0, 0, 0, 0, 0, 0, 0, 1] 53)),
       Some (Inl (Sin [10, 0, 0, 2] 53)), Some (Inl (Sin [10, 0, 0, 3] 53))]"
    by (simp add: server_of_def aton_simps)
  have v: "\<forall>s \<in> set ?ss. server_name s"
    using s by (simp add: server_name_def blank_def) (simp add: ascii_def)
  from nameservers_read [of zero_state "env_of (map server_text ?ss)" ?ss 7 False] v zero_state_ok s
  show ?thesis by (auto simp: env_of_def MAXNS_def numeral_2_eq_2 numeral_3_eq_3 Let_def)
qed


theorem options_one_by_one_witness:
  "ndots (res_setoptions zero_state (ascii ''rotate ndots:7'')) = 7"
proof -
  have "spaced [ascii ''rotate'', ascii ''ndots:7''] = ascii ''rotate ndots:7''" by (simp add: ascii_def)
  moreover have "\<forall>w \<in> set [ascii ''rotate'', ascii ''ndots:7'']. opt_word w"
    by (simp add: opt_word_def isspace_def ascii_def)
  moreover have "ndots (fold apply_option [ascii ''rotate'', ascii ''ndots:7''] zero_state) = 7" by code_simp
  ultimately show ?thesis using options_one_by_one [of "[ascii ''rotate'', ascii ''ndots:7'']" zero_state] by simp
qed

text \<open>A negative number of dots is stored modulo 16, and a negative timeout as it is.\<close>

lemma negative_ndots: "ndots (res_setoptions st (ascii ''ndots:-2'')) = 14"
  by (simp add: res_setoptions.simps apply_option_def starts_def skip_blanks_def blank_def ascii_def atoi_def isspace_def
      Let_def digit_val_def xdigit_val_def)

lemma negative_timeout: "retrans (res_setoptions st (ascii ''timeout:-2'')) = -2"
  by (simp add: res_setoptions.simps apply_option_def starts_def skip_blanks_def blank_def ascii_def atoi_def isspace_def
      Let_def digit_val_def xdigit_val_def)

end
