(* ===== verification/Res_Send.thy ===== *)
theory Res_Send
  imports Res_Init Res_Query "HOL-Library.Signed_Division"
begin

text \<open>
  \<open>res_send.c\<close>: the exchange of one message with the name servers, by datagrams or over a virtual
  circuit.  The system calls are the fields of a record over an abstract world; the hooks are null
  and so is \<open>ansp\<close>.  Waiting for a reply and skipping stale replies are loops with fuel.
\<close>

unbundle bit_operations_syntax

section \<open>Times\<close>

type_synonym timespec = "int \<times> int"

definition BILLION :: int where "BILLION = 1000000000"

definition evConsTime :: "int \<Rightarrow> int \<Rightarrow> timespec" where
  "evConsTime sec nsec = (sec, nsec)"

definition evAddTime :: "timespec \<Rightarrow> timespec \<Rightarrow> timespec" where
  "evAddTime a b =
     (let s = fst a + fst b; n = snd a + snd b in if n \<ge> BILLION then (s + 1, n - BILLION) else (s, n))"

definition evSubTime :: "timespec \<Rightarrow> timespec \<Rightarrow> timespec" where
  "evSubTime a b =
     (let s = fst a - fst b in
      if snd a \<ge> snd b then (s, snd a - snd b) else (s - 1, BILLION - snd b + snd a))"

definition evCmpTime :: "timespec \<Rightarrow> timespec \<Rightarrow> int" where
  "evCmpTime a b =
     (let x = fst a - fst b; x = (if x = 0 then snd a - snd b else x) in
      if x < 0 then -1 else if x > 0 then 1 else 0)"

section \<open>Addresses\<close>

definition any4 :: "u8 list" where "any4 = [0, 0, 0, 0]"
definition any6 :: "u8 list" where "any6 = replicate 16 0"
definition v4_prefix :: "u8 list" where "v4_prefix = replicate 10 0 @ [0xff, 0xff]"

definition convaddr4to6 :: "sock_addr \<Rightarrow> sock_addr" where
  "convaddr4to6 sa = (case sa of Sin a p \<Rightarrow> Sin6 (v4_prefix @ a) p | Sin6 a p \<Rightarrow> Sin6 a p)"

definition mapped_eq :: "u8 list \<Rightarrow> u16 \<Rightarrow> u8 list \<Rightarrow> u16 \<Rightarrow> bool" where
  "mapped_eq a p b q \<longleftrightarrow> p = q \<and> take 12 a = v4_prefix \<and> drop 12 a = b"

fun sock_eq :: "sock_addr \<Rightarrow> sock_addr \<Rightarrow> bool" where
  "sock_eq (Sin a p) (Sin b q) = (p = q \<and> a = b)"
| "sock_eq (Sin6 a p) (Sin6 b q) = (p = q \<and> a = b)"
| "sock_eq (Sin6 a p) (Sin b q) = mapped_eq a p b q"
| "sock_eq (Sin b q) (Sin6 a p) = mapped_eq a p b q"

definition res_ourserver_p :: "res_state \<Rightarrow> sock_addr \<Rightarrow> bool" where
  "res_ourserver_p st inp =
     (case inp of
        Sin addr port \<Rightarrow>
          list_ex (\<lambda>srv. case srv of Some (Sin a p) \<Rightarrow> p = port \<and> (a = any4 \<or> a = addr) | _ \<Rightarrow> False) (take MAXNS (nsaddrs st))
      | Sin6 addr port \<Rightarrow>
          list_ex (\<lambda>srv. case srv of Some (Sin6 a p) \<Rightarrow> p = port \<and> (a = any6 \<or> a = addr) | _ \<Rightarrow> False) (take MAXNS (nsaddrs st)))"

section \<open>Does the answer match the query\<close>

definition same_name_1 :: "cstring \<Rightarrow> cstring \<Rightarrow> bool cres" where
  "same_name_1 a b = (case ns_samename a b of Inl (Errno _) \<Rightarrow> Inr False | r \<Rightarrow> r)"

text \<open>One entry of the question section: the name, type and class, and where the next entry starts.\<close>

definition next_question :: "u8 list \<Rightarrow> nat \<Rightarrow> (cstring \<times> u32 \<times> u32 \<times> nat) option cres" where
  "next_question msg cp =
     (case dn_expand msg (length msg) cp 1026 of
        Inl (Errno _) \<Rightarrow> Inr None
      | Inl e \<Rightarrow> Inl e
      | Inr (n, tname) \<Rightarrow>
          let cp = cp + n in
          if cp + 4 > length msg then Inr None
          else
            and_then (ns_get16 msg cp) (\<lambda>ttype.
            and_then (ns_get16 msg (cp + 2)) (\<lambda>tclass.
              Inr (Some (takeWhile (\<lambda>c. c \<noteq> 0) tname, ttype, tclass, cp + 4)))))"

fun nameinquery_loop :: "nat \<Rightarrow> cstring \<Rightarrow> u32 \<Rightarrow> u32 \<Rightarrow> u8 list \<Rightarrow> nat \<Rightarrow> int cres" where
  "nameinquery_loop 0 name typ cls msg cp = Inr 0"
| "nameinquery_loop (Suc qdcount) name typ cls msg cp =
     and_then (next_question msg cp) (\<lambda>q.
     case q of None \<Rightarrow> Inr (-1)
     | Some (tname, ttype, tclass, cp) \<Rightarrow>
         and_then (if ttype = typ \<and> tclass = cls then same_name_1 tname name else Inr False) (\<lambda>eq.
           if eq then Inr 1 else nameinquery_loop qdcount name typ cls msg cp))"

definition res_nameinquery :: "cstring \<Rightarrow> u32 \<Rightarrow> u32 \<Rightarrow> u8 list \<Rightarrow> int cres" where
  "res_nameinquery name typ cls msg =
     and_then (ns_get16 msg 4) (\<lambda>qdcount. nameinquery_loop (unat qdcount) name typ cls msg 12)"

fun queriesmatch_loop :: "nat \<Rightarrow> u8 list \<Rightarrow> nat \<Rightarrow> u8 list \<Rightarrow> int cres" where
  "queriesmatch_loop 0 msg1 cp msg2 = Inr 1"
| "queriesmatch_loop (Suc qdcount) msg1 cp msg2 =
     and_then (next_question msg1 cp) (\<lambda>q.
     case q of None \<Rightarrow> Inr (-1)
     | Some (tname, ttype, tclass, cp) \<Rightarrow>
         and_then (res_nameinquery tname ttype tclass msg2) (\<lambda>r.
           if r = 0 then Inr 0 else queriesmatch_loop qdcount msg1 cp msg2))"

definition opcode_bits :: "u8 list \<Rightarrow> u8" where
  "opcode_bits msg = drop_bit 3 (msg ! 2) AND 0xf"

definition res_queriesmatch :: "u8 list \<Rightarrow> u8 list \<Rightarrow> int cres" where
  "res_queriesmatch msg1 msg2 =
     and_then (ns_get16 msg1 4) (\<lambda>qdcount.
     if length msg1 < 12 \<or> length msg2 < 12 then Inr (-1)
     else if opcode_bits msg1 = 5 \<and> opcode_bits msg2 = 5 then Inr 1
     else
       and_then (ns_get16 msg2 4) (\<lambda>qdcount2.
       if qdcount \<noteq> qdcount2 then Inr 0 else queriesmatch_loop (unat qdcount) msg1 12 msg2))"

section \<open>The table of servers\<close>

text \<open>Has a server of the list changed since the table was made?\<close>

fun changed_from :: "nat list \<Rightarrow> res_state \<Rightarrow> bool cres" where
  "changed_from [] st = Inr False"
| "changed_from (ns # nss) st =
     (let m = nsmap st ! ns in
      if m < MAXNS then
        (case nsaddrs st ! ns of
           None \<Rightarrow> Inl Fault
         | Some a \<Rightarrow> if sock_eq (nsaddr_list st ! m) a then changed_from nss st else Inr True)
      else changed_from nss st)"

definition needs_close :: "res_state \<Rightarrow> bool cres" where
  "needs_close st = (if int (nscount_ext st) \<noteq> nscount st then Inr True else changed_from [0..<MAXNS] st)"

text \<open>Which slots the servers keep: \<open>m\<close> is the array \<open>map\<close>.\<close>

fun keep_slots :: "nat list \<Rightarrow> nat list \<Rightarrow> res_state \<Rightarrow> (nat list \<times> res_state) cres" where
  "keep_slots [] m st = Inr (m, st)"
| "keep_slots (n # ns) m st =
     (let k = nsmap st ! n in
      if int k < nscount st then (if k < MAXNS then keep_slots ns (m[k := n]) st else Inl Fault)
      else if k < MAXNS then keep_slots ns m (st\<lparr>nsaddrs := (nsaddrs st)[n := None], nsmap := (nsmap st)[n := MAXNS]\<rparr>)
      else keep_slots ns m st)"

text \<open>The first position from \<open>ns\<close> on whose slot is free, or is not; the end if there is none.\<close>

definition next_free :: "nat list \<Rightarrow> nat \<Rightarrow> nat" where
  "next_free ks ns = ns + length (takeWhile (\<lambda>k. k \<noteq> MAXNS) (drop ns ks))"

definition next_used :: "nat list \<Rightarrow> nat \<Rightarrow> nat" where
  "next_used ks ns = ns + length (takeWhile (\<lambda>k. k = MAXNS) (drop ns ks))"

function new_slots :: "nat \<Rightarrow> nat \<Rightarrow> nat list \<Rightarrow> res_state \<Rightarrow> (nat \<times> nat list \<times> res_state) cres" where
  "new_slots n ns m st =
     (if int n < nscount st then
        (let ns = next_free (nsmap st) ns in
         if ns \<ge> MAXNS then Inr (n, m, st)
         else if n \<ge> MAXNS then Inl Fault
         else new_slots (n + 1) (ns + 1) (m[n := ns]) (st\<lparr>nsmap := (nsmap st)[ns := n]\<rparr>))
      else Inr (n, m, st))"
  by pat_completeness auto
termination
  by (relation "measure (\<lambda>(n, ns, m, st). MAXNS - n)") auto

declare new_slots.simps [simp del]

section \<open>System calls\<close>

datatype poll_result = Poll_timeout | Poll_error errno | Poll_ready bool bool bool

text \<open>
  \<open>n_poll\<close> has the descriptor, whether to wait for input rather than output, and the time; it
  answers with the flags for output, input and errors.  \<open>n_writev\<close> and \<open>n_read_retry\<close> are the
  calls inside \<open>TEMP_FAILURE_RETRY\<close>.
\<close>

record 'w net =
  n_gettimeofday :: "'w \<Rightarrow> (int \<times> int) option \<times> 'w"
  n_socket :: "bool \<Rightarrow> bool \<Rightarrow> 'w \<Rightarrow> (errno + nat) \<times> 'w"
  n_connect :: "int \<Rightarrow> sock_addr \<Rightarrow> 'w \<Rightarrow> errno option \<times> 'w"
  n_nonblock :: "int \<Rightarrow> 'w \<Rightarrow> 'w"
  n_poll :: "int \<Rightarrow> bool \<Rightarrow> int \<Rightarrow> 'w \<Rightarrow> poll_result \<times> 'w"
  n_send :: "int \<Rightarrow> u8 list \<Rightarrow> 'w \<Rightarrow> (errno + nat) \<times> 'w"
  n_recvfrom :: "int \<Rightarrow> nat \<Rightarrow> 'w \<Rightarrow> (errno + u8 list \<times> sock_addr) \<times> 'w"
  n_getpeername :: "int \<Rightarrow> 'w \<Rightarrow> sock_addr option \<times> 'w"
  n_writev :: "int \<Rightarrow> u8 list \<Rightarrow> 'w \<Rightarrow> (errno + nat) \<times> 'w"
  n_read_retry :: "int \<Rightarrow> nat \<Rightarrow> 'w \<Rightarrow> (errno + u8 list) \<times> 'w"
  n_read :: "int \<Rightarrow> nat \<Rightarrow> 'w \<Rightarrow> (errno + u8 list) \<times> 'w"
  n_close :: "int \<Rightarrow> 'w \<Rightarrow> 'w"
  n_malloc :: "'w \<Rightarrow> bool \<times> 'w"

datatype pf = Pf_none | Pf_inet | Pf_inet6

text \<open>The world with the static variable \<open>socket_pf\<close> of \<open>send_dg\<close>.\<close>

record 'w sock_world =
  os :: 'w
  socket_pf :: pf

type_synonym 'w sstate = "'w sock_world query_state"

definition sys :: "('w \<Rightarrow> 'a \<times> 'w) \<Rightarrow> 'w sstate \<Rightarrow> 'a \<times> 'w sstate" where
  "sys f s = (case f (os (world s)) of (x, w) \<Rightarrow> (x, s\<lparr>world := (world s)\<lparr>os := w\<rparr>\<rparr>))"

definition evNowTime :: "'w net \<Rightarrow> 'w sstate \<Rightarrow> timespec \<times> 'w sstate" where
  "evNowTime net s =
     (case sys (n_gettimeofday net) s of
        (None, s) \<Rightarrow> (evConsTime 0 0, s)
      | (Some (sec, usec), s) \<Rightarrow> ((sec, usec * 1000), s))"

text \<open>\<open>res_nclose\<close> with its effect on the descriptors.\<close>

definition do_nclose :: "'w net \<Rightarrow> 'w sstate \<Rightarrow> 'w sstate" where
  "do_nclose net s =
     (case res_nclose (rs s) of
        (st, fds) \<Rightarrow> s\<lparr>rs := st, world := (world s)\<lparr>os := fold (n_close net) fds (os (world s))\<rparr>\<rparr>)"

section \<open>Setting up the table\<close>

text \<open>The copies of the addresses, one allocation for each slot that has none.\<close>

fun copy_addrs :: "'w net \<Rightarrow> nat list \<Rightarrow> nat list \<Rightarrow> 'w sstate \<Rightarrow> 'w sstate cres" where
  "copy_addrs net [] m s = Inr s"
| "copy_addrs net (ns # nss) m s =
     (let n = m ! ns in
      if n \<ge> MAXNS then Inl Fault
      else
        let (ok, s) = (if nsaddrs (rs s) ! n = None then sys (n_malloc net) s else (True, s)) in
        if ok then
          copy_addrs net nss m
            (s\<lparr>rs := (rs s)\<lparr>nsaddrs := (nsaddrs (rs s))[n := Some (nsaddr_list (rs s) ! ns)],
                            nssocks := (nssocks (rs s))[n := -1]\<rparr>\<rparr>)
        else copy_addrs net nss m s)"

definition init_table :: "'w net \<Rightarrow> 'w sstate \<Rightarrow> 'w sstate cres" where
  "init_table net s =
     and_then (keep_slots [0..<MAXNS] (replicate MAXNS MAXNS) (rs s)) (\<lambda>(m, st).
     and_then
       (if nscount st > int (nscount_ext st) then new_slots (nscount_ext st) 0 m st
        else Inr (nat (nscount st), m, st)) (\<lambda>(n, m, st).
     and_then (copy_addrs net [0..<n] m (s\<lparr>rs := st\<lparr>nscount_ext := n\<rparr>\<rparr>)) (\<lambda>s.
       Inr (s\<lparr>rs := (rs s)\<lparr>nsinit := 1\<rparr>\<rparr>))))"

definition sync_table :: "'w net \<Rightarrow> 'w sstate \<Rightarrow> 'w sstate cres" where
  "sync_table net s =
     and_then (if nsinit (rs s) \<noteq> 0 then needs_close (rs s) else Inr False) (\<lambda>c.
     let s = (if c then do_nclose net s else s) in
     if nsinit (rs s) = 0 then init_table net s else Inr s)"

section \<open>Rotation\<close>

function rotate_loop :: "nat \<Rightarrow> res_state \<Rightarrow> nat \<times> res_state" where
  "rotate_loop n st =
     (let ns = next_used (nsmap st) (n + 1) in
      if ns \<ge> MAXNS then (n, st)
      else rotate_loop ns
        (st\<lparr>nsaddrs := (nsaddrs st)[n := nsaddrs st ! ns], nsmap := (nsmap st)[n := nsmap st ! ns]\<rparr>))"
  by pat_completeness auto
termination
  by (relation "measure (\<lambda>(n, st). MAXNS - n)") (auto simp: next_used_def)

declare rotate_loop.simps [simp del]

definition rotate_servers :: "res_state \<Rightarrow> res_state" where
  "rotate_servers st =
     (let n = next_used (nsmap st) 0 in
      if n < MAXNS then
        (let ina = nsaddrs st ! n; k = nsmap st ! n in
         case rotate_loop n st of
           (n, st) \<Rightarrow> st\<lparr>nsaddrs := (nsaddrs st)[n := ina], nsmap := (nsmap st)[n := k]\<rparr>)
      else st)"

section \<open>Datagrams\<close>

text \<open>
  The variables that \<open>__libc_res_nsend\<close> shares with \<open>send_vc\<close> and \<open>send_dg\<close>; \<open>last_try\<close> stands for
  the assignment \<open>try = statp->retry\<close>.
\<close>

record send_vars =
  v_circuit :: bool
  gotsomewhere :: bool
  terrno :: "errno option"
  last_try :: bool

definition set_sock :: "nat \<Rightarrow> int \<Rightarrow> 'w sstate \<Rightarrow> 'w sstate" where
  "set_sock ns fd s = s\<lparr>rs := (rs s)\<lparr>nssocks := (nssocks (rs s))[ns := fd]\<rparr>\<rparr>"

text \<open>\<open>socket (pf, type, 0)\<close> into \<open>nssocks[ns]\<close>.\<close>

definition open_dg :: "'w net \<Rightarrow> bool \<Rightarrow> nat \<Rightarrow> 'w sstate \<Rightarrow> 'w sstate" where
  "open_dg net inet6 ns s =
     (case sys (n_socket net inet6 False) s of
        (Inl e, s) \<Rightarrow> set_sock ns (-1) (s\<lparr>errno_of := Some e\<rparr>)
      | (Inr fd, s) \<Rightarrow> set_sock ns (int fd) s)"

text \<open>The socket of a server, of the first family that gives one.\<close>

definition dg_socket :: "'w net \<Rightarrow> nat \<Rightarrow> 'w sstate \<Rightarrow> 'w sstate" where
  "dg_socket net ns s =
     (let s = (if nscount6 (rs s) > 0 \<and> socket_pf (world s) \<noteq> Pf_inet
               then let s = open_dg net True ns s in
                    s\<lparr>world := (world s)\<lparr>socket_pf := (if nssocks (rs s) ! ns < 0 then Pf_inet else Pf_inet6)\<rparr>\<rparr>
               else s) in
      if nssocks (rs s) ! ns < 0 then open_dg net False ns s else s)"

text \<open>Once an IPv6 socket has been made, the address of the server is mapped in place.\<close>

definition dg_map_addr :: "nat \<Rightarrow> 'w sstate \<Rightarrow> 'w sstate" where
  "dg_map_addr ns s =
     (if socket_pf (world s) = Pf_inet6
      then s\<lparr>rs := (rs s)\<lparr>nsaddrs := (nsaddrs (rs s))[ns := map_option convaddr4to6 (nsaddrs (rs s) ! ns)]\<rparr>\<rparr>
      else s)"

text \<open>Opening the socket of a server: \<open>Inl\<close> is the result of \<open>send_dg\<close>.\<close>

definition dg_open :: "'w net \<Rightarrow> nat \<Rightarrow> send_vars \<Rightarrow> 'w sstate \<Rightarrow> (int, unit) sum \<times> send_vars \<times> 'w sstate" where
  "dg_open net ns v s =
     (if nssocks (rs s) ! ns \<noteq> -1 then (Inr (), v, s)
      else
        let s = dg_socket net ns s in
        if nssocks (rs s) ! ns < 0 then (Inl (-1), v\<lparr>terrno := errno_of s\<rparr>, s)
        else
          let s = dg_map_addr ns s; fd = nssocks (rs s) ! ns in
          case sys (n_connect net fd (the (nsaddrs (rs s) ! ns))) s of
            (Some e, s) \<Rightarrow> (Inl 0, v, do_nclose net (s\<lparr>errno_of := Some e\<rparr>))
          | (None, s) \<Rightarrow> (Inr (), v, snd (sys (\<lambda>w. ((), n_nonblock net fd w)) s)))"

record dg_vars =
  finish :: timespec
  timeout :: timespec
  need_recompute :: bool
  nwritten :: nat
  pollin :: bool

text \<open>A value stored in a C \<open>int\<close>, and the seconds to wait for one server, computed in \<open>int\<close>.\<close>

definition c_int :: "int \<Rightarrow> int" where
  "c_int i = sint (word_of_int i :: 32 word)"

definition wait_seconds :: "res_state \<Rightarrow> nat \<Rightarrow> int" where
  "wait_seconds st ns =
     (let seconds = c_int (retrans st * 2 ^ ns);
          seconds = (if ns > 0 then seconds sdiv nscount st else seconds) in
      if seconds \<le> 0 then 1 else seconds)"

definition dg_start :: "'w net \<Rightarrow> nat \<Rightarrow> 'w sstate \<Rightarrow> dg_vars \<times> 'w sstate" where
  "dg_start net ns s =
     (let t = evConsTime (wait_seconds (rs s) ns) 0 in
      case evNowTime net s of
        (now, s) \<Rightarrow>
          (\<lparr>finish = evAddTime now t, timeout = t, need_recompute = False, nwritten = 0, pollin = False\<rparr>, s))"

text \<open>A turn ends the function with a result, or goes back to \<open>wait\<close>.\<close>

datatype dg_step = Dg_return int | Dg_wait dg_vars

type_synonym 'w dg_result = "(dg_step \<times> send_vars \<times> 'w sstate) cres"

text \<open>The label \<open>recompute_resend\<close> and what follows it.\<close>

definition recompute_resend :: "'w net \<Rightarrow> dg_vars \<Rightarrow> send_vars \<Rightarrow> 'w sstate \<Rightarrow> 'w dg_result" where
  "recompute_resend net d v s =
     (case evNowTime net s of
        (now, s) \<Rightarrow>
          if evCmpTime (finish d) now > 0 then Inr (Dg_wait (d\<lparr>timeout := evSubTime (finish d) now\<rparr>), v, s)
          else Inr (Dg_return 0, v, do_nclose net s))"

definition rcode_of :: "u8 list \<Rightarrow> u8" where
  "rcode_of ans = ans ! 3 AND 0xf"

definition tc_of :: "u8 list \<Rightarrow> bool" where
  "tc_of ans \<longleftrightarrow> bit (ans ! 2) 1"

text \<open>What is done with a datagram of at least a header that has been stored in the answer buffer.\<close>

definition dg_accept :: "'w net \<Rightarrow> u8 list \<Rightarrow> sock_addr \<Rightarrow> nat \<Rightarrow> dg_vars \<Rightarrow> send_vars \<Rightarrow> 'w sstate \<Rightarrow> 'w dg_result" where
  "dg_accept net msg from resplen d v s =
     (let ans = answer s in
      if take 2 msg \<noteq> take 2 ans then Inr (Dg_wait d, v, s)
      else if \<not> opt RES_INSECURE1 (rs s) \<and> \<not> res_ourserver_p (rs s) from then Inr (Dg_wait d, v, s)
      else
        and_then (if opt RES_INSECURE2 (rs s) then Inr 1 else res_queriesmatch msg ans) (\<lambda>m.
        if m = 0 then Inr (Dg_wait d, v, s)
        else
          let rejected = (rcode_of ans = 2 \<or> rcode_of ans = 4 \<or> rcode_of ans = 5);
              s = (if rejected then do_nclose net s else s) in
          if rejected \<and> pfcode (rs s) = 0 then Inr (Dg_return 0, v, s)
          else if \<not> opt RES_IGNTC (rs s) \<and> tc_of ans
          then Inr (Dg_return 1, v\<lparr>v_circuit := True\<rparr>, do_nclose net s)
          else Inr (Dg_return (int resplen), v, s)))"

definition dg_receive :: "'w net \<Rightarrow> u8 list \<Rightarrow> nat \<Rightarrow> dg_vars \<Rightarrow> send_vars \<Rightarrow> 'w sstate \<Rightarrow> 'w dg_result" where
  "dg_receive net msg ns d v s =
     (case sys (n_recvfrom net (nssocks (rs s) ! ns) (length (answer s))) s of
        (Inl e, s) \<Rightarrow>
          let s = s\<lparr>errno_of := Some e\<rparr> in
          if e = EINTR \<or> e = EAGAIN then Inr (Dg_wait (d\<lparr>need_recompute := True\<rparr>), v, s)
          else Inr (Dg_return 0, v, do_nclose net s)
      | (Inr (data, from), s) \<Rightarrow>
          let data = take (length (answer s)) data; resplen = length data;
              s = s\<lparr>answer := data @ drop resplen (answer s)\<rparr> in
          if resplen = 0 then Inr (Dg_return 0, v, do_nclose net s)
          else
            let v = v\<lparr>gotsomewhere := True\<rparr> in
            if resplen < 12 then Inr (Dg_return 0, v\<lparr>terrno := Some EMSGSIZE\<rparr>, do_nclose net s)
            else dg_accept net msg from resplen d v s)"

definition dg_transmit :: "'w net \<Rightarrow> u8 list \<Rightarrow> nat \<Rightarrow> dg_vars \<Rightarrow> send_vars \<Rightarrow> 'w sstate \<Rightarrow> 'w dg_result" where
  "dg_transmit net msg ns d v s =
     (case sys (n_send net (nssocks (rs s) ! ns) msg) s of
        (Inl e, s) \<Rightarrow>
          let s = s\<lparr>errno_of := Some e\<rparr> in
          if e = EINTR \<or> e = EAGAIN then recompute_resend net d v s
          else Inr (Dg_return 0, v, do_nclose net s)
      | (Inr n, s) \<Rightarrow>
          if n \<noteq> length msg then Inr (Dg_return 0, v, do_nclose net s)
          else Inr (Dg_wait (d\<lparr>pollin := True, nwritten := nwritten d + 1\<rparr>), v, s))"

definition dg_poll :: "'w net \<Rightarrow> nat \<Rightarrow> dg_vars \<Rightarrow> 'w sstate \<Rightarrow> poll_result \<times> dg_vars \<times> 'w sstate" where
  "dg_poll net ns d s =
     (let ptimeout = c_int (fst (timeout d) * 1000 + snd (timeout d) div 1000000);
          fd = nssocks (rs s) ! ns;
          (r, s) = (if nwritten d = 0 then sys (n_poll net fd (pollin d) 0) s else (Poll_timeout, s)) in
      if r = Poll_timeout then
        (case sys (n_poll net fd (pollin d) ptimeout) s of (r, s) \<Rightarrow> (r, d\<lparr>need_recompute := True\<rparr>, s))
      else (r, d, s))"

text \<open>From the label \<open>wait\<close>.  When \<open>poll\<close> sets no flag the function ends without a value.\<close>

definition dg_wait :: "'w net \<Rightarrow> u8 list \<Rightarrow> nat \<Rightarrow> dg_vars \<Rightarrow> send_vars \<Rightarrow> 'w sstate \<Rightarrow> 'w dg_result" where
  "dg_wait net msg ns d v s =
     (let (now, s) = (if need_recompute d then evNowTime net s else ((0, 0), s)) in
      if need_recompute d \<and> evCmpTime (finish d) now \<le> 0 then Inr (Dg_return 0, v, do_nclose net s)
      else
        let d = (if need_recompute d then d\<lparr>timeout := evSubTime (finish d) now\<rparr> else d) in
        case dg_poll net ns d s of
          (Poll_timeout, d, s) \<Rightarrow> Inr (Dg_return 0, v\<lparr>gotsomewhere := True\<rparr>, s)
        | (Poll_error e, d, s) \<Rightarrow>
            let s = s\<lparr>errno_of := Some e\<rparr> in
            if e = EINTR then recompute_resend net d v s else Inr (Dg_return 0, v, do_nclose net s)
        | (Poll_ready out inp err, d, s) \<Rightarrow>
            let s = s\<lparr>errno_of := None\<rparr> in
            if out then dg_transmit net msg ns d v s
            else if inp then dg_receive net msg ns d v s
            else if err then Inr (Dg_return 0, v, do_nclose net s)
            else Inl Fault)"

fun dg_loop :: "nat \<Rightarrow> 'w net \<Rightarrow> u8 list \<Rightarrow> nat \<Rightarrow> dg_vars \<Rightarrow> send_vars \<Rightarrow> 'w sstate \<Rightarrow> (int \<times> send_vars \<times> 'w sstate) cres" where
  "dg_loop 0 net msg ns d v s = Inl Diverges"
| "dg_loop (Suc fuel) net msg ns d v s =
     and_then (dg_wait net msg ns d v s) (\<lambda>(r, v, s).
       case r of Dg_return n \<Rightarrow> Inr (n, v, s) | Dg_wait d \<Rightarrow> dg_loop fuel net msg ns d v s)"

definition send_dg :: "nat \<Rightarrow> 'w net \<Rightarrow> u8 list \<Rightarrow> nat \<Rightarrow> send_vars \<Rightarrow> 'w sstate \<Rightarrow> (int \<times> send_vars \<times> 'w sstate) cres" where
  "send_dg fuel net msg ns v s =
     (case dg_open net ns v s of
        (Inl n, v, s) \<Rightarrow> Inr (n, v, s)
      | (Inr _, v, s) \<Rightarrow> (case dg_start net ns s of (d, s) \<Rightarrow> dg_loop fuel net msg ns d v s))"

section \<open>Virtual circuits\<close>

text \<open>\<open>*terrno = errno\<close> when the call itself may have left \<open>errno\<close> alone, then \<open>res_nclose\<close>.\<close>

definition vc_fail :: "'w net \<Rightarrow> send_vars \<Rightarrow> 'w sstate \<Rightarrow> send_vars \<times> 'w sstate" where
  "vc_fail net v s = (v\<lparr>terrno := errno_of s\<rparr>, do_nclose net s)"

definition set_flags :: "(u32 \<Rightarrow> u32) \<Rightarrow> 'w sstate \<Rightarrow> 'w sstate" where
  "set_flags f s = s\<lparr>rs := (rs s)\<lparr>flags_of := f (flags_of (rs s))\<rparr>\<rparr>"

definition on_vc :: "'w sstate \<Rightarrow> bool" where
  "on_vc s \<longleftrightarrow> vcsock (rs s) \<ge> 0 \<and> flags_of (rs s) AND 1 \<noteq> 0"

definition is_inet6 :: "sock_addr \<Rightarrow> bool" where
  "is_inet6 a = (case a of Sin _ _ \<Rightarrow> False | Sin6 _ _ \<Rightarrow> True)"

text \<open>Are we still talking to whom we want to talk to?\<close>

definition vc_check_peer :: "'w net \<Rightarrow> sock_addr \<Rightarrow> 'w sstate \<Rightarrow> 'w sstate" where
  "vc_check_peer net nsap s =
     (if on_vc s then
        (case sys (n_getpeername net (vcsock (rs s))) s of
           (peer, s) \<Rightarrow>
             if peer = None \<or> \<not> sock_eq (the peer) nsap then set_flags (\<lambda>f. f AND NOT 1) (do_nclose net s) else s)
      else s)"

definition vc_connect :: "'w net \<Rightarrow> sock_addr \<Rightarrow> send_vars \<Rightarrow> 'w sstate \<Rightarrow> (int, unit) sum \<times> send_vars \<times> 'w sstate" where
  "vc_connect net nsap v s =
     (if on_vc s then (Inr (), v, s)
      else
        let s = (if vcsock (rs s) \<ge> 0 then do_nclose net s else s) in
        case sys (n_socket net (is_inet6 nsap) True) s of
          (Inl e, s) \<Rightarrow>
            (Inl (-1), v\<lparr>terrno := Some e\<rparr>, s\<lparr>errno_of := Some e, rs := (rs s)\<lparr>vcsock := -1\<rparr>\<rparr>)
        | (Inr fd, s) \<Rightarrow>
            let s = s\<lparr>errno_of := None, rs := (rs s)\<lparr>vcsock := int fd\<rparr>\<rparr> in
            case sys (n_connect net (int fd) nsap) s of
              (Some e, s) \<Rightarrow> (case vc_fail net v (s\<lparr>errno_of := Some e\<rparr>) of (v, s) \<Rightarrow> (Inl 0, v, s))
            | (None, s) \<Rightarrow> (Inr (), v, set_flags (\<lambda>f. f OR 1) s))"

definition vc_write :: "'w net \<Rightarrow> u8 list \<Rightarrow> send_vars \<Rightarrow> 'w sstate \<Rightarrow> (int, unit) sum \<times> send_vars \<times> 'w sstate" where
  "vc_write net msg v s =
     (case sys (n_writev net (vcsock (rs s)) (put16_bytes (of_nat (length msg)) @ msg)) s of
        (Inl e, s) \<Rightarrow> (case vc_fail net v (s\<lparr>errno_of := Some e\<rparr>) of (v, s) \<Rightarrow> (Inl 0, v, s))
      | (Inr n, s) \<Rightarrow>
          if n \<noteq> length msg + 2 then (case vc_fail net v s of (v, s) \<Rightarrow> (Inl 0, v, s)) else (Inr (), v, s))"

text \<open>Reading \<open>len\<close> bytes in as many pieces as it takes.\<close>

datatype read_end = Read_all | Read_eof | Read_error errno

function read_n :: "(nat \<Rightarrow> 'w \<Rightarrow> (errno + u8 list) \<times> 'w) \<Rightarrow> nat \<Rightarrow> 'w \<Rightarrow> read_end \<times> u8 list \<times> 'w" where
  "read_n rd len w =
     (if len = 0 then (Read_all, [], w)
      else case rd len w of
        (Inl e, w) \<Rightarrow> (Read_error e, [], w)
      | (Inr d, w) \<Rightarrow>
          let d = take len d in
          if d = [] then (Read_eof, [], w)
          else case read_n rd (len - length d) w of (r, ds, w) \<Rightarrow> (r, d @ ds, w))"
  by pat_completeness auto
termination
  by (relation "measure (\<lambda>(rd, len, w). len)") auto

text \<open>Throwing away the rest of a truncated answer.\<close>

function flush :: "(nat \<Rightarrow> 'w \<Rightarrow> (errno + u8 list) \<times> 'w) \<Rightarrow> nat \<Rightarrow> 'w \<Rightarrow> errno option \<times> 'w" where
  "flush rd len w =
     (if len = 0 then (None, w)
      else case rd (min len 512) w of
        (Inl e, w) \<Rightarrow> (Some e, w)
      | (Inr d, w) \<Rightarrow>
          let d = take (min len 512) d in if d = [] then (None, w) else flush rd (len - length d) w)"
  by pat_completeness auto
termination
  by (relation "measure (\<lambda>(rd, len, w). len)") auto

declare read_n.simps [simp del] flush.simps [simp del]

definition note_errno :: "errno option \<Rightarrow> 'w sstate \<Rightarrow> 'w sstate" where
  "note_errno e s = (case e of None \<Rightarrow> s | Some e \<Rightarrow> s\<lparr>errno_of := Some e\<rparr>)"

text \<open>Reading into the beginning of the answer buffer; the result says whether all was read.\<close>

definition read_answer ::
  "(nat \<Rightarrow> 'w \<Rightarrow> (errno + u8 list) \<times> 'w) \<Rightarrow> nat \<Rightarrow> 'w sstate \<Rightarrow> bool \<times> 'w sstate" where
  "read_answer rd len s =
     (case sys (\<lambda>w. case read_n rd len w of (r, d, w) \<Rightarrow> ((r, d), w)) s of
        ((r, d), s) \<Rightarrow>
          (r = Read_all,
           note_errno (case r of Read_error e \<Rightarrow> Some e | _ \<Rightarrow> None) (s\<lparr>answer := d @ drop (length d) (answer s)\<rparr>)))"

datatype vc_step = Vc_return int | Vc_reset | Vc_again

text \<open>From the label \<open>read_len\<close>; \<open>Vc_reset\<close> is a reset of the connection by the server.\<close>

definition vc_read :: "'w net \<Rightarrow> u8 list \<Rightarrow> send_vars \<Rightarrow> 'w sstate \<Rightarrow> (vc_step \<times> send_vars \<times> 'w sstate) cres" where
  "vc_read net msg v s =
     (let fd = vcsock (rs s); (ok, s) = read_answer (n_read_retry net fd) 2 s in
      if \<not> ok then
        (case vc_fail net v s of (v, s) \<Rightarrow>
           if terrno v = Some ECONNRESET then Inr (Vc_reset, v, s) else Inr (Vc_return 0, v, do_nclose net s))
      else
        and_then (ns_get16 (answer s) 0) (\<lambda>l.
        let resplen = unat l; anssiz = length (answer s); truncating = (resplen > anssiz);
            len = (if truncating then anssiz else resplen) in
        if len < 12 then Inr (Vc_return 0, v\<lparr>terrno := Some EMSGSIZE\<rparr>, do_nclose net s)
        else
          let (ok, s) = read_answer (n_read net fd) len s in
          if \<not> ok then (case vc_fail net v s of (v, s) \<Rightarrow> Inr (Vc_return 0, v, s))
          else
            let s = (if truncating then
                       (case sys (flush (n_read net fd) (resplen - anssiz)) (s\<lparr>answer := (answer s)[2 := answer s ! 2 OR 2]\<rparr>) of
                          (e, s) \<Rightarrow> note_errno e s)
                     else s) in
            if take 2 msg \<noteq> take 2 (answer s) then Inr (Vc_again, v, s)
            else Inr (Vc_return (int resplen), v, s)))"

fun vc_loop :: "nat \<Rightarrow> 'w net \<Rightarrow> u8 list \<Rightarrow> send_vars \<Rightarrow> 'w sstate \<Rightarrow> (int option \<times> send_vars \<times> 'w sstate) cres" where
  "vc_loop 0 net msg v s = Inl Diverges"
| "vc_loop (Suc fuel) net msg v s =
     and_then (vc_read net msg v s) (\<lambda>(r, v, s).
       case r of
         Vc_return n \<Rightarrow> Inr (Some n, v, s)
       | Vc_reset \<Rightarrow> Inr (None, v, s)
       | Vc_again \<Rightarrow> vc_loop fuel net msg v s)"

text \<open>From the label \<open>same_ns\<close> on; \<open>None\<close> when the connection was reset.\<close>

definition vc_attempt :: "nat \<Rightarrow> 'w net \<Rightarrow> u8 list \<Rightarrow> sock_addr \<Rightarrow> send_vars \<Rightarrow> 'w sstate
    \<Rightarrow> (int option \<times> send_vars \<times> 'w sstate) cres" where
  "vc_attempt fuel net msg nsap v s =
     (case vc_connect net nsap v (vc_check_peer net nsap s) of
        (Inl n, v, s) \<Rightarrow> Inr (Some n, v, s)
      | (Inr _, v, s) \<Rightarrow>
          (case vc_write net msg v s of
             (Inl n, v, s) \<Rightarrow> Inr (Some n, v, s)
           | (Inr _, v, s) \<Rightarrow> vc_loop fuel net msg v s))"

definition send_vc :: "nat \<Rightarrow> 'w net \<Rightarrow> u8 list \<Rightarrow> nat \<Rightarrow> send_vars \<Rightarrow> 'w sstate \<Rightarrow> (int \<times> send_vars \<times> 'w sstate) cres" where
  "send_vc fuel net msg ns v s =
     (let nsap = the (nsaddrs (rs s) ! ns) in
      and_then (vc_attempt fuel net msg nsap v s) (\<lambda>(r, v, s).
      let s = (if r = None then do_nclose net s else s) in
      case r of
        Some n \<Rightarrow> Inr (n, v, s)
      | None \<Rightarrow>
          and_then (vc_attempt fuel net msg nsap v s) (\<lambda>(r, v, s).
            case r of Some n \<Rightarrow> Inr (n, v, s) | None \<Rightarrow> Inr (0, v, do_nclose net s))))"

section \<open>The exchange\<close>

type_synonym 'w sender = "u8 list \<Rightarrow> nat \<Rightarrow> send_vars \<Rightarrow> 'w sstate \<Rightarrow> (int \<times> send_vars \<times> 'w sstate) cres"

text \<open>What one server leads to: the result of the exchange, or the next server.\<close>

type_synonym 'w try_result = "(int option \<times> send_vars \<times> 'w sstate) cres"

definition got_answer :: "'w net \<Rightarrow> int \<Rightarrow> send_vars \<Rightarrow> 'w sstate \<Rightarrow> 'w try_result" where
  "got_answer net n v s =
     Inr (Some n, v,
       if v_circuit v \<and> \<not> opt RES_USEVC (rs s) \<or> \<not> opt RES_STAYOPEN (rs s) then do_nclose net s else s)"

definition by_vc :: "'w sender \<Rightarrow> 'w net \<Rightarrow> u8 list \<Rightarrow> nat \<Rightarrow> send_vars \<Rightarrow> 'w sstate \<Rightarrow> 'w try_result" where
  "by_vc vc net msg ns v s =
     and_then (vc msg ns (v\<lparr>last_try := True\<rparr>) s) (\<lambda>(n, v, s).
       if n < 0 then Inr (Some (-1), v, s) else if n = 0 then Inr (None, v, s) else got_answer net n v s)"

definition try_server :: "'w sender \<Rightarrow> 'w sender \<Rightarrow> 'w net \<Rightarrow> u8 list \<Rightarrow> nat \<Rightarrow> send_vars \<Rightarrow> 'w sstate \<Rightarrow> 'w try_result" where
  "try_server dg vc net msg ns v s =
     (if nsaddrs (rs s) ! ns = None then Inr (None, v, s)
      else if v_circuit v then by_vc vc net msg ns v s
      else
        and_then (dg msg ns v s) (\<lambda>(n, v, s).
          if n < 0 then Inr (Some (-1), v, s)
          else if n = 0 then Inr (None, v, s)
          else if v_circuit v then by_vc vc net msg ns v s
          else got_answer net n v s))"

fun try_servers :: "'w sender \<Rightarrow> 'w sender \<Rightarrow> 'w net \<Rightarrow> u8 list \<Rightarrow> nat list \<Rightarrow> send_vars \<Rightarrow> 'w sstate \<Rightarrow> 'w try_result" where
  "try_servers dg vc net msg [] v s = Inr (None, v, s)"
| "try_servers dg vc net msg (ns # nss) v s =
     and_then (try_server dg vc net msg ns v s) (\<lambda>(r, v, s).
       case r of Some n \<Rightarrow> Inr (Some n, v, s) | None \<Rightarrow> try_servers dg vc net msg nss v s)"

fun retry_loop :: "nat \<Rightarrow> 'w sender \<Rightarrow> 'w sender \<Rightarrow> 'w net \<Rightarrow> u8 list \<Rightarrow> send_vars \<Rightarrow> 'w sstate \<Rightarrow> 'w try_result" where
  "retry_loop 0 dg vc net msg v s = Inr (None, v, s)"
| "retry_loop (Suc k) dg vc net msg v s =
     and_then (try_servers dg vc net msg [0..<MAXNS] v s) (\<lambda>(r, v, s).
       if r \<noteq> None \<or> last_try v then Inr (r, v, s) else retry_loop k dg vc net msg v s)"

definition send_failed :: "send_vars \<Rightarrow> 'w sstate \<Rightarrow> 'w sstate" where
  "send_failed v s =
     s\<lparr>errno_of :=
        (if v_circuit v then terrno v else if gotsomewhere v then Some ETIMEDOUT else Some ECONNREFUSED)\<rparr>"

definition libc_res_nsend :: "'w sender \<Rightarrow> 'w sender \<Rightarrow> 'w net \<Rightarrow> 'w sock_world nsend" where
  "libc_res_nsend dg vc net msg s =
     (if nscount (rs s) = 0 then Inr (-1, s\<lparr>errno_of := Some ESRCH\<rparr>)
      else if length (answer s) < 12 then Inr (-1, s\<lparr>errno_of := Some EINVAL\<rparr>)
      else
        let v = \<lparr>v_circuit = opt RES_USEVC (rs s) \<or> length msg > 512, gotsomewhere = False,
                 terrno = Some ETIMEDOUT, last_try = False\<rparr> in
        and_then (sync_table net s) (\<lambda>s.
        let s = (if opt RES_ROTATE (rs s) \<and> \<not> opt RES_BLAST (rs s) then s\<lparr>rs := rotate_servers (rs s)\<rparr> else s) in
        and_then (retry_loop (nat (retry (rs s))) dg vc net msg v s) (\<lambda>(r, v, s).
          case r of
            Some n \<Rightarrow> Inr (n, s)
          | None \<Rightarrow> Inr (-1, send_failed v (do_nclose net s)))))"

definition res_nsend :: "nat \<Rightarrow> 'w net \<Rightarrow> 'w sock_world nsend" where
  "res_nsend fuel net = libc_res_nsend (send_dg fuel net) (send_vc fuel net) net"

text \<open>Under \<open>__native_client__\<close> the two senders abort.\<close>

definition native_sender :: "'w sender" where
  "native_sender msg ns v s = Inl Abort"

definition native_nsend :: "'w net \<Rightarrow> 'w sock_world nsend" where
  "native_nsend net = libc_res_nsend native_sender native_sender net"

end
