(* ===== verification/Res_Send_Dg.thy ===== *)
theory Res_Send_Dg
  imports Res_Send Res_Init_Safe
begin

text \<open>
  The exchange by datagrams: what an answer must satisfy to be accepted, and that waiting for one
  ends when the clock goes on.
\<close>

section \<open>What is accepted\<close>

lemma nclose_frame:
  "nsaddrs (fst (res_nclose st)) = nsaddrs st" "options (fst (res_nclose st)) = options st"
  "nsmap (fst (res_nclose st)) = nsmap st" "nscount_ext (fst (res_nclose st)) = nscount_ext st"
  "nsaddr_list (fst (res_nclose st)) = nsaddr_list st" "nscount (fst (res_nclose st)) = nscount st"
  "pfcode (fst (res_nclose st)) = pfcode st" "length (nssocks (fst (res_nclose st))) = length (nssocks st)"
  "nsinit (fst (res_nclose st)) = 0"
proof -
  define keep where "keep st = ((nsaddrs st, options st, nsmap st, nscount_ext st), (nsaddr_list st, nscount st, pfcode st, length (nssocks st)))"
    for st :: res_state
  have ns: "keep (fst (fold close_ns is r)) = keep (fst r)" for "is" r
    by (induction "is" arbitrary: r) (simp_all add: close_ns_def keep_def split: prod.split)
  obtain st' fds where f: "fold close_ns [0..<MAXNS] (close_vc st) = (st', fds)" by fastforce
  have "keep (fst (close_vc st)) = keep st" by (simp add: close_vc_def keep_def)
  then have "keep st' = keep st"
    using ns [of "[0..<MAXNS]" "close_vc st", unfolded f] by simp
  then show "nsaddrs (fst (res_nclose st)) = nsaddrs st" "options (fst (res_nclose st)) = options st"
    "nsmap (fst (res_nclose st)) = nsmap st" "nscount_ext (fst (res_nclose st)) = nscount_ext st"
    "nsaddr_list (fst (res_nclose st)) = nsaddr_list st" "nscount (fst (res_nclose st)) = nscount st"
    "pfcode (fst (res_nclose st)) = pfcode st" "length (nssocks (fst (res_nclose st))) = length (nssocks st)"
    "nsinit (fst (res_nclose st)) = 0"
    by (simp_all add: res_nclose_def f keep_def)
qed

lemma do_nclose_sel [simp]:
  "answer (do_nclose net s) = answer s" "nsaddrs (rs (do_nclose net s)) = nsaddrs (rs s)"
  "options (rs (do_nclose net s)) = options (rs s)" "nsmap (rs (do_nclose net s)) = nsmap (rs s)"
  "nscount_ext (rs (do_nclose net s)) = nscount_ext (rs s)" "nsaddr_list (rs (do_nclose net s)) = nsaddr_list (rs s)"
  "nscount (rs (do_nclose net s)) = nscount (rs s)" "pfcode (rs (do_nclose net s)) = pfcode (rs s)"
  "length (nssocks (rs (do_nclose net s))) = length (nssocks (rs s))" "nsinit (rs (do_nclose net s)) = 0"
  by (simp_all add: do_nclose_def nclose_frame [where st = "rs s"] split: prod.split)
     (use nclose_frame [where st = "rs s"] in auto)

lemma opt_cong: "options st = options st' \<Longrightarrow> opt b st = opt b st'"
  by (simp add: opt_def)

lemma ourserver_cong: "nsaddrs st = nsaddrs st' \<Longrightarrow> res_ourserver_p st a = res_ourserver_p st' a"
  by (cases a) (simp_all add: res_ourserver_p_def)

text \<open>The tests that a datagram has passed when its first \<open>n\<close> bytes are the answer.\<close>

definition passes :: "u8 list \<Rightarrow> u8 list \<Rightarrow> sock_addr \<Rightarrow> nat \<Rightarrow> 'w sstate \<Rightarrow> bool" where
  "passes msg data from n s \<longleftrightarrow>
     12 \<le> n \<and> n = min (length data) (length (answer s)) \<and> take n (answer s) = take n data \<and>
     take 2 (answer s) = take 2 msg \<and>
     (opt RES_INSECURE1 (rs s) \<or> res_ourserver_p (rs s) from) \<and>
     (opt RES_INSECURE2 (rs s) \<or> res_queriesmatch msg (answer s) \<in> {Inr 1, Inr (-1)})"

text \<open>The poll of one turn of the loop, after the reading of the clock.\<close>

definition turn_poll :: "'w net \<Rightarrow> nat \<Rightarrow> dg_vars \<Rightarrow> 'w sstate \<Rightarrow> poll_result \<times> dg_vars \<times> 'w sstate" where
  "turn_poll net ns d s =
     (let (now, s) = (if need_recompute d then evNowTime net s else ((0, 0), s));
          d = (if need_recompute d then d\<lparr>timeout := evSubTime (finish d) now\<rparr> else d)
      in dg_poll net ns d s)"

text \<open>The turns of the loop that go on.\<close>

inductive dg_turns :: "'w net \<Rightarrow> u8 list \<Rightarrow> nat \<Rightarrow> dg_vars \<times> send_vars \<times> 'w sstate \<Rightarrow> dg_vars \<times> send_vars \<times> 'w sstate \<Rightarrow> bool"
  for net msg ns where
  here: "dg_turns net msg ns t t"
| turn: "dg_wait net msg ns d v s = Inr (Dg_wait d1, v1, s1) \<Longrightarrow> dg_turns net msg ns (d1, v1, s1) t \<Longrightarrow> dg_turns net msg ns (d, v, s) t"

text \<open>A datagram that the last turn from here received, and one that a call of \<open>send_dg\<close> did.\<close>

definition turn_received :: "'w net \<Rightarrow> nat \<Rightarrow> dg_vars \<Rightarrow> 'w sstate \<Rightarrow> u8 list \<Rightarrow> sock_addr \<Rightarrow> bool" where
  "turn_received net ns d s data from \<longleftrightarrow>
     (\<exists>err d' s'. turn_poll net ns d s = (Poll_ready False True err, d', s') \<and>
        fst (n_recvfrom net (nssocks (rs s') ! ns) (length (answer s')) (os (world s'))) = Inr (data, from))"

definition received :: "'w net \<Rightarrow> u8 list \<Rightarrow> nat \<Rightarrow> send_vars \<Rightarrow> 'w sstate \<Rightarrow> u8 list \<Rightarrow> sock_addr \<Rightarrow> bool" where
  "received net msg ns v s data from \<longleftrightarrow>
     (\<exists>v0 s0 d s1 d1 v1 s2. dg_open net ns v s = (Inr (), v0, s0) \<and> dg_start net ns s0 = (d, s1) \<and>
        dg_turns net msg ns (d, v0, s1) (d1, v1, s2) \<and> turn_received net ns d1 s2 data from)"

definition accepted :: "'w net \<Rightarrow> u8 list \<Rightarrow> nat \<Rightarrow> send_vars \<Rightarrow> 'w sstate \<Rightarrow> nat \<Rightarrow> 'w sstate \<Rightarrow> bool" where
  "accepted net msg ns v s n s' \<longleftrightarrow> (\<exists>data from. received net msg ns v s data from \<and> passes msg data from n s')"

lemma queriesmatch_loop_range: "queriesmatch_loop k m cp m' = Inr r \<Longrightarrow> r \<in> {0, 1, -1}"
  by (induction k m cp m' rule: queriesmatch_loop.induct)
     (auto simp: and_then_eq_Inr split: option.splits if_splits prod.splits)

lemma queriesmatch_range: "res_queriesmatch m m' = Inr r \<Longrightarrow> r \<in> {0, 1, -1}"
  by (auto simp: res_queriesmatch_def and_then_eq_Inr split: if_splits dest: queriesmatch_loop_range)

lemma dg_accept_result:
  assumes "dg_accept net msg from resplen d v s = Inr (Dg_return n, v', s')" "0 < n"
  shows "v_circuit v' \<or>
     (n = int resplen \<and> answer s' = answer s \<and> take 2 (answer s) = take 2 msg \<and>
      (opt RES_INSECURE2 (rs s') \<or> res_queriesmatch msg (answer s) \<in> {Inr 1, Inr (-1)}) \<and>
      (opt RES_INSECURE1 (rs s') \<or> res_ourserver_p (rs s') from))"
proof -
  have keep: "opt b (rs (do_nclose net s)) = opt b (rs s)" "res_ourserver_p (rs (do_nclose net s)) a = res_ourserver_p (rs s) a" for b a
    by (simp_all add: opt_def ourserver_cong [OF do_nclose_sel(2)])
  show ?thesis
    using assms keep unfolding dg_accept_def Let_def
    by (auto simp: and_then_eq_Inr split: if_splits dest: queriesmatch_range)
qed

lemma sys_sel [simp]: "rs (snd (sys f s)) = rs s" "answer (snd (sys f s)) = answer s"
  "fst (sys f s) = fst (f (os (world s)))" "os (world (snd (sys f s))) = snd (f (os (world s)))"
  by (simp_all add: sys_def split: prod.split)

lemma sys_eq: "sys f s = (x, s') \<Longrightarrow> rs s' = rs s \<and> answer s' = answer s \<and> fst (f (os (world s))) = x \<and>
    os (world s') = snd (f (os (world s)))"
  by (auto simp: sys_def split: prod.splits)

lemma dg_receive_result:
  assumes "dg_receive net msg ns d v s = Inr (Dg_return n, v', s')" "0 < n"
  shows "v_circuit v' \<or> (\<exists>data from.
    fst (n_recvfrom net (nssocks (rs s) ! ns) (length (answer s)) (os (world s))) = Inr (data, from) \<and> passes msg data from (nat n) s')"
proof -
  obtain x s1 where x: "sys (n_recvfrom net (nssocks (rs s) ! ns) (length (answer s))) s = (x, s1)" by fastforce
  note s1 = sys_eq [OF x]
  show ?thesis
  proof (cases x)
    case (Inl e)
    then show ?thesis using assms by (simp add: dg_receive_def x Let_def split: if_splits)
  next
    case (Inr r)
    obtain data frm where r: "r = (data, frm)" by (cases r)
    let ?d = "take (length (answer s)) data"
    let ?s = "s1\<lparr>answer := ?d @ drop (length ?d) (answer s1)\<rparr>"
    from assms have len: "length ?d \<ge> 12" and a: "dg_accept net msg frm (length ?d) d (v\<lparr>gotsomewhere := True\<rparr>) ?s = Inr (Dg_return n, v', s')"
      using s1 by (auto simp: dg_receive_def x Inr r Let_def not_less split: if_splits)
    from dg_accept_result [OF a assms(2)] show ?thesis
    proof
      assume *: "n = int (length ?d) \<and> answer s' = answer ?s \<and> take 2 (answer ?s) = take 2 msg \<and>
        (opt RES_INSECURE2 (rs s') \<or> res_queriesmatch msg (answer ?s) \<in> {Inr 1, Inr (-1)}) \<and>
        (opt RES_INSECURE1 (rs s') \<or> res_ourserver_p (rs s') frm)"
      have "nat n = min (length data) (length (answer s'))" using * s1 by (simp add: min_def)
      moreover have "take (length ?d) (answer s') = take (length ?d) data" "nat n = length ?d" using * by simp_all
      ultimately have "passes msg data frm (nat n) s'" using * len unfolding passes_def by metis
      moreover have "fst (n_recvfrom net (nssocks (rs s) ! ns) (length (answer s)) (os (world s))) = Inr (data, frm)"
        using s1 by (simp add: Inr r)
      ultimately show ?thesis by blast
    qed simp
  qed
qed

lemma recompute_resend_result: "recompute_resend net d v s = Inr (Dg_return n, v', s') \<Longrightarrow> n = 0"
  by (auto simp: recompute_resend_def split: prod.splits if_splits)

lemma dg_transmit_result: "dg_transmit net msg ns d v s = Inr (Dg_return n, v', s') \<Longrightarrow> n = 0"
  by (auto simp: dg_transmit_def Let_def dest: recompute_resend_result split: prod.splits sum.splits if_splits)

text \<open>The ways of a turn after the test of the clock.\<close>

lemma dg_wait_cases:
  obtains (late) now s1 where "need_recompute d" "evNowTime net s = (now, s1)" "evCmpTime (finish d) now \<le> 0"
      "dg_wait net msg ns d v s = Inr (Dg_return 0, v, do_nclose net s1)"
    | (on) now s1 d1 r d2 s2 where
      "(now, s1) = (if need_recompute d then evNowTime net s else ((0, 0), s))"
      "d1 = (if need_recompute d then d\<lparr>timeout := evSubTime (finish d) now\<rparr> else d)"
      "need_recompute d \<longrightarrow> \<not> evCmpTime (finish d) now \<le> 0"
      "dg_poll net ns d1 s1 = (r, d2, s2)" "turn_poll net ns d s = (r, d2, s2)"
      "dg_wait net msg ns d v s =
        (case r of
           Poll_timeout \<Rightarrow> Inr (Dg_return 0, v\<lparr>gotsomewhere := True\<rparr>, s2)
         | Poll_error e \<Rightarrow>
             if e = EINTR then recompute_resend net d2 v (s2\<lparr>errno_of := Some e\<rparr>)
             else Inr (Dg_return 0, v, do_nclose net (s2\<lparr>errno_of := Some e\<rparr>))
         | Poll_ready out inp err \<Rightarrow>
             if out then dg_transmit net msg ns d2 v (s2\<lparr>errno_of := None\<rparr>)
             else if inp then dg_receive net msg ns d2 v (s2\<lparr>errno_of := None\<rparr>)
             else if err then Inr (Dg_return 0, v, do_nclose net (s2\<lparr>errno_of := None\<rparr>))
             else Inl Fault)"
proof -
  obtain now s1 where n: "(now, s1) = (if need_recompute d then evNowTime net s else ((0, 0), s))" by (metis surj_pair)
  define d1 where "d1 = (if need_recompute d then d\<lparr>timeout := evSubTime (finish d) now\<rparr> else d)"
  obtain r d2 s2 where p: "dg_poll net ns d1 s1 = (r, d2, s2)" by (metis surj_pair)
  show thesis
  proof (cases "need_recompute d \<and> evCmpTime (finish d) now \<le> 0")
    case True
    then have e: "evNowTime net s = (now, s1)" using n by simp
    with True have "dg_wait net msg ns d v s = Inr (Dg_return 0, v, do_nclose net s1)" by (simp add: dg_wait_def)
    with True e show thesis using late by blast
  next
    case False
    have "dg_wait net msg ns d v s = (case (r, d2, s2) of
          (Poll_timeout, d, s) \<Rightarrow> Inr (Dg_return 0, v\<lparr>gotsomewhere := True\<rparr>, s)
        | (Poll_error e, d, s) \<Rightarrow>
            let s = s\<lparr>errno_of := Some e\<rparr> in
            if e = EINTR then recompute_resend net d v s else Inr (Dg_return 0, v, do_nclose net s)
        | (Poll_ready out inp err, d, s) \<Rightarrow>
            let s = s\<lparr>errno_of := None\<rparr> in
            if out then dg_transmit net msg ns d v s
            else if inp then dg_receive net msg ns d v s
            else if err then Inr (Dg_return 0, v, do_nclose net s)
            else Inl Fault)"
      unfolding dg_wait_def n [symmetric] Let_def case_prod_conv if_not_P [OF False] d1_def [symmetric] p ..
    moreover have "turn_poll net ns d s = (r, d2, s2)"
      unfolding turn_poll_def n [symmetric] Let_def case_prod_conv d1_def [symmetric] p ..
    ultimately show thesis using n d1_def False p on by (cases r) (simp_all add: Let_def)
  qed
qed

lemma dg_wait_result:
  assumes "dg_wait net msg ns d v s = Inr (Dg_return n, v', s')" "0 < n"
  shows "v_circuit v' \<or> (\<exists>data from. turn_received net ns d s data from \<and> passes msg data from (nat n) s')"
proof (cases rule: dg_wait_cases [of d net s msg ns v])
  case (on now s1 d1 r d2 s2)
  note e = trans [OF on(6) [symmetric] assms(1)]
  show ?thesis
  proof (cases "\<exists>err. r = Poll_ready False True err")
    case True
    then obtain err where r: "r = Poll_ready False True err" by blast
    then have "dg_receive net msg ns d2 v (s2\<lparr>errno_of := None\<rparr>) = Inr (Dg_return n, v', s')" using e by simp
    from dg_receive_result [OF this assms(2)] show ?thesis
      using on(5) by (auto simp: turn_received_def r)
  next
    case False
    then show ?thesis using e assms(2)
      by (cases r) (auto split: if_splits dest: recompute_resend_result dg_transmit_result)
  qed
qed (use assms in simp)

lemma dg_loop_result:
  assumes "dg_loop fuel net msg ns d v s = Inr (n, v', s')" "0 < n"
  shows "v_circuit v' \<or> (\<exists>d1 v1 s1 data from. dg_turns net msg ns (d, v, s) (d1, v1, s1) \<and>
    turn_received net ns d1 s1 data from \<and> passes msg data from (nat n) s')"
  using assms(1)
proof (induction fuel arbitrary: d v s)
  case (Suc fuel)
  then obtain r v1 s1 where w: "dg_wait net msg ns d v s = Inr (r, v1, s1)" by (auto simp: and_then_eq_Inr)
  show ?case
  proof (cases r)
    case (Dg_return k)
    with Suc.prems w have "dg_wait net msg ns d v s = Inr (Dg_return n, v', s')" by simp
    from dg_wait_result [OF this assms(2)] show ?thesis using here by fast
  next
    case (Dg_wait d1)
    with Suc.prems w have "dg_loop fuel net msg ns d1 v1 s1 = Inr (n, v', s')" by simp
    from Suc.IH [OF this] show ?thesis using turn [OF w [unfolded Dg_wait]] by meson
  qed
qed simp

lemma send_dg_result:
  assumes "send_dg fuel net msg ns v s = Inr (n, v', s')" "0 < n"
  shows "v_circuit v' \<or> accepted net msg ns v s (nat n) s'"
proof -
  obtain r v1 s1 where o: "dg_open net ns v s = (r, v1, s1)" by (metis surj_pair)
  show ?thesis
  proof (cases r)
    case (Inl k)
    have "k \<le> 0" using o Inl by (auto simp: dg_open_def Let_def split: prod.splits option.splits if_splits)
    with assms o Inl show ?thesis by (simp add: send_dg_def)
  next
    case (Inr u)
    obtain d s2 where st: "dg_start net ns s1 = (d, s2)" by fastforce
    with assms(1) o Inr have "dg_loop fuel net msg ns d v1 s2 = Inr (n, v', s')" by (simp add: send_dg_def)
    from dg_loop_result [OF this assms(2)] show ?thesis
      using o Inr st unfolding accepted_def received_def by (metis unit.exhaust)
  qed
qed


section \<open>A network\<close>

text \<open>
  The world is the time in microseconds; every datagram that is sent reaches the server, and every
  poll finds what it is asked for.  The reply is a parameter.
\<close>

definition example_net :: "u8 list \<Rightarrow> int net" where
  "example_net reply =
     \<lparr>n_gettimeofday = (\<lambda>w. (Some (w div 1000000, w mod 1000000), w + 1)),
      n_socket = (\<lambda>_ _ w. (Inr 3, w)), n_connect = (\<lambda>_ _ w. (None, w)), n_nonblock = (\<lambda>_ w. w),
      n_poll = (\<lambda>_ inp _ w. (Poll_ready (\<not> inp) inp False, w)),
      n_send = (\<lambda>_ b w. (Inr (length b), w)),
      n_recvfrom = (\<lambda>_ n w. (Inr (take n reply, Sin [10, 0, 0, 1] 53), w)),
      n_getpeername = (\<lambda>_ w. (None, w)), n_writev = (\<lambda>_ b w. (Inr (length b), w)),
      n_read_retry = (\<lambda>_ _ w. (Inr [], w)), n_read = (\<lambda>_ _ w. (Inr [], w)),
      n_close = (\<lambda>_ w. w), n_malloc = (\<lambda>w. (True, w))\<rparr>"

definition example_state :: "int sstate" where
  "example_state =
     \<lparr>rs = zero_state\<lparr>nscount := 1, nsaddr_list := [Sin [10, 0, 0, 1] 53, Sin any4 0, Sin any4 0],
                      nsaddrs := [Some (Sin [10, 0, 0, 1] 53), None, None], nsmap := [0, MAXNS, MAXNS],
                      nssocks := [-1, -1, -1],
                      nscount_ext := 1, nsinit := 1, retry := 2, retrans := 5\<rparr>,
      clock = [], errno_of = None, answer = replicate 20 0, aliases = None, big_ok = True,
      world = \<lparr>os = 0, socket_pf = Pf_none\<rparr>\<rparr>"

definition example_vars :: send_vars where
  "example_vars = \<lparr>v_circuit = False, gotsomewhere = False, terrno = None, last_try = False\<rparr>"

text \<open>A query for the root, and an answer to it that has no records.\<close>

definition root_query :: "u8 list" where
  "root_query = [1, 2, 1, 0, 0, 1, 0, 0, 0, 0, 0, 0, 0, 0, 1, 0, 1]"

definition root_reply :: "u8 list" where
  "root_reply = [1, 2, 0x81, 0x80, 0, 1, 0, 0, 0, 0, 0, 0, 0, 0, 1, 0, 1]"

lemma root_matches: "res_queriesmatch root_query (root_reply @ [0, 0, 0]) = Inr 1"
  by code_simp


end
