(* ===== verification/Res_Send_Live.thy ===== *)
theory Res_Send_Live
  imports Res_Send_Dg
begin

text \<open>Waiting for a datagram ends: every turn uses up time of the clock or moves on for good.\<close>

section \<open>Parsing never diverges\<close>

definition ends :: "'a cres \<Rightarrow> bool" where
  "ends r \<longleftrightarrow> r \<noteq> Inl Diverges"

named_theorems ends_intros \<open>functions whose loops end\<close>

lemma ends_basic [simp]:
  "ends (Inr x)" "ends (Inl (Errno e))" "ends (Inl Fault)" "ends (Inl Abort)" "\<not> ends (Inl Diverges)"
  by (simp_all add: ends_def)

lemma ends_and_then [ends_intros]: "ends m \<Longrightarrow> (\<And>x. m = Inr x \<Longrightarrow> ends (f x)) \<Longrightarrow> ends (and_then m f)"
  by (cases m) (auto simp: ends_def)

lemma ends_if [ends_intros]: "(b \<Longrightarrow> ends x) \<Longrightarrow> (\<not> b \<Longrightarrow> ends y) \<Longrightarrow> ends (if b then x else y)"
  by simp

lemma ends_fetch [ends_intros]: "ends (fetch mem i)" "ends (fetch_slice mem i n)" "ends (ns_get16 mem i)"
  by (auto simp: fetch_def fetch_slice_def ns_get16_def ends_def and_then_def)

lemma ends_unpack_step: "ends (unpack_step mem eom src n srcp dst len checked siz)"
  unfolding unpack_step_def unpack_copy_def Let_def by (auto intro!: ends_intros split: prod.split)

lemma ends_unpack_loop: "ends (unpack_loop mem eom src srcp dst len checked siz)"
proof (induction mem eom src srcp dst len checked siz rule: unpack_loop.induct)
  case (1 mem eom src srcp dst len checked siz)
  show ?case
    by (subst unpack_loop.simps) (auto simp: Let_def intro!: ends_intros ends_unpack_step 1 split: prod.split)
qed

lemma ends_ntop_label: "ends (ntop_label n cp dn siz)"
  by (induction n cp dn siz rule: ntop_label.induct) auto

lemma ends_ntop_bits: "ends (ntop_bits n cp dn)"
  by (induction n cp dn rule: ntop_bits.induct) auto

lemma ends_ntop_sep: "ends (ntop_sep dn siz)"
  by (simp add: ntop_sep_def)

lemma ends_ntop_loop: "ends (ntop_loop cp dn siz)"
proof (induction "length cp" arbitrary: cp dn rule: less_induct)
  case less
  show ?case
  proof (cases cp)
    case (Cons n ns)
    have rec: "ends (ntop_loop (drop k ns) d siz)" for k d
      by (rule less) (simp add: Cons)
    have tail: "ns = b # cs \<Longrightarrow> ends (ntop_loop (drop k cs) d siz)" for b cs k d
      using rec [of "Suc k" d] by simp
    have label: "ends (and_then (ntop_label k ns d siz) (\<lambda>(cp, dn). ntop_loop cp dn siz))" for k d
      by (rule ends_and_then [OF ends_ntop_label]) (auto dest: ntop_label_rest intro: rec)
    have bits: "ends (and_then (ntop_bits k cs d) (\<lambda>(cp, dn). ntop_loop (cp) (dn @ [0x5D]) siz))" if "ns = b # cs" for b cs k d
      by (rule ends_and_then [OF ends_ntop_bits]) (auto dest: ntop_bits_rest intro: tail [OF that])
    show ?thesis unfolding Cons ntop_loop.simps Let_def
      by (intro ends_if ends_and_then ends_ntop_sep ends_basic) (auto dest: ntop_label_rest split: list.split intro!: label bits ends_if ends_ntop_label rec)
  qed simp
qed

lemma ends_makecanon_loop: "ends (makecanon_loop s)"
proof (induction s rule: makecanon_loop.induct)
  case (1 s)
  then show ?case by (subst makecanon_loop.simps) (simp add: Let_def)
qed

lemma ends_samename: "ends (ns_samename a b)"
  by (auto simp: ns_samename_def ns_makecanon_def intro!: ends_intros ends_makecanon_loop)

lemma ends_dn_expand: "ends (dn_expand m eom src siz)"
  by (auto simp: dn_expand_def ns_name_uncompress_def ns_name_unpack_def ns_name_ntop_def
      intro!: ends_intros ends_unpack_loop ends_ntop_loop split: prod.split)

lemma ends_next_question: "ends (next_question m cp)"
  using ends_dn_expand [of m "length m" cp 1026]
  by (auto simp: next_question_def Let_def ends_def intro!: ends_intros split: sum.split cerror.split
      simp flip: ends_def)

lemma ends_nameinquery_loop: "ends (nameinquery_loop k name typ cls m cp)"
proof (induction k name "typ" cls m cp rule: nameinquery_loop.induct)
  case (2 k name "typ" cls m cp)
  have "ends (same_name_1 a b)" for a b
    using ends_samename [of a b] by (auto simp: same_name_1_def ends_def split: sum.split cerror.split)
  then show ?case by (auto intro!: ends_intros ends_next_question 2 split: option.split)
qed simp

lemma ends_queriesmatch_loop: "ends (queriesmatch_loop k m cp m')"
  by (induction k m cp m' rule: queriesmatch_loop.induct)
     (auto simp: res_nameinquery_def intro!: ends_intros ends_next_question ends_nameinquery_loop split: option.split)

lemma ends_queriesmatch: "ends (res_queriesmatch m m')"
  by (auto simp: res_queriesmatch_def intro!: ends_intros ends_queriesmatch_loop)

section \<open>Times as numbers\<close>

definition to_ns :: "timespec \<Rightarrow> int" where
  "to_ns t = BILLION * fst t + snd t"

definition normal :: "timespec \<Rightarrow> bool" where
  "normal t \<longleftrightarrow> 0 \<le> snd t \<and> snd t < BILLION"

lemma evCmpTime_to_ns:
  assumes "normal a" "normal b"
  shows "evCmpTime a b = sgn (to_ns a - to_ns b)"
proof -
  have lt: "to_ns x < to_ns y" if "normal x" "normal y" "fst x < fst y" for x y
    using that by (simp add: to_ns_def normal_def BILLION_def)
  consider "fst a < fst b" | "fst b < fst a" | "fst a = fst b" by linarith
  then show ?thesis
    using lt [of a b] lt [of b a] assms
    by cases (auto simp: evCmpTime_def Let_def to_ns_def BILLION_def)
qed

lemma evAddTime_to_ns:
  "to_ns (evAddTime a b) = to_ns a + to_ns b"
  "normal a \<Longrightarrow> normal b \<Longrightarrow> normal (evAddTime a b)"
  by (auto simp: evAddTime_def Let_def to_ns_def normal_def BILLION_def)

lemma evSubTime_to_ns:
  "to_ns (evSubTime a b) = to_ns a - to_ns b"
  "normal a \<Longrightarrow> normal b \<Longrightarrow> normal (evSubTime a b)"
  by (auto simp: evSubTime_def Let_def to_ns_def normal_def BILLION_def)

section \<open>A clock that goes on\<close>

text \<open>
  \<open>us\<close> is the time in microseconds: the clock shows it and has gone on when it is read again, no
  call takes it back, and \<open>poll\<close> reports only what it was asked for.
\<close>

definition ticks :: "'w net \<Rightarrow> ('w \<Rightarrow> int) \<Rightarrow> bool" where
  "ticks net us \<longleftrightarrow>
     (\<forall>w. (\<exists>sec usec. fst (n_gettimeofday net w) = Some (sec, usec) \<and> 0 \<le> usec \<and> usec < 1000000 \<and>
             us w = 1000000 * sec + usec) \<and> us w < us (snd (n_gettimeofday net w))) \<and>
     (\<forall>fd inp t w. us w \<le> us (snd (n_poll net fd inp t w)) \<and>
        (\<forall>out i e. fst (n_poll net fd inp t w) = Poll_ready out i e \<longrightarrow> (out \<longrightarrow> \<not> inp) \<and> (i \<longrightarrow> inp))) \<and>
     (\<forall>fd b w. us w \<le> us (snd (n_send net fd b w))) \<and>
     (\<forall>fd k w. us w \<le> us (snd (n_recvfrom net fd k w)))"

definition time_of :: "('w \<Rightarrow> int) \<Rightarrow> 'w sstate \<Rightarrow> int" where
  "time_of us s = 1000 * us (os (world s))"

lemma time_of_sel [simp]:
  "time_of us (errno_of_update f s) = time_of us s" "time_of us (rs_update g s) = time_of us s" "time_of us (answer_update h s) = time_of us s"
  by (simp_all add: time_of_def)

lemma evNowTime_ticks:
  assumes "ticks net us" "evNowTime net s = (now, s')"
  shows "to_ns now = time_of us s" "normal now" "time_of us s < time_of us s'" "rs s' = rs s"
proof -
  obtain sec usec where g: "fst (n_gettimeofday net (os (world s))) = Some (sec, usec)" "0 \<le> usec" "usec < 1000000"
      "us (os (world s)) = 1000000 * sec + usec" "us (os (world s)) < us (snd (n_gettimeofday net (os (world s))))"
    using assms(1) unfolding ticks_def by metis
  obtain x w where x: "n_gettimeofday net (os (world s)) = (x, w)" by fastforce
  from assms(2) g show "to_ns now = time_of us s" "normal now" "time_of us s < time_of us s'" "rs s' = rs s"
    by (auto simp: evNowTime_def sys_def x to_ns_def normal_def BILLION_def time_of_def)
qed

lemma sys_time:
  assumes "\<And>w. us w \<le> us (snd (f w))" "sys f s = (x, s')"
  shows "time_of us s \<le> time_of us s'"
  using assms(1) [of "os (world s)"] sys_eq [OF assms(2)] by (simp add: time_of_def)

section \<open>One turn\<close>

text \<open>What is left: the time to go, and the two flags that are set once and stay.\<close>

definition left :: "('w \<Rightarrow> int) \<Rightarrow> dg_vars \<Rightarrow> 'w sstate \<Rightarrow> nat" where
  "left us d s = nat (to_ns (finish d) - time_of us s) + (if need_recompute d then 0 else 1) + (if pollin d then 0 else 1)"

definition turn_inv :: "dg_vars \<Rightarrow> bool" where
  "turn_inv d \<longleftrightarrow> normal (finish d) \<and> (pollin d \<longleftrightarrow> 0 < nwritten d)"

lemma recompute_resend_left:
  assumes "ticks net us" "turn_inv d" "recompute_resend net d v s = Inr (Dg_wait d', v', s')"
  shows "turn_inv d'" "left us d' s' < left us d s"
proof -
  obtain now s1 where n: "evNowTime net s = (now, s1)" by fastforce
  note t = evNowTime_ticks [OF assms(1) n]
  from assms(3) n have d': "d' = d\<lparr>timeout := evSubTime (finish d) now\<rparr>" "s' = s1" "evCmpTime (finish d) now > 0"
    by (auto simp: recompute_resend_def split: if_splits)
  then have "time_of us s < to_ns (finish d)"
    using t assms(2) by (simp add: evCmpTime_to_ns turn_inv_def)
  with d' t assms(2) show "turn_inv d'" "left us d' s' < left us d s" by (simp_all add: turn_inv_def left_def)
qed

lemma dg_transmit_left:
  assumes "ticks net us" "turn_inv d" "\<not> pollin d" "dg_transmit net msg ns d v s = Inr (Dg_wait d', v', s')"
  shows "turn_inv d' \<and> left us d' s' < left us d s"
proof -
  obtain x s1 where x: "sys (n_send net (nssocks (rs s) ! ns) msg) s = (x, s1)" by fastforce
  have c: "time_of us s \<le> time_of us s1" by (rule sys_time [OF _ x]) (use assms(1) in \<open>auto simp: ticks_def\<close>)
  show ?thesis
  proof (cases x)
    case (Inl e)
    with assms(4) x have r: "recompute_resend net d v (s1\<lparr>errno_of := Some e\<rparr>) = Inr (Dg_wait d', v', s')"
      by (simp add: dg_transmit_def Let_def split: if_splits)
    have "left us d (s1\<lparr>errno_of := Some e\<rparr>) \<le> left us d s" using c by (simp add: left_def)
    with recompute_resend_left [OF assms(1,2) r] show ?thesis by simp_all
  next
    case (Inr k)
    with assms x have "d' = d\<lparr>pollin := True, nwritten := nwritten d + 1\<rparr>" "s' = s1"
      by (simp_all add: dg_transmit_def split: if_splits)
    with assms c show ?thesis by (simp_all add: turn_inv_def left_def)
  qed
qed

lemma dg_accept_waits:
  "dg_accept net msg frm resplen d v s = Inr (Dg_wait d', v', s') \<Longrightarrow> d' = d \<and> s' = s"
  by (auto simp: dg_accept_def Let_def and_then_eq_Inr split: if_splits)

lemma dg_receive_left:
  assumes "ticks net us" "turn_inv d" "need_recompute d"
    and "dg_receive net msg ns d v s = Inr (Dg_wait d', v', s')"
  shows "d' = d \<and> time_of us s \<le> time_of us s'"
proof -
  obtain x s1 where x: "sys (n_recvfrom net (nssocks (rs s) ! ns) (length (answer s))) s = (x, s1)" by fastforce
  have c: "time_of us s \<le> time_of us s1" by (rule sys_time [OF _ x]) (use assms(1) in \<open>auto simp: ticks_def\<close>)
  show ?thesis
  proof (cases x)
    case (Inl e)
    with assms x c show ?thesis by (auto simp: dg_receive_def Let_def split: if_splits)
  next
    case (Inr r)
    obtain data frm where r: "r = (data, frm)" by fastforce
    from assms(4) x obtain k v1 s2 where "dg_accept net msg frm k d v1 s2 = Inr (Dg_wait d', v', s')" "time_of us s2 = time_of us s1"
      by (auto simp: dg_receive_def Inr r Let_def split: if_splits)
    with c show ?thesis by (auto dest: dg_accept_waits)
  qed
qed

text \<open>A poll for input waits, so that the clock is read in the next turn.\<close>

lemma dg_poll_left:
  assumes "ticks net us" "turn_inv d" "dg_poll net ns d s = (r, d', s')"
  shows "time_of us s \<le> time_of us s'" "d' = d \<or> d' = d\<lparr>need_recompute := True\<rparr>"
    "pollin d \<Longrightarrow> need_recompute d'" "r = Poll_ready out inp err \<Longrightarrow> (out \<longrightarrow> \<not> pollin d) \<and> (inp \<longrightarrow> pollin d)"
proof -
  let ?fd = "nssocks (rs s) ! ns" and ?t = "c_int (fst (timeout d) * 1000 + snd (timeout d) div 1000000)"
  have up: "us w \<le> us (snd (n_poll net fd i t w))" for fd i t w using assms(1) by (simp add: ticks_def)
  have flags: "fst (n_poll net fd i t w) = Poll_ready out inp err \<Longrightarrow> (out \<longrightarrow> \<not> i) \<and> (inp \<longrightarrow> i)" for fd i t w
    using assms(1) unfolding ticks_def by blast
  have step: "time_of us a \<le> time_of us b" if "sys (n_poll net fd i t) a = (x, b)" for fd i t a x b
    by (rule sys_time [OF _ that]) (rule up)
  obtain r1 s1 where p1: "(if nwritten d = 0 then sys (n_poll net ?fd (pollin d) 0) s else (Poll_timeout, s)) = (r1, s1)"
    by (metis surj_pair)
  have s1: "time_of us s \<le> time_of us s1" "rs s1 = rs s" "r1 = Poll_timeout \<or> nwritten d = 0 \<and> fst (n_poll net ?fd (pollin d) 0 (os (world s))) = r1"
    using p1 by (auto split: if_splits dest: sys_eq step)
  obtain r2 s2 where p2: "sys (n_poll net ?fd (pollin d) ?t) s1 = (r2, s2)" by fastforce
  have s2: "time_of us s1 \<le> time_of us s2" "fst (n_poll net ?fd (pollin d) ?t (os (world s1))) = r2"
    using step [OF p2] sys_eq [OF p2] by auto
  from assms(3) have res: "(r, d', s') = (if r1 = Poll_timeout then (r2, d\<lparr>need_recompute := True\<rparr>, s2) else (r1, d, s1))"
    unfolding dg_poll_def Let_def p1 case_prod_conv by (simp add: p2 split: if_splits)
  show "time_of us s \<le> time_of us s'" "d' = d \<or> d' = d\<lparr>need_recompute := True\<rparr>"
    using res s1(1) s2(1) by (auto split: if_splits)
  show "need_recompute d'" if "pollin d"
  proof -
    have "r1 = Poll_timeout" using that assms(2) s1(3) by (auto simp: turn_inv_def)
    with res show ?thesis by simp
  qed
  show "(out \<longrightarrow> \<not> pollin d) \<and> (inp \<longrightarrow> pollin d)" if "r = Poll_ready out inp err"
    using res that s1(3) s2(2) flags by (auto split: if_splits)
qed

lemma left_poll:
  assumes "d' = d \<or> d' = d\<lparr>need_recompute := True\<rparr>" "time_of us s \<le> time_of us s'"
  shows "left us d' s' \<le> left us d s" "need_recompute d' \<Longrightarrow> \<not> need_recompute d \<Longrightarrow> left us d' s' < left us d s"
  using assms by (auto simp: left_def)

lemma dg_wait_left:
  assumes "ticks net us" "turn_inv d" "dg_wait net msg ns d v s = Inr (Dg_wait d', v', s')"
  shows "turn_inv d' \<and> left us d' s' < left us d s"
proof (cases rule: dg_wait_cases [of d net s msg ns v])
  case (on now s1 d1 r d2 s2)
  have now: "evNowTime net s = (now, s1)" if "need_recompute d" using on(1) that by simp
  have inv1: "turn_inv d1" "need_recompute d1 = need_recompute d" using on(2) assms(2) by (simp_all add: turn_inv_def)
  have left1: "left us d1 s1 \<le> left us d s" "need_recompute d \<Longrightarrow> left us d1 s1 < left us d s"
  proof -
    show *: "left us d1 s1 < left us d s" if n: "need_recompute d"
    proof -
      note t = evNowTime_ticks [OF assms(1) now [OF n]]
      have "time_of us s < to_ns (finish d)"
        using on(3) n t assms(2) by (simp add: evCmpTime_to_ns turn_inv_def sgn_if split: if_splits)
      with t on(2) n show ?thesis by (simp add: left_def)
    qed
    show "left us d1 s1 \<le> left us d s" using * on(1,2) by (cases "need_recompute d") auto
  qed
  note poll = dg_poll_left [OF assms(1) inv1(1) on(4)]
  have inv2: "turn_inv d2" "pollin d2 = pollin d1" using poll(2) inv1(1) by (auto simp: turn_inv_def)
  have left2: "left us d2 s2 \<le> left us d s" "need_recompute d2 \<Longrightarrow> left us d2 s2 < left us d s"
    using left_poll [OF poll(2,1)] left1 inv1(2) by (cases "need_recompute d"; simp)+
  have same: "left us d2 (s2\<lparr>errno_of := e\<rparr>) = left us d2 s2" for e by (simp add: left_def)
  note w = trans [OF on(6) [symmetric] assms(3)]
  show ?thesis
  proof (cases r)
    case Poll_timeout
    with w show ?thesis by simp
  next
    case (Poll_error e)
    with w have "recompute_resend net d2 v (s2\<lparr>errno_of := Some e\<rparr>) = Inr (Dg_wait d', v', s')"
      by (simp split: if_splits)
    from recompute_resend_left [OF assms(1) inv2(1) this] left2(1) same show ?thesis by simp
  next
    case (Poll_ready out inp err)
    note flags = poll(4) [OF Poll_ready]
    consider (out) "out" | (inp) "\<not> out" "inp" using w Poll_ready by (auto split: if_splits)
    then show ?thesis
    proof cases
      case out
      with w Poll_ready have "dg_transmit net msg ns d2 v (s2\<lparr>errno_of := None\<rparr>) = Inr (Dg_wait d', v', s')" by simp
      from dg_transmit_left [OF assms(1) inv2(1) _ this] flags out inv2(2) left2(1) same show ?thesis by simp
    next
      case inp
      with w Poll_ready have r: "dg_receive net msg ns d2 v (s2\<lparr>errno_of := None\<rparr>) = Inr (Dg_wait d', v', s')" by simp
      have n: "need_recompute d2" using flags inp poll(3) by blast
      from dg_receive_left [OF assms(1) inv2(1) n r] have "d' = d2" "time_of us s2 \<le> time_of us s'" by simp_all
      then have "left us d' s' \<le> left us d2 s2" by (simp add: left_def)
      with left2(2) [OF n] inv2(1) \<open>d' = d2\<close> show ?thesis by simp
    qed
  qed
qed (use assms in simp)

section \<open>The loop\<close>

lemma ends_dg_accept: "ends (dg_accept net msg frm k d v s)"
  by (auto simp: dg_accept_def Let_def intro!: ends_intros ends_queriesmatch)

lemma ends_dg_wait: "ends (dg_wait net msg ns d v s)"
  by (cases rule: dg_wait_cases [of d net s msg ns v])
     (auto simp: recompute_resend_def dg_transmit_def dg_receive_def Let_def ends_dg_accept
       split: poll_result.split prod.split sum.split)

lemma dg_loop_ends:
  assumes "ticks net us"
  shows "turn_inv d \<Longrightarrow> left us d s < fuel \<Longrightarrow> ends (dg_loop fuel net msg ns d v s)"
proof (induction fuel arbitrary: d v s)
  case (Suc fuel)
  have "ends (case r of Dg_return n \<Rightarrow> Inr (n, v', s') | Dg_wait d' \<Rightarrow> dg_loop fuel net msg ns d' v' s')"
    if "dg_wait net msg ns d v s = Inr (r, v', s')" for r v' s'
    using that dg_wait_left [OF assms Suc.prems(1)] Suc by (cases r) fastforce+
  then show ?case by (auto intro!: ends_and_then ends_dg_wait)
qed simp

lemma dg_start_left:
  assumes "ticks net us" "dg_start net ns s = (d, s')"
  shows "turn_inv d" "left us d s' \<le> nat (1000000000 * wait_seconds (rs s) ns) + 2"
proof -
  obtain now s1 where n: "evNowTime net s = (now, s1)" by fastforce
  note t = evNowTime_ticks [OF assms(1) n]
  define sec where "sec = wait_seconds (rs s) ns"
  from assms(2) n have d: "s' = s1" "finish d = evAddTime now (sec, 0)" "pollin d = False" "nwritten d = 0" "need_recompute d = False"
    by (auto simp: dg_start_def Let_def sec_def evConsTime_def)
  have "normal (sec, 0)" by (simp add: normal_def BILLION_def)
  with d t show "turn_inv d" by (simp add: turn_inv_def evAddTime_to_ns)
  have "to_ns (finish d) = time_of us s + 1000000000 * sec" using d t by (simp add: evAddTime_to_ns) (simp add: to_ns_def BILLION_def)
  with t d show "left us d s' \<le> nat (1000000000 * wait_seconds (rs s) ns) + 2"
    by (simp add: left_def flip: sec_def)
qed


lemma open_dg_keeps [simp]:
  "retrans (rs (open_dg net b ns s)) = retrans (rs s)" "nscount (rs (open_dg net b ns s)) = nscount (rs s)"
proof -
  obtain x s1 where x: "sys (n_socket net b False) s = (x, s1)" by fastforce
  show "retrans (rs (open_dg net b ns s)) = retrans (rs s)" "nscount (rs (open_dg net b ns s)) = nscount (rs s)"
    using sys_eq [OF x] by (cases x; simp add: open_dg_def x set_sock_def)+
qed

lemma dg_socket_keeps [simp]:
  "retrans (rs (dg_socket net ns s)) = retrans (rs s)" "nscount (rs (dg_socket net ns s)) = nscount (rs s)"
  by (simp_all add: dg_socket_def Let_def)

lemma dg_map_addr_keeps [simp]:
  "retrans (rs (dg_map_addr ns s)) = retrans (rs s)" "nscount (rs (dg_map_addr ns s)) = nscount (rs s)"
  by (simp_all add: dg_map_addr_def)

lemma dg_open_keeps:
  assumes "dg_open net ns v s = (Inr u, v', s')"
  shows "wait_seconds (rs s') ns = wait_seconds (rs s) ns"
proof -
  have "retrans (rs s') = retrans (rs s)" "nscount (rs s') = nscount (rs s)"
    using assms unfolding dg_open_def Let_def
    by (auto split: if_splits prod.splits option.splits dest!: sys_eq)
  then show ?thesis unfolding wait_seconds_def by (simp only:)
qed

text \<open>C22: send_dg always returns when the clock goes on between two readings: the turns of its loop
  are bounded by the time it is ready to wait for the server, however often calls are interrupted
  and whatever datagrams come in.\<close>

theorem send_dg_returns:
  assumes "ticks net us" "nat (1000000000 * wait_seconds (rs s) ns) + 2 < fuel"
  shows "send_dg fuel net msg ns v s \<noteq> Inl Diverges"
proof -
  obtain r v1 s1 where o: "dg_open net ns v s = (r, v1, s1)" by (metis surj_pair)
  obtain d s2 where d: "dg_start net ns s1 = (d, s2)" by fastforce
  show ?thesis
  proof (cases r)
    case (Inr u)
    with dg_start_left [OF assms(1) d] dg_open_keeps [of net ns v s u v1 s1] o assms(2)
    have "turn_inv d" "left us d s2 < fuel" by simp_all
    from dg_loop_ends [OF assms(1) this] o d Inr show ?thesis by (simp add: send_dg_def ends_def)
  qed (simp add: send_dg_def o)
qed

lemma example_ticks: "ticks (example_net reply) id"
  by (auto simp: ticks_def example_net_def)

theorem send_dg_returns_witness:
  "ticks (example_net root_reply) id \<and>
   send_dg 10000000000 (example_net root_reply) root_query 0 example_vars example_state \<noteq> Inl Diverges"
proof -
  have "wait_seconds (rs example_state) 0 = 5" by code_simp
  then show ?thesis
    using send_dg_returns [OF example_ticks, of example_state 0 10000000000 root_reply root_query example_vars] example_ticks
    by simp
qed

end
