(* ===== verification/Res_Send_Answer.thy ===== *)
theory Res_Send_Answer
  imports Res_Send_Live
begin

text \<open>What \<open>res_nsend\<close> returns, by datagrams or over a virtual circuit.\<close>

section \<open>Virtual circuits\<close>

definition answered :: "u8 list \<Rightarrow> int \<Rightarrow> 'w sstate \<Rightarrow> bool" where
  "answered msg n s \<longleftrightarrow> 12 \<le> n \<and> take 2 (answer s) = take 2 msg"

lemma answered_do_nclose [simp]: "answered msg n (do_nclose net s) = answered msg n s"
  by (simp add: answered_def)

lemma vc_fail_fst: "vc_fail net v s = (v', s') \<Longrightarrow> s' = do_nclose net s"
  by (simp add: vc_fail_def)

lemma vc_read_result:
  assumes "vc_read net msg v s = Inr (Vc_return n, v', s')" "0 < n"
  shows "answered msg n s'"
proof -
  obtain ok s1 where r: "read_answer (n_read_retry net (vcsock (rs s))) 2 s = (ok, s1)" by fastforce
  obtain v2 s2 where f: "vc_fail net v s1 = (v2, s2)" by fastforce
  show ?thesis
  proof (cases ok)
    case False
    with assms r f show ?thesis by (simp add: vc_read_def Let_def split: if_splits)
  next
    case True
    then obtain l where l: "ns_get16 (answer s1) 0 = Inr l"
      using assms(1) r by (auto simp: vc_read_def Let_def and_then_eq_Inr)
    let ?len = "if unat l > length (answer s1) then length (answer s1) else unat l"
    have len: "\<not> ?len < 12"
      using assms True r l by (auto simp: vc_read_def Let_def split: if_splits)
    obtain ok2 s3 where r2: "read_answer (n_read net (vcsock (rs s))) ?len s1 = (ok2, s3)" by fastforce
    obtain v4 s4 where f2: "vc_fail net v s3 = (v4, s4)" by fastforce
    define s5 where "s5 = (if unat l > length (answer s1)
        then (case sys (flush (n_read net (vcsock (rs s))) (unat l - length (answer s1))) (s3\<lparr>answer := (answer s3)[2 := answer s3 ! 2 OR 2]\<rparr>) of
          (e, s) \<Rightarrow> note_errno e s) else s3)"
    have "vc_read net msg v s = (if \<not> ok2 then Inr (Vc_return 0, v4, s4)
        else if take 2 msg \<noteq> take 2 (answer s5) then Inr (Vc_again, v, s5) else Inr (Vc_return (int (unat l)), v, s5))"
      using len unfolding vc_read_def Let_def r case_prod_conv l and_then_Inr r2 f2 s5_def
      by (simp only: True if_False if_True not_True_eq_False)
    with assms len have "n = int (unat l)" "s' = s5" "take 2 msg = take 2 (answer s5)"
      by (auto split: if_splits)
    moreover have "12 \<le> unat l" using len by (simp split: if_splits)
    then have "int 12 \<le> int (unat l)" by (simp only: of_nat_le_iff)
    ultimately show ?thesis by (simp add: answered_def)
  qed
qed

lemma vc_loop_result: "vc_loop fuel net msg v s = Inr (Some n, v', s') \<Longrightarrow> 0 < n \<Longrightarrow> answered msg n s'"
proof (induction fuel arbitrary: v s)
  case (Suc fuel)
  then obtain r v1 s1 where w: "vc_read net msg v s = Inr (r, v1, s1)" by (auto simp: and_then_eq_Inr)
  show ?case
  proof (cases r)
    case (Vc_return k)
    with Suc.prems w have "vc_read net msg v s = Inr (Vc_return n, v', s')" by simp
    then show ?thesis using Suc.prems(2) by (rule vc_read_result)
  qed (use Suc w in simp_all)
qed simp

lemma vc_connect_fails: "vc_connect net nsap v s = (Inl n, v', s') \<Longrightarrow> n \<le> 0"
  by (auto simp: vc_connect_def Let_def split: if_splits prod.splits sum.splits option.splits)

lemma vc_write_fails: "vc_write net msg v s = (Inl n, v', s') \<Longrightarrow> n \<le> 0"
  by (auto simp: vc_write_def split: if_splits prod.splits sum.splits)

lemma vc_attempt_result:
  assumes "vc_attempt fuel net msg nsap v s = Inr (Some n, v', s')" "0 < n"
  shows "answered msg n s'"
proof -
  obtain r1 v1 s1 where c: "vc_connect net nsap v (vc_check_peer net nsap s) = (r1, v1, s1)" by (metis surj_pair)
  obtain r2 v2 s2 where w: "vc_write net msg v1 s1 = (r2, v2, s2)" by (metis surj_pair)
  from assms vc_connect_fails [of net nsap v "vc_check_peer net nsap s" n v' s'] vc_write_fails [of net msg v1 s1 n v' s']
  have "vc_loop fuel net msg v2 s2 = Inr (Some n, v', s')"
    by (auto simp: vc_attempt_def c w split: sum.splits)
  then show ?thesis using assms(2) by (rule vc_loop_result)
qed

lemma send_vc_result:
  assumes "send_vc fuel net msg ns v s = Inr (n, v', s')" "0 < n"
  shows "answered msg n s'"
  using assms
  by (auto simp: send_vc_def Let_def and_then_eq_Inr split: option.splits if_splits dest: vc_attempt_result)

section \<open>The exchange\<close>

definition result_ok :: "u8 list \<Rightarrow> 'w try_result \<Rightarrow> bool" where
  "result_ok msg r \<longleftrightarrow> (\<forall>n v s. r = Inr (Some n, v, s) \<longrightarrow> n = -1 \<or> answered msg n s)"

definition sender_ok :: "u8 list \<Rightarrow> 'w sender \<Rightarrow> bool" where
  "sender_ok msg f \<longleftrightarrow> (\<forall>ns v s n v' s'. f msg ns v s = Inr (n, v', s') \<longrightarrow> 0 < n \<longrightarrow> \<not> v_circuit v' \<longrightarrow> answered msg n s')"

definition vc_sender_ok :: "u8 list \<Rightarrow> 'w sender \<Rightarrow> bool" where
  "vc_sender_ok msg f \<longleftrightarrow> (\<forall>ns v s n v' s'. f msg ns v s = Inr (n, v', s') \<longrightarrow> 0 < n \<longrightarrow> answered msg n s')"

lemma got_answer_ok: "answered msg n s \<Longrightarrow> result_ok msg (got_answer net n v s)"
  by (simp add: got_answer_def result_ok_def)

lemma by_vc_ok:
  assumes "vc_sender_ok msg vc"
  shows "result_ok msg (by_vc vc net msg ns v s)"
  unfolding result_ok_def
proof (intro allI impI)
  fix n v' s' assume r: "by_vc vc net msg ns v s = Inr (Some n, v', s')"
  then obtain k v1 s1 where k: "vc msg ns (v\<lparr>last_try := True\<rparr>) s = Inr (k, v1, s1)"
    by (auto simp: by_vc_def and_then_eq_Inr)
  show "n = -1 \<or> answered msg n s'"
  proof (cases "0 < k")
    case True
    have "result_ok msg (got_answer net k v1 s1)"
      using assms k True by (intro got_answer_ok) (simp add: vc_sender_ok_def)
    with r k True show ?thesis by (simp add: by_vc_def result_ok_def)
  next
    case False
    with r k show ?thesis by (auto simp: by_vc_def split: if_splits)
  qed
qed

lemma try_server_ok:
  assumes "sender_ok msg dg" "vc_sender_ok msg vc"
  shows "result_ok msg (try_server dg vc net msg ns v s)"
proof (cases "nsaddrs (rs s) ! ns = None \<or> v_circuit v")
  case True
  then show ?thesis using by_vc_ok [OF assms(2)] by (auto simp: try_server_def result_ok_def)
next
  case False
  then obtain a where False: "nsaddrs (rs s) ! ns = Some a" "\<not> v_circuit v" by auto
  show ?thesis
  proof (cases "dg msg ns v s")
    case (Inl e)
    with False show ?thesis by (simp add: try_server_def result_ok_def)
  next
    case (Inr r)
    obtain n v1 s1 where "r = (n, v1, s1)" by (metis surj_pair)
    with Inr have r: "dg msg ns v s = Inr (n, v1, s1)" by simp
    consider "n \<le> 0" | "0 < n" "v_circuit v1" | "0 < n" "\<not> v_circuit v1" by linarith
    then show ?thesis
    proof cases
      case 2
      with False r by_vc_ok [OF assms(2)] show ?thesis by (simp add: try_server_def)
    next
      case 3
      then have "answered msg n s1" using assms(1) r by (simp add: sender_ok_def)
      from got_answer_ok [OF this, of net v1] False r 3 show ?thesis by (simp add: try_server_def)
    qed (use False r in \<open>simp add: try_server_def result_ok_def\<close>)
  qed
qed

lemma try_servers_ok:
  assumes "sender_ok msg dg" "vc_sender_ok msg vc"
  shows "result_ok msg (try_servers dg vc net msg nss v s)"
proof (induction nss arbitrary: v s)
  case (Cons ns nss)
  show ?case
  proof (cases "try_server dg vc net msg ns v s")
    case (Inr r)
    obtain k v1 s1 where "r = (k, v1, s1)" by (metis surj_pair)
    with Inr try_server_ok [OF assms, of net ns v s] Cons [of v1 s1] show ?thesis
      by (cases k) (simp_all add: result_ok_def)
  qed (simp add: result_ok_def)
qed (simp add: result_ok_def)

lemma retry_loop_ok:
  assumes "sender_ok msg dg" "vc_sender_ok msg vc"
  shows "result_ok msg (retry_loop k dg vc net msg v s)"
proof (induction k arbitrary: v s)
  case (Suc k)
  show ?case
  proof (cases "try_servers dg vc net msg [0..<MAXNS] v s")
    case (Inr r)
    obtain q v1 s1 where "r = (q, v1, s1)" by (metis surj_pair)
    with Inr try_servers_ok [OF assms, of net "[0..<MAXNS]" v s] Suc [of v1 s1] show ?thesis
      by (cases q) (auto simp: result_ok_def)
  qed (simp add: result_ok_def)
qed (simp add: result_ok_def)

lemma libc_res_nsend_ok:
  assumes "sender_ok msg dg" "vc_sender_ok msg vc" "libc_res_nsend dg vc net msg s = Inr (n, s')"
  shows "n = -1 \<or> answered msg n s'"
proof (cases "nscount (rs s) = 0 \<or> length (answer s) < 12")
  case True
  with assms(3) show ?thesis by (auto simp: libc_res_nsend_def split: if_splits)
next
  case False
  then obtain k v s1 r v1 s2 where "retry_loop k dg vc net msg v s1 = Inr (r, v1, s2)"
    "(case r of Some n \<Rightarrow> Inr (n, s2) | None \<Rightarrow> Inr (-1, send_failed v1 (do_nclose net s2))) = (Inr (n, s') :: cerror + int \<times> 'a sstate)"
    using assms(3) by (auto simp: libc_res_nsend_def Let_def and_then_eq_Inr split: if_splits)
  with retry_loop_ok [OF assms(1,2), of k net v s1] show ?thesis by (auto simp: result_ok_def split: option.splits)
qed

lemma accepted_answered: "accepted net msg ns v s (nat n) s' \<Longrightarrow> 0 < n \<Longrightarrow> answered msg n s'"
proof -
  assume "accepted net msg ns v s (nat n) s'" "0 < n"
  then have "12 \<le> nat n" "take 2 (answer s') = take 2 msg" unfolding accepted_def passes_def by blast+
  with \<open>0 < n\<close> show "answered msg n s'" by (simp add: answered_def)
qed

lemma res_nsend_result:
  assumes "res_nsend fuel net msg s = Inr (n, s')"
  shows "n = -1 \<or> (12 \<le> n \<and> take 2 (answer s') = take 2 msg)"
proof -
  have "sender_ok msg (send_dg fuel net)" unfolding sender_ok_def
    by (blast dest: send_dg_result accepted_answered)
  moreover have "vc_sender_ok msg (send_vc fuel net)" unfolding vc_sender_ok_def by (auto dest: send_vc_result)
  ultimately show ?thesis using libc_res_nsend_ok assms unfolding res_nsend_def answered_def by blast
qed

text \<open>C20: What res_nsend returns is -1 or a length of at least a header, and then the answer buffer
  begins with the id of the message, whatever the servers and the system calls do, by datagrams or
  over a virtual circuit.\<close>

theorem nsend_answer:
  assumes "res_nsend fuel net msg s = Inr (n, s')"
  shows "n = -1 \<or> (12 \<le> n \<and> take 2 (answer s') = take 2 msg)"
  using assms by (rule res_nsend_result)

theorem nsend_answer_witness:
  "\<exists>s'. res_nsend 4 (example_net root_reply) root_query example_state = Inr (17, s') \<and> take 2 (answer s') = [1, 2]"
proof -
  have "case res_nsend 4 (example_net root_reply) root_query example_state of Inr (n, s') \<Rightarrow> n = 17 | Inl e \<Rightarrow> False"
    by code_simp
  then obtain s' where "res_nsend 4 (example_net root_reply) root_query example_state = Inr (17, s')"
    by (auto split: sum.splits)
  with nsend_answer [OF this] show ?thesis by (auto simp: root_query_def)
qed

end
