(* ===== verification/Resolver.thy ===== *)
theory Resolver
  imports Res_Send_Answer Res_Query_Correct
begin

text \<open>
  The resolver as a whole: queries and searches over an exchange with the servers, which the
  transport of \<open>res_send.c\<close> provides.
\<close>

unbundle bit_operations_syntax

section \<open>The exchange leaves the search list alone\<close>

text \<open>All states in which a computation may end have the search list \<open>D\<close>.\<close>

definition lists :: "cstring list \<Rightarrow> (cerror + 'a \<times> 'b \<times> 'w query_state) \<Rightarrow> bool" where
  "lists D r \<longleftrightarrow> (\<forall>x v s. r = Inr (x, v, s) \<longrightarrow> domains (rs s) = D)"

named_theorems lists_intros \<open>computations that leave the search list alone\<close>

lemma lists_basic [simp]: "lists D (Inl e)" "lists D (Inr (x, v, s)) \<longleftrightarrow> domains (rs s) = D"
  by (simp_all add: lists_def)

lemma lists_from: "lists (domains (rs s)) r \<Longrightarrow> domains (rs s) = D \<Longrightarrow> lists D r"
  by simp

lemma lists_and_then [lists_intros]:
  "lists D m \<Longrightarrow> (\<And>x v s. domains (rs s) = D \<Longrightarrow> lists D (f (x, v, s))) \<Longrightarrow> lists D (and_then m f)"
  by (cases m) (auto simp: lists_def)

lemma lists_fetched [lists_intros]: "(\<And>x. m = Inr x \<Longrightarrow> lists D (f x)) \<Longrightarrow> lists D (and_then m f)"
  by (cases m) simp_all

lemma domains_cong: "dnsrch st = dnsrch st' \<Longrightarrow> defdname st = defdname st' \<Longrightarrow> domains st = domains st'"
  by (simp add: domains_def)

lemma domains_update [simp]:
  "domains (st\<lparr>nsaddrs := a\<rparr>) = domains st" "domains (st\<lparr>nsmap := k\<rparr>) = domains st"
  "domains (st\<lparr>nssocks := fds\<rparr>) = domains st" "domains (st\<lparr>nscount_ext := n\<rparr>) = domains st"
  "domains (st\<lparr>nsinit := i\<rparr>) = domains st" "domains (st\<lparr>vcsock := fd\<rparr>) = domains st"
  "domains (st\<lparr>id_of := w\<rparr>) = domains st"
  by (simp_all add: domains_def)

lemma domains_set_sock [simp]: "domains (rs (set_sock ns fd s)) = domains (rs s)"
  and domains_set_flags [simp]: "domains (rs (set_flags f s)) = domains (rs s)"
  and domains_note_errno [simp]: "domains (rs (note_errno e s)) = domains (rs s)"
  and domains_send_failed [simp]: "domains (rs (send_failed v s)) = domains (rs s)"
  and domains_dg_map_addr [simp]: "domains (rs (dg_map_addr ns s)) = domains (rs s)"
  by (auto simp: domains_def set_sock_def set_flags_def note_errno_def send_failed_def dg_map_addr_def split: option.split)

lemma domains_do_nclose [simp]: "domains (rs (do_nclose net s)) = domains (rs s)"
proof -
  define keep where "keep st = (dnsrch st, defdname st)" for st :: res_state
  have ns: "keep (fst (fold close_ns is r)) = keep (fst r)" for "is" r
    by (induction "is" arbitrary: r) (simp_all add: close_ns_def keep_def split: prod.split)
  obtain st fds where f: "fold close_ns [0..<MAXNS] (close_vc (rs s)) = (st, fds)" by fastforce
  have "keep (fst (close_vc (rs s))) = keep (rs s)" by (simp add: close_vc_def keep_def)
  then have "keep st = keep (rs s)" using ns [of "[0..<MAXNS]" "close_vc (rs s)", unfolded f] by simp
  then show ?thesis
    by (intro domains_cong) (simp_all add: do_nclose_def res_nclose_def f keep_def)
qed

lemma domains_sys: "sys f s = (x, s') \<Longrightarrow> domains (rs s') = domains (rs s)"
  using sys_eq [of f s x s'] by simp

lemma domains_open_dg [simp]: "domains (rs (open_dg net b ns s)) = domains (rs s)"
  by (auto simp: open_dg_def dest: domains_sys split: prod.split sum.split)

lemma domains_dg_socket [simp]: "domains (rs (dg_socket net ns s)) = domains (rs s)"
  by (simp add: dg_socket_def Let_def)

subsection \<open>Datagrams\<close>

lemma domains_dg_open: "dg_open net ns v s = (r, v', s') \<Longrightarrow> domains (rs s') = domains (rs s)"
  by (auto simp: dg_open_def Let_def dest: domains_sys split: if_splits prod.splits option.splits)

lemma domains_evNowTime: "evNowTime net s = (now, s') \<Longrightarrow> domains (rs s') = domains (rs s)"
  by (auto simp: evNowTime_def dest: domains_sys split: prod.splits option.splits)

lemma domains_dg_start: "dg_start net ns s = (d, s') \<Longrightarrow> domains (rs s') = domains (rs s)"
  by (auto simp: dg_start_def Let_def dest: domains_evNowTime split: prod.splits)

lemma lists_recompute: "domains (rs s) = D \<Longrightarrow> lists D (recompute_resend net d v s)"
  by (auto simp: recompute_resend_def dest: domains_evNowTime split: prod.split)

lemma lists_dg_accept: "domains (rs s) = D \<Longrightarrow> lists D (dg_accept net msg frm k d v s)"
  by (auto simp: dg_accept_def Let_def intro!: lists_fetched)

lemma lists_dg_receive: "domains (rs s) = D \<Longrightarrow> lists D (dg_receive net msg ns d v s)"
  by (auto simp: dg_receive_def Let_def dest!: domains_sys intro!: lists_dg_accept split: prod.split sum.split)

lemma lists_dg_transmit: "domains (rs s) = D \<Longrightarrow> lists D (dg_transmit net msg ns d v s)"
  by (auto simp: dg_transmit_def Let_def dest!: domains_sys intro!: lists_recompute split: prod.split sum.split)

lemma domains_dg_poll: "dg_poll net ns d s = (r, d', s') \<Longrightarrow> domains (rs s') = domains (rs s)"
  by (auto simp: dg_poll_def Let_def dest!: domains_sys split: if_splits prod.splits)

lemma lists_dg_wait: "domains (rs s) = D \<Longrightarrow> lists D (dg_wait net msg ns d v s)"
  by (auto simp: dg_wait_def Let_def dest!: domains_dg_poll domains_evNowTime
      intro!: lists_recompute lists_dg_transmit lists_dg_receive split: prod.split poll_result.split if_splits)

lemma lists_dg_loop: "domains (rs s) = D \<Longrightarrow> lists D (dg_loop fuel net msg ns d v s)"
  by (induction fuel arbitrary: d v s) (auto intro!: lists_and_then lists_dg_wait split: dg_step.split)

lemma lists_send_dg: "domains (rs s) = D \<Longrightarrow> lists D (send_dg fuel net msg ns v s)"
  by (auto simp: send_dg_def dest!: domains_dg_open domains_dg_start intro!: lists_dg_loop split: prod.split sum.split)

subsection \<open>Virtual circuits\<close>

lemma domains_vc_fail: "vc_fail net v s = (v', s') \<Longrightarrow> domains (rs s') = domains (rs s)"
  by (auto simp: vc_fail_def)

lemma lists_vc_fail [simp]: "lists D (Inr (x, vc_fail net v s)) \<longleftrightarrow> domains (rs s) = D"
  by (simp add: vc_fail_def)

lemma domains_read_answer: "read_answer rd len s = (ok, s') \<Longrightarrow> domains (rs s') = domains (rs s)"
  by (auto simp: read_answer_def dest!: domains_sys split: prod.splits)

lemma domains_vc_check_peer [simp]: "domains (rs (vc_check_peer net nsap s)) = domains (rs s)"
  by (auto simp: vc_check_peer_def dest!: domains_sys split: prod.splits)

lemma domains_vc_connect: "vc_connect net nsap v s = (r, v', s') \<Longrightarrow> domains (rs s') = domains (rs s)"
  by (auto simp: vc_connect_def Let_def dest!: sys_eq domains_vc_fail
      split: if_splits prod.splits sum.splits option.splits)

lemma domains_vc_write: "vc_write net msg v s = (r, v', s') \<Longrightarrow> domains (rs s') = domains (rs s)"
  by (auto simp: vc_write_def dest!: sys_eq domains_vc_fail split: if_splits prod.splits sum.splits)

lemma lists_vc_read: "domains (rs s) = D \<Longrightarrow> lists D (vc_read net msg v s)"
  by (auto simp: vc_read_def Let_def dest!: domains_read_answer domains_vc_fail sys_eq
      intro!: lists_fetched split: prod.split)

lemma lists_vc_loop: "domains (rs s) = D \<Longrightarrow> lists D (vc_loop fuel net msg v s)"
  by (induction fuel arbitrary: v s) (auto intro!: lists_and_then lists_vc_read split: vc_step.split)

lemma lists_vc_attempt: "domains (rs s) = D \<Longrightarrow> lists D (vc_attempt fuel net msg nsap v s)"
  by (auto simp: vc_attempt_def dest!: domains_vc_connect domains_vc_write intro!: lists_vc_loop split: prod.split sum.split)

lemma lists_send_vc: "domains (rs s) = D \<Longrightarrow> lists D (send_vc fuel net msg ns v s)"
  by (auto simp: send_vc_def Let_def intro!: lists_and_then lists_vc_attempt split: option.split)

subsection \<open>The table and the loops\<close>

lemma domains_keep_slots: "keep_slots nss m st = Inr (m', st') \<Longrightarrow> domains st' = domains st"
  by (induction nss m st rule: keep_slots.induct) (auto simp: Let_def split: if_splits)

lemma domains_new_slots: "new_slots n ns m st = Inr (k, m', st') \<Longrightarrow> domains st' = domains st"
proof (induction n ns m st rule: new_slots.induct)
  case (1 n ns m st)
  then show ?case by (subst (asm) (2) new_slots.simps) (auto simp: Let_def split: if_splits)
qed

lemma domains_copy_addrs: "copy_addrs net nss m s = Inr s' \<Longrightarrow> domains (rs s') = domains (rs s)"
proof (induction nss arbitrary: s)
  case (Cons ns nss)
  then show ?case by (fastforce simp: Let_def dest: sys_eq split: if_splits prod.splits)
qed simp

lemma domains_sync_table: "sync_table net s = Inr s' \<Longrightarrow> domains (rs s') = domains (rs s)"
  by (auto simp: sync_table_def init_table_def and_then_eq_Inr Let_def
      dest!: domains_keep_slots domains_new_slots domains_copy_addrs split: if_splits)

lemma domains_rotate_loop: "domains (snd (rotate_loop n st)) = domains st"
proof (induction n st rule: rotate_loop.induct)
  case (1 n st)
  then show ?case by (subst rotate_loop.simps) (auto simp: Let_def)
qed

lemma domains_rotate_servers [simp]: "domains (rotate_servers st) = domains st"
  using domains_rotate_loop [of "next_used (nsmap st) 0" st] by (auto simp: rotate_servers_def Let_def split: prod.split)

lemma lists_got_answer: "domains (rs s) = D \<Longrightarrow> lists D (got_answer net n v s)"
  by (simp add: got_answer_def)

lemma lists_try_servers:
  assumes "\<And>ns v s. lists (domains (rs s)) (dg msg ns v s)" "\<And>ns v s. lists (domains (rs s)) (vc msg ns v s)"
  shows "domains (rs s) = D \<Longrightarrow> lists D (try_servers dg vc net msg nss v s)"
proof (induction nss arbitrary: v s)
  case (Cons ns nss)
  note dg = lists_from [OF assms(1)] and vc = lists_from [OF assms(2)]
  have "lists D (by_vc vc net msg ns v s)" if "domains (rs s) = D" for v s
    unfolding by_vc_def by (rule lists_and_then, rule vc [OF that]) (simp add: lists_got_answer)
  with Cons show ?case
    by (auto simp: try_server_def intro!: lists_and_then dg lists_got_answer split: option.split)
qed simp

lemma lists_retry_loop:
  assumes "\<And>ns v s. lists (domains (rs s)) (dg msg ns v s)" "\<And>ns v s. lists (domains (rs s)) (vc msg ns v s)"
  shows "domains (rs s) = D \<Longrightarrow> lists D (retry_loop k dg vc net msg v s)"
  by (induction k arbitrary: v s) (auto intro!: lists_and_then lists_try_servers [where dg = dg and vc = vc and msg = msg, OF assms])

lemma res_nsend_domains:
  assumes "res_nsend fuel net msg s = Inr (n, s')"
  shows "domains (rs s') = domains (rs s)"
proof (cases "nscount (rs s) = 0 \<or> length (answer s) < 12")
  case True
  with assms show ?thesis by (auto simp: res_nsend_def libc_res_nsend_def split: if_splits)
next
  case False
  let ?v = "\<lparr>v_circuit = opt RES_USEVC (rs s) \<or> length msg > 512, gotsomewhere = False, terrno = Some ETIMEDOUT, last_try = False\<rparr>"
  from assms False obtain s1 where s1: "sync_table net s = Inr s1"
    by (auto simp: res_nsend_def libc_res_nsend_def Let_def and_then_eq_Inr)
  define s2 where "s2 = (if opt RES_ROTATE (rs s1) \<and> \<not> opt RES_BLAST (rs s1) then s1\<lparr>rs := rotate_servers (rs s1)\<rparr> else s1)"
  have "domains (rs s2) = domains (rs s)" using domains_sync_table [OF s1] by (simp add: s2_def)
  then have l: "lists (domains (rs s)) (retry_loop k (send_dg fuel net) (send_vc fuel net) net msg ?v s2)" for k
    by (rule lists_retry_loop [rotated 2]) (simp_all add: lists_send_dg lists_send_vc)
  from assms False obtain r v s3 where r: "retry_loop (nat (retry (rs s2))) (send_dg fuel net) (send_vc fuel net) net msg ?v s2 = Inr (r, v, s3)"
    by (auto simp: res_nsend_def libc_res_nsend_def Let_def s1 and_then_eq_Inr simp flip: s2_def)
  with assms False have "s' = (case r of Some n \<Rightarrow> s3 | None \<Rightarrow> send_failed v (do_nclose net s3))"
    by (simp add: res_nsend_def libc_res_nsend_def Let_def s1 flip: s2_def split: option.splits)
  moreover have "domains (rs s3) = domains (rs s)" using l r unfolding lists_def by blast
  ultimately show ?thesis by (simp split: option.split)
qed

section \<open>What queries rely on\<close>

locale exchange =
  fixes nsend :: "'w nsend"
  assumes nsend_result: "nsend msg s = Inr (n, s') \<Longrightarrow> n = -1 \<or> (12 \<le> n \<and> take 2 (answer s') = take 2 msg)"
    and nsend_domains: "nsend msg s = Inr (n, s') \<Longrightarrow> domains (rs s') = domains (rs s)"

text \<open>The message that a query for a name sends, and the state in which it is sent.\<close>

definition query_message :: "u32 \<Rightarrow> u32 \<Rightarrow> cstring \<Rightarrow> 'w query_state \<Rightarrow> (u8 list option \<times> 'w query_state) cres" where
  "query_message cls typ name s =
     and_then (fetch (answer s) 3) (\<lambda>b.
     and_then (make_query QUERYSIZE name cls typ (s\<lparr>answer := (answer s)[3 := b AND 0xf0]\<rparr>)) (\<lambda>(msg, s).
       if msg = None \<and> big_ok s then make_query MAXPACKET name cls typ s else Inr (msg, s)))"

lemma libc_res_nquery_message:
  "libc_res_nquery nsend cls typ name s = and_then (query_message cls typ name s) (\<lambda>(msg, s).
     case msg of
       None \<Rightarrow> Inr (-1, set_herr No_recovery s)
     | Some msg \<Rightarrow>
         and_then (nsend msg s) (\<lambda>(n, s).
         if n < 0 then Inr (n, set_herr Try_again s)
         else
           and_then (rcode s) (\<lambda>r.
           and_then (ancount s) (\<lambda>an.
             if r \<noteq> 0 \<or> an = 0 then Inr (-1, set_herr (herr_of_rcode r) s) else Inr (n, s)))))"
  unfolding libc_res_nquery_def query_message_def Let_def
  by (cases "fetch (answer s) 3"; cases "make_query QUERYSIZE name cls typ (s\<lparr>answer := (answer s)[3 := projr (fetch (answer s) 3) AND 0xf0]\<rparr>)")
     auto

text \<open>An answer with records to the message sent for a name in the state \<open>t\<close>.\<close>

definition query_answered :: "'w nsend \<Rightarrow> u32 \<Rightarrow> u32 \<Rightarrow> cstring \<Rightarrow> 'w query_state \<Rightarrow> int \<Rightarrow> 'w query_state \<Rightarrow> bool" where
  "query_answered nsend cls typ name t n s \<longleftrightarrow>
     (\<exists>msg u a. query_message cls typ name t = Inr (Some msg, u) \<and> nsend msg u = Inr (n, s) \<and>
        12 \<le> n \<and> take 2 (answer s) = take 2 msg \<and> rcode s = Inr 0 \<and> ancount s = Inr a \<and> a \<noteq> 0)"

text \<open>The names that a search may ask for.\<close>

definition candidate :: "cstring \<Rightarrow> 'w query_state \<Rightarrow> cstring \<Rightarrow> bool" where
  "candidate name s nm \<longleftrightarrow>
     nm = as_is name \<or> (\<exists>d \<in> set (domains (rs s)). nm = name @ 0x2E # d) \<or>
     dots_of name = 0 \<and> res_hostalias (rs s) (aliases s) name NS_MAXDNAME = Inr (Some nm)"

text \<open>The states of a search after some queries have failed; names that are too long are not asked for.\<close>

inductive after_queries :: "'w nsend \<Rightarrow> u32 \<Rightarrow> u32 \<Rightarrow> cstring \<Rightarrow> 'w query_state \<Rightarrow> cstring list \<Rightarrow> 'w query_state \<Rightarrow> bool"
  for nsend cls "typ" name s where
  none: "after_queries nsend cls typ name s [] (set_herr Host_not_found (s\<lparr>errno_of := None\<rparr>))"
| failed: "after_queries nsend cls typ name s qs t \<Longrightarrow> candidate name s nm \<Longrightarrow>
    libc_res_nquery nsend cls typ nm t = Inr (k, t') \<Longrightarrow> k \<le> 0 \<Longrightarrow> after_queries nsend cls typ name s (qs @ [nm]) t'"
| too_long: "after_queries nsend cls typ name s qs t \<Longrightarrow> after_queries nsend cls typ name s qs (set_herr No_recovery t)"

definition found :: "'w nsend \<Rightarrow> u32 \<Rightarrow> u32 \<Rightarrow> cstring \<Rightarrow> 'w query_state \<Rightarrow> int \<Rightarrow> 'w query_state \<Rightarrow> bool" where
  "found nsend cls typ name s n s' \<longleftrightarrow>
     (\<exists>qs t nm. after_queries nsend cls typ name s qs t \<and> candidate name s nm \<and> query_answered nsend cls typ nm t n s')"

text \<open>Where a query or a part of the search leads: to the end of it, or on.\<close>

definition goes_on :: "'w nsend \<Rightarrow> u32 \<Rightarrow> u32 \<Rightarrow> cstring \<Rightarrow> 'w query_state \<Rightarrow> int \<Rightarrow> 'w query_state \<Rightarrow> bool" where
  "goes_on nsend cls typ name s n s' \<longleftrightarrow>
     (if 0 < n then found nsend cls typ name s n s' else \<exists>qs. after_queries nsend cls typ name s qs s')"

lemma make_query_domains: "make_query siz name cls typ s = Inr (m, s') \<Longrightarrow> domains (rs s') = domains (rs s)"
  by (auto simp: make_query_def res_nmkquery_def and_then_eq_Inr Let_def split: if_splits)

context exchange
begin

lemma nquery_answered:
  assumes "libc_res_nquery nsend cls typ name t = Inr (n, s')" "0 < n"
  shows "query_answered nsend cls typ name t n s'"
proof -
  from assms obtain msg u where msg: "query_message cls typ name t = Inr (Some msg, u)"
    by (auto simp: libc_res_nquery_message and_then_eq_Inr split: option.splits)
  with assms obtain k s3 where k: "nsend msg u = Inr (k, s3)" by (auto simp: libc_res_nquery_message and_then_eq_Inr)
  from assms msg k have "n = k" "s' = s3" "rcode s3 = Inr 0" "\<exists>a. ancount s3 = Inr a \<and> a \<noteq> 0"
    by (auto simp: libc_res_nquery_message and_then_eq_Inr split: if_splits)
  with msg k nsend_result [OF k] assms(2) show ?thesis by (auto simp: query_answered_def)
qed

lemma nquery_domains:
  assumes "libc_res_nquery nsend cls typ name t = Inr (n, s')"
  shows "domains (rs s') = domains (rs t)"
proof -
  from assms obtain m u where m: "query_message cls typ name t = Inr (m, u)"
    by (auto simp: libc_res_nquery_message and_then_eq_Inr)
  have "domains (rs u) = domains (rs t)"
    using m by (auto simp: query_message_def and_then_eq_Inr split: if_splits dest!: make_query_domains)
  with assms m show ?thesis
    by (auto simp: libc_res_nquery_message and_then_eq_Inr split: option.splits if_splits dest: nsend_domains)
qed

lemma after_queries_domains: "after_queries nsend cls typ name s qs t \<Longrightarrow> domains (rs t) = domains (rs s)"
  by (induction rule: after_queries.induct) (simp_all add: nquery_domains)

lemma nquery_goes_on:
  assumes "after_queries nsend cls typ name s qs t" "candidate name s nm" "libc_res_nquery nsend cls typ nm t = Inr (n, s')"
  shows "goes_on nsend cls typ name s n s'"
  using assms after_queries.failed [OF assms] nquery_answered [OF assms(3)]
  by (auto simp: goes_on_def found_def not_less)

lemma nquerydomain_goes_on:
  assumes "after_queries nsend cls typ name s qs t" "case dm of None \<Rightarrow> True | Some d \<Rightarrow> d \<in> set (domains (rs s))"
    "libc_res_nquerydomain (libc_res_nquery nsend cls typ) name dm t = Inr (n, s')"
  shows "goes_on nsend cls typ name s n s'"
proof -
  have "goes_on nsend cls typ name s (-1) (set_herr No_recovery t)"
    using after_queries.too_long [OF assms(1)] by (auto simp: goes_on_def)
  moreover have "candidate name s (case dm of None \<Rightarrow> as_is name | Some d \<Rightarrow> name @ 0x2E # d)"
    using assms(2) by (auto simp: candidate_def split: option.splits)
  note nquery_goes_on [OF assms(1) this]
  ultimately show ?thesis using assms(3)
    by (auto simp: libc_res_nquerydomain_def as_is_def trailing_dot_def split: option.splits if_splits)
qed

lemma search_loop_goes_on:
  "after_queries nsend cls typ name s qs t \<Longrightarrow> set ds \<subseteq> set (domains (rs s)) \<Longrightarrow>
   search_loop (libc_res_nquery nsend cls typ) name ds fl t = Inr r \<Longrightarrow>
   (case r of Inl (n, s') \<Rightarrow> 0 < n \<longrightarrow> found nsend cls typ name s n s' | Inr (fl', s') \<Rightarrow> goes_on nsend cls typ name s 0 s')"
proof (induction ds arbitrary: fl qs t)
  case Nil
  then show ?case by (auto simp: goes_on_def)
next
  case (Cons d ds)
  then obtain ret t1 where q: "libc_res_nquerydomain (libc_res_nquery nsend cls typ) name (Some d) t = Inr (ret, t1)"
    by (auto simp: and_then_eq_Inr Let_def)
  have on: "goes_on nsend cls typ name s ret t1"
    by (rule nquerydomain_goes_on [OF Cons.prems(1) _ q]) (use Cons.prems(2) in simp)
  show ?case
  proof (cases "ret > 0")
    case True
    with Cons.prems(3) q on show ?thesis by (auto simp: Let_def goes_on_def)
  next
    case False
    with on obtain qs1 where qs1: "after_queries nsend cls typ name s qs1 t1" by (auto simp: goes_on_def)
    have ds: "set ds \<subseteq> set (domains (rs s))" using Cons.prems(2) by simp
    from Cons.prems(3) q False qs1 show ?thesis
      by (auto simp: Let_def and_then_eq_Inr goes_on_def split: if_splits dest: Cons.IH [OF qs1 ds])
  qed
qed

lemma search_domains_goes_on:
  assumes "after_queries nsend cls typ name s qs t"
    "search_domains (libc_res_nquery nsend cls typ) name saved t = Inr (n, s')" "0 < n"
  shows "found nsend cls typ name s n s'"
proof -
  let ?q = "libc_res_nquery nsend cls typ" and ?fl = "\<lparr>got_nodata = False, got_servfail = False, root_on_list = False\<rparr>"
  obtain r where r: "(if searches name (rs t) then search_loop ?q name (domains (rs t)) ?fl t else Inr (Inr (?fl, t))) = Inr r"
    using assms(2) by (auto simp: search_domains_def and_then_eq_Inr Let_def)
  have on: "case r of Inl (n, s') \<Rightarrow> 0 < n \<longrightarrow> found nsend cls typ name s n s' | Inr (fl', s') \<Rightarrow> goes_on nsend cls typ name s 0 s'"
  proof (cases "searches name (rs t)")
    case True
    with r show ?thesis using search_loop_goes_on [OF assms(1), of "domains (rs t)" ?fl r]
      by (simp add: after_queries_domains [OF assms(1)])
  next
    case False
    with r assms(1) show ?thesis by (auto simp: goes_on_def)
  qed
  show ?thesis
  proof (cases r)
    case (Inl res)
    with assms(2,3) r on show ?thesis by (auto simp: search_domains_def)
  next
    case (Inr q)
    obtain fl t1 where q: "q = (fl, t1)" by fastforce
    then have "libc_res_nquerydomain ?q name None t1 = Inr (n, s')"
      using assms(2,3) r Inr by (auto simp: search_domains_def and_then_eq_Inr split: if_splits)
    moreover obtain qs1 where "after_queries nsend cls typ name s qs1 t1" using on Inr q by (auto simp: goes_on_def)
    ultimately have "goes_on nsend cls typ name s n s'" by (rule nquerydomain_goes_on [where dm = None, rotated 2]) simp
    with assms(3) show ?thesis by (simp add: goes_on_def)
  qed
qed

lemma nsearch_found:
  assumes "res_nsearch nsend cls typ name s = Inr (n, s')" "0 < n"
  shows "found nsend cls typ name s n s'"
proof -
  define t where "t = set_herr Host_not_found (s\<lparr>errno_of := None\<rparr>)"
  have t: "after_queries nsend cls typ name s [] t" unfolding t_def by (rule after_queries.none)
  have same: "rs t = (rs s)\<lparr>res_h_errno := Host_not_found\<rparr>" "aliases t = aliases s" by (simp_all add: t_def set_herr_def)
  obtain a where a: "(if dots_of name = 0 then res_hostalias (rs t) (aliases t) name NS_MAXDNAME else Inr None) = Inr a"
    using assms(1) by (auto simp: res_nsearch_def libc_res_nsearch_def and_then_eq_Inr Let_def simp flip: t_def)
  show ?thesis
  proof (cases a)
    case (Some nm)
    with a have "candidate name s nm"
      by (auto simp: candidate_def same res_hostalias_def opt_def split: if_splits)
    moreover have "libc_res_nquery nsend cls typ nm t = Inr (n, s')"
      using assms(1) a Some by (simp add: res_nsearch_def libc_res_nsearch_def Let_def flip: t_def)
    ultimately have "goes_on nsend cls typ name s n s'" using t by (rule nquery_goes_on [rotated])
    with assms(2) show ?thesis by (simp add: goes_on_def)
  next
    case None
    show ?thesis
    proof (cases "dots_of name \<ge> ndots (rs t) \<or> trailing_dot name")
      case first: True
      then obtain ret t1 where ret: "libc_res_nquerydomain (libc_res_nquery nsend cls typ) name None t = Inr (ret, t1)"
        using assms(1) a None by (auto simp: res_nsearch_def libc_res_nsearch_def and_then_eq_Inr Let_def simp flip: t_def)
      have on: "goes_on nsend cls typ name s ret t1" by (rule nquerydomain_goes_on [OF t _ ret]) simp
      show ?thesis
      proof (cases "ret > 0 \<or> trailing_dot name")
        case True
        with assms a None ret on first show ?thesis
          by (auto simp: res_nsearch_def libc_res_nsearch_def Let_def goes_on_def simp flip: t_def)
      next
        case False
        then obtain qs1 where "after_queries nsend cls typ name s qs1 t1" using on by (auto simp: goes_on_def)
        moreover have "search_domains (libc_res_nquery nsend cls typ) name (Some (res_h_errno (rs t1))) t1 = Inr (n, s')"
          using assms a None ret False first
          by (simp add: res_nsearch_def libc_res_nsearch_def Let_def flip: t_def)
        ultimately show ?thesis using assms(2) by (rule search_domains_goes_on)
      qed
    next
      case False
      then have "search_domains (libc_res_nquery nsend cls typ) name None t = Inr (n, s')"
        using assms a None by (simp add: res_nsearch_def libc_res_nsearch_def Let_def flip: t_def)
      with t show ?thesis using assms(2) by (rule search_domains_goes_on)
    qed
  qed
qed

end

section \<open>The transport provides it\<close>

interpretation transport: exchange "res_nsend fuel net" for fuel net
  by unfold_locales (auto dest: res_nsend_result res_nsend_domains)

text \<open>C19: x\<close>

theorem search_answered:
  assumes "res_nsearch (res_nsend fuel net) cls typ name s = Inr (n, s')" "0 < n"
  shows "\<exists>qs t nm. after_queries (res_nsend fuel net) cls typ name s qs t \<and> candidate name s nm
    \<and> query_answered (res_nsend fuel net) cls typ nm t n s'"
  using transport.nsearch_found [OF assms] unfolding found_def .

text \<open>A server that answers every message with the same record.\<close>

definition a_reply :: "u8 list" where
  "a_reply = [0, 1, 0x81, 0x80, 0, 1, 0, 1, 0, 0, 0, 0, 1, 0x61, 3, 0x6C, 0x61, 0x6E, 0, 0, 1, 0, 1]"

definition lan_state :: "int sstate" where
  "lan_state = Res_Send_Dg.example_state\<lparr>rs := (rs Res_Send_Dg.example_state)\<lparr>options := RES_DEFAULT, id_of := 1, dnsrch := [0],
       defdname := ascii ''lan'', ndots := 1\<rparr>, clock := [7], answer := replicate 30 0\<rparr>"

theorem search_answered_witness:
  "\<exists>s' t nm. res_nsearch (res_nsend 9 (example_net a_reply)) 1 1 (ascii ''a'') lan_state = Inr (23, s')
    \<and> candidate (ascii ''a'') lan_state nm \<and> query_answered (res_nsend 9 (example_net a_reply)) 1 1 nm t 23 s'"
proof -
  have "map_sum id fst (res_nsearch (res_nsend 9 (example_net a_reply)) 1 1 (ascii ''a'') lan_state) = Inr 23"
    by code_simp
  then obtain s' where "res_nsearch (res_nsend 9 (example_net a_reply)) 1 1 (ascii ''a'') lan_state = Inr (23, s')"
    by (cases "res_nsearch (res_nsend 9 (example_net a_reply)) 1 1 (ascii ''a'') lan_state") auto
  with search_answered [OF this] show ?thesis by fastforce
qed

end
