(* ===== verification/Res_Data.thy ===== *)
theory Res_Data
  imports Resolver Res_Init_Safe
begin

text \<open>
  \<open>res_data.c\<close>: the interface without an explicit state.  \<open>_res\<close> is the state \<open>rs\<close>; each function
  first calls \<open>__res_maybe_init\<close>, which returns 0 whenever it returns.
\<close>

section \<open>The functions\<close>

definition ensure_init :: "res_env \<Rightarrow> 64 word \<Rightarrow> 'w net \<Rightarrow> 'w sstate \<Rightarrow> 'w sstate cres" where
  "ensure_init env stamp net s =
     and_then (res_maybe_init env stamp True (rs s)) (\<lambda>(st, fds).
       Inr (s\<lparr>rs := st, world := (world s)\<lparr>os := fold (n_close net) fds (os (world s))\<rparr>\<rparr>))"

definition res_mkquery ::
  "res_env \<Rightarrow> 64 word \<Rightarrow> 'w net \<Rightarrow> opcode \<Rightarrow> cstring \<Rightarrow> u32 \<Rightarrow> u32 \<Rightarrow> u8 list option \<Rightarrow> int \<Rightarrow> int
    \<Rightarrow> 'w sstate \<Rightarrow> (u8 list option \<times> 'w sstate) cres" where
  "res_mkquery env stamp net op dname cls typ data datalen buflen s =
     and_then (ensure_init env stamp net s) (\<lambda>s.
     and_then (res_nmkquery (clock s) (rs s) op dname cls typ data datalen buflen) (\<lambda>(msg, st, c).
       Inr (msg, s\<lparr>rs := st, clock := c\<rparr>)))"

definition res_query :: "res_env \<Rightarrow> 64 word \<Rightarrow> nat \<Rightarrow> 'w net \<Rightarrow> u32 \<Rightarrow> u32 \<Rightarrow> 'w sock_world nquery" where
  "res_query env stamp fuel net cls typ name s =
     and_then (ensure_init env stamp net s) (res_nquery (res_nsend fuel net) cls typ name)"

definition res_isourserver :: "sock_addr \<Rightarrow> 'w sstate \<Rightarrow> bool" where
  "res_isourserver inp s = res_ourserver_p (rs s) inp"

definition res_send :: "res_env \<Rightarrow> 64 word \<Rightarrow> nat \<Rightarrow> 'w net \<Rightarrow> 'w sock_world nsend" where
  "res_send env stamp fuel net msg s = and_then (ensure_init env stamp net s) (res_nsend fuel net msg)"

definition res_close :: "'w net \<Rightarrow> 'w sstate \<Rightarrow> 'w sstate" where
  "res_close net s = (if \<not> opt RES_INIT (rs s) then s else do_nclose net s)"

definition res_search :: "res_env \<Rightarrow> 64 word \<Rightarrow> nat \<Rightarrow> 'w net \<Rightarrow> u32 \<Rightarrow> u32 \<Rightarrow> 'w sock_world nquery" where
  "res_search env stamp fuel net cls typ name s =
     and_then (ensure_init env stamp net s) (res_nsearch (res_nsend fuel net) cls typ name)"

definition res_querydomain ::
  "res_env \<Rightarrow> 64 word \<Rightarrow> nat \<Rightarrow> 'w net \<Rightarrow> u32 \<Rightarrow> u32 \<Rightarrow> cstring \<Rightarrow> cstring option \<Rightarrow> 'w sstate \<Rightarrow> (int \<times> 'w sstate) cres" where
  "res_querydomain env stamp fuel net cls typ name domain s =
     and_then (ensure_init env stamp net s) (res_nquerydomain (res_nsend fuel net) cls typ name domain)"

definition hostalias :: "'w sstate \<Rightarrow> cstring \<Rightarrow> cstring option cres" where
  "hostalias s name = res_hostalias (rs s) (aliases s) name NS_MAXDNAME"

section \<open>Facts\<close>

text \<open>Closing before the first initialisation touches no descriptor.\<close>

lemma res_close_uninitialised: "\<not> opt RES_INIT (rs s) \<Longrightarrow> res_close net s = s"
  by (simp add: res_close_def)

text \<open>An initialised state with the current stamp is left as it is.\<close>

lemma ensure_init_current:
  assumes "opt RES_INIT (rs s)" "initstamp (rs s) = stamp"
  shows "ensure_init env stamp net s = Inr s"
  using assms by (simp add: ensure_init_def res_maybe_init_def)

text \<open>So the old functions on such a state are the new ones.\<close>

lemma old_interface_current:
  assumes "opt RES_INIT (rs s)" "initstamp (rs s) = stamp"
  shows "res_search env stamp fuel net cls typ name s = res_nsearch (res_nsend fuel net) cls typ name s"
    "res_query env stamp fuel net cls typ name s = res_nquery (res_nsend fuel net) cls typ name s"
    "res_send env stamp fuel net msg s = res_nsend fuel net msg s"
  by (simp_all add: res_search_def res_query_def res_send_def ensure_init_current [OF assms])

end
