(* ===== verification/Res_Send_Table.thy ===== *)
theory Res_Send_Table
  imports Res_Send_Dg
begin

text \<open>
  The private table of servers of \<open>res_send.c\<close>: what synchronising it with the list of servers
  establishes, what rotating does, and what a failed allocation leaves behind.
\<close>

section \<open>The table\<close>

text \<open>
  A slot holds server \<open>k\<close> of the list, is free (\<open>MAXNS\<close>), or holds an IPv6 server from the
  configuration (\<open>MAXNS + 1\<close>).
\<close>

definition slot_of :: "nat list \<Rightarrow> nat \<Rightarrow> nat \<Rightarrow> bool" where
  "slot_of ks j i \<longleftrightarrow> j < MAXNS \<and> ks ! j = i"

definition map_ok :: "nat \<Rightarrow> nat list \<Rightarrow> bool" where
  "map_ok n ks \<longleftrightarrow> length ks = MAXNS \<and> (\<forall>i<n. \<exists>j. slot_of ks j i) \<and>
     (\<forall>j<MAXNS. ks ! j < n \<or> MAXNS \<le> ks ! j) \<and>
     (\<forall>j j'. slot_of ks j (ks ! j') \<longrightarrow> j' < MAXNS \<longrightarrow> ks ! j' < MAXNS \<longrightarrow> j = j')"

definition table_ok :: "res_state \<Rightarrow> bool" where
  "table_ok st \<longleftrightarrow> map_ok (nscount_ext st) (nsmap st) \<and> nscount_ext st \<le> MAXNS \<and>
     length (nsaddrs st) = MAXNS \<and> length (nssocks st) = MAXNS \<and>
     (nsinit st \<noteq> 0 \<longrightarrow> (\<forall>j<MAXNS. nsmap st ! j < MAXNS \<longrightarrow> nsaddrs st ! j \<noteq> None))"

text \<open>Every server that has a slot has its address there.\<close>

definition addrs_current :: "res_state \<Rightarrow> bool" where
  "addrs_current st \<longleftrightarrow>
     (\<forall>j<MAXNS. nsmap st ! j < MAXNS \<longrightarrow> (\<exists>a. nsaddrs st ! j = Some a \<and> sock_eq (nsaddr_list st ! (nsmap st ! j)) a))"

lemma sock_eq_refl [simp]: "sock_eq a a"
  by (cases a) simp_all

section \<open>The slots that are kept\<close>

lemma keep_slots_returns: "nscount st \<le> int MAXNS \<Longrightarrow> \<exists>m' st'. keep_slots ns m st = Inr (m', st')"
  by (induction ns m st rule: keep_slots.induct) (auto simp: Let_def)

lemma keep_slots_frame:
  "keep_slots ns m st = Inr (m', st') \<Longrightarrow>
     st' = st\<lparr>nsaddrs := nsaddrs st', nsmap := nsmap st'\<rparr> \<and> length m' = length m \<and>
     length (nsaddrs st') = length (nsaddrs st) \<and> length (nsmap st') = length (nsmap st)"
proof (induction ns m st rule: keep_slots.induct)
  case (2 n ns m st)
  have e: "st' = s2" if "st' = s1\<lparr>nsaddrs := nsaddrs st', nsmap := nsmap st'\<rparr>" "s1 = st\<lparr>nsaddrs := x, nsmap := y\<rparr>"
    "s2 = st\<lparr>nsaddrs := nsaddrs st', nsmap := nsmap st'\<rparr>" for s1 s2 x y
    using that by simp
  from 2 show ?case by (auto simp: Let_def split: if_splits intro: e)
qed simp

lemma keep_slots_map:
  "keep_slots ns m st = Inr (m', st') \<Longrightarrow> distinct ns \<Longrightarrow> j < length (nsmap st) \<Longrightarrow>
     nsmap st' ! j = (if j \<in> set ns \<and> nscount st \<le> int (nsmap st ! j) \<and> nsmap st ! j < MAXNS then MAXNS else nsmap st ! j)"
proof (induction ns m st rule: keep_slots.induct)
  case (2 n ns m st)
  then show ?case by (cases "j = n") (auto simp: Let_def split: if_splits)
qed simp

lemma keep_slots_other:
  "keep_slots ns m st = Inr (m', st') \<Longrightarrow> distinct ns \<Longrightarrow> \<forall>j \<in> set ns. nsmap st ! j \<noteq> i \<Longrightarrow> m' ! i = m ! i"
proof (induction ns m st rule: keep_slots.induct)
  case (2 n ns m st)
  have "\<forall>j \<in> set ns. (nsmap st)[n := MAXNS] ! j \<noteq> i" using 2(5,6) by (metis distinct.simps(2) list.set_intros(2) nth_list_update_neq)
  with 2 show ?case by (auto simp: Let_def split: if_splits)
qed simp

lemma keep_slots_inverse:
  assumes "keep_slots ns m st = Inr (m', st')" "distinct ns" "length m = MAXNS" "j \<in> set ns" "int (nsmap st ! j) < nscount st"
    and "\<forall>j' \<in> set ns. nsmap st ! j' = nsmap st ! j \<longrightarrow> j' = j"
  shows "m' ! (nsmap st ! j) = j"
  using assms
proof (induction ns m st rule: keep_slots.induct)
  case (2 n ns m st)
  show ?case
  proof (cases "j = n")
    case True
    with 2(4,8) have k: "nsmap st ! n < MAXNS" "keep_slots ns (m[nsmap st ! n := n]) st = Inr (m', st')"
      by (auto simp: Let_def split: if_splits)
    have "\<forall>j' \<in> set ns. nsmap st ! j' \<noteq> nsmap st ! n" using 2(5,9) True by (metis distinct.simps(2) list.set_intros(2))
    with keep_slots_other [OF k(2)] 2(5,6) k(1) True show ?thesis by simp
  next
    case False
    then have j: "j \<in> set ns" using 2(7) by simp
    have n: "n \<notin> set ns" using 2(5) by simp
    show ?thesis
    proof (cases "int (nsmap st ! n) < nscount st")
      case True
      with 2(1,4-9) j show ?thesis by (auto simp: Let_def split: if_splits)
    next
      case nk: False
      have "\<forall>j' \<in> set ns. (nsmap st)[n := MAXNS] ! j' = nsmap st ! j'" using n by (metis nth_list_update_neq)
      with nk 2(2-9) j show ?thesis by (auto simp: Let_def split: if_splits)
    qed
  qed
qed simp

section \<open>New servers\<close>

text \<open>\<open>m\<close> says in which slot each of the first \<open>n\<close> servers is.\<close>

definition minv :: "nat \<Rightarrow> nat list \<Rightarrow> nat list \<Rightarrow> bool" where
  "minv n m ks \<longleftrightarrow> length m = MAXNS \<and> length ks = MAXNS \<and> n \<le> MAXNS \<and>
     (\<forall>i<n. m ! i < MAXNS \<and> ks ! (m ! i) = i) \<and>
     (\<forall>j<MAXNS. ks ! j < n \<and> m ! (ks ! j) = j \<or> MAXNS \<le> ks ! j)"

lemma minv_map_ok: "minv n m ks \<Longrightarrow> map_ok n ks"
  unfolding minv_def map_ok_def slot_of_def by (metis linorder_not_less)

lemma keep_slots_minv:
  assumes "map_ok (nscount_ext st) (nsmap st)" "nscount_ext st \<le> MAXNS" "0 \<le> nscount st" "nscount st \<le> int MAXNS"
    and "keep_slots [0..<MAXNS] (replicate MAXNS MAXNS) st = Inr (m', st')"
  shows "minv (min (nscount_ext st) (nat (nscount st))) m' (nsmap st')"
proof -
  have len: "length (nsmap st) = MAXNS" "length m' = MAXNS" "length (nsmap st') = MAXNS"
    using assms(1) keep_slots_frame [OF assms(5)] by (simp_all add: map_ok_def)
  have inv: "m' ! (nsmap st ! j) = j" if "j < MAXNS" "int (nsmap st ! j) < nscount st" for j
    by (rule keep_slots_inverse [OF assms(5)]) (use that assms(1,4) in \<open>auto simp: map_ok_def slot_of_def\<close>)
  have K: "nsmap st' ! j = (if nscount st \<le> int (nsmap st ! j) \<and> nsmap st ! j < MAXNS then MAXNS else nsmap st ! j)" if "j < MAXNS" for j
    using keep_slots_map [OF assms(5), of j] len that by simp
  have a: "m' ! i < MAXNS \<and> nsmap st' ! (m' ! i) = i" if i: "i < nscount_ext st" "i < nat (nscount st)" for i
  proof -
    obtain j where j: "j < MAXNS" "nsmap st ! j = i" using assms(1) i(1) by (auto simp: map_ok_def slot_of_def)
    have "m' ! i = j" using inv [OF j(1)] j(2) i(2) by simp
    with j K [OF j(1)] i(2) show ?thesis by auto
  qed
  have b: "nsmap st' ! j < min (nscount_ext st) (nat (nscount st)) \<and> m' ! (nsmap st' ! j) = j \<or> MAXNS \<le> nsmap st' ! j" if j: "j < MAXNS" for j
  proof (cases "nsmap st ! j < MAXNS \<and> int (nsmap st ! j) < nscount st")
    case True
    with assms(1) j have "nsmap st ! j < nscount_ext st" by (auto simp: map_ok_def)
    with True inv [OF j] K [OF j] show ?thesis by auto
  next
    case False
    with K [OF j] assms(1,4) j show ?thesis by (auto simp: map_ok_def split: if_splits)
  qed
  show ?thesis using len a b assms(2) by (simp add: minv_def)
qed

lemma next_free_props:
  assumes "length ks = MAXNS"
  shows "ns \<le> next_free ks ns"
    "next_free ks ns < MAXNS \<Longrightarrow> ks ! next_free ks ns = MAXNS"
    "ns \<le> j \<Longrightarrow> j < next_free ks ns \<Longrightarrow> j < MAXNS \<Longrightarrow> ks ! j \<noteq> MAXNS"
proof -
  let ?w = "takeWhile (\<lambda>k. k \<noteq> MAXNS) (drop ns ks)"
  show "ns \<le> next_free ks ns" by (simp add: next_free_def)
  show "ks ! next_free ks ns = MAXNS" if "next_free ks ns < MAXNS"
  proof -
    have "length ?w < length (drop ns ks)" using that assms by (simp add: next_free_def)
    from nth_length_takeWhile [OF this] show ?thesis using that assms by (simp add: next_free_def)
  qed
  show "ks ! j \<noteq> MAXNS" if "ns \<le> j" "j < next_free ks ns" "j < MAXNS"
  proof -
    have "j - ns < length ?w" using that by (simp add: next_free_def)
    then have "drop ns ks ! (j - ns) \<noteq> MAXNS" using set_takeWhileD [of "?w ! (j - ns)"] by (metis nth_mem takeWhile_nth)
    then show ?thesis using that assms by simp
  qed
qed

lemma minvI:
  assumes "length m = MAXNS" "length ks = MAXNS" "n \<le> MAXNS"
    and "\<forall>i<n. m ! i < MAXNS \<and> ks ! (m ! i) = i" "\<forall>j<MAXNS. ks ! j < n \<and> m ! (ks ! j) = j \<or> MAXNS \<le> ks ! j"
  shows "minv n m ks"
  using assms unfolding minv_def by (intro conjI)

lemma minvD:
  assumes "minv n m ks"
  shows "length m = MAXNS" "length ks = MAXNS" "n \<le> MAXNS" "i < n \<Longrightarrow> m ! i < MAXNS" "i < n \<Longrightarrow> ks ! (m ! i) = i"
    "j < MAXNS \<Longrightarrow> ks ! j < n \<and> m ! (ks ! j) = j \<or> MAXNS \<le> ks ! j"
  using assms unfolding minv_def by metis+

lemma minv_new:
  assumes "minv n m ks" "n < MAXNS" "j < MAXNS" "ks ! j = MAXNS"
  shows "minv (Suc n) (m[n := j]) (ks[j := n])"
proof (rule minvI)
  note old = minvD [OF assms(1)]
  show "length (m[n := j]) = MAXNS" "length (ks[j := n]) = MAXNS" "Suc n \<le> MAXNS" using old(1,2) assms(2) by simp_all
  show "\<forall>i<Suc n. m[n := j] ! i < MAXNS \<and> (ks[j := n]) ! (m[n := j] ! i) = i"
  proof (intro allI impI)
    fix i assume "i < Suc n"
    show "m[n := j] ! i < MAXNS \<and> (ks[j := n]) ! (m[n := j] ! i) = i"
    proof (cases "i = n")
      case False
      then have i: "i < n" "m[n := j] ! i = m ! i" using \<open>i < Suc n\<close> by simp_all
      then have "m ! i \<noteq> j" using old(5) [OF i(1)] assms(2,4) by auto
      then show ?thesis using old(4,5) [OF i(1)] by (simp only: i(2) nth_list_update_neq simp_thms not_sym)
    qed (use assms(2,3) old(1,2) in simp)
  qed
  show "\<forall>j'<MAXNS. (ks[j := n]) ! j' < Suc n \<and> m[n := j] ! ((ks[j := n]) ! j') = j' \<or> MAXNS \<le> (ks[j := n]) ! j'"
  proof (intro allI impI)
    fix j' assume "j' < MAXNS"
    show "(ks[j := n]) ! j' < Suc n \<and> m[n := j] ! ((ks[j := n]) ! j') = j' \<or> MAXNS \<le> (ks[j := n]) ! j'"
    proof (cases "j' = j")
      case False
      then have "(ks[j := n]) ! j' = ks ! j'" by simp
      with old(6) [OF \<open>j' < MAXNS\<close>] show ?thesis by (metis less_SucI nat_neq_iff nth_list_update_neq)
    qed (use assms(2,3) old(1,2) in simp)
  qed
qed

lemma new_slots_spec:
  assumes "minv n m (nsmap st)" "nscount st \<le> int MAXNS" "\<forall>j<min ns MAXNS. nsmap st ! j \<noteq> MAXNS"
  shows "\<exists>n' m' K. new_slots n ns m st = Inr (n', m', st\<lparr>nsmap := K\<rparr>) \<and> minv n' m' K \<and>
     n \<le> n' \<and> int n' \<le> max (int n) (nscount st) \<and> (nscount st \<le> int n' \<or> (\<forall>j<MAXNS. K ! j \<noteq> MAXNS))"
  using assms
proof (induction "MAXNS - n" arbitrary: n ns m st)
  case (0 n ns m st)
  then have n: "\<not> int n < nscount st" by simp
  then have r: "new_slots n ns m st = Inr (n, m, st\<lparr>nsmap := nsmap st\<rparr>)" by (simp add: new_slots.simps)
  show ?case by (rule exI [of _ n], rule exI [of _ m], rule exI [of _ "nsmap st"]) (use r n 0(2) in simp)
next
  case (Suc d n ns m st)
  show ?case
  proof (cases "int n < nscount st")
    case False
    then have r: "new_slots n ns m st = Inr (n, m, st\<lparr>nsmap := nsmap st\<rparr>)" by (simp add: new_slots.simps)
    show ?thesis by (rule exI [of _ n], rule exI [of _ m], rule exI [of _ "nsmap st"]) (use r False Suc.prems(1) in simp)
  next
    case True
    define j where "j = next_free (nsmap st) ns"
    have len: "length (nsmap st) = MAXNS" using Suc.prems(1) by (rule minvD(2))
    note free = next_free_props [OF len, of ns, folded j_def]
    show ?thesis
    proof (cases "j < MAXNS")
      case False
      then have all: "\<forall>i<MAXNS. nsmap st ! i \<noteq> MAXNS" using free(3) Suc.prems(3) by (metis less_le_trans min_less_iff_conj not_le)
      have r: "new_slots n ns m st = Inr (n, m, st\<lparr>nsmap := nsmap st\<rparr>)"
        using True False by (simp add: new_slots.simps Let_def j_def [symmetric])
      show ?thesis by (rule exI [of _ n], rule exI [of _ m], rule exI [of _ "nsmap st"]) (use r all Suc.prems(1) in simp)
    next
      case j: True
      let ?st = "st\<lparr>nsmap := (nsmap st)[j := n]\<rparr>"
      have n: "n < MAXNS" using True Suc.prems(2) by simp
      have "minv (Suc n) (m[n := j]) (nsmap ?st)" using minv_new [OF Suc.prems(1) n j] free(2) j by simp
      moreover have "\<forall>i<min (Suc j) MAXNS. nsmap ?st ! i \<noteq> MAXNS"
      proof (intro allI impI)
        fix i assume i: "i < min (Suc j) MAXNS"
        show "nsmap ?st ! i \<noteq> MAXNS"
        proof (cases "i = j")
          case True
          then show ?thesis using len j n by simp
        next
          case False
          then have "nsmap ?st ! i = nsmap st ! i" "i < j" "i < MAXNS" using i by auto
          then show ?thesis using free(3) [of i] Suc.prems(3) by (cases "ns \<le> i") auto
        qed
      qed
      moreover have "d = MAXNS - Suc n" using Suc.hyps(2) by simp
      ultimately obtain n' m' K where *: "new_slots (Suc n) (Suc j) (m[n := j]) ?st = Inr (n', m', ?st\<lparr>nsmap := K\<rparr>)"
        "minv n' m' K" "Suc n \<le> n'" "int n' \<le> max (int (Suc n)) (nscount ?st)" "nscount ?st \<le> int n' \<or> (\<forall>j<MAXNS. K ! j \<noteq> MAXNS)"
        using Suc.hyps(1) [of "Suc n" "m[n := j]" ?st "Suc j"] Suc.prems(2) by auto
      have "new_slots n ns m st = new_slots (Suc n) (Suc j) (m[n := j]) ?st"
        using True j n by (simp add: new_slots.simps [of n] Let_def j_def [symmetric])
      with * have "new_slots n ns m st = Inr (n', m', st\<lparr>nsmap := K\<rparr>)" by simp
      moreover have "n \<le> n'" "int n' \<le> max (int n) (nscount st)" using *(3,4) True by auto
      ultimately show ?thesis using *(2,5) by auto
    qed
  qed
qed

section \<open>Copying the addresses\<close>

lemma copy_addrs_spec:
  assumes "\<And>w. fst (n_malloc net w)"
  shows "length (nsaddrs (rs s)) = MAXNS \<Longrightarrow> length (nssocks (rs s)) = MAXNS \<Longrightarrow> \<forall>i \<in> set is. m ! i < MAXNS \<Longrightarrow> inj_on ((!) m) (set is) \<Longrightarrow> distinct is \<Longrightarrow>
    \<exists>s' A S. copy_addrs net is m s = Inr s' \<and> rs s' = rs s\<lparr>nsaddrs := A, nssocks := S\<rparr> \<and> length A = MAXNS \<and> length S = MAXNS \<and>
      (\<forall>i \<in> set is. A ! (m ! i) = Some (nsaddr_list (rs s) ! i)) \<and>
      (\<forall>j. (\<forall>i \<in> set is. m ! i \<noteq> j) \<longrightarrow> A ! j = nsaddrs (rs s) ! j)"
proof (induction "is" arbitrary: s)
  case Nil
  then show ?case by (intro exI [of _ s] exI [of _ "nsaddrs (rs s)"] exI [of _ "nssocks (rs s)"]) simp
next
  case (Cons i "is")
  obtain ok s1 where a: "(if nsaddrs (rs s) ! (m ! i) = None then sys (n_malloc net) s else (True, s)) = (ok, s1)"
    by (metis surj_pair)
  have s1: "ok" "rs s1 = rs s" using a assms by (auto split: if_splits dest: sys_eq)
  define s2 where "s2 = s1\<lparr>rs := (rs s1)\<lparr>nsaddrs := (nsaddrs (rs s1))[m ! i := Some (nsaddr_list (rs s1) ! i)],
                                          nssocks := (nssocks (rs s1))[m ! i := -1]\<rparr>\<rparr>"
  have m: "m ! i < MAXNS" "\<not> MAXNS \<le> m ! i" using Cons.prems(3) by auto
  have step: "copy_addrs net (i # is) m s = copy_addrs net is m s2"
    unfolding copy_addrs.simps Let_def a case_prod_conv s2_def using s1 m by simp
  have rs2: "rs s2 = (rs s)\<lparr>nsaddrs := (nsaddrs (rs s))[m ! i := Some (nsaddr_list (rs s) ! i)], nssocks := (nssocks (rs s))[m ! i := -1]\<rparr>"
    by (simp add: s2_def s1)
  have ne: "m ! i' \<noteq> m ! i" if "i' \<in> set is" for i' using that Cons.prems(4,5) by (auto simp: inj_on_def)
  have pre: "length (nsaddrs (rs s2)) = MAXNS" "length (nssocks (rs s2)) = MAXNS" "\<forall>i \<in> set is. m ! i < MAXNS" "inj_on ((!) m) (set is)" "distinct is"
    using Cons.prems by (auto simp: rs2 inj_on_def)
  obtain s' A S where *: "copy_addrs net is m s2 = Inr s'" "rs s' = rs s2\<lparr>nsaddrs := A, nssocks := S\<rparr>" "length A = MAXNS" "length S = MAXNS"
    "\<forall>i \<in> set is. A ! (m ! i) = Some (nsaddr_list (rs s2) ! i)" "\<forall>j. (\<forall>i \<in> set is. m ! i \<noteq> j) \<longrightarrow> A ! j = nsaddrs (rs s2) ! j"
    using Cons.IH [OF pre] by blast
  have "A ! (m ! i) = Some (nsaddr_list (rs s) ! i)"
    using *(6) ne m Cons.prems(1) by (auto simp: rs2)
  with * step show ?case
    by (intro exI [of _ s'] exI [of _ A] exI [of _ S]) (auto simp: rs2)
qed

section \<open>Synchronising\<close>

text \<open>What holds when the table has been made again: \<open>s\<close> before, \<open>s'\<close> after.\<close>

definition synced :: "'w sstate \<Rightarrow> 'w sstate \<Rightarrow> bool" where
  "synced s s' \<longleftrightarrow>
     table_ok (rs s') \<and> addrs_current (rs s') \<and> nsinit (rs s') \<noteq> 0 \<and>
     nscount (rs s') = nscount (rs s) \<and> nsaddr_list (rs s') = nsaddr_list (rs s) \<and> options (rs s') = options (rs s) \<and>
     int (nscount_ext (rs s')) \<le> nscount (rs s) \<and>
     (int (nscount_ext (rs s')) = nscount (rs s) \<or> (\<forall>j<MAXNS. nsmap (rs s') ! j \<noteq> MAXNS))"

lemma table_slots:
  assumes "map_ok (nscount_ext (rs s)) (nsmap (rs s))" "nscount_ext (rs s) \<le> MAXNS" "length (nsaddrs (rs s)) = MAXNS"
    and "0 \<le> nscount (rs s)" "nscount (rs s) \<le> int MAXNS"
  obtains m st n' m' K where "keep_slots [0..<MAXNS] (replicate MAXNS MAXNS) (rs s) = Inr (m, st)"
    "st = rs s\<lparr>nsaddrs := nsaddrs st, nsmap := nsmap st\<rparr>" "length (nsaddrs st) = MAXNS"
    "(if nscount st > int (nscount_ext st) then new_slots (nscount_ext st) 0 m st else Inr (nat (nscount st), m, st))
       = Inr (n', m', st\<lparr>nsmap := K\<rparr>)"
    "minv n' m' K" "int n' \<le> nscount (rs s)" "int n' = nscount (rs s) \<or> (\<forall>j<MAXNS. K ! j \<noteq> MAXNS)"
proof -
  obtain m st where k: "keep_slots [0..<MAXNS] (replicate MAXNS MAXNS) (rs s) = Inr (m, st)"
    using keep_slots_returns [OF assms(5)] by blast
  have st: "st = rs s\<lparr>nsaddrs := nsaddrs st, nsmap := nsmap st\<rparr>" "length (nsaddrs st) = MAXNS"
    using keep_slots_frame [OF k] assms(3) by simp_all
  have n: "nscount st = nscount (rs s)" "nscount_ext st = nscount_ext (rs s)" by (subst st(1); simp)+
  have minv: "minv (min (nscount_ext st) (nat (nscount st))) m (nsmap st)"
    using keep_slots_minv [OF assms(1,2,4,5) k] n by simp
  show thesis
  proof (cases "nscount st > int (nscount_ext st)")
    case True
    then have "minv (nscount_ext st) m (nsmap st)" using minv by simp
    from new_slots_spec [OF this, of 0] assms(5) n obtain n' m' K where
      *: "new_slots (nscount_ext st) 0 m st = Inr (n', m', st\<lparr>nsmap := K\<rparr>)" "minv n' m' K" "nscount_ext st \<le> n'"
        "int n' \<le> max (int (nscount_ext st)) (nscount st)" "nscount st \<le> int n' \<or> (\<forall>j<MAXNS. K ! j \<noteq> MAXNS)" by auto
    show thesis by (rule that [OF k st, of n' m' K]) (use True * n in auto)
  next
    case False
    then have "minv (nat (nscount st)) m (nsmap st)" using minv assms(4) n by simp
    then show thesis by (rule that [OF k st, of "nat (nscount st)" m "nsmap st", rotated]) (use False n assms(4) in auto)
  qed
qed

lemma init_table_spec:
  assumes "\<And>w. fst (n_malloc net w)"
    and "map_ok (nscount_ext (rs s)) (nsmap (rs s))" "nscount_ext (rs s) \<le> MAXNS" "length (nsaddrs (rs s)) = MAXNS" "length (nssocks (rs s)) = MAXNS"
    and "0 \<le> nscount (rs s)" "nscount (rs s) \<le> int MAXNS"
  shows "\<exists>s'. init_table net s = Inr s' \<and> synced s s'"
proof -
  obtain m st n' m' K where k: "keep_slots [0..<MAXNS] (replicate MAXNS MAXNS) (rs s) = Inr (m, st)"
    and st: "st = rs s\<lparr>nsaddrs := nsaddrs st, nsmap := nsmap st\<rparr>" "length (nsaddrs st) = MAXNS"
    and new: "(if nscount st > int (nscount_ext st) then new_slots (nscount_ext st) 0 m st else Inr (nat (nscount st), m, st))
       = Inr (n', m', st\<lparr>nsmap := K\<rparr>)"
    and minv: "minv n' m' K" and n': "int n' \<le> nscount (rs s)" "int n' = nscount (rs s) \<or> (\<forall>j<MAXNS. K ! j \<noteq> MAXNS)"
    using assms(2-4,6,7) by (rule table_slots)
  define s1 where "s1 = s\<lparr>rs := (st\<lparr>nsmap := K\<rparr>)\<lparr>nscount_ext := n'\<rparr>\<rparr>"
  have s1: "rs s1 = rs s\<lparr>nsaddrs := nsaddrs st, nsmap := K, nscount_ext := n'\<rparr>"
    unfolding s1_def by (subst (1) st(1)) simp
  have pre: "length (nsaddrs (rs s1)) = MAXNS" "length (nssocks (rs s1)) = MAXNS" "\<forall>i \<in> set [0..<n']. m' ! i < MAXNS"
    "inj_on ((!) m') (set [0..<n'])" "distinct [0..<n']"
    using s1 st assms(5) minvD(4) [OF minv] by (simp_all) (metis (mono_tags, lifting) inj_onI minvD(5) [OF minv] atLeastLessThan_iff)
  obtain s2 A S where c: "copy_addrs net [0..<n'] m' s1 = Inr s2" "rs s2 = rs s1\<lparr>nsaddrs := A, nssocks := S\<rparr>" "length A = MAXNS" "length S = MAXNS"
    "\<forall>i \<in> set [0..<n']. A ! (m' ! i) = Some (nsaddr_list (rs s1) ! i)"
    using copy_addrs_spec [OF assms(1) pre] by metis
  define s3 where "s3 = s2\<lparr>rs := (rs s2)\<lparr>nsinit := 1\<rparr>\<rparr>"
  have rs3: "rs s3 = rs s\<lparr>nsaddrs := A, nsmap := K, nscount_ext := n', nssocks := S, nsinit := 1\<rparr>"
    by (simp add: s3_def c(2) s1)
  have "init_table net s = Inr s3"
    unfolding init_table_def k and_then_Inr case_prod_conv new by (simp add: s1_def [symmetric] c(1) s3_def)
  moreover have addr: "A ! j = Some (nsaddr_list (rs s) ! (K ! j))" if "j < MAXNS" "K ! j < MAXNS" for j
  proof -
    have k: "K ! j < n'" "m' ! (K ! j) = j" using minvD(6) [OF minv that(1)] that(2) by auto
    from c(5) [rule_format, of "K ! j"] show ?thesis by (simp add: k s1)
  qed
  have "synced s s3"
    unfolding synced_def table_ok_def addrs_current_def rs3
    using minv_map_ok [OF minv] minvD(3) [OF minv] c(3,4) addr n' by auto
  ultimately show ?thesis by blast
qed

lemma changed_from_current:
  "changed_from ns st = Inr False \<Longrightarrow> \<forall>j \<in> set ns. nsmap st ! j < MAXNS \<longrightarrow> (\<exists>a. nsaddrs st ! j = Some a \<and> sock_eq (nsaddr_list st ! (nsmap st ! j)) a)"
  by (induction ns st rule: changed_from.induct) (auto simp: Let_def split: if_splits option.splits)

lemma changed_from_returns:
  "\<forall>j \<in> set ns. nsmap st ! j < MAXNS \<longrightarrow> nsaddrs st ! j \<noteq> None \<Longrightarrow> \<exists>b. changed_from ns st = Inr b"
  by (induction ns st rule: changed_from.induct) (auto simp: Let_def split: option.splits)

text \<open>C23: Synchronising the private table of servers never fails when memory can be had, keeps the
  table well-formed, and leaves in every slot of a server the address that the server has in the
  list; a server without a slot remains only when all slots are taken.\<close>

theorem table_synced:
  assumes "table_ok (rs s)" "0 \<le> nscount (rs s)" "nscount (rs s) \<le> int MAXNS" "\<And>w. fst (n_malloc net w)"
  shows "\<exists>s'. sync_table net s = Inr s' \<and> synced s s'"
proof (cases "nsinit (rs s) = 0")
  case True
  then show ?thesis using init_table_spec [OF assms(4), of s] assms by (simp add: sync_table_def table_ok_def)
next
  case False
  then obtain b' where "changed_from [0..<MAXNS] (rs s) = Inr b'"
    using changed_from_returns [of "[0..<MAXNS]" "rs s"] assms(1) by (auto simp: table_ok_def)
  then have "\<exists>b. needs_close (rs s) = Inr b" by (auto simp: needs_close_def)
  then obtain b where b: "needs_close (rs s) = Inr b" by blast
  show ?thesis
  proof (cases b)
    case True
    have "\<exists>s'. init_table net (do_nclose net s) = Inr s' \<and> synced (do_nclose net s) s'"
      by (rule init_table_spec [OF assms(4)]) (use assms in \<open>simp_all add: table_ok_def\<close>)
    moreover have "synced (do_nclose net s) s' = synced s s'" for s' by (simp add: synced_def)
    ultimately show ?thesis using False b True by (simp add: sync_table_def)
  next
    case no: False
    then have "int (nscount_ext (rs s)) = nscount (rs s)" "changed_from [0..<MAXNS] (rs s) = Inr False"
      using b by (auto simp: needs_close_def split: if_splits)
    with changed_from_current [OF this(2)] assms(1) False have "synced s s"
      by (auto simp: synced_def addrs_current_def)
    with False b no show ?thesis by (simp add: sync_table_def)
  qed
qed

section \<open>Rotation\<close>

definition used_slots :: "res_state \<Rightarrow> nat list" where
  "used_slots st = filter (\<lambda>j. nsmap st ! j \<noteq> MAXNS) [0..<MAXNS]"

definition entries_of :: "res_state \<Rightarrow> (sock_addr option \<times> nat) list" where
  "entries_of st = map (\<lambda>j. (nsaddrs st ! j, nsmap st ! j)) (used_slots st)"

text \<open>Rotating moves the address and server number of each used slot to the used slot before it,
  the first to the last; free slots stay free, and the sockets stay where they are.\<close>

theorem rotate_servers_spec:
  assumes "length (nsmap st) = MAXNS" "length (nsaddrs st) = MAXNS"
  shows "used_slots (rotate_servers st) = used_slots st \<and> entries_of (rotate_servers st) = rotate1 (entries_of st) \<and>
    nssocks (rotate_servers st) = nssocks st"
proof -
  have len3: "\<exists>a b c. xs = [a, b, c]" if "length xs = MAXNS" for xs :: "'a list"
    using that by (auto simp: MAXNS_def length_Suc_conv numeral_3_eq_3)
  obtain a b c where k: "nsmap st = [a, b, c]" using len3 [OF assms(1)] by blast
  obtain x y z where n: "nsaddrs st = [x, y, z]" using len3 [OF assms(2)] by blast
  show ?thesis
    by (cases "a = 3"; cases "b = 3"; cases "c = 3")
       (simp_all add: rotate_servers_def rotate_loop.simps next_used_def Let_def k n MAXNS_def used_slots_def entries_of_def
         upt_rec numeral_3_eq_3 numeral_2_eq_2)
qed

section \<open>A failed allocation\<close>

lemma copy_addrs_failing:
  assumes "\<And>w. \<not> fst (n_malloc net w)"
  shows "\<forall>i \<in> set ns. m ! i < MAXNS \<and> nsaddrs (rs s) ! (m ! i) = None \<Longrightarrow> \<exists>s'. copy_addrs net ns m s = Inr s' \<and> rs s' = rs s"
proof (induction ns arbitrary: s)
  case (Cons i ns)
  obtain ok s1 where a: "sys (n_malloc net) s = (ok, s1)" by fastforce
  have s1: "\<not> ok" "rs s1 = rs s" using sys_eq [OF a] assms by auto
  obtain s' where "copy_addrs net ns m s1 = Inr s'" "rs s' = rs s1" using Cons.IH [of s1] Cons.prems s1(2) by auto
  with Cons.prems a s1 show ?case by (auto simp: Let_def)
qed simp

lemma keep_slots_free:
  "nscount st \<le> int MAXNS \<Longrightarrow> \<forall>j \<in> set ns. nsmap st ! j = MAXNS \<Longrightarrow> keep_slots ns m st = Inr (m, st)"
  by (induction ns m st rule: keep_slots.induct) (auto simp: Let_def)

lemma new_slots_first:
  assumes "nsmap st = replicate MAXNS MAXNS" "1 \<le> nscount st" "nscount st \<le> int MAXNS"
  shows "\<exists>m' K. new_slots 0 0 (replicate MAXNS MAXNS) st = Inr (nat (nscount st), m', st\<lparr>nsmap := K\<rparr>) \<and> K ! 0 = 0 \<and> length K = MAXNS \<and>
    (\<forall>i<nat (nscount st). m' ! i < MAXNS)"
proof -
  consider "nscount st = 1" | "nscount st = 2" | "nscount st = 3" using assms(2,3) by (fastforce simp: MAXNS_def)
  then show ?thesis
    by cases (simp_all add: assms(1) new_slots.simps next_free_def Let_def MAXNS_def numeral_3_eq_3 numeral_2_eq_2 less_Suc_eq,
        (rule exI, rule conjI, rule refl, simp)+)
qed

text \<open>When the addresses of a new table cannot be allocated, the exchange goes on with null
  pointers in the table, and the next one dereferences one of them.\<close>

theorem alloc_failure_faults:
  assumes "\<And>w. \<not> fst (n_malloc net w)" "nsinit (rs s) = 0" "nscount_ext (rs s) = 0"
    and "nsmap (rs s) = replicate MAXNS MAXNS" "nsaddrs (rs s) = replicate MAXNS None" "1 \<le> nscount (rs s)" "nscount (rs s) \<le> int MAXNS"
  shows "\<exists>s'. sync_table net s = Inr s' \<and> sync_table net s' = Inl Fault"
proof -
  have up: "[0..<MAXNS] = [0, 1, 2]" by (simp add: MAXNS_def upt_rec)
  have keep: "keep_slots [0..<MAXNS] (replicate MAXNS MAXNS) (rs s) = Inr (replicate MAXNS MAXNS, rs s)"
    by (rule keep_slots_free) (use assms in simp_all)
  obtain m' K where new: "new_slots 0 0 (replicate MAXNS MAXNS) (rs s) = Inr (nat (nscount (rs s)), m', rs s\<lparr>nsmap := K\<rparr>)"
    and K: "K ! 0 = 0" "\<forall>i<nat (nscount (rs s)). m' ! i < MAXNS"
    using new_slots_first [OF assms(4,6,7)] by blast
  define s1 where "s1 = s\<lparr>rs := rs s\<lparr>nsmap := K, nscount_ext := nat (nscount (rs s))\<rparr>\<rparr>"
  have "\<forall>i \<in> set [0..<nat (nscount (rs s))]. m' ! i < MAXNS \<and> nsaddrs (rs s1) ! (m' ! i) = None"
    using K(2) assms(5) by (simp add: s1_def)
  from copy_addrs_failing [OF assms(1) this] obtain s2 where
    s2: "copy_addrs net [0..<nat (nscount (rs s))] m' s1 = Inr s2" "rs s2 = rs s1" by blast
  let ?s = "s2\<lparr>rs := (rs s2)\<lparr>nsinit := 1\<rparr>\<rparr>"
  have "sync_table net s = Inr ?s"
    using assms(2,3,6) keep new s2(1) by (simp add: sync_table_def init_table_def s1_def)
  moreover have "sync_table net ?s = Inl Fault"
  proof -
    have "0 < MAXNS" by (simp add: MAXNS_def)
    then have "changed_from [0..<MAXNS] (rs ?s) = Inl Fault" unfolding up using assms(5) K(1) by (simp add: s2(2) s1_def)
    then show ?thesis using assms(6) by (simp add: sync_table_def needs_close_def s2(2) s1_def)
  qed
  ultimately show ?thesis by blast
qed

section \<open>Examples\<close>

definition fresh_state :: "int sstate" where
  "fresh_state = example_state\<lparr>rs := (rs example_state)\<lparr>nsmap := replicate MAXNS MAXNS, nsaddrs := replicate MAXNS None,
     nscount_ext := 0, nsinit := 0\<rparr>\<rparr>"

lemma fresh_sel [simp]:
  "nsmap (rs fresh_state) = replicate MAXNS MAXNS" "nsaddrs (rs fresh_state) = replicate MAXNS None"
  "nscount_ext (rs fresh_state) = 0" "nsinit (rs fresh_state) = 0" "nscount (rs fresh_state) = 1" "length (nssocks (rs fresh_state)) = MAXNS"
  by (simp_all add: fresh_state_def example_state_def MAXNS_def)

theorem table_synced_witness: "\<exists>s'. sync_table (example_net []) fresh_state = Inr s' \<and> synced fresh_state s'"
proof (rule table_synced)
  show "table_ok (rs fresh_state)" by (simp add: table_ok_def map_ok_def slot_of_def)
  show "fst (n_malloc (example_net []) w)" for w by (simp add: example_net_def)
qed (simp_all add: MAXNS_def)

theorem alloc_failure_faults_witness:
  "\<exists>net s'. sync_table net fresh_state = Inr s' \<and> sync_table net s' = Inl Fault"
  by (rule exI [of _ "example_net []\<lparr>n_malloc := \<lambda>w. (False, w)\<rparr>"], rule alloc_failure_faults) (simp_all add: MAXNS_def)

theorem rotate_servers_spec_witness:
  "nsmap (rotate_servers (zero_state\<lparr>nsmap := [0, 1, 3]\<rparr>)) = [1, 0, 3] \<and>
   entries_of (rotate_servers (zero_state\<lparr>nsmap := [0, 1, 3]\<rparr>)) = [(None, 1), (None, 0)]"
proof -
  let ?st = "zero_state\<lparr>nsmap := [0, 1, 3]\<rparr>"
  have "entries_of (rotate_servers ?st) = rotate1 (entries_of ?st)"
    using rotate_servers_spec [of ?st] by (simp add: zero_state_def MAXNS_def)
  moreover have "nsmap (rotate_servers ?st) = [1, 0, 3]" "entries_of ?st = [(None, 0), (None, 1)]" by code_simp+
  ultimately show ?thesis by simp
qed

end
