(* ===== verification/Res_Send_Match.thy ===== *)
theory Res_Send_Match
  imports Res_Send Res_Mkquery_Correct
begin

text \<open>
  \<open>res_queriesmatch\<close> and \<open>res_nameinquery\<close> on the questions that two messages ask, and what they
  make of a reply whose question cannot be read.
\<close>

section \<open>The questions of a message\<close>

type_synonym query_item = "label list \<times> u32 \<times> u32"

fun asks_from :: "u8 list \<Rightarrow> nat \<Rightarrow> query_item list \<Rightarrow> bool" where
  "asks_from m cp [] = True"
| "asks_from m cp ((ls, t, c) # qs) =
     (wf_name ls \<and> ls \<noteq> [[0x2E]] \<and>
      (\<exists>lo e. stored m lo cp e ls \<and> ns_get16 m e = Inr t \<and> ns_get16 m (e + 2) = Inr c \<and> asks_from m (e + 4) qs))"

definition asks :: "u8 list \<Rightarrow> query_item list \<Rightarrow> bool" where
  "asks m qs \<longleftrightarrow> 12 \<le> length m \<and> length qs < 65536 \<and> ns_get16 m 4 = Inr (of_nat (length qs)) \<and> asks_from m 12 qs"

fun same_item :: "query_item \<Rightarrow> query_item \<Rightarrow> bool" where
  "same_item (ls, t, c) (ls', t', c') = (same_name ls' ls \<and> t' = t \<and> c' = c)"

section \<open>Reading one question\<close>

lemma digits_not_nul: "i < 10 \<Longrightarrow> digits i \<noteq> 0"
proof -
  assume "i < 10"
  then have "i \<in> set [0..<10]" by simp
  moreover have "list_all (\<lambda>i. digits i \<noteq> 0) [0..<10]" by code_simp
  ultimately show ?thesis unfolding list_all_iff by blast
qed

lemma no_nul_esc: "0 \<notin> set (esc c)"
proof -
  have "unat c div 100 < 10" "unat c mod 100 div 10 < 10" "unat c mod 10 < 10"
    by (simp_all add: unat_u8_div_100 less_mult_imp_div_less)
  then have "digits (unat c div 100) \<noteq> 0" "digits (unat c mod 100 div 10) \<noteq> 0" "digits (unat c mod 10) \<noteq> 0"
    by (simp_all only: digits_not_nul not_False_eq_True)
  moreover have "\<not> special 0" "\<not> printable 0" by code_simp+
  ultimately show ?thesis unfolding esc_def by (cases "special c"; cases "printable c") auto
qed

text \<open>\<open>dn_expand\<close> prints the root as the empty string.\<close>

lemma no_nul_dotted: "0 \<notin> set (dotted ls)"
proof -
  have l: "0 \<notin> set (esc_label l)" for l by (induction l) (auto simp: no_nul_esc)
  show ?thesis by (induction ls rule: dotted.induct) (auto simp: l dot_label_def)
qed

lemma hd_dotted: "list_all wf_label ls \<Longrightarrow> ls \<noteq> [] \<Longrightarrow> hd (dotted ls @ s) \<noteq> 0x2E"
  by (cases ls) (auto simp: wf_label_def dotted_Cons hd_esc_label [of _ "[]", simplified] simp del: dotted.simps)

lemma samename_dotted:
  assumes "wf_name as" "wf_name bs" "as \<noteq> [[0x2E]]" "bs \<noteq> [[0x2E]]"
  shows "ns_samename (dotted as) (dotted bs) = Inr (same_name as bs)"
proof -
  have "ns_makecanon [] NS_MAXDNAME = ns_makecanon [0x2E] NS_MAXDNAME"
    by (simp add: ns_makecanon_def makecanon_loop.simps NS_MAXDNAME_def)
  then have "ns_makecanon (dotted ls) NS_MAXDNAME = ns_makecanon (present ls) NS_MAXDNAME" for ls
    by (simp add: present_def)
  with samename_present [OF assms] show ?thesis by (simp add: ns_samename_def)
qed

lemma length_present: "wf_name ls \<Longrightarrow> length (present ls) < 1026"
  using length_dotted [of ls] by (auto simp: wf_name_def present_def NS_MAXCDNAME_def)

lemma dn_expand_stored:
  assumes "stored m lo cp e ls" "wf_name ls"
  obtains dst where "dn_expand m (length m) cp 1026 = Inr (e - cp, dst)" "takeWhile (\<lambda>c. c \<noteq> 0) dst = dotted ls"
proof -
  have "e \<le> length m" "cp < e" using stored_bounds [OF assms(1)] by simp_all
  have "ns_name_unpack m (length m) cp NS_MAXCDNAME = Inr (e - cp, wire ls)"
    by (rule ns_name_unpack_stored [OF assms(1)]) (use assms(2) \<open>e \<le> length m\<close> in \<open>simp_all add: wf_name_def\<close>)
  moreover have "ns_name_ntop (wire ls) 1026 = Inr (present ls @ [0])"
    using ntop_spec [of ls "[]" 1026] length_present [OF assms(2)] assms(2) by (simp add: wf_name_def)
  ultimately have u: "ns_name_uncompress m (length m) cp 1026 = Inr (e - cp, present ls @ [0])"
    by (simp add: ns_name_uncompress_def)
  show thesis
  proof (cases ls)
    case Nil
    with u \<open>cp < e\<close> show thesis by (intro that [of "[0, 0]"]) (simp_all add: dn_expand_def present_def)
  next
    case (Cons l ls')
    then have h: "hd (dotted ls @ [0]) \<noteq> 0x2E" using hd_dotted [of ls "[0]"] assms(2) by (simp add: wf_name_def)
    have "takeWhile (\<lambda>c. c \<noteq> 0) (dotted ls @ [0]) = dotted ls"
      using no_nul_dotted [of ls] by (subst takeWhile_append2) auto
    with u h Cons show thesis by (intro that [of "dotted ls @ [0]"]) (simp_all add: dn_expand_def present_def del: dotted.simps)
  qed
qed

lemma get16_bound: "ns_get16 m i = Inr x \<Longrightarrow> i + 2 \<le> length m"
  by (auto simp: ns_get16_def fetch_def and_then_eq_Inr split: if_splits)

lemma next_question_stored:
  assumes "stored m lo cp e ls" "wf_name ls" "ns_get16 m e = Inr t" "ns_get16 m (e + 2) = Inr c"
  shows "next_question m cp = Inr (Some (dotted ls, t, c, e + 4))"
proof -
  obtain dst where d: "dn_expand m (length m) cp 1026 = Inr (e - cp, dst)" "takeWhile (\<lambda>c. c \<noteq> 0) dst = dotted ls"
    using assms(1,2) by (rule dn_expand_stored)
  have "cp + (e - cp) = e" using stored_bounds [OF assms(1)] by simp
  moreover have "e + 4 \<le> length m" using get16_bound [OF assms(4)] by simp
  ultimately show ?thesis
    using assms d by (simp add: next_question_def Let_def)
qed

section \<open>Looking for a question\<close>

lemma nameinquery_loop_asks:
  assumes "asks_from m cp qs" "wf_name ls" "ls \<noteq> [[0x2E]]"
  shows "nameinquery_loop (length qs) (dotted ls) t c m cp = Inr (if \<exists>q \<in> set qs. same_item (ls, t, c) q then 1 else 0)"
  using assms(1)
proof (induction qs arbitrary: cp)
  case (Cons q qs)
  obtain ls' t' c' where q: "q = (ls', t', c')" by (cases q)
  with Cons.prems obtain lo e where e: "wf_name ls'" "ls' \<noteq> [[0x2E]]" "stored m lo cp e ls'"
    "ns_get16 m e = Inr t'" "ns_get16 m (e + 2) = Inr c'" "asks_from m (e + 4) qs" by auto
  have "same_name_1 (dotted ls') (dotted ls) = Inr (same_name ls' ls)"
    by (simp add: same_name_1_def samename_dotted e assms)
  then show ?case using Cons.IH [OF e(6)] by (auto simp: q next_question_stored [OF e(3,1,4,5)])
qed simp

lemma queriesmatch_loop_asks:
  assumes "asks_from m cp qs" "asks m' qs'"
  shows "queriesmatch_loop (length qs) m cp m' = Inr (if \<forall>q \<in> set qs. \<exists>q' \<in> set qs'. same_item q q' then 1 else 0)"
  using assms(1)
proof (induction qs arbitrary: cp)
  case (Cons q qs)
  obtain ls t c where q: "q = (ls, t, c)" by (cases q)
  with Cons.prems obtain lo e where e: "wf_name ls" "ls \<noteq> [[0x2E]]" "stored m lo cp e ls"
    "ns_get16 m e = Inr t" "ns_get16 m (e + 2) = Inr c" "asks_from m (e + 4) qs" by auto
  have "unat (of_nat (length qs') :: u32) = length qs'" using assms(2) by (simp add: asks_def unat_of_nat)
  then have "res_nameinquery (dotted ls) t c m' = Inr (if \<exists>q' \<in> set qs'. same_item q q' then 1 else 0)"
    using assms(2) nameinquery_loop_asks [of m' 12 qs' ls t c] e by (simp add: res_nameinquery_def asks_def q)
  then show ?case using Cons.IH [OF e(6)] by (auto simp: q next_question_stored [OF e(3,1,4,5)])
qed simp


definition a_query :: "u8 list" where
  "a_query = [1, 2, 1, 0, 0, 1, 0, 0, 0, 0, 0, 0, 1, 0x61, 0, 0, 1, 0, 1]"

lemma a_query_asks: "asks a_query [([[0x61]], 1, 1)]"
proof -
  have "ns_get16 a_query 15 = Inr 1" by code_simp
  have "stored a_query 0 14 15 []" using stored.root [of 0 14 a_query] by (simp add: a_query_def)
  then have "stored a_query 0 12 15 [[0x61]]"
    using stored.label [of "[0x61]" 0 12 a_query 15 "[]"] by (simp add: a_query_def wf_label_def label_wire_def)
  moreover have "ns_get16 a_query (15 + 2) = Inr 1" by code_simp
  ultimately have "\<exists>lo e. stored a_query lo 12 e [[0x61]] \<and> ns_get16 a_query e = Inr 1 \<and> ns_get16 a_query (e + 2) = Inr 1"
    using \<open>ns_get16 a_query 15 = Inr 1\<close> by blast
  moreover have "wf_name [[0x61]]" "ns_get16 a_query 15 = Inr 1" "ns_get16 a_query 17 = Inr 1" "ns_get16 a_query 4 = Inr 1"
    "length a_query = 19" by code_simp+
  ultimately show ?thesis by (simp add: asks_def)
qed


text \<open>The comment in the source promises a one to one mapping; the questions A and A are in A and B.\<close>

definition two_questions :: "u8 \<Rightarrow> u8 \<Rightarrow> u8 list" where
  "two_questions a b = [1, 2, 1, 0, 0, 2, 0, 0, 0, 0, 0, 0, 1, a, 0, 0, 1, 0, 1, 1, b, 0, 0, 1, 0, 1]"

lemma queriesmatch_one_way:
  "res_queriesmatch (two_questions 0x61 0x61) (two_questions 0x61 0x62) = Inr 1"
  "res_queriesmatch (two_questions 0x61 0x62) (two_questions 0x61 0x61) = Inr 0"
  by code_simp+

text \<open>A reply with one question that cannot be read is taken as a match for every query: the -1
  of res_nameinquery counts as found.\<close>

theorem queriesmatch_malformed:
  assumes "asks m [q]" "12 \<le> length m'" "ns_get16 m' 4 = Inr 1" "next_question m' 12 = Inr None"
  shows "res_queriesmatch m m' = Inr 1"
proof -
  obtain ls t c where q: "q = (ls, t, c)" by (cases q)
  with assms(1) obtain lo e where e: "wf_name ls" "stored m lo 12 e ls" "ns_get16 m e = Inr t" "ns_get16 m (e + 2) = Inr c"
    by (auto simp: asks_def)
  have "res_nameinquery (dotted ls) t c m' = Inr (-1)" using assms by (simp add: res_nameinquery_def)
  then show ?thesis
    using assms by (simp add: res_queriesmatch_def asks_def next_question_stored [OF e(2,1,3,4)])
qed

text \<open>A reply that is cut off after its header.\<close>

theorem queriesmatch_malformed_witness: "res_queriesmatch a_query [1, 2, 0x81, 0x80, 0, 1, 0, 0, 0, 0, 0, 0] = Inr 1"
proof -
  have "ns_get16 [1, 2, 0x81, 0x80, 0, 1, 0, 0, 0, 0, 0, 0] 4 = Inr 1"
    "next_question [1, 2, 0x81, 0x80, 0, 1, 0, 0, 0, 0, 0, 0] 12 = Inr None" by code_simp+
  with queriesmatch_malformed [OF a_query_asks, of "[1, 2, 0x81, 0x80, 0, 1, 0, 0, 0, 0, 0, 0]"] show ?thesis by simp
qed

end
