(* ===== verification/Spawn_Vars.thy ===== *)
theory Spawn_Vars
  imports Prelude
begin

text \<open>
  \<open>nacl_pp_helpers.c\<close>: the values that programs exchange with JavaScript, and the helper functions
  on dictionaries and arrays.  A value is a tree: no value is shared, so a function that changes an
  object through a reference gives the changed object.  Strings are UTF-8, and a dictionary is the
  list of its entries with distinct keys.
\<close>

section \<open>Values\<close>

datatype pp_var =
    PP_Undefined
  | PP_Null
  | PP_Bool bool
  | PP_Int32 int
  | PP_String cstring
  | PP_Array "pp_var list"
  | PP_Dict "(cstring \<times> pp_var) list"

text \<open>What the Pepper interfaces for dictionaries and arrays do.\<close>

fun entry_set :: "cstring \<Rightarrow> pp_var \<Rightarrow> (cstring \<times> pp_var) list \<Rightarrow> (cstring \<times> pp_var) list" where
  "entry_set k v [] = [(k, v)]"
| "entry_set k v ((k', v') # es) = (if k' = k then (k, v) # es else (k', v') # entry_set k v es)"

fun entries_of :: "pp_var \<Rightarrow> (cstring \<times> pp_var) list" where
  "entries_of (PP_Dict es) = es"
| "entries_of v = []"

fun elements_of :: "pp_var \<Rightarrow> pp_var list" where
  "elements_of (PP_Array vs) = vs"
| "elements_of v = []"

definition SetLength :: "pp_var list \<Rightarrow> nat \<Rightarrow> pp_var list" where
  "SetLength vs n = take n vs @ replicate (n - length vs) PP_Undefined"

definition Get :: "pp_var list \<Rightarrow> nat \<Rightarrow> pp_var" where
  "Get vs i = (if i < length vs then vs ! i else PP_Undefined)"

definition Set :: "pp_var list \<Rightarrow> nat \<Rightarrow> pp_var \<Rightarrow> pp_var list" where
  "Set vs i v = (SetLength vs (max (length vs) (i + 1)))[i := v]"

section \<open>Numbers as text\<close>

text \<open>What \<open>%d\<close> prints.\<close>

fun decimal_nat :: "nat \<Rightarrow> cstring" where
  "decimal_nat n = (if n < 10 then [of_nat (48 + n)] else decimal_nat (n div 10) @ [of_nat (48 + n mod 10)])"

declare decimal_nat.simps [simp del]

definition decimal :: "int \<Rightarrow> cstring" where
  "decimal n = (if n < 0 then 0x2D # decimal_nat (nat (- n)) else decimal_nat (nat n))"

section \<open>Dictionaries\<close>

definition nspawn_dict_create :: pp_var where
  "nspawn_dict_create = PP_Dict []"

definition nspawn_dict_has_key :: "pp_var \<Rightarrow> cstring \<Rightarrow> pp_var option" where
  "nspawn_dict_has_key d k = map_of (entries_of d) k"

definition nspawn_dict_get :: "pp_var \<Rightarrow> cstring \<Rightarrow> pp_var" where
  "nspawn_dict_get d k = (case map_of (entries_of d) k of None \<Rightarrow> PP_Undefined | Some v \<Rightarrow> v)"

definition nspawn_dict_set :: "pp_var \<Rightarrow> cstring \<Rightarrow> pp_var \<Rightarrow> pp_var" where
  "nspawn_dict_set d k v = (case d of PP_Dict es \<Rightarrow> PP_Dict (entry_set k v es) | _ \<Rightarrow> d)"

definition nspawn_dict_setstring :: "pp_var \<Rightarrow> cstring \<Rightarrow> cstring \<Rightarrow> pp_var" where
  "nspawn_dict_setstring d k s = nspawn_dict_set d k (PP_String s)"

definition nspawn_dict_setint :: "pp_var \<Rightarrow> cstring \<Rightarrow> int \<Rightarrow> pp_var" where
  "nspawn_dict_setint d k n = nspawn_dict_set d k (PP_Int32 n)"

text \<open>The result and what is left in \<open>errno\<close> when it is set.\<close>

definition nspawn_dict_getint :: "pp_var \<Rightarrow> cstring \<Rightarrow> (int \<times> int option) cres" where
  "nspawn_dict_getint d k =
     (case nspawn_dict_has_key d k of
        None \<Rightarrow> Inr (- 1, None)
      | Some (PP_Int32 n) \<Rightarrow> if n < 0 then Inr (- 1, Some (- n)) else Inr (n, None)
      | Some _ \<Rightarrow> Inl Abort)"

text \<open>The -1 for a missing key becomes \<open>true\<close> in a function of type \<open>bool\<close>.\<close>

definition nspawn_dict_getbool :: "pp_var \<Rightarrow> cstring \<Rightarrow> bool cres" where
  "nspawn_dict_getbool d k =
     (case nspawn_dict_has_key d k of
        None \<Rightarrow> Inr True
      | Some (PP_Bool b) \<Rightarrow> Inr b
      | Some _ \<Rightarrow> Inl Abort)"

section \<open>Arrays\<close>

definition nspawn_array_create :: pp_var where
  "nspawn_array_create = PP_Array []"

text \<open>The loop of \<open>nspawn_array_insert\<close>, from \<open>i\<close> down to \<open>index\<close>.\<close>

fun shift_up :: "nat \<Rightarrow> nat \<Rightarrow> pp_var list \<Rightarrow> pp_var list" where
  "shift_up index 0 vs = vs"
| "shift_up index (Suc i) vs = (if Suc i > index then shift_up index i (Set vs (Suc i) (Get vs i)) else vs)"

definition nspawn_array_insert :: "pp_var list \<Rightarrow> nat \<Rightarrow> pp_var \<Rightarrow> pp_var list" where
  "nspawn_array_insert vs index v =
     (let old_length = length vs in
      Set (shift_up index old_length (SetLength vs (old_length + 1))) index v)"

definition nspawn_array_setstring :: "pp_var list \<Rightarrow> nat \<Rightarrow> cstring \<Rightarrow> pp_var list" where
  "nspawn_array_setstring vs index s = Set vs index (PP_String s)"

definition nspawn_array_insertstring :: "pp_var list \<Rightarrow> nat \<Rightarrow> cstring \<Rightarrow> pp_var list" where
  "nspawn_array_insertstring vs index s = nspawn_array_insert vs index (PP_String s)"

definition nspawn_array_appendstring :: "pp_var list \<Rightarrow> cstring \<Rightarrow> pp_var list" where
  "nspawn_array_appendstring vs s = nspawn_array_setstring vs (length vs) s"

section \<open>What they do\<close>

lemma entry_set_same [simp]: "map_of (entry_set k v es) k = Some v"
  by (induction es) auto

lemma entry_set_other [simp]: "k' \<noteq> k \<Longrightarrow> map_of (entry_set k v es) k' = map_of es k'"
  by (induction es) auto

fun is_dict :: "pp_var \<Rightarrow> bool" where
  "is_dict (PP_Dict es) = True"
| "is_dict v = False"

lemma is_dict_create [simp]: "is_dict nspawn_dict_create"
  by (simp add: nspawn_dict_create_def)

lemma is_dict_set [simp]: "is_dict d \<Longrightarrow> is_dict (nspawn_dict_set d k v)"
  by (cases d) (auto simp: nspawn_dict_set_def)

lemma dict_get_set [simp]:
  "is_dict d \<Longrightarrow> nspawn_dict_get (nspawn_dict_set d k v) k = v"
  "is_dict d \<Longrightarrow> k' \<noteq> k \<Longrightarrow> nspawn_dict_get (nspawn_dict_set d k v) k' = nspawn_dict_get d k'"
  by (cases d; simp add: nspawn_dict_get_def nspawn_dict_set_def)+

lemma Set_inside [simp]: "i < length vs \<Longrightarrow> Set vs i v = vs[i := v]"
  by (simp add: Set_def SetLength_def)

lemma Set_end: "Set vs (length vs) v = vs @ [v]"
  by (simp add: Set_def SetLength_def list_update_append)

lemma SetLength_Suc: "SetLength vs (length vs + 1) = vs @ [PP_Undefined]"
  by (simp add: SetLength_def)

lemma length_shift_up [simp]: "i < length vs \<Longrightarrow> length (shift_up index i vs) = length vs"
  by (induction index i vs rule: shift_up.induct) auto

lemma shift_up_nth:
  "i < length vs \<Longrightarrow> shift_up index i vs ! j = (if index < j \<and> j \<le> i then vs ! (j - 1) else vs ! j)"
proof (induction index i vs rule: shift_up.induct)
  case (2 index i vs)
  show ?case
  proof (cases "index < Suc i")
    case True
    with 2 have "shift_up index i (vs[Suc i := vs ! i]) ! j =
        (if index < j \<and> j \<le> i then vs[Suc i := vs ! i] ! (j - 1) else vs[Suc i := vs ! i] ! j)"
      by (simp add: Get_def)
    with 2(2) True show ?thesis by (cases "j = Suc i") (auto simp: Get_def nth_list_update)
  qed auto
qed simp

lemma array_insert:
  assumes "index \<le> length vs"
  shows "nspawn_array_insert vs index v = take index vs @ v # drop index vs"
proof (rule nth_equalityI)
  let ?w = "vs @ [PP_Undefined]"
  have *: "nspawn_array_insert vs index v = (shift_up index (length vs) ?w)[index := v]"
    using assms by (simp add: nspawn_array_insert_def SetLength_def)
  show "length (nspawn_array_insert vs index v) = length (take index vs @ v # drop index vs)"
    using assms by (simp add: *)
  fix j assume "j < length (nspawn_array_insert vs index v)"
  then have j: "j \<le> length vs" by (simp add: *)
  show "nspawn_array_insert vs index v ! j = (take index vs @ v # drop index vs) ! j"
    using assms j by (cases j index rule: linorder_cases)
      (auto simp: * shift_up_nth nth_append nth_Cons' algebra_simps)
qed

lemma array_appendstring: "nspawn_array_appendstring vs s = vs @ [PP_String s]"
  by (simp add: nspawn_array_appendstring_def nspawn_array_setstring_def Set_end)

end
