(* ===== verification/Spawn_Request.thy ===== *)
theory Spawn_Request
  imports Spawn_Vars
begin

text \<open>
  \<open>nspawn_send_request\<close> and \<open>handle_reply\<close> of \<open>nacl_pp_helpers.c\<close>: a thread posts a request to
  JavaScript and waits on a condition variable; the thread of the message handlers stores the reply
  and signals.  The steps of the two threads interleave; the reply \<open>v\<close> may come at any time after
  the request was posted.
\<close>

section \<open>The two threads\<close>

text \<open>
  Where the caller stands: before \<open>PostMessage\<close>, before \<open>pthread_mutex_lock\<close>, before
  \<open>pthread_cond_wait\<close>, blocked in it, woken but without the mutex, before
  \<open>pthread_mutex_unlock\<close>, before the objects on its stack are destroyed, returned with what
  \<open>result_var\<close> held (\<open>None\<close>: it was never set).
\<close>

datatype caller =
    Before_post | Before_lock | Before_wait | Blocked | Woken | Before_unlock | Before_return
  | Returned "pp_var option"

text \<open>
  Where the handler stands: not called, before locking, before storing the value, before the signal,
  before unlocking, done; \<open>Dangling\<close> when it was called with objects that are destroyed.
\<close>

datatype handler = Not_called | Handler_lock | Handler_store | Handler_signal | Handler_unlock | Handled | Dangling

datatype mutex_owner = Nobody | Caller | Handler

record request =
  caller :: caller
  handler :: handler
  mu :: mutex_owner
  result_var :: "pp_var option"

definition request_start :: request where
  "request_start = \<lparr>caller = Before_post, handler = Not_called, mu = Nobody, result_var = None\<rparr>"

text \<open>The steps; \<open>spurious\<close> says whether a wait may end without a signal, as POSIX allows.\<close>

inductive request_step :: "bool \<Rightarrow> pp_var \<Rightarrow> request \<Rightarrow> request \<Rightarrow> bool" for spurious v where
  post: "caller s = Before_post \<Longrightarrow> request_step spurious v s (s\<lparr>caller := Before_lock\<rparr>)"
| lock: "caller s = Before_lock \<Longrightarrow> mu s = Nobody \<Longrightarrow> request_step spurious v s (s\<lparr>caller := Before_wait, mu := Caller\<rparr>)"
| wait: "caller s = Before_wait \<Longrightarrow> request_step spurious v s (s\<lparr>caller := Blocked, mu := Nobody\<rparr>)"
| wake: "spurious \<Longrightarrow> caller s = Blocked \<Longrightarrow> request_step spurious v s (s\<lparr>caller := Woken\<rparr>)"
| relock: "caller s = Woken \<Longrightarrow> mu s = Nobody \<Longrightarrow> request_step spurious v s (s\<lparr>caller := Before_unlock, mu := Caller\<rparr>)"
| unlock: "caller s = Before_unlock \<Longrightarrow> request_step spurious v s (s\<lparr>caller := Before_return, mu := Nobody\<rparr>)"
| return: "caller s = Before_return \<Longrightarrow> request_step spurious v s (s\<lparr>caller := Returned (result_var s)\<rparr>)"
| call: "handler s = Not_called \<Longrightarrow> caller s \<noteq> Before_post \<Longrightarrow> \<not> (\<exists>r. caller s = Returned r) \<Longrightarrow>
    request_step spurious v s (s\<lparr>handler := Handler_lock\<rparr>)"
| handler_lock: "handler s = Handler_lock \<Longrightarrow> mu s = Nobody \<Longrightarrow> \<not> (\<exists>r. caller s = Returned r) \<Longrightarrow>
    request_step spurious v s (s\<lparr>handler := Handler_store, mu := Handler\<rparr>)"
| handler_dangling: "handler s = Handler_lock \<Longrightarrow> caller s = Returned r \<Longrightarrow> request_step spurious v s (s\<lparr>handler := Dangling\<rparr>)"
| handler_store: "handler s = Handler_store \<Longrightarrow> request_step spurious v s (s\<lparr>handler := Handler_signal, result_var := Some v\<rparr>)"
| handler_signal: "handler s = Handler_signal \<Longrightarrow>
    request_step spurious v s (s\<lparr>handler := Handler_unlock, caller := if caller s = Blocked then Woken else caller s\<rparr>)"
| handler_unlock: "handler s = Handler_unlock \<Longrightarrow> request_step spurious v s (s\<lparr>handler := Handled, mu := Nobody\<rparr>)"

definition reachable :: "bool \<Rightarrow> pp_var \<Rightarrow> request \<Rightarrow> bool" where
  "reachable spurious v s \<longleftrightarrow> (request_step spurious v)\<^sup>*\<^sup>* request_start s"

inductive_cases stepE: "request_step spurious v s s'"

section \<open>Without spurious wakeups\<close>

text \<open>The two ends of a request.\<close>

definition request_answered :: "pp_var \<Rightarrow> request" where
  "request_answered v = \<lparr>caller = Returned (Some v), handler = Handled, mu = Nobody, result_var = Some v\<rparr>"

definition wakeup_lost :: "pp_var \<Rightarrow> request" where
  "wakeup_lost v = \<lparr>caller = Blocked, handler = Handled, mu = Nobody, result_var = Some v\<rparr>"

definition locked_right :: "request \<Rightarrow> bool" where
  "locked_right s \<longleftrightarrow>
     (mu s = Caller \<longleftrightarrow> caller s \<in> {Before_wait, Before_unlock}) \<and>
     (mu s = Handler \<longleftrightarrow> handler s \<in> {Handler_store, Handler_signal, Handler_unlock})"

definition request_inv :: "pp_var \<Rightarrow> request \<Rightarrow> bool" where
  "request_inv v s \<longleftrightarrow>
     locked_right s \<and> handler s \<noteq> Dangling \<and>
     result_var s = (if handler s \<in> {Handler_signal, Handler_unlock, Handled} then Some v else None) \<and>
     (caller s = Before_post \<longrightarrow> handler s = Not_called) \<and>
     (caller s = Woken \<longrightarrow> handler s \<in> {Handler_unlock, Handled}) \<and>
     (caller s \<in> {Before_unlock, Before_return} \<longrightarrow> handler s = Handled) \<and>
     (\<forall>r. caller s = Returned r \<longrightarrow> r = Some v \<and> handler s = Handled)"

lemma locked_right_start: "locked_right request_start"
  by (simp add: locked_right_def request_start_def)

lemma step_locked_right: "request_step spurious v s s' \<Longrightarrow> locked_right s \<Longrightarrow> locked_right s'"
  by (erule stepE) (auto simp: locked_right_def)

lemma request_inv_start: "request_inv v request_start"
  by (simp add: request_inv_def locked_right_start) (simp add: request_start_def)

lemma step_request_inv:
  assumes "request_step False v s s'" "request_inv v s"
  shows "request_inv v s'"
proof -
  have "locked_right s'" using assms step_locked_right by (auto simp: request_inv_def)
  with assms show ?thesis
    by (elim stepE) (auto simp: request_inv_def locked_right_def)
qed

lemma reachable_inv: "reachable False v s \<Longrightarrow> request_inv v s"
  unfolding reachable_def by (induction rule: rtranclp_induct) (auto intro: request_inv_start step_request_inv)

text \<open>Each thread can go on unless it has ended or waits for the other.\<close>

lemma stuck_ends:
  assumes "request_inv v s" "\<And>s'. \<not> request_step False v s s'"
  shows "s = request_answered v \<or> s = wakeup_lost v"
proof -
  have c: "caller s = Blocked \<or> (\<exists>r. caller s = Returned r) \<or> (caller s \<in> {Before_lock, Woken} \<and> mu s \<noteq> Nobody)"
    using assms(2) by (cases "caller s") (auto intro: request_step.intros)
  have h: "handler s = Handled \<or> handler s = Handler_lock \<and> mu s \<noteq> Nobody"
  proof (cases "handler s")
    case Not_called
    have "request_step False v s (s\<lparr>handler := Handler_lock\<rparr>)"
      by (rule request_step.call) (use Not_called assms(1) c in \<open>auto simp: request_inv_def\<close>)
    with assms(2) show ?thesis by blast
  next
    case Handler_lock
    with assms show ?thesis by (auto simp: request_inv_def intro: request_step.intros)
  qed (use assms in \<open>auto simp: request_inv_def intro: request_step.intros\<close>)
  from c h assms(1) show ?thesis
    by (cases s; cases "mu s") (auto simp: request_inv_def locked_right_def request_answered_def wakeup_lost_def)
qed

lemma answered_stuck: "\<not> request_step False v (request_answered v) s'"
  by (auto simp: request_answered_def elim!: stepE)

lemma wakeup_lost_stuck: "\<not> request_step False v (wakeup_lost v) s'"
  by (auto simp: wakeup_lost_def elim!: stepE)

lemma reachable_start: "reachable spurious v request_start"
  by (simp add: reachable_def)

lemma reachable_step: "reachable spurious v s \<Longrightarrow> request_step spurious v s t \<Longrightarrow> t = s' \<Longrightarrow> reachable spurious v s'"
  by (auto simp: reachable_def)

abbreviation at :: "caller \<Rightarrow> handler \<Rightarrow> mutex_owner \<Rightarrow> pp_var option \<Rightarrow> request" where
  "at c h m r \<equiv> \<lparr>caller = c, handler = h, mu = m, result_var = r\<rparr>"

lemma posted: "reachable spurious v (at Before_lock Not_called Nobody None)"
  by (rule reachable_step [OF reachable_start request_step.post]) (simp_all add: request_start_def)

lemma blocked: "reachable spurious v (at Blocked Not_called Nobody None)"
  by (rule reachable_step [OF reachable_step [OF posted request_step.lock refl] request_step.wait]) simp_all

text \<open>The handler runs as a whole while the caller has not locked yet, or is blocked.\<close>

lemma handled:
  assumes "reachable spurious v (at c Not_called Nobody None)" "c \<in> {Before_lock, Blocked}"
  shows "reachable spurious v (at (if c = Blocked then Woken else c) Handled Nobody (Some v))"
proof -
  have "reachable spurious v (at c Handler_lock Nobody None)"
    by (rule reachable_step [OF assms(1) request_step.call]) (use assms(2) in auto)
  from this have "reachable spurious v (at c Handler_store Handler None)"
    by (rule reachable_step [OF _ request_step.handler_lock]) (use assms(2) in auto)
  from this have "reachable spurious v (at c Handler_signal Handler (Some v))"
    by (rule reachable_step [OF _ request_step.handler_store]) simp_all
  from this have "reachable spurious v (at (if c = Blocked then Woken else c) Handler_unlock Handler (Some v))"
    by (rule reachable_step [OF _ request_step.handler_signal]) simp_all
  from this show ?thesis
    by (rule reachable_step [OF _ request_step.handler_unlock]) simp_all
qed

lemma reachable_lost: "reachable spurious v (wakeup_lost v)"
proof -
  have "reachable spurious v (at Before_lock Handled Nobody (Some v))"
    using handled [OF posted] by simp
  from this have "reachable spurious v (at Before_wait Handled Caller (Some v))"
    by (rule reachable_step [OF _ request_step.lock]) simp_all
  from this show ?thesis
    by (rule reachable_step [OF _ request_step.wait]) (simp_all add: wakeup_lost_def)
qed

lemma reachable_answered: "reachable spurious v (request_answered v)"
proof -
  have "reachable spurious v (at Woken Handled Nobody (Some v))"
    using handled [OF blocked] by simp
  from this have "reachable spurious v (at Before_unlock Handled Caller (Some v))"
    by (rule reachable_step [OF _ request_step.relock]) simp_all
  from this have "reachable spurious v (at Before_return Handled Nobody (Some v))"
    by (rule reachable_step [OF _ request_step.unlock]) simp_all
  from this show ?thesis
    by (rule reachable_step [OF _ request_step.return]) (simp_all add: request_answered_def)
qed

text \<open>C33: Without spurious wakeups a request to JavaScript can end in exactly two ways: the caller
  has returned with the reply, or the reply is stored and the caller is blocked for ever because
  the handler signalled before it waited; both happen.\<close>

theorem request_ends:
  "(reachable False v s \<and> (\<forall>s'. \<not> request_step False v s s')) = (s \<in> {request_answered v, wakeup_lost v})"
  using stuck_ends [OF reachable_inv] reachable_lost reachable_answered answered_stuck wakeup_lost_stuck by blast

section \<open>Bounds\<close>

fun caller_rank :: "caller \<Rightarrow> nat" where
  "caller_rank Before_post = 7"
| "caller_rank Before_lock = 6"
| "caller_rank Before_wait = 5"
| "caller_rank Blocked = 4"
| "caller_rank Woken = 3"
| "caller_rank Before_unlock = 2"
| "caller_rank Before_return = 1"
| "caller_rank (Returned r) = 0"

fun handler_rank :: "handler \<Rightarrow> nat" where
  "handler_rank Not_called = 5"
| "handler_rank Handler_lock = 4"
| "handler_rank Handler_store = 3"
| "handler_rank Handler_signal = 2"
| "handler_rank Handler_unlock = 1"
| "handler_rank Handled = 0"
| "handler_rank Dangling = 0"

lemma step_rank:
  "request_step spurious v s s' \<Longrightarrow>
     caller_rank (caller s') + handler_rank (handler s') < caller_rank (caller s) + handler_rank (handler s)"
  by (erule stepE) auto

lemma run_bounded: "(request_step spurious v ^^ n) request_start s \<Longrightarrow> n + caller_rank (caller s) + handler_rank (handler s) \<le> 12"
proof (induction n arbitrary: s)
  case (Suc n)
  then obtain t where "(request_step spurious v ^^ n) request_start t" "request_step spurious v t s" by auto
  with Suc.IH [of t] step_rank [of spurious v t s] show ?case by simp
qed (simp add: request_start_def)

section \<open>With spurious wakeups\<close>

lemma woken_early:
  assumes "reachable True v (at Blocked h Nobody None)"
  shows "reachable True v (at (Returned None) h Nobody None)"
proof -
  from assms have "reachable True v (at Woken h Nobody None)"
    by (rule reachable_step [OF _ request_step.wake]) simp_all
  from this have "reachable True v (at Before_unlock h Caller None)"
    by (rule reachable_step [OF _ request_step.relock]) simp_all
  from this have "reachable True v (at Before_return h Nobody None)"
    by (rule reachable_step [OF _ request_step.unlock]) simp_all
  from this show ?thesis
    by (rule reachable_step [OF _ request_step.return]) simp_all
qed

text \<open>When a wait may end without a signal, the caller can return an uninitialised result before
  any reply has come, and the handler can then be left with objects that no longer exist.\<close>

theorem spurious_wakeup:
  "reachable True v (at (Returned None) Not_called Nobody None) \<and>
   reachable True v (at (Returned None) Dangling Nobody None)"
proof
  show "reachable True v (at (Returned None) Not_called Nobody None)"
    by (rule woken_early [OF blocked])
  have "reachable True v (at Blocked Handler_lock Nobody None)"
    by (rule reachable_step [OF blocked request_step.call]) simp_all
  from woken_early [OF this] show "reachable True v (at (Returned None) Dangling Nobody None)"
    by (rule reachable_step [OF _ request_step.handler_dangling]) simp_all
qed

section \<open>The function\<close>

text \<open>
  The statics of the process.  \<open>js\<close> gives the reply to a request; requests differ in their
  numbers, so this can be any behaviour.  The exchange is one that ends with \<open>request_answered\<close>.
\<close>

record proc =
  checked_for_nacl_process :: bool
  req_id :: int

definition nspawn_send_request :: "(pp_var \<Rightarrow> pp_var) \<Rightarrow> bool \<Rightarrow> pp_var \<Rightarrow> proc \<Rightarrow> pp_var \<times> proc" where
  "nspawn_send_request js naclprocess req p =
     (if \<not> checked_for_nacl_process p \<and> \<not> naclprocess then (PP_Null, p)
      else
        let n = req_id p + 1 in
        (js (nspawn_dict_setstring req (ascii ''id'') (decimal n)), p\<lparr>checked_for_nacl_process := True, req_id := n\<rparr>))"

end
