(* ===== verification/Spawn_Elf.thy ===== *)
theory Spawn_Elf
  imports Prelude
begin

text \<open>
  \<open>elf_reader.cc\<close>: the program headers, the dynamic section and the needed libraries of an ELF file.
  A file is its bytes; a position is an index into them.  Memory for the string table can be had.
\<close>

unbundle bit_operations_syntax

section \<open>Reading the file\<close>

text \<open>A little-endian number of \<open>n\<close> bytes at \<open>off\<close>.\<close>

fun le_nat :: "u8 list \<Rightarrow> nat" where
  "le_nat [] = 0"
| "le_nat (b # bs) = unat b + 256 * le_nat bs"

definition le :: "u8 list \<Rightarrow> nat \<Rightarrow> nat \<Rightarrow> 'a::len word" where
  "le bs off n = of_nat (le_nat (take n (drop off bs)))"

text \<open>\<open>fread\<close> of one object of \<open>n\<close> bytes, and \<open>fseek\<close> with its argument of type \<open>long\<close>.\<close>

definition fread :: "u8 list \<Rightarrow> nat \<Rightarrow> nat \<Rightarrow> (u8 list \<times> nat) option" where
  "fread f pos n = (if n = 0 \<or> pos + n \<le> length f then Some (take n (drop pos f), pos + n) else None)"

definition fseek :: "64 word \<Rightarrow> nat option" where
  "fseek off = (let l = sint (ucast off :: u32) in if l < 0 then None else Some (nat l))"

section \<open>Headers\<close>

datatype elf_class = Class32 | Class64

record phdr =
  p_type :: u32
  p_offset :: "64 word"
  p_vaddr :: "64 word"
  p_paddr :: "64 word"
  p_filesz :: "64 word"
  p_memsz :: "64 word"
  p_flags :: u32
  p_align :: "64 word"

definition PT_LOAD :: u32 where "PT_LOAD = 1"
definition PT_DYNAMIC :: u32 where "PT_DYNAMIC = 2"

definition elf_magic :: "u8 list" where "elf_magic = [0x7F, 0x45, 0x4C, 0x46]"

definition phdr_size :: "elf_class \<Rightarrow> nat" where
  "phdr_size c = (case c of Class32 \<Rightarrow> 32 | Class64 \<Rightarrow> 56)"

definition phdr_of :: "elf_class \<Rightarrow> u8 list \<Rightarrow> phdr" where
  "phdr_of c b =
     (case c of
        Class32 \<Rightarrow>
          \<lparr>p_type = le b 0 4, p_offset = le b 4 4, p_vaddr = le b 8 4, p_paddr = le b 12 4, p_filesz = le b 16 4,
           p_memsz = le b 20 4, p_flags = le b 24 4, p_align = le b 28 4\<rparr>
      | Class64 \<Rightarrow>
          \<lparr>p_type = le b 0 4, p_offset = le b 8 8, p_vaddr = le b 16 8, p_paddr = le b 24 8, p_filesz = le b 32 8,
           p_memsz = le b 40 8, p_flags = le b 4 4, p_align = le b 48 8\<rparr>)"

fun read_phdrs :: "elf_class \<Rightarrow> nat \<Rightarrow> u8 list \<Rightarrow> nat \<Rightarrow> phdr list option" where
  "read_phdrs c 0 f pos = Some []"
| "read_phdrs c (Suc n) f pos =
     (case fread f pos (phdr_size c) of
        None \<Rightarrow> None
      | Some (b, pos) \<Rightarrow> map_option ((#) (phdr_of c b)) (read_phdrs c n f pos))"

definition class_of :: "u8 \<Rightarrow> elf_class option" where
  "class_of b = (if b = 1 then Some Class32 else if b = 2 then Some Class64 else None)"

text \<open>The class, the machine and the program headers.\<close>

definition ReadHeaders :: "u8 list \<Rightarrow> (elf_class \<times> u16 \<times> phdr list) option" where
  "ReadHeaders f =
     (case fread f 0 52 of None \<Rightarrow> None | Some (h32, _) \<Rightarrow>
      (if take 4 h32 \<noteq> elf_magic then None
       else
         (case class_of (h32 ! 4) of None \<Rightarrow> None | Some c \<Rightarrow>
         (case (if c = Class64 then fread f 0 64 else Some (h32, 52)) of None \<Rightarrow> None | Some (h, _) \<Rightarrow>
            let machine = le h 18 2;
                off = (if c = Class32 then le h 28 4 else le h 32 8);
                phnum = unat (if c = Class32 then le h 44 2 else le h 56 2 :: u16) in
            (case fseek off of None \<Rightarrow> None | Some pos \<Rightarrow>
               map_option (\<lambda>ps. (c, machine, ps)) (read_phdrs c phnum f pos))))))"

section \<open>The dynamic section\<close>

record dynamic =
  straddr :: "64 word"
  strsize :: u32
  needed_offs :: "int list"

definition DT_NULL :: "64 word" where "DT_NULL = 0"
definition DT_NEEDED :: "64 word" where "DT_NEEDED = 1"
definition DT_STRTAB :: "64 word" where "DT_STRTAB = 5"
definition DT_STRSZ :: "64 word" where "DT_STRSZ = 10"

definition dyn_size :: "elf_class \<Rightarrow> nat" where
  "dyn_size c = (case c of Class32 \<Rightarrow> 8 | Class64 \<Rightarrow> 16)"

lemma dyn_size_pos [simp]: "0 < dyn_size c"
  by (cases c) (simp_all add: dyn_size_def)

text \<open>The tag, which is signed, and the value of an entry.\<close>

definition dyn_tag :: "elf_class \<Rightarrow> u8 list \<Rightarrow> 64 word" where
  "dyn_tag c b = (case c of Class32 \<Rightarrow> scast (le b 0 4 :: u32) | Class64 \<Rightarrow> le b 0 8)"

definition dyn_val :: "elf_class \<Rightarrow> u8 list \<Rightarrow> 64 word" where
  "dyn_val c b = (case c of Class32 \<Rightarrow> le b 4 4 | Class64 \<Rightarrow> le b 8 8)"

definition dyn_entry :: "64 word \<Rightarrow> 64 word \<Rightarrow> dynamic \<Rightarrow> dynamic" where
  "dyn_entry t v d =
     (if t = DT_STRTAB then d\<lparr>straddr := v\<rparr>
      else if t = DT_STRSZ then d\<lparr>strsize := ucast v\<rparr>
      else if t = DT_NEEDED then d\<lparr>needed_offs := needed_offs d @ [sint (ucast v :: u32)]\<rparr>
      else d)"

function read_dyn :: "elf_class \<Rightarrow> u8 list \<Rightarrow> nat \<Rightarrow> dynamic \<Rightarrow> dynamic option" where
  "read_dyn c f pos d =
     (if pos + dyn_size c \<le> length f then
        (let b = take (dyn_size c) (drop pos f) in
         if dyn_tag c b = DT_NULL then Some d
         else read_dyn c f (pos + dyn_size c) (dyn_entry (dyn_tag c b) (dyn_val c b) d))
      else None)"
  by pat_completeness auto
termination
  by (relation "measure (\<lambda>(c, f, pos, d). length f - pos)")
    (auto simp: algebra_simps intro!: diff_less_mono2 dest: less_le_trans [OF add_strict_left_mono [OF dyn_size_pos]])

declare read_dyn.simps [simp del]

text \<open>All segments of type \<open>PT_DYNAMIC\<close>; \<open>found\<close> is \<open>dynamic_found\<close>.\<close>

fun read_segments :: "elf_class \<Rightarrow> u8 list \<Rightarrow> phdr list \<Rightarrow> bool \<Rightarrow> dynamic \<Rightarrow> (bool \<times> dynamic) option" where
  "read_segments c f [] found d = Some (found, d)"
| "read_segments c f (p # ps) found d =
     (if p_type p \<noteq> PT_DYNAMIC then read_segments c f ps found d
      else if p_filesz p = 0 then None
      else
        (case fseek (p_offset p) of None \<Rightarrow> None | Some pos \<Rightarrow>
        (case read_dyn c f pos d of None \<Rightarrow> None | Some d \<Rightarrow> read_segments c f ps True d)))"

text \<open>The tests of \<open>strsize\<close> and \<open>straddr\<close> at the end are on the pointers, which are never null.\<close>

datatype dyn_result = Dyn_invalid | Dyn_static | Dyn_read dynamic

definition ReadDynamic :: "elf_class \<Rightarrow> u8 list \<Rightarrow> phdr list \<Rightarrow> dyn_result" where
  "ReadDynamic c f ps =
     (case read_segments c f ps False \<lparr>straddr = 0, strsize = 0, needed_offs = []\<rparr> of
        None \<Rightarrow> Dyn_invalid
      | Some (found, d) \<Rightarrow> if \<not> found then Dyn_static else Dyn_read d)"

section \<open>The string table\<close>

fun str_offset :: "64 word \<Rightarrow> phdr list \<Rightarrow> 64 word" where
  "str_offset a [] = 0"
| "str_offset a (p # ps) =
     (if p_type p = PT_LOAD \<and> p_vaddr p \<le> a \<and> a < p_vaddr p + p_filesz p
      then a - p_vaddr p + p_offset p else str_offset a ps)"

definition ReadStrtab :: "u8 list \<Rightarrow> phdr list \<Rightarrow> dynamic \<Rightarrow> u8 list option" where
  "ReadStrtab f ps d =
     (let stroff = str_offset (straddr d) ps in
      if stroff = 0 then None
      else
        (case fseek stroff of
           None \<Rightarrow> None
         | Some pos \<Rightarrow> map_option fst (fread f pos (unat (strsize d)))))"

text \<open>\<open>strtab.data () + n\<close> as a C string; the table is followed by a NUL of its own.\<close>

definition string_at :: "u8 list \<Rightarrow> int \<Rightarrow> cstring cres" where
  "string_at strtab n =
     (if n < 0 \<or> int (length strtab) < n then Inl Fault
      else Inr (takeWhile (\<lambda>c. c \<noteq> 0) (drop (nat n) strtab)))"

fun strings_at :: "u8 list \<Rightarrow> int list \<Rightarrow> cstring list cres" where
  "strings_at strtab [] = Inr []"
| "strings_at strtab (n # ns) =
     and_then (string_at strtab n) (\<lambda>s. and_then (strings_at strtab ns) (\<lambda>ss. Inr (s # ss)))"

section \<open>The constructor\<close>

record elf =
  is_valid :: bool
  is_static :: bool
  machine :: "u16 option"
  neededs :: "cstring list"

definition invalid_elf :: "u16 option \<Rightarrow> elf" where
  "invalid_elf m = \<lparr>is_valid = False, is_static = False, machine = m, neededs = []\<rparr>"

definition ElfReader :: "u8 list option \<Rightarrow> elf cres" where
  "ElfReader file =
     (case file of None \<Rightarrow> Inr (invalid_elf None) | Some f \<Rightarrow>
     (case ReadHeaders f of None \<Rightarrow> Inr (invalid_elf None) | Some (c, m, ps) \<Rightarrow>
     (case ReadDynamic c f ps of
        Dyn_invalid \<Rightarrow> Inr (invalid_elf (Some m))
      | Dyn_static \<Rightarrow> Inr \<lparr>is_valid = True, is_static = True, machine = Some m, neededs = []\<rparr>
      | Dyn_read d \<Rightarrow>
          (case ReadStrtab f ps d of
             None \<Rightarrow> Inr (invalid_elf (Some m))
           | Some strtab \<Rightarrow>
               and_then (strings_at strtab (needed_offs d)) (\<lambda>ss.
                 Inr \<lparr>is_valid = True, is_static = False, machine = Some m, neededs = ss\<rparr>)))))"

end
