(* ===== verification/Spawn_Paths.thy ===== *)
theory Spawn_Paths
  imports Prelude
begin

text \<open>
  \<open>path_util.cc\<close> of nacl-spawn: splitting a list of directories and looking for a file in them.
  \<open>access (path, R_OK) == 0\<close> is a parameter of the search.
\<close>

section \<open>The functions\<close>

abbreviation colon :: u8 where "colon \<equiv> 0x3A"
abbreviation slash :: u8 where "slash \<equiv> 0x2F"
abbreviation dot :: u8 where "dot \<equiv> 0x2E"

text \<open>The loop of \<open>nspawn_get_paths\<close>: \<open>cur\<close> are the bytes from \<open>env\<close> to \<open>p\<close>.\<close>

fun get_paths_loop :: "cstring \<Rightarrow> cstring \<Rightarrow> cstring list" where
  "get_paths_loop cur [] = [cur]"
| "get_paths_loop cur (c # p) =
     (if c = colon then (if cur = [] then [dot] else cur) # get_paths_loop [] p
      else get_paths_loop (cur @ [c]) p)"

definition nspawn_get_paths :: "cstring option \<Rightarrow> cstring list" where
  "nspawn_get_paths env =
     (case env of None \<Rightarrow> [] | Some s \<Rightarrow> if s = [] then [] else get_paths_loop [] s)"

fun nspawn_find_in_paths :: "(cstring \<Rightarrow> bool) \<Rightarrow> cstring \<Rightarrow> cstring list \<Rightarrow> cstring option" where
  "nspawn_find_in_paths readable basename [] = None"
| "nspawn_find_in_paths readable basename (p # paths) =
     (let path = p @ slash # basename in
      if readable path then Some path else nspawn_find_in_paths readable basename paths)"

section \<open>Splitting\<close>

fun join_colon :: "cstring list \<Rightarrow> cstring" where
  "join_colon [] = []"
| "join_colon [d] = d"
| "join_colon (d # d' # ds) = d @ colon # join_colon (d' # ds)"

definition or_dot :: "cstring \<Rightarrow> cstring" where
  "or_dot d = (if d = [] then [dot] else d)"

lemma get_paths_loop_plain: "colon \<notin> set d \<Longrightarrow> get_paths_loop cur (d @ s) = get_paths_loop (cur @ d) s"
  by (induction d arbitrary: cur) auto

lemma get_paths_loop_join:
  "ds \<noteq> [] \<Longrightarrow> \<forall>d \<in> set ds. colon \<notin> set d \<Longrightarrow> get_paths_loop [] (join_colon ds) = map or_dot (butlast ds) @ [last ds]"
proof (induction ds rule: join_colon.induct)
  case (2 d)
  then show ?case using get_paths_loop_plain [of d "[]" "[]"] by simp
next
  case (3 d d' ds)
  then show ?case using get_paths_loop_plain [of d "[]" "colon # join_colon (d' # ds)"]
    by (simp add: or_dot_def)
qed simp

lemma get_paths_join:
  assumes "\<forall>d \<in> set ds. colon \<notin> set d" "join_colon ds \<noteq> []"
  shows "nspawn_get_paths (Some (join_colon ds)) = map or_dot (butlast ds) @ [last ds]"
proof -
  have "ds \<noteq> []" using assms(2) by auto
  then show ?thesis using assms get_paths_loop_join [of ds] by (simp add: nspawn_get_paths_def)
qed

text \<open>
  An empty entry at the end is not the current directory, as it is elsewhere: it is kept empty, and
  a file is looked for in the root.
\<close>

lemma trailing_colon_is_root:
  assumes "colon \<notin> set d" "d \<noteq> []"
  shows "nspawn_get_paths (Some (d @ [colon])) = [d, []]"
    and "\<not> readable (d @ slash # f) \<Longrightarrow> readable (slash # f) \<Longrightarrow>
      nspawn_find_in_paths readable f (nspawn_get_paths (Some (d @ [colon]))) = Some (slash # f)"
proof -
  show *: "nspawn_get_paths (Some (d @ [colon])) = [d, []]"
    using get_paths_join [of "[d, []]"] assms by (simp add: or_dot_def)
  show "nspawn_find_in_paths readable f (nspawn_get_paths (Some (d @ [colon]))) = Some (slash # f)"
    if "\<not> readable (d @ slash # f)" "readable (slash # f)"
    using that by (simp add: *)
qed

section \<open>Finding\<close>

lemma find_in_paths_Some:
  "nspawn_find_in_paths readable f paths = Some p \<longleftrightarrow>
     (\<exists>l d r. paths = l @ d # r \<and> p = d @ slash # f \<and> readable p \<and> (\<forall>d' \<in> set l. \<not> readable (d' @ slash # f)))"
proof (induction paths)
  case (Cons d paths)
  show ?case
  proof (cases "readable (d @ slash # f)")
    case True
    have "l = [] \<and> d = d'" if "d # paths = l @ d' # r" "\<forall>x \<in> set l. \<not> readable (x @ slash # f)" for l d' r
      using that True by (cases l) auto
    with True show ?thesis by (auto simp: Let_def) fastforce+
  next
    case False
    have "(\<exists>l d' r. d # paths = l @ d' # r \<and> P d' \<and> (\<forall>x \<in> set l. Q x)) = (\<exists>l d' r. paths = l @ d' # r \<and> P d' \<and> (\<forall>x \<in> set l. Q x))"
      if "Q d" "\<not> P d" for P Q
    proof
      assume "\<exists>l d' r. d # paths = l @ d' # r \<and> P d' \<and> (\<forall>x \<in> set l. Q x)"
      then obtain l d' r where "d # paths = l @ d' # r" "P d'" "\<forall>x \<in> set l. Q x" by blast
      with that show "\<exists>l d' r. paths = l @ d' # r \<and> P d' \<and> (\<forall>x \<in> set l. Q x)" by (cases l) auto
    next
      assume "\<exists>l d' r. paths = l @ d' # r \<and> P d' \<and> (\<forall>x \<in> set l. Q x)"
      then obtain l d' r where "paths = l @ d' # r" "P d'" "\<forall>x \<in> set l. Q x" by blast
      with that show "\<exists>l d' r. d # paths = l @ d' # r \<and> P d' \<and> (\<forall>x \<in> set l. Q x)"
        by (intro exI [of _ "d # l"]) auto
    qed
    from this [of "\<lambda>x. \<not> readable (x @ slash # f)" "\<lambda>x. p = x @ slash # f \<and> readable p"] False Cons.IH
    show ?thesis by (auto simp: Let_def)
  qed
qed simp

lemma find_in_paths_readable: "nspawn_find_in_paths readable f paths = Some p \<Longrightarrow> readable p"
  by (auto simp: find_in_paths_Some)

lemma find_in_paths_None: "nspawn_find_in_paths readable f paths = None \<longleftrightarrow> (\<forall>d \<in> set paths. \<not> readable (d @ slash # f))"
  by (induction paths) (auto simp: Let_def)

end
