(* ===== verification/Spawn_Deps.thy ===== *)
theory Spawn_Deps
  imports Spawn_Elf Spawn_Paths "HOL-Library.List_Lexorder"
begin

text \<open>
  \<open>library_dependencies.cc\<close>: the architecture of a program and the shared objects that it needs.
  The bytes of the files that can be opened are \<open>fs\<close>, the paths that \<open>access\<close> accepts \<open>readable\<close>.
  The set of dependencies is its sorted list: the order of \<open>std::string\<close> is the one of the bytes.
\<close>

section \<open>The recursion\<close>

definition EM_386 :: u16 where "EM_386 = 3"
definition EM_ARM :: u16 where "EM_ARM = 40"
definition EM_X86_64 :: u16 where "EM_X86_64 = 62"

definition arch_of :: "u16 \<Rightarrow> cstring option" where
  "arch_of m =
     (if m = EM_X86_64 then Some (ascii ''x86-64'')
      else if m = EM_386 then Some (ascii ''x86-32'')
      else if m = EM_ARM then Some (ascii ''arm'') else None)"

definition loader :: "cstring \<Rightarrow> bool" where
  "loader name \<longleftrightarrow> name = ascii ''ld-nacl-x86-32.so.1'' \<or> name = ascii ''ld-nacl-x86-64.so.1''"

text \<open>
  The architecture (\<open>None\<close> for a call without \<open>arch\<close>) and the dependencies.  \<open>Diverges\<close> is the result
  of a recursion deeper than \<open>n\<close>.
\<close>

type_synonym found = "(cstring option \<times> cstring list) cres"

fun find_arch_and_library_deps ::
    "nat \<Rightarrow> (cstring \<Rightarrow> u8 list option) \<Rightarrow> (cstring \<Rightarrow> bool) \<Rightarrow> cstring list \<Rightarrow> bool \<Rightarrow> cstring \<Rightarrow> cstring list \<Rightarrow> found"
  and find_needed ::
    "nat \<Rightarrow> (cstring \<Rightarrow> u8 list option) \<Rightarrow> (cstring \<Rightarrow> bool) \<Rightarrow> cstring list \<Rightarrow> cstring list \<Rightarrow> cstring list \<Rightarrow> cstring list cres"
where
  "find_arch_and_library_deps 0 fs readable paths arch filename deps = Inl Diverges"
| "find_arch_and_library_deps (Suc n) fs readable paths arch filename deps =
     (if filename \<in> set deps then Inr (None, deps)
      else
        let deps = insort filename deps in
        and_then (ElfReader (fs filename)) (\<lambda>elf.
          if \<not> is_valid elf then Inl (Errno ENOEXEC)
          else
            (case Option.bind (machine elf) arch_of of
               None \<Rightarrow> Inl (Errno ENOEXEC)
             | Some a \<Rightarrow>
                 let a = (if arch then Some a else None) in
                 if is_static elf then
                   (if length deps = 1 then Inr (a, []) else Inl (Errno ENOEXEC))
                 else and_then (find_needed n fs readable paths (neededs elf) deps) (\<lambda>deps. Inr (a, deps)))))"
| "find_needed n fs readable paths [] deps = Inr deps"
| "find_needed n fs readable paths (needed_name # names) deps =
     (if loader needed_name then find_needed n fs readable paths names deps
      else
        (case nspawn_find_in_paths readable needed_name paths of
           None \<Rightarrow> Inl (Errno ENOENT)
         | Some needed_path \<Rightarrow>
             and_then (find_arch_and_library_deps n fs readable paths False needed_path deps) (\<lambda>(_, deps).
               find_needed n fs readable paths names deps)))"

section \<open>The interface\<close>

definition get_library_paths :: "cstring option \<Rightarrow> cstring list" where
  "get_library_paths path_env = nspawn_get_paths path_env @ [ascii ''/lib'', ascii ''/usr/lib'']"

definition push_found :: "(cstring \<Rightarrow> bool) \<Rightarrow> cstring list \<Rightarrow> cstring \<Rightarrow> cstring list \<Rightarrow> cstring list" where
  "push_found readable paths name deps =
     (case nspawn_find_in_paths readable name paths of None \<Rightarrow> deps | Some p \<Rightarrow> deps @ [p])"

text \<open>\<open>arm\<close> is \<open>defined(__arm__)\<close>; \<open>path_env\<close> is \<open>LD_LIBRARY_PATH\<close>.\<close>

definition nspawn_find_arch_and_library_deps ::
    "nat \<Rightarrow> bool \<Rightarrow> (cstring \<Rightarrow> u8 list option) \<Rightarrow> (cstring \<Rightarrow> bool) \<Rightarrow> cstring option \<Rightarrow> cstring \<Rightarrow> found" where
  "nspawn_find_arch_and_library_deps n arm fs readable path_env filename =
     (let paths = get_library_paths path_env in
      and_then (find_arch_and_library_deps n fs readable paths True filename []) (\<lambda>(arch, deps).
          Inr (arch,
            if deps = [] then []
            else if arm then
              push_found readable paths (ascii ''ld-nacl-arm.so.1'')
                (push_found readable paths (ascii ''elf_loader_arm.nexe'') deps)
            else push_found readable paths (ascii ''runnable-ld.so'') deps)))"

end
