(* ===== verification/Spawn_Exec.thy ===== *)
theory Spawn_Exec
  imports Spawn_Deps Spawn_Vars
begin

text \<open>
  \<open>nacl_spawn.cc\<close>, from the path of a program to the description of it in a request: scripts,
  built-in programs, and the files of a program with its libraries.  What the code asks the system
  for is the record \<open>host\<close>.  A function that gives \<open>false\<close> is \<open>Errno e\<close> with what it leaves in
  \<open>errno\<close>.  The arguments of a request are reached through a reference in the source; here the
  request is changed.
\<close>

record host =
  file_bytes :: "cstring \<Rightarrow> u8 list option"
  accessible :: "cstring \<Rightarrow> bool"
  cwd :: cstring
  path_env :: "cstring option"
  ld_library_path :: "cstring option"
  on_arm :: bool
  last_errno :: errno
  search_depth :: nat

text \<open>
  \<open>file_bytes\<close> can be opened and have these bytes, \<open>accessible\<close> is \<open>access\<close> with \<open>R_OK\<close>; \<open>last_errno\<close> is
  what \<open>errno\<close> holds when a call of \<open>open\<close> failed or nothing set it, and \<open>search_depth\<close> bounds the search
  for libraries.
\<close>

section \<open>Paths\<close>

definition c_str :: "cstring \<Rightarrow> cstring" where
  "c_str s = takeWhile (\<lambda>c. c \<noteq> 0) s"

definition GetAbsPath :: "host \<Rightarrow> cstring \<Rightarrow> cstring cres" where
  "GetAbsPath h path =
     (if path = [] then Inl Abort
      else Inr (if hd path = slash then path else cwd h @ slash # path))"

text \<open>The part after the last slash.\<close>

definition after_slash :: "cstring \<Rightarrow> cstring" where
  "after_slash path = rev (takeWhile (\<lambda>c. c \<noteq> slash) (rev path))"

text \<open>The function of \<open>libgen.h\<close>.\<close>

definition basename :: "cstring \<Rightarrow> cstring" where
  "basename path =
     (if path = [] then [dot]
      else
        let p = rev (dropWhile (\<lambda>c. c = slash) (rev path)) in
        if p = [] then [slash] else after_slash p)"

section \<open>The description of a program\<close>

definition AddFileToNmf :: "cstring \<Rightarrow> cstring \<Rightarrow> cstring \<Rightarrow> pp_var \<Rightarrow> pp_var" where
  "AddFileToNmf key arch filepath d =
     (let url_dict = nspawn_dict_setstring nspawn_dict_create (ascii ''url'') (c_str filepath);
          arch_dict = nspawn_dict_set nspawn_dict_create (c_str arch) url_dict in
      nspawn_dict_set d (c_str key) arch_dict)"

text \<open>One turn of the loop over the dependencies.\<close>

definition add_dependency ::
    "host \<Rightarrow> cstring \<Rightarrow> cstring \<Rightarrow> cstring \<Rightarrow> pp_var \<times> pp_var \<Rightarrow> (pp_var \<times> pp_var) cres" where
  "add_dependency h prog_base arch dep vars =
     and_then (GetAbsPath h dep) (\<lambda>abspath.
       let (nmf, fs) = vars;
           base = basename (c_str dep);
           base = (if prog_base = base then ascii ''main.nexe'' else base) in
       if base = ascii ''runnable-ld.so'' \<or> base = ascii ''elf_loader_arm.nexe''
       then Inr (AddFileToNmf (ascii ''program'') arch abspath nmf, fs)
       else Inr (nmf, AddFileToNmf base arch abspath fs))"

fun add_dependencies ::
    "host \<Rightarrow> cstring \<Rightarrow> cstring \<Rightarrow> cstring list \<Rightarrow> pp_var \<times> pp_var \<Rightarrow> (pp_var \<times> pp_var) cres" where
  "add_dependencies h prog_base arch [] vars = Inr vars"
| "add_dependencies h prog_base arch (dep # deps) vars =
     and_then (add_dependency h prog_base arch dep vars) (add_dependencies h prog_base arch deps)"

definition AddNmfToRequestForShared ::
    "host \<Rightarrow> cstring \<Rightarrow> cstring \<Rightarrow> cstring list \<Rightarrow> pp_var \<Rightarrow> pp_var cres" where
  "AddNmfToRequestForShared h prog arch dependencies req =
     and_then (add_dependencies h (basename (c_str prog)) arch dependencies (nspawn_dict_create, nspawn_dict_create))
       (\<lambda>(nmf, fs). Inr (nspawn_dict_set req (ascii ''nmf'') (nspawn_dict_set nmf (ascii ''files'') fs)))"

definition AddNmfToRequestForStatic :: "host \<Rightarrow> cstring \<Rightarrow> cstring \<Rightarrow> pp_var \<Rightarrow> pp_var cres" where
  "AddNmfToRequestForStatic h prog arch req =
     and_then (GetAbsPath h prog) (\<lambda>abspath.
       Inr (nspawn_dict_set req (ascii ''nmf'') (AddFileToNmf (ascii ''program'') arch abspath nspawn_dict_create)))"

definition AddNmfToRequestForPNaCl :: "host \<Rightarrow> cstring \<Rightarrow> pp_var \<Rightarrow> pp_var cres" where
  "AddNmfToRequestForPNaCl h prog req =
     and_then (GetAbsPath h prog) (\<lambda>abspath.
       let url_dict = nspawn_dict_setstring nspawn_dict_create (ascii ''url'') (c_str abspath);
           translate_dict = nspawn_dict_set nspawn_dict_create (ascii ''pnacl-translate'') url_dict;
           arch_dict = nspawn_dict_set nspawn_dict_create (ascii ''portable'') translate_dict;
           nmf = nspawn_dict_set nspawn_dict_create (ascii ''program'') arch_dict in
       Inr (nspawn_dict_set req (ascii ''nmf'') nmf))"

section \<open>Scripts\<close>

definition FindInterpreter :: "host \<Rightarrow> cstring \<Rightarrow> cstring" where
  "FindInterpreter h path =
     (if accessible h (c_str path) then path
      else if slash \<notin> set path then path
      else after_slash path)"

text \<open>A change of the array \<open>args\<close> of a request.\<close>

definition with_args :: "pp_var \<Rightarrow> (pp_var list \<Rightarrow> pp_var list) \<Rightarrow> pp_var cres" where
  "with_args req f =
     (case nspawn_dict_get req (ascii ''args'') of
        PP_Array vs \<Rightarrow> Inr (nspawn_dict_set req (ascii ''args'') (PP_Array (f vs)))
      | _ \<Rightarrow> Inl Abort)"

text \<open>
  The end of the line and the first space of it, from \<open>end\<close>.  The condition \<open>buffer - end < len\<close>
  always holds, so a byte after the \<open>len\<close> that were read is looked at when there is no end of line.
\<close>

function shebang_line :: "u8 list \<Rightarrow> nat \<Rightarrow> nat option \<Rightarrow> (nat option \<times> nat) cres" where
  "shebang_line buffer i split =
     (if length buffer \<le> i then Inl Fault
      else if buffer ! i = 0x0A \<or> buffer ! i = 0x0D then Inr (split, i)
      else shebang_line buffer (i + 1) (if buffer ! i = 0x20 \<and> split = None then Some i else split))"
  by pat_completeness auto
termination
  by (relation "measure (\<lambda>(buffer, i, split). length buffer - i)") auto

declare shebang_line.simps [simp del]

text \<open>\<open>None\<close> for a file that is no script, otherwise the interpreter and its argument.\<close>

definition shebang :: "u8 list \<Rightarrow> (cstring \<times> cstring option) option cres" where
  "shebang buffer =
     (if take 2 buffer \<noteq> ascii ''#!'' then Inr None
      else
        let start = 2 + length (takeWhile (\<lambda>c. c = 0x20) (drop 2 buffer)) in
        and_then (shebang_line buffer start None) (\<lambda>(split, stop).
          case split of
            Some sp \<Rightarrow> Inr (Some (take (sp - start) (drop start buffer), Some (take (stop - (sp + 1)) (drop (sp + 1) buffer))))
          | None \<Rightarrow> Inr (Some (take (stop - start) (drop start buffer), None))))"

definition ExpandShBang :: "host \<Rightarrow> cstring \<Rightarrow> pp_var \<Rightarrow> (cstring \<times> pp_var) cres" where
  "ExpandShBang h prog req =
     (case file_bytes h (c_str prog) of
        None \<Rightarrow> Inl (Errno (last_errno h))
      | Some content \<Rightarrow>
          let buffer = take 4096 content in
          if length buffer < 2 then Inl (Errno ENOEXEC)
          else
            and_then (shebang buffer) (\<lambda>line.
              case line of
                None \<Rightarrow> Inr (prog, req)
              | Some (interp, arg) \<Rightarrow>
                  let interpreter = FindInterpreter h interp in
                  and_then (with_args req (\<lambda>args.
                      let args = nspawn_array_setstring args 0 (c_str prog);
                          args = (case arg of None \<Rightarrow> args | Some a \<Rightarrow> nspawn_array_insertstring args 0 (c_str a)) in
                      nspawn_array_insertstring args 0 (c_str interpreter)))
                    (\<lambda>req. Inr (interpreter, req))))"

section \<open>The program\<close>

text \<open>Whether JavaScript has the program, the program, and the request.\<close>

definition UseBuiltInFallback :: "host \<Rightarrow> cstring \<Rightarrow> pp_var \<Rightarrow> (bool \<times> cstring \<times> pp_var) cres" where
  "UseBuiltInFallback h prog req =
     (if slash \<in> set prog then Inr (False, prog, req)
      else
        (case nspawn_find_in_paths (\<lambda>p. accessible h (c_str p)) prog (nspawn_get_paths (path_env h)) of
           None \<Rightarrow> Inr (True, prog, req)
         | Some path \<Rightarrow>
             and_then (with_args req (\<lambda>args. nspawn_array_setstring args 0 (c_str path))) (\<lambda>req.
               Inr (False, path, req))))"

definition CheckFileMagic :: "host \<Rightarrow> cstring \<Rightarrow> u8 list \<Rightarrow> bool" where
  "CheckFileMagic h filename magic =
     (case file_bytes h (c_str filename) of
        None \<Rightarrow> False
      | Some content \<Rightarrow> 4 \<le> length content \<and> take 4 content = magic)"

definition IsPNaClType :: "host \<Rightarrow> cstring \<Rightarrow> bool" where
  "IsPNaClType h filename = CheckFileMagic h filename (ascii ''PEXE'')"

definition IsBitcode :: "host \<Rightarrow> cstring \<Rightarrow> bool" where
  "IsBitcode h filename = CheckFileMagic h filename [0x42, 0x43, 0xC0, 0xDE]"

definition AddNmfToRequest :: "host \<Rightarrow> cstring \<Rightarrow> pp_var \<Rightarrow> pp_var cres" where
  "AddNmfToRequest h prog req =
     and_then (UseBuiltInFallback h prog req) (\<lambda>(builtin, prog, req).
     if builtin then Inr req
     else if \<not> accessible h (c_str prog) then Inl (Errno ENOENT)
     else
       and_then (ExpandShBang h prog req) (\<lambda>(prog, req).
       and_then (UseBuiltInFallback h prog req) (\<lambda>(builtin, prog, req).
       if builtin then Inr req
       else if IsPNaClType h prog then AddNmfToRequestForPNaCl h prog req
       else if IsBitcode h prog then Inl (Errno (last_errno h))
       else
         and_then (nspawn_find_arch_and_library_deps (search_depth h) (on_arm h) (\<lambda>p. file_bytes h (c_str p)) (\<lambda>p. accessible h (c_str p))
             (ld_library_path h) (c_str prog)) (\<lambda>(arch, dependencies).
           case arch of
             None \<Rightarrow> Inl Fault
           | Some arch \<Rightarrow>
               if dependencies \<noteq> [] then AddNmfToRequestForShared h prog arch dependencies req
               else AddNmfToRequestForStatic h prog arch req))))"

end
