(* ===== verification/Spawn_Fds.thy ===== *)
theory Spawn_Fds
  imports Spawn_Vars
begin

text \<open>
  Descriptors: how \<open>nacl_spawn.cc\<close> describes the pipes of a process in the environment of a new one,
  how \<open>nacl_setup_env.c\<close> opens them there again, and how \<open>vfork\<close> puts the descriptors of the parent
  aside.
\<close>

section \<open>Descriptors\<close>

text \<open>
  What a descriptor refers to: the port of a pipe and whether it is its writing end, or something
  else with the mode that \<open>fstat\<close> gives; and the close-on-exec flag.  \<open>dup2\<close> and \<open>close\<close> give
  \<open>None\<close> when they fail, with \<open>EBADF\<close>.
\<close>

datatype fd_file = Fifo int bool | Other_file nat

record fd_entry =
  refers_to :: fd_file
  cloexec :: bool

type_synonym fds = "nat \<Rightarrow> fd_entry option"

definition dup2 :: "nat \<Rightarrow> nat \<Rightarrow> fds \<Rightarrow> fds option" where
  "dup2 fd new t =
     (case t fd of None \<Rightarrow> None
      | Some e \<Rightarrow> Some (if new = fd then t else t(new := Some \<lparr>refers_to = refers_to e, cloexec = False\<rparr>)))"

definition close :: "nat \<Rightarrow> fds \<Rightarrow> fds option" where
  "close fd t = (case t fd of None \<Rightarrow> None | Some e \<Rightarrow> Some (t(fd := None)))"

definition ignore :: "fds option \<Rightarrow> fds \<Rightarrow> fds" where
  "ignore r t = (case r of None \<Rightarrow> t | Some t \<Rightarrow> t)"

text \<open>The lowest free descriptor, of the first \<open>n\<close>; \<open>open\<close> takes it.\<close>

fun lowest_free :: "nat \<Rightarrow> nat \<Rightarrow> fds \<Rightarrow> nat option" where
  "lowest_free fd 0 t = None"
| "lowest_free fd (Suc n) t = (if t fd = None then Some fd else lowest_free (fd + 1) n t)"

definition MAX_FILE_DESCRIPTOR :: nat where "MAX_FILE_DESCRIPTOR = 1000"

section \<open>Pipes in the environment\<close>

definition entry_name :: "nat \<Rightarrow> cstring" where
  "entry_name k = ascii ''NACL_SPAWN_FD_SETUP_'' @ decimal (int k)"

definition pipe_text :: "int \<Rightarrow> int \<Rightarrow> bool \<Rightarrow> cstring" where
  "pipe_text fd port writer =
     ascii ''pipe:'' @ decimal fd @ 0x3A # decimal port @ 0x3A # decimal (if writer then 1 else 0)"

text \<open>The loop of \<open>CloneFileDescriptors\<close>, over the descriptors still to do.\<close>

fun clone_fds :: "fds \<Rightarrow> nat list \<Rightarrow> nat \<Rightarrow> pp_var list \<Rightarrow> pp_var list" where
  "clone_fds t [] k envs = envs"
| "clone_fds t (fd # rest) k envs =
     (case t fd of
        None \<Rightarrow> clone_fds t rest k envs
      | Some e \<Rightarrow>
          if cloexec e then clone_fds t rest k envs
          else
            (case refers_to e of
               Fifo port writer \<Rightarrow>
                 clone_fds t rest (k + 1)
                   (nspawn_array_appendstring envs (entry_name k @ 0x3D # pipe_text (int fd) port writer))
             | Other_file mode \<Rightarrow> clone_fds t rest k envs))"

definition CloneFileDescriptors :: "fds \<Rightarrow> pp_var list \<Rightarrow> pp_var list" where
  "CloneFileDescriptors t envs = clone_fds t [0..<MAX_FILE_DESCRIPTOR] 0 envs"

section \<open>Reading the environment\<close>

text \<open>The strings \<open>NAME=value\<close> of the environment.\<close>

fun getenv :: "cstring list \<Rightarrow> cstring \<Rightarrow> cstring option" where
  "getenv [] name = None"
| "getenv (e # es) name =
     (if take (length name + 1) e = name @ [0x3D] then Some (drop (length name + 1) e) else getenv es name)"

definition unsetenv :: "cstring \<Rightarrow> cstring list \<Rightarrow> cstring list" where
  "unsetenv name es = filter (\<lambda>e. take (length name + 1) e \<noteq> name @ [0x3D]) es"

lemma unsetenv_shorter: "getenv es name = Some v \<Longrightarrow> length (unsetenv name es) < length es"
  by (induction es) (auto simp: unsetenv_def le_imp_less_Suc split: if_splits)

text \<open>\<open>%d\<close> of \<open>sscanf\<close>: blanks, a sign, digits.  The numbers fit an \<open>int\<close>.\<close>

definition blank :: "u8 \<Rightarrow> bool" where
  "blank c \<longleftrightarrow> c = 0x20 \<or> (0x09 \<le> c \<and> c \<le> 0x0D)"

definition decimal_digit :: "u8 \<Rightarrow> bool" where
  "decimal_digit c \<longleftrightarrow> 0x30 \<le> c \<and> c \<le> 0x39"

definition digits_value :: "cstring \<Rightarrow> nat" where
  "digits_value ds = foldl (\<lambda>n d. 10 * n + (unat d - 0x30)) 0 ds"

definition scan_nat :: "cstring \<Rightarrow> (nat \<times> cstring) option" where
  "scan_nat s =
     (if s = [] \<or> \<not> decimal_digit (hd s) then None else Some (digits_value (takeWhile decimal_digit s), dropWhile decimal_digit s))"

definition scan_int :: "cstring \<Rightarrow> (int \<times> cstring) option" where
  "scan_int s =
     (let s = dropWhile blank s in
      if s \<noteq> [] \<and> hd s = 0x2D then map_option (\<lambda>(n, r). (- int n, r)) (scan_nat (tl s))
      else map_option (\<lambda>(n, r). (int n, r)) (scan_nat (if s \<noteq> [] \<and> hd s = 0x2B then tl s else s)))"

definition scan_text :: "cstring \<Rightarrow> cstring \<Rightarrow> cstring option" where
  "scan_text pat s = (if take (length pat) s = pat then Some (drop (length pat) s) else None)"

definition scan_pipe :: "cstring \<Rightarrow> (int \<times> int \<times> int) option" where
  "scan_pipe s =
     Option.bind (scan_text (ascii ''pipe:'') s) (\<lambda>s.
     Option.bind (scan_int s) (\<lambda>(fd, s).
     Option.bind (scan_text [0x3A] s) (\<lambda>s.
     Option.bind (scan_int s) (\<lambda>(port, s).
     Option.bind (scan_text [0x3A] s) (\<lambda>s.
     Option.bind (scan_int s) (\<lambda>(writer, s). Some (fd, port, writer)))))))"

section \<open>Restoring the pipes\<close>

definition MAX_OLD_PIPES :: nat where "MAX_OLD_PIPES = 100"

fun find_old :: "(int \<times> int \<times> nat) list \<Rightarrow> int \<Rightarrow> int \<Rightarrow> nat option" where
  "find_old [] port writer = None"
| "find_old ((p, w, fd) # old) port writer = (if p = port \<and> w = writer then Some fd else find_old old port writer)"

text \<open>
  The work for one entry: the result 1 is \<open>None\<close>.  \<open>openable\<close> says for which ports and directions
  \<open>open\<close> succeeds; \<open>dup2\<close> to a negative number fails.
\<close>

definition restore_pipe ::
    "(int \<Rightarrow> bool \<Rightarrow> bool) \<Rightarrow> int \<Rightarrow> int \<Rightarrow> int \<Rightarrow> fds \<times> (int \<times> int \<times> nat) list \<Rightarrow> (fds \<times> (int \<times> int \<times> nat) list) option" where
  "restore_pipe openable fd port writer s =
     (let (t, old) = s in
      case find_old old port writer of
        Some old_fd \<Rightarrow> Some (if fd < 0 then t else ignore (dup2 old_fd (nat fd) t) t, old)
      | None \<Rightarrow>
          if \<not> openable port (writer \<noteq> 0) then None
          else
            (case lowest_free 0 (2 * MAX_FILE_DESCRIPTOR) t of
               None \<Rightarrow> None
             | Some fd_tmp \<Rightarrow>
                 let t = t(fd_tmp := Some \<lparr>refers_to = Fifo port (writer \<noteq> 0), cloexec = False\<rparr>);
                     t = (if int fd_tmp \<noteq> fd
                          then let t = (if fd < 0 then t else ignore (dup2 fd_tmp (nat fd) t) t) in ignore (close fd_tmp t) t
                          else t) in
                 if length old \<ge> MAX_OLD_PIPES then None
                 else Some (t, old @ [(port, writer, nat fd)])))"

text \<open>The loop: \<open>None\<close> is the result 1.\<close>

function restore_loop ::
    "(int \<Rightarrow> bool \<Rightarrow> bool) \<Rightarrow> nat \<Rightarrow> cstring list \<Rightarrow> fds \<times> (int \<times> int \<times> nat) list \<Rightarrow> (fds \<times> cstring list) option" where
  "restore_loop openable k env s =
     (case getenv env (entry_name k) of
        None \<Rightarrow> Some (fst s, env)
      | Some env_entry \<Rightarrow>
          let env' = unsetenv (entry_name k) env in
          (case scan_pipe env_entry of
             None \<Rightarrow> restore_loop openable (k + 1) env' s
           | Some (fd, port, writer) \<Rightarrow>
               (case restore_pipe openable fd port writer s of
                  None \<Rightarrow> None
                | Some s \<Rightarrow> restore_loop openable (k + 1) env' s)))"
  by pat_completeness auto
termination
  by (relation "measure (\<lambda>(openable, k, env, s). length env)") (auto dest: unsetenv_shorter)

declare restore_loop.simps [simp del]

definition restore_pipes :: "(int \<Rightarrow> bool \<Rightarrow> bool) \<Rightarrow> cstring list \<Rightarrow> fds \<Rightarrow> (fds \<times> cstring list) option" where
  "restore_pipes openable env t = restore_loop openable 0 env (t, [])"

section \<open>Putting descriptors aside\<close>

definition stash_fd :: "nat \<Rightarrow> fds \<Rightarrow> fds" where
  "stash_fd fd t = ignore (dup2 fd (fd + MAX_FILE_DESCRIPTOR) t) t"

definition stash_file_descriptors :: "fds \<Rightarrow> fds" where
  "stash_file_descriptors t = fold stash_fd [0..<MAX_FILE_DESCRIPTOR] t"

definition unstash_fd :: "nat \<Rightarrow> fds \<Rightarrow> fds" where
  "unstash_fd fd t =
     (let alt_fd = fd + MAX_FILE_DESCRIPTOR in
      case dup2 alt_fd fd t of None \<Rightarrow> t | Some t \<Rightarrow> ignore (close alt_fd t) t)"

definition unstash_file_descriptors :: "fds \<Rightarrow> fds" where
  "unstash_file_descriptors t = fold unstash_fd [0..<MAX_FILE_DESCRIPTOR] t"

end
