(* ===== verification/Spawn_Process.thy ===== *)
theory Spawn_Process
  imports Spawn_Exec Spawn_Request Spawn_Fds
begin

text \<open>
  \<open>nacl_spawn.cc\<close>, the functions that programs call: spawning and executing, waiting, process
  groups, pipes and \<open>vfork\<close>.  What the system does is the record \<open>system\<close>, what the library
  remembers the record \<open>process\<close>.
\<close>

record system =
  host_of :: host
  js :: "pp_var \<Rightarrow> pp_var"
  naclprocess :: bool
  environ :: "cstring list"
  pipe_opens :: "int \<Rightarrow> bool \<Rightarrow> bool"
  irt_getpid :: "(int \<times> int) option"

text \<open>An error number: one the library sets by name, or one that a reply holds.\<close>

datatype error_number = Named errno | Number int

record process =
  table :: fds
  vforking :: bool
  vfork_pid :: int
  requests :: proc
  errno_set :: "error_number option"
  nspawn_pid :: int
  nspawn_ppid :: int

definition set_error :: "error_number \<Rightarrow> process \<Rightarrow> process" where
  "set_error e p = p\<lparr>errno_set := Some e\<rparr>"

section \<open>Requests with a number as reply\<close>

definition send :: "system \<Rightarrow> pp_var \<Rightarrow> process \<Rightarrow> pp_var \<times> process" where
  "send sys req p =
     (let (reply, r) = nspawn_send_request (js sys) (naclprocess sys) req (requests p) in (reply, p\<lparr>requests := r\<rparr>))"

definition getint :: "pp_var \<Rightarrow> cstring \<Rightarrow> process \<Rightarrow> (int \<times> process) cres" where
  "getint reply key p =
     and_then (nspawn_dict_getint reply key) (\<lambda>(n, e).
       Inr (n, case e of None \<Rightarrow> p | Some c \<Rightarrow> set_error (Number c) p))"

definition command :: "cstring \<Rightarrow> pp_var" where
  "command name = nspawn_dict_setstring nspawn_dict_create (ascii ''command'') name"

definition ask :: "system \<Rightarrow> pp_var \<Rightarrow> cstring \<Rightarrow> process \<Rightarrow> (int \<times> process) cres" where
  "ask sys req key p = (let (reply, p) = send sys req p in getint reply key p)"

definition getpgid :: "system \<Rightarrow> int \<Rightarrow> process \<Rightarrow> (int \<times> process) cres" where
  "getpgid sys pid = ask sys (nspawn_dict_setint (command (ascii ''nacl_getpgid'')) (ascii ''pid'') pid) (ascii ''pgid'')"

definition getpgrp :: "system \<Rightarrow> process \<Rightarrow> (int \<times> process) cres" where
  "getpgrp sys = getpgid sys 0"

definition setpgid :: "system \<Rightarrow> int \<Rightarrow> int \<Rightarrow> process \<Rightarrow> (int \<times> process) cres" where
  "setpgid sys pid pgid =
     ask sys (nspawn_dict_setint (nspawn_dict_setint (command (ascii ''nacl_setpgid'')) (ascii ''pid'') pid) (ascii ''pgid'') pgid)
       (ascii ''result'')"

definition setpgrp :: "system \<Rightarrow> process \<Rightarrow> (int \<times> process) cres" where
  "setpgrp sys = setpgid sys 0 0"

definition getsid :: "system \<Rightarrow> int \<Rightarrow> process \<Rightarrow> (int \<times> process) cres" where
  "getsid sys pid = ask sys (nspawn_dict_setint (command (ascii ''nacl_getsid'')) (ascii ''pid'') pid) (ascii ''sid'')"

definition setsid :: "system \<Rightarrow> process \<Rightarrow> (int \<times> process) cres" where
  "setsid sys = ask sys (command (ascii ''nacl_setsid'')) (ascii ''sid'')"

text \<open>The text of the result, with its NUL; a result that is no string has none.\<close>

definition jseval :: "system \<Rightarrow> cstring \<Rightarrow> process \<Rightarrow> cstring \<times> process" where
  "jseval sys cmd p =
     (let (reply, p) = send sys (nspawn_dict_setstring (command (ascii ''nacl_jseval'')) (ascii ''cmd'') cmd) p in
      (case nspawn_dict_get reply (ascii ''result'') of PP_String s \<Rightarrow> s @ [0] | _ \<Rightarrow> [0], p))"

section \<open>Waiting\<close>

text \<open>
  The pid and the status, when the reply has one.  \<open>null\<close> says whether the pointer for the status
  is null; a status that is no integer has no \<open>as_int\<close>.
\<close>

definition waitpid_impl :: "system \<Rightarrow> int \<Rightarrow> bool \<Rightarrow> int \<Rightarrow> process \<Rightarrow> (int \<times> int option \<times> process) cres" where
  "waitpid_impl sys pid null options p =
     (let req = nspawn_dict_setint (nspawn_dict_setint (command (ascii ''nacl_wait'')) (ascii ''pid'') pid) (ascii ''options'') options;
          (result, p) = send sys req p in
      and_then (getint result (ascii ''pid'') p) (\<lambda>(result_pid, p).
        case nspawn_dict_has_key result (ascii ''status'') of
          None \<Rightarrow> Inr (result_pid, None, p)
        | Some (PP_Int32 raw_status) \<Rightarrow>
            if null then Inl Fault else Inr (result_pid, Some ((raw_status mod 256) * 256), p)
        | Some v \<Rightarrow> Inl Fault))"

definition wait_any :: "system \<Rightarrow> bool \<Rightarrow> process \<Rightarrow> (int \<times> int option \<times> process) cres" where
  "wait_any sys null = waitpid_impl sys (- 1) null 0"

definition waitpid :: "system \<Rightarrow> int \<Rightarrow> bool \<Rightarrow> int \<Rightarrow> process \<Rightarrow> (int \<times> int option \<times> process) cres" where
  "waitpid sys pid null options = waitpid_impl sys pid null options"

definition wait3 :: "system \<Rightarrow> bool \<Rightarrow> int \<Rightarrow> process \<Rightarrow> (int \<times> int option \<times> process) cres" where
  "wait3 sys null options = waitpid_impl sys (- 1) null options"

definition wait4 :: "system \<Rightarrow> int \<Rightarrow> bool \<Rightarrow> int \<Rightarrow> process \<Rightarrow> (int \<times> int option \<times> process) cres" where
  "wait4 sys pid null options = waitpid_impl sys pid null options"

section \<open>Spawning\<close>

fun set_strings :: "nat \<Rightarrow> cstring list \<Rightarrow> pp_var list \<Rightarrow> pp_var list" where
  "set_strings i [] vs = vs"
| "set_strings i (s # ss) vs = set_strings (i + 1) ss (nspawn_array_setstring vs i s)"

text \<open>The request for a program, without and with the description of its files.\<close>

definition spawn_base :: "system \<Rightarrow> bool \<Rightarrow> cstring list \<Rightarrow> cstring list \<Rightarrow> process \<Rightarrow> pp_var" where
  "spawn_base sys overlay argv envp p =
     (let req = command (ascii ''nacl_spawn'');
          req = (if overlay then nspawn_dict_setstring req (ascii ''mode'') (ascii ''overlay'') else req);
          req = nspawn_dict_set req (ascii ''args'') (PP_Array (set_strings 0 argv []));
          req = nspawn_dict_set req (ascii ''envs'') (PP_Array (CloneFileDescriptors (table p) (set_strings 0 envp []))) in
      nspawn_dict_setstring req (ascii ''cwd'') (c_str (cwd (host_of sys))))"

definition send_spawn :: "system \<Rightarrow> bool \<Rightarrow> cstring \<Rightarrow> cstring list \<Rightarrow> cstring list \<Rightarrow> process \<Rightarrow> (int \<times> process) cres" where
  "send_spawn sys overlay path argv envp p =
     (case AddNmfToRequest (host_of sys) path (spawn_base sys overlay argv envp p) of
        Inl (Errno e) \<Rightarrow> Inr (- 1, set_error (Named ENOENT) p)
      | Inl e \<Rightarrow> Inl e
      | Inr req \<Rightarrow> and_then (ask sys req (ascii ''pid'') p) (\<lambda>(pid, p). if overlay then Inl Abort else Inr (pid, p)))"

definition P_WAIT :: int where "P_WAIT = 0"
definition P_NOWAIT :: int where "P_NOWAIT = 1"
definition P_OVERLAY :: int where "P_OVERLAY = 2"

text \<open>How a call ends: it returns, or jumps to the call of \<open>vfork\<close>, or ends the process.\<close>

datatype outcome = Returns int | Jumps | Exits int

definition spawnve_impl ::
    "system \<Rightarrow> int \<Rightarrow> cstring option \<Rightarrow> cstring list \<Rightarrow> cstring list option \<Rightarrow> process \<Rightarrow> (outcome \<times> process) cres" where
  "spawnve_impl sys mode path argv envp p =
     (case path of
        None \<Rightarrow> Inr (Returns (- 1), set_error (Named EINVAL) p)
      | Some path \<Rightarrow>
          if argv = [] then Inr (Returns (- 1), set_error (Named EINVAL) p)
          else
            let envp = (case envp of None \<Rightarrow> environ sys | Some e \<Rightarrow> e) in
            if mode = P_WAIT then
              and_then (send_spawn sys False path argv envp p) (\<lambda>(pid, p).
                if pid < 0 then Inr (Returns (- 1), p)
                else
                  and_then (waitpid_impl sys pid False 0 p) (\<lambda>(result, status, p).
                    if result < 0 then Inr (Returns (- 1), p)
                    else (case status of None \<Rightarrow> Inl Fault | Some s \<Rightarrow> Inr (Returns s, p))))
            else if mode = P_NOWAIT then
              and_then (send_spawn sys False path argv envp p) (\<lambda>(pid, p). Inr (Returns pid, p))
            else if mode = P_OVERLAY then
              (if vforking p then
                 and_then (send_spawn sys False path argv envp p) (\<lambda>(pid, p). Inr (Jumps, p\<lparr>vfork_pid := pid\<rparr>))
               else and_then (send_spawn sys True path argv envp p) (\<lambda>(pid, p). Inr (Returns pid, p)))
            else Inr (Returns (- 1), set_error (Named EINVAL) p))"

definition spawnv :: "system \<Rightarrow> int \<Rightarrow> cstring option \<Rightarrow> cstring list \<Rightarrow> process \<Rightarrow> (outcome \<times> process) cres" where
  "spawnv sys mode path argv = spawnve_impl sys mode path argv None"

definition spawnve ::
    "system \<Rightarrow> int \<Rightarrow> cstring option \<Rightarrow> cstring list \<Rightarrow> cstring list option \<Rightarrow> process \<Rightarrow> (outcome \<times> process) cres" where
  "spawnve = spawnve_impl"

definition execve :: "system \<Rightarrow> cstring option \<Rightarrow> cstring list \<Rightarrow> cstring list option \<Rightarrow> process \<Rightarrow> (outcome \<times> process) cres" where
  "execve sys filename argv envp = spawnve_impl sys P_OVERLAY filename argv envp"

definition execv :: "system \<Rightarrow> cstring option \<Rightarrow> cstring list \<Rightarrow> process \<Rightarrow> (outcome \<times> process) cres" where
  "execv sys path argv = spawnve_impl sys P_OVERLAY path argv (Some (environ sys))"

definition execvp :: "system \<Rightarrow> cstring option \<Rightarrow> cstring list \<Rightarrow> process \<Rightarrow> (outcome \<times> process) cres" where
  "execvp sys path argv = spawnve_impl sys P_OVERLAY path argv (Some (environ sys))"

definition execvpe :: "system \<Rightarrow> cstring option \<Rightarrow> cstring list \<Rightarrow> cstring list option \<Rightarrow> process \<Rightarrow> (outcome \<times> process) cres" where
  "execvpe sys path argv envp = spawnve_impl sys P_OVERLAY path argv envp"

text \<open>The result of \<open>posix_spawn\<close> and the pid that it stores.\<close>

definition posix_spawn ::
    "system \<Rightarrow> cstring option \<Rightarrow> cstring list \<Rightarrow> cstring list option \<Rightarrow> process \<Rightarrow> (int \<times> int option \<times> process) cres" where
  "posix_spawn sys path argv envp p =
     and_then (spawnve_impl sys P_NOWAIT path argv envp p) (\<lambda>(r, p).
       case r of
         Returns ret \<Rightarrow> if ret < 0 then Inr (ret, None, p) else Inr (0, Some ret, p)
       | _ \<Rightarrow> Inl Abort)"

section \<open>Process numbers\<close>

definition getpid_irt :: "system \<Rightarrow> process \<Rightarrow> int \<times> process" where
  "getpid_irt sys p =
     (let (error, pid) = (case irt_getpid sys of None \<Rightarrow> (0, 1) | Some r \<Rightarrow> r) in
      if error \<noteq> 0 then (- 1, set_error (Number error) p) else (pid, p))"

definition getpid :: "system \<Rightarrow> process \<Rightarrow> int \<times> process" where
  "getpid sys p = (if nspawn_pid p = - 1 then getpid_irt sys p else (nspawn_pid p, p))"

definition getppid :: "process \<Rightarrow> int \<times> process" where
  "getppid p = (nspawn_ppid p, if nspawn_ppid p = - 1 then set_error (Named ENOSYS) p else p)"

section \<open>Pipes\<close>

definition open_apipe :: "system \<Rightarrow> int \<Rightarrow> bool \<Rightarrow> fds \<Rightarrow> nat option \<times> fds" where
  "open_apipe sys port writer t =
     (if \<not> pipe_opens sys port writer then (None, t)
      else
        (case lowest_free 0 (2 * MAX_FILE_DESCRIPTOR) t of
           None \<Rightarrow> (None, t)
         | Some fd \<Rightarrow> (Some fd, t(fd := Some \<lparr>refers_to = Fifo port writer, cloexec = False\<rparr>))))"

definition close_opened :: "nat option \<Rightarrow> fds \<Rightarrow> fds" where
  "close_opened fd t = (case fd of None \<Rightarrow> t | Some n \<Rightarrow> ignore (close n t) t)"

text \<open>\<open>flags\<close> is 0 or \<open>O_NONBLOCK\<close>; \<open>supported\<close> says so.\<close>

definition nacl_spawn_pipe2 :: "system \<Rightarrow> bool \<Rightarrow> bool \<Rightarrow> process \<Rightarrow> (int \<times> (nat \<times> nat) option \<times> process) cres" where
  "nacl_spawn_pipe2 sys null supported p =
     (if null then Inr (- 1, None, set_error (Named EFAULT) p)
      else
        and_then (ask sys (command (ascii ''nacl_apipe'')) (ascii ''pipe_id'') p) (\<lambda>(id, p).
        if \<not> supported then Inl Abort
        else
          let (read_fd, t) = open_apipe sys id False (table p);
              (write_fd, t) = open_apipe sys id True t in
          (case (read_fd, write_fd) of
             (Some r, Some w) \<Rightarrow> Inr (0, Some (r, w), p\<lparr>table := t\<rparr>)
           | _ \<Rightarrow> Inr (- 1, None, p\<lparr>table := close_opened write_fd (close_opened read_fd t)\<rparr>))))"

definition nacl_spawn_pipe :: "system \<Rightarrow> bool \<Rightarrow> process \<Rightarrow> (int \<times> (nat \<times> nat) option \<times> process) cres" where
  "nacl_spawn_pipe sys null = nacl_spawn_pipe2 sys null True"

section \<open>vfork\<close>

definition nacl_spawn_vfork_before :: "process \<Rightarrow> process cres" where
  "nacl_spawn_vfork_before p =
     (if vforking p then Inl Abort
      else Inr (p\<lparr>vforking := True, table := stash_file_descriptors (table p)\<rparr>))"

definition nacl_spawn_vfork_after :: "bool \<Rightarrow> process \<Rightarrow> int \<times> process" where
  "nacl_spawn_vfork_after jmping p =
     (if jmping then (vfork_pid p, p\<lparr>table := unstash_file_descriptors (table p), vforking := False\<rparr>) else (0, p))"

definition nacl_spawn_vfork_exit :: "system \<Rightarrow> int \<Rightarrow> process \<Rightarrow> (outcome \<times> process) cres" where
  "nacl_spawn_vfork_exit sys status p =
     (if vforking p then
        let (response, p) = send sys (nspawn_dict_setint (command (ascii ''nacl_deadpid'')) (ascii ''status'') status) p in
        and_then (getint response (ascii ''pid'') p) (\<lambda>(result, p).
          Inr (Jumps, if result < 0 then (set_error (Number (- result)) p)\<lparr>vfork_pid := - 1\<rparr> else p\<lparr>vfork_pid := result\<rparr>))
      else Inr (Exits status, p))"

end
