(* ===== verification/Spawn_Elf_Correct.thy ===== *)
theory Spawn_Elf_Correct
  imports Spawn_Elf
begin

text \<open>
  The reader of ELF files gives back the names of the libraries that an image was made with, and
  what it does with an image that has no size of its string table.
\<close>

section \<open>Numbers\<close>

fun le_bytes :: "nat \<Rightarrow> nat \<Rightarrow> u8 list" where
  "le_bytes 0 x = []"
| "le_bytes (Suc n) x = of_nat (x mod 256) # le_bytes n (x div 256)"

lemma length_le_bytes [simp]: "length (le_bytes n x) = n"
  by (induction n arbitrary: x) auto

lemma le_nat_le_bytes: "x < 256 ^ n \<Longrightarrow> le_nat (le_bytes n x) = x"
proof (induction n arbitrary: x)
  case (Suc n)
  then have "x div 256 < 256 ^ n" by (simp add: less_mult_imp_div_less mult.commute)
  with Suc.IH show ?case by simp
qed simp

lemma le_at:
  assumes "length a = off" "x < 256 ^ n"
  shows "le (a @ le_bytes n x @ b) off n = of_nat x"
  using assms by (simp add: le_def le_nat_le_bytes)

section \<open>An image\<close>

definition strings :: "cstring list \<Rightarrow> u8 list" where
  "strings ns = 0 # concat (map (\<lambda>s. s @ [0]) ns)"

text \<open>The offsets of the names, the first at \<open>o\<close>.\<close>

fun offsets :: "nat \<Rightarrow> cstring list \<Rightarrow> nat list" where
  "offsets k [] = []"
| "offsets k (s # ns) = k # offsets (k + length s + 1) ns"

definition dyn_bytes :: "(nat \<times> nat) list \<Rightarrow> u8 list" where
  "dyn_bytes es = concat (map (\<lambda>(t, v). le_bytes 4 t @ le_bytes 4 v) es)"

definition phdr_bytes :: "nat \<Rightarrow> nat \<Rightarrow> nat \<Rightarrow> u8 list" where
  "phdr_bytes t off siz =
     le_bytes 4 t @ le_bytes 4 off @ le_bytes 4 off @ le_bytes 4 off @ le_bytes 4 siz @ le_bytes 4 siz @ le_bytes 4 4 @ le_bytes 4 1"

definition header_bytes :: "u16 \<Rightarrow> u8 list" where
  "header_bytes m =
     elf_magic @ [1, 1, 1, 0, 0, 0, 0, 0, 0, 0, 0, 0] @ le_bytes 2 3 @ le_bytes 2 (unat m) @ le_bytes 4 1 @ le_bytes 4 0 @
     le_bytes 4 52 @ le_bytes 4 0 @ le_bytes 4 0 @ le_bytes 2 52 @ le_bytes 2 32 @ le_bytes 2 2 @ le_bytes 2 0 @ le_bytes 2 0 @ le_bytes 2 0"

text \<open>
  The header, a segment to load that is the string table, the dynamic segment with the entries
  \<open>es\<close>, and the string table.
\<close>

definition table_offset :: "(nat \<times> nat) list \<Rightarrow> nat" where
  "table_offset es = 116 + 8 * length es + 8"

definition image_of :: "u16 \<Rightarrow> (nat \<times> nat) list \<Rightarrow> u8 list \<Rightarrow> u8 list" where
  "image_of m es strtab =
     header_bytes m @ phdr_bytes 1 (table_offset es) (length strtab) @ phdr_bytes 2 116 (8 * length es + 8) @
     dyn_bytes (es @ [(0, 0)]) @ strtab"

definition image :: "u16 \<Rightarrow> cstring list \<Rightarrow> u8 list" where
  "image m ns =
     (let es = map (\<lambda>k. (1, k)) (offsets 1 ns) in
      image_of m ((5, 116 + 8 * length ns + 24) # (10, length (strings ns)) # es) (strings ns))"

section \<open>Reading the parts\<close>

lemma length_dyn_bytes [simp]: "length (dyn_bytes es) = 8 * length es"
  by (induction es) (auto simp: dyn_bytes_def split: prod.split)

lemma length_phdr_bytes [simp]: "length (phdr_bytes t off siz) = 32"
  by (simp add: phdr_bytes_def)

lemma length_header_bytes [simp]: "length (header_bytes m) = 52"
  by (simp add: header_bytes_def elf_magic_def)

lemma phdr_of_bytes:
  assumes "t < 4294967296" "off < 4294967296" "siz < 4294967296"
  shows "phdr_of Class32 (phdr_bytes t off siz) =
    \<lparr>p_type = of_nat t, p_offset = of_nat off, p_vaddr = of_nat off, p_paddr = of_nat off, p_filesz = of_nat siz,
     p_memsz = of_nat siz, p_flags = 4, p_align = 1\<rparr>"
  by (simp add: phdr_of_def phdr_bytes_def le_def le_nat_le_bytes assms)

lemma sint_small: "x < 2147483648 \<Longrightarrow> sint (of_nat x :: u32) = int x"
  by (simp add: signed_of_nat signed_take_bit_int_eq_self)

lemma scast_small: "x < 2147483648 \<Longrightarrow> scast (of_nat x :: u32) = (of_nat x :: 64 word)"
  by (simp add: signed_of_nat signed_take_bit_int_eq_self)

lemma read_dyn_bytes:
  assumes "\<forall>(t, v) \<in> set es. 0 < t \<and> t < 2147483648 \<and> v < 4294967296"
  shows "read_dyn Class32 (pre @ dyn_bytes (es @ [(0, 0)]) @ post) (length pre) d
    = Some (fold (\<lambda>(t, v). dyn_entry (of_nat t) (of_nat v)) es d)"
  using assms
proof (induction es arbitrary: pre d)
  case Nil
  then show ?case by (simp add: read_dyn.simps dyn_bytes_def dyn_size_def dyn_tag_def le_def le_nat_le_bytes DT_NULL_def)
next
  case (Cons e es)
  obtain t v where e: "e = (t, v)" by fastforce
  with Cons.prems have tv: "0 < t" "t < 2147483648" "v < 4294967296" by auto
  let ?b = "le_bytes 4 t @ le_bytes 4 v"
  have b: "take 8 (drop (length pre) (pre @ dyn_bytes ((e # es) @ [(0, 0)]) @ post)) = ?b"
    by (simp add: dyn_bytes_def e)
  have tag: "dyn_tag Class32 ?b = of_nat t" "dyn_val Class32 ?b = of_nat v"
    using tv by (simp_all add: dyn_tag_def dyn_val_def le_def le_nat_le_bytes scast_small)
  have "of_nat t \<noteq> (0 :: 64 word)" using tv by (auto simp: word_of_nat_eq_0_iff dest: dvd_imp_le)
  moreover have "read_dyn Class32 ((pre @ ?b) @ dyn_bytes (es @ [(0, 0)]) @ post) (length (pre @ ?b)) (dyn_entry (of_nat t) (of_nat v) d)
      = Some (fold (\<lambda>(t, v). dyn_entry (of_nat t) (of_nat v)) es (dyn_entry (of_nat t) (of_nat v) d))"
    by (rule Cons.IH) (use Cons.prems in auto)
  ultimately show ?case
    using b tag by (simp add: read_dyn.simps [of _ _ "length pre"] dyn_size_def DT_NULL_def e dyn_bytes_def)
qed

section \<open>Reading the image\<close>

lemma ucast_small: "x < 4294967296 \<Longrightarrow> ucast (of_nat x :: 64 word) = (of_nat x :: u32)"
  by (simp add: unsigned_of_nat take_bit_nat_eq_self)

lemma unat_small:
  "x < 4294967296 \<Longrightarrow> unat (of_nat x :: 64 word) = x"
  "x < 4294967296 \<Longrightarrow> unat (of_nat x :: u32) = x"
  by (simp_all add: unsigned_of_nat take_bit_nat_eq_self)

lemma fseek_small: "x < 2147483648 \<Longrightarrow> fseek (of_nat x) = Some x"
  by (simp add: fseek_def ucast_small sint_small)

lemma fread_last: "length pre = T \<Longrightarrow> n \<le> length tab \<Longrightarrow> fread (pre @ tab) T n = Some (take n tab, T + n)"
  by (simp add: fread_def)

lemma read_headers_image:
  assumes "length strtab < 2147483648" "table_offset es < 2147483648"
  shows "ReadHeaders (image_of m es strtab) =
    Some (Class32, m,
      [phdr_of Class32 (phdr_bytes 1 (table_offset es) (length strtab)), phdr_of Class32 (phdr_bytes 2 116 (8 * length es + 8))])"
proof -
  let ?f = "image_of m es strtab" and ?h = "header_bytes m"
  have "(unsigned m :: nat) < 2 ^ LENGTH(16)" by (rule unsigned_less)
  then have unat_m: "unat m < 65536" by simp
  have h: "fread ?f 0 52 = Some (?h, 52)" by (simp add: fread_def image_of_def)
  have fields: "take 4 ?h = elf_magic" "?h ! 4 = 1" "(le ?h 18 2 :: u16) = m" "(le ?h 28 4 :: 64 word) = 52" "(le ?h 44 2 :: u16) = 2"
    using unat_m by (simp_all add: header_bytes_def elf_magic_def le_def le_nat_le_bytes)
  have "read_phdrs Class32 (Suc (Suc 0)) ?f 52 =
    Some [phdr_of Class32 (phdr_bytes 1 (table_offset es) (length strtab)), phdr_of Class32 (phdr_bytes 2 116 (8 * length es + 8))]"
    by (simp add: fread_def phdr_size_def image_of_def)
  then have "read_phdrs Class32 2 ?f 52 =
    Some [phdr_of Class32 (phdr_bytes 1 (table_offset es) (length strtab)), phdr_of Class32 (phdr_bytes 2 116 (8 * length es + 8))]"
    by (simp only: numeral_2_eq_2)
  moreover have "fseek 52 = Some 52" by code_simp
  ultimately show ?thesis
    by (simp add: ReadHeaders_def h fields class_of_def)
qed

lemma string_at_strings:
  assumes "\<forall>s \<in> set ns. 0 \<notin> set s"
  shows "strings_at (pre @ concat (map (\<lambda>s. s @ [0]) ns)) (map int (offsets (length pre) ns)) = Inr ns"
  using assms
proof (induction ns arbitrary: pre)
  case (Cons s ns)
  have "takeWhile (\<lambda>c. c \<noteq> 0) (s @ 0 # r) = s" for r
    using Cons.prems by (subst takeWhile_append2) auto
  then have "string_at (pre @ concat (map (\<lambda>s. s @ [0]) (s # ns))) (int (length pre)) = Inr s"
    by (simp add: string_at_def)
  moreover have "strings_at ((pre @ s @ [0]) @ concat (map (\<lambda>s. s @ [0]) ns)) (map int (offsets (length (pre @ s @ [0])) ns)) = Inr ns"
    by (rule Cons.IH) (use Cons.prems in simp)
  ultimately show ?case by simp
qed simp

lemma offsets_props: "k' \<in> set (offsets k ns) \<Longrightarrow> k \<le> k' \<and> k' < k + length (concat (map (\<lambda>s. s @ [0]) ns))"
  by (induction ns arbitrary: k) fastforce+

lemma length_offsets [simp]: "length (offsets k ns) = length ns"
  by (induction ns arbitrary: k) auto

lemma needed_entries:
  "\<forall>k \<in> set ks. k < 2147483648 \<Longrightarrow>
     fold (\<lambda>(t, v). dyn_entry (of_nat t) (of_nat v)) (map (\<lambda>k. (1, k)) ks) d = d\<lparr>needed_offs := needed_offs d @ map int ks\<rparr>"
proof (induction ks arbitrary: d)
  case (Cons k ks)
  have "dyn_entry (of_nat 1) (of_nat k) d = d\<lparr>needed_offs := needed_offs d @ [int k]\<rparr>"
    using Cons.prems by (simp add: dyn_entry_def DT_STRTAB_def DT_STRSZ_def DT_NEEDED_def ucast_small sint_small)
  then show ?case using Cons by simp
qed simp

text \<open>What the reader makes of an image with any entries, as long as they give the address of the table.\<close>

abbreviation entries :: "(nat \<times> nat) list \<Rightarrow> dynamic" where
  "entries es \<equiv>
     fold (\<lambda>(t, v). dyn_entry (of_nat t) (of_nat v)) es \<lparr>straddr = 0, strsize = 0, needed_offs = []\<rparr>"

lemma read_image_of:
  assumes es: "\<forall>(t, v) \<in> set es. 0 < t \<and> t < 2147483648 \<and> v < 4294967296"
    and T: "table_offset es = T" and tab: "tab \<noteq> []" and small: "T + length tab < 2147483648"
    and addr: "straddr (entries es) = of_nat T" and siz: "unat (strsize (entries es)) \<le> length tab"
  shows "ElfReader (Some (image_of m es tab)) =
    and_then (strings_at (take (unat (strsize (entries es))) tab) (needed_offs (entries es))) (\<lambda>ss.
      Inr \<lparr>is_valid = True, is_static = False, machine = Some m, neededs = ss\<rparr>)"
proof -
  let ?f = "image_of m es tab" and ?d = "entries es"
  have ds: "8 * length es + 8 < 2147483648" and T0: "0 < T" using small T by (simp_all add: table_offset_def)
  let ?load = "phdr_of Class32 (phdr_bytes 1 T (length tab))"
  let ?dyn = "phdr_of Class32 (phdr_bytes 2 116 (8 * length es + 8))"
  have load: "p_type ?load = 1" "p_vaddr ?load = of_nat T" "p_offset ?load = of_nat T" "p_filesz ?load = of_nat (length tab)"
    using small by (simp_all add: phdr_of_bytes)
  have dyn: "p_type ?dyn = 2" "p_offset ?dyn = of_nat 116" "p_filesz ?dyn = of_nat (8 * length es + 8)"
    using ds by (simp_all add: phdr_of_bytes)
  have nz: "p_filesz ?dyn \<noteq> 0"
  proof
    assume "p_filesz ?dyn = 0"
    then have "2 ^ 64 dvd 8 * length es + 8" by (simp only: dyn(3) word_of_nat_eq_0_iff) simp
    then have "2 ^ 64 \<le> 8 * length es + 8" by (rule dvd_imp_le) simp
    then show False using ds by simp
  qed
  let ?pre = "header_bytes m @ phdr_bytes 1 T (length tab) @ phdr_bytes 2 116 (8 * length es + 8)"
  have f: "?f = ?pre @ dyn_bytes (es @ [(0, 0)]) @ tab" by (simp add: image_of_def T)
  have rd: "read_dyn Class32 ?f 116 \<lparr>straddr = 0, strsize = 0, needed_offs = []\<rparr> = Some ?d"
    using read_dyn_bytes [OF es, of ?pre tab] by (simp add: f)
  have dynamic: "ReadDynamic Class32 ?f [?load, ?dyn] = Dyn_read ?d"
    using nz fseek_small [of 116] by (simp add: ReadDynamic_def PT_DYNAMIC_def load(1) dyn(1,2) rd del: One_nat_def)
  have "(of_nat T :: 64 word) < of_nat T + of_nat (length tab)"
    using small tab by (simp add: word_less_nat_alt unat_small del: of_nat_add flip: of_nat_add)
  moreover have "(of_nat T :: 64 word) \<noteq> 0" using T0 small by (auto simp: word_of_nat_eq_0_iff dest: dvd_imp_le)
  moreover have "fread ?f T (unat (strsize ?d)) = Some (take (unat (strsize ?d)) tab, T + unat (strsize ?d))"
  proof -
    have "length (?pre @ dyn_bytes (es @ [(0, 0)])) = T" by (simp add: T [symmetric] table_offset_def)
    from fread_last [OF this siz] show ?thesis by (simp add: f del: One_nat_def)
  qed
  ultimately have "ReadStrtab ?f [?load, ?dyn] ?d = Some (take (unat (strsize ?d)) tab)"
    using small fseek_small [of T] addr
    by (simp add: ReadStrtab_def PT_LOAD_def load Let_def del: One_nat_def)
  then show ?thesis
    using read_headers_image [of tab es m] small T dynamic by (simp add: ElfReader_def)
qed

lemma entries_image:
  assumes "\<forall>k \<in> set ks. k < 2147483648" "T < 4294967296" "n < 4294967296"
  shows "entries ((5, T) # (10, n) # map (\<lambda>k. (1, k)) ks) = \<lparr>straddr = of_nat T, strsize = of_nat n, needed_offs = map int ks\<rparr>"
proof -
  have entry: "dyn_entry (of_nat 5) (of_nat T) d = d\<lparr>straddr := of_nat T\<rparr>"
    "dyn_entry (of_nat 10) (of_nat n) d = d\<lparr>strsize := of_nat n\<rparr>" for d
    using assms(2,3) by (simp_all add: dyn_entry_def DT_STRTAB_def DT_STRSZ_def ucast_small)
  show ?thesis unfolding fold.simps o_apply prod.case by (simp only: needed_entries [OF assms(1)], simp only: entry, simp)
qed

lemma read_image:
  assumes "\<forall>s \<in> set ns. 0 \<notin> set s" "length (image m ns) < 2147483648"
  shows "ElfReader (Some (image m ns)) = Inr \<lparr>is_valid = True, is_static = False, machine = Some m, neededs = ns\<rparr>"
proof -
  define T where "T = 116 + 8 * length ns + 24"
  define es where "es = (5 :: nat, T) # (10, length (strings ns)) # map (\<lambda>k. (1, k)) (offsets 1 ns)"
  have f: "image m ns = image_of m es (strings ns)" by (simp add: image_def es_def T_def)
  have T: "table_offset es = T" by (simp add: table_offset_def es_def T_def)
  have small: "T + length (strings ns) < 2147483648" using assms(2) unfolding f by (simp add: image_of_def es_def T_def)
  have ks: "\<forall>k \<in> set (offsets 1 ns). 0 < k \<and> k < length (strings ns)"
    using offsets_props [of _ 1 ns] by (fastforce simp: strings_def)
  then have "entries es = \<lparr>straddr = of_nat T, strsize = of_nat (length (strings ns)), needed_offs = map int (offsets 1 ns)\<rparr>"
    using small unfolding es_def by (intro entries_image) auto
  moreover have "\<forall>(t, v) \<in> set es. 0 < t \<and> t < 2147483648 \<and> v < 4294967296"
    using ks small by (auto simp: es_def)
  moreover have "strings_at (strings ns) (map int (offsets 1 ns)) = Inr ns"
    using string_at_strings [OF assms(1), of "[0]"] by (simp add: strings_def)
  moreover have "strings ns \<noteq> []" by (simp add: strings_def)
  ultimately show ?thesis
    using read_image_of [of es T "strings ns" m] T small unfolding f by (simp add: unat_small)
qed

text \<open>C30: From an ELF image made with any list of library names and any machine, the ElfReader gets
  back exactly these names and the machine.\<close>

theorem elf_reads_names:
  assumes "\<forall>s \<in> set ns. 0 \<notin> set s" "length (image m ns) < 2147483648"
  shows "ElfReader (Some (image m ns)) = Inr \<lparr>is_valid = True, is_static = False, machine = Some m, neededs = ns\<rparr>"
  using assms by (rule read_image)

theorem elf_reads_names_witness:
  "ElfReader (Some (image 62 [[0x6C, 0x69, 0x62, 0x63], [0x6D]])) =
     Inr \<lparr>is_valid = True, is_static = False, machine = Some 62, neededs = [[0x6C, 0x69, 0x62, 0x63], [0x6D]]\<rparr>"
  by (rule elf_reads_names) (simp, simp add: image_def image_of_def strings_def)

text \<open>An image whose dynamic section names a library but has no DT_STRSZ entry makes the
  ElfReader read past its empty string table: the test meant for this case looks at the pointer
  instead of the size.\<close>

theorem elf_table_size_unchecked:
  assumes "0 < k" "k < 2147483648" "tab \<noteq> []" "length tab < 1000000"
  shows "ElfReader (Some (image_of m [(5, 140), (1, k)] tab)) = Inl Fault"
proof -
  have "entries [(5, 140), (1, k)] = \<lparr>straddr = 140, strsize = 0, needed_offs = [int k]\<rparr>"
    using assms(2) needed_entries [of "[k]"] by (simp add: dyn_entry_def DT_STRTAB_def)
  moreover have "string_at [] (int k) = Inl Fault" using assms(1) by (simp add: string_at_def)
  ultimately show ?thesis
    using read_image_of [of "[(5, 140), (1, k)]" 140 tab m] assms by (simp add: table_offset_def)
qed

theorem elf_table_size_unchecked_witness:
  "ElfReader (Some (image_of 62 [(5, 140), (1, 1)] (strings [[0x6D]]))) = Inl Fault"
  by (rule elf_table_size_unchecked) (simp_all add: strings_def)

end
