(* ===== verification/Spawn_Deps_Correct.thy ===== *)
theory Spawn_Deps_Correct
  imports Spawn_Deps Spawn_Elf_Correct
begin

text \<open>
  The search for dependencies ends, and what it gives is the closure of the program under the
  libraries that are needed, or an error when a file of the closure cannot be loaded.
\<close>

section \<open>Files that need each other\<close>

text \<open>A file needs another when it names a library, other than the loader, that is found there.\<close>

definition needs :: "(cstring \<Rightarrow> u8 list option) \<Rightarrow> (cstring \<Rightarrow> bool) \<Rightarrow> cstring list \<Rightarrow> cstring \<Rightarrow> cstring \<Rightarrow> bool" where
  "needs fs readable paths p q \<longleftrightarrow>
     (case ElfReader (fs p) of
        Inl e \<Rightarrow> False
      | Inr elf \<Rightarrow> \<exists>nm \<in> set (neededs elf). \<not> loader nm \<and> nspawn_find_in_paths readable nm paths = Some q)"

definition static_file :: "(cstring \<Rightarrow> u8 list option) \<Rightarrow> cstring \<Rightarrow> bool" where
  "static_file fs p = (case ElfReader (fs p) of Inl e \<Rightarrow> False | Inr elf \<Rightarrow> is_static elf)"

definition file_arch :: "(cstring \<Rightarrow> u8 list option) \<Rightarrow> cstring \<Rightarrow> cstring option" where
  "file_arch fs p = (case ElfReader (fs p) of Inl e \<Rightarrow> None | Inr elf \<Rightarrow> Option.bind (machine elf) arch_of)"

definition loadable :: "(cstring \<Rightarrow> u8 list option) \<Rightarrow> (cstring \<Rightarrow> bool) \<Rightarrow> cstring list \<Rightarrow> cstring \<Rightarrow> bool" where
  "loadable fs readable paths p \<longleftrightarrow>
     (case ElfReader (fs p) of
        Inl e \<Rightarrow> False
      | Inr elf \<Rightarrow>
          is_valid elf \<and> \<not> is_static elf \<and> Option.bind (machine elf) arch_of \<noteq> None \<and>
          (\<forall>nm \<in> set (neededs elf). loader nm \<or> nspawn_find_in_paths readable nm paths \<noteq> None))"

abbreviation closure :: "(cstring \<Rightarrow> u8 list option) \<Rightarrow> (cstring \<Rightarrow> bool) \<Rightarrow> cstring list \<Rightarrow> cstring \<Rightarrow> cstring set" where
  "closure fs readable paths p \<equiv> {q. (needs fs readable paths)\<^sup>*\<^sup>* p q}"

text \<open>What a search adds to the dependencies: files that can be loaded, with all that they need.\<close>

definition extends ::
    "(cstring \<Rightarrow> u8 list option) \<Rightarrow> (cstring \<Rightarrow> bool) \<Rightarrow> cstring list \<Rightarrow> cstring set \<Rightarrow> cstring list \<Rightarrow> cstring list \<Rightarrow> bool" where
  "extends fs readable paths R deps deps' \<longleftrightarrow>
     sorted deps' \<and> distinct deps' \<and> set deps \<subseteq> set deps' \<and>
     (\<forall>x \<in> set deps' - set deps. x \<in> R \<and> loadable fs readable paths x \<and> Collect (needs fs readable paths x) \<subseteq> set deps')"

lemma extends_refl: "sorted deps \<Longrightarrow> distinct deps \<Longrightarrow> extends fs readable paths R deps deps"
  by (simp add: extends_def)

lemma extends_trans:
  "extends fs readable paths R a b \<Longrightarrow> extends fs readable paths R b c \<Longrightarrow> extends fs readable paths R a c"
  unfolding extends_def by blast

lemma extends_mono: "extends fs readable paths R a b \<Longrightarrow> R \<subseteq> S \<Longrightarrow> extends fs readable paths S a b"
  unfolding extends_def by blast

text \<open>The files that a list of names leads to.\<close>

definition closures ::
    "(cstring \<Rightarrow> u8 list option) \<Rightarrow> (cstring \<Rightarrow> bool) \<Rightarrow> cstring list \<Rightarrow> cstring list \<Rightarrow> cstring set" where
  "closures fs readable paths names =
     {x. \<exists>nm \<in> set names. \<exists>q. \<not> loader nm \<and> nspawn_find_in_paths readable nm paths = Some q \<and> x \<in> closure fs readable paths q}"

lemma needs_iff:
  "ElfReader (fs p) = Inr elf \<Longrightarrow>
     needs fs readable paths p q \<longleftrightarrow> (\<exists>nm \<in> set (neededs elf). \<not> loader nm \<and> nspawn_find_in_paths readable nm paths = Some q)"
  by (simp add: needs_def)

lemma closures_needed:
  assumes "ElfReader (fs p) = Inr elf"
  shows "closures fs readable paths (neededs elf) \<subseteq> closure fs readable paths p"
proof
  fix x assume "x \<in> closures fs readable paths (neededs elf)"
  then obtain q where "needs fs readable paths p q" "(needs fs readable paths)\<^sup>*\<^sup>* q x"
    by (auto simp: closures_def needs_iff [of fs p elf, OF assms])
  then show "x \<in> closure fs readable paths p" by (simp add: converse_rtranclp_into_rtranclp)
qed

lemma closures_Cons: "closures fs readable paths names \<subseteq> closures fs readable paths (nm # names)"
  by (auto simp: closures_def)

lemma closure_closures:
  "\<not> loader nm \<Longrightarrow> nspawn_find_in_paths readable nm paths = Some q \<Longrightarrow>
     closure fs readable paths q \<subseteq> closures fs readable paths (nm # names)"
  by (auto simp: closures_def)

section \<open>What is found\<close>

lemma find_steps:
  assumes "find_arch_and_library_deps (Suc n) fs readable paths arch p deps = Inr (a, deps')" "p \<notin> set deps"
    "deps \<noteq> [] \<or> \<not> static_file fs p"
  obtains elf where "ElfReader (fs p) = Inr elf" "is_valid elf" "\<not> is_static elf" "Option.bind (machine elf) arch_of \<noteq> None"
    "find_needed n fs readable paths (neededs elf) (insort p deps) = Inr deps'"
    "a = (if arch then file_arch fs p else None)"
  using assms
  by (cases "ElfReader (fs p)")
    (auto simp: static_file_def file_arch_def Let_def cres_simps split: if_splits option.splits)

lemma found_extends:
  "sorted deps \<Longrightarrow> distinct deps \<Longrightarrow> deps \<noteq> [] \<or> \<not> static_file fs p \<Longrightarrow>
     find_arch_and_library_deps n fs readable paths arch p deps = Inr (a, deps') \<Longrightarrow>
     p \<in> set deps' \<and> extends fs readable paths (closure fs readable paths p) deps deps'"
  "sorted deps \<Longrightarrow> distinct deps \<Longrightarrow> deps \<noteq> [] \<Longrightarrow>
     find_needed n fs readable paths names deps = Inr deps' \<Longrightarrow>
     extends fs readable paths (closures fs readable paths names) deps deps' \<and>
     (\<forall>nm \<in> set names. loader nm \<or> (\<exists>q \<in> set deps'. nspawn_find_in_paths readable nm paths = Some q))"
proof (induction n fs readable paths arch p deps and n fs readable paths names deps
    arbitrary: a deps' and deps' rule: find_arch_and_library_deps_find_needed.induct)
  case (2 n fs readable paths arch p deps)
  show ?case
  proof (cases "p \<in> set deps")
    case True
    with 2 show ?thesis by (simp add: extends_refl)
  next
    case False
    from find_steps [OF 2(5) False 2(4)] obtain elf where elf: "ElfReader (fs p) = Inr elf" "is_valid elf" "\<not> is_static elf"
        "Option.bind (machine elf) arch_of \<noteq> None" "find_needed n fs readable paths (neededs elf) (insort p deps) = Inr deps'" .
    have "sorted (insort p deps)" "distinct (insort p deps)" "insort p deps \<noteq> []"
      using 2(2,3) False by (auto simp: sorted_insort distinct_insort)
    then have "extends fs readable paths (closures fs readable paths (neededs elf)) (insort p deps) deps' \<and>
        (\<forall>nm \<in> set (neededs elf). loader nm \<or> (\<exists>q \<in> set deps'. nspawn_find_in_paths readable nm paths = Some q))"
      using 2(1) [OF False refl elf(1)] elf by auto
    then have ext: "extends fs readable paths (closure fs readable paths p) (insort p deps) deps'"
      and all: "\<forall>nm \<in> set (neededs elf). loader nm \<or> (\<exists>q \<in> set deps'. nspawn_find_in_paths readable nm paths = Some q)"
      using extends_mono [OF _ closures_needed [of fs p elf readable paths, OF elf(1)]] by blast+
    have "loadable fs readable paths p" using all elf by (auto simp: loadable_def)
    moreover have "Collect (needs fs readable paths p) \<subseteq> set deps'" using all by (fastforce simp: needs_iff [of fs p elf, OF elf(1)])
    ultimately show ?thesis using ext by (auto simp: extends_def set_insort_key)
  qed
next
  case (4 n fs readable paths nm names deps)
  show ?case
  proof (cases "loader nm")
    case True
    with 4 show ?thesis using extends_mono [OF _ closures_Cons] by auto
  next
    case False
    with 4(7) obtain q a1 d1 where q: "nspawn_find_in_paths readable nm paths = Some q"
      and d1: "find_arch_and_library_deps n fs readable paths False q deps = Inr (a1, d1)"
      and d': "find_needed n fs readable paths names d1 = Inr deps'"
      by (auto simp: cres_simps split: option.splits)
    have 1: "q \<in> set d1" "extends fs readable paths (closure fs readable paths q) deps d1"
      using 4(2) [OF False q 4(4,5) _ d1] 4(6) by auto
    then have "sorted d1" "distinct d1" "d1 \<noteq> []" by (auto simp: extends_def)
    from 4(3) [OF False q d1 refl this d'] have
      2: "extends fs readable paths (closures fs readable paths names) d1 deps'"
        "\<forall>nm \<in> set names. loader nm \<or> (\<exists>q \<in> set deps'. nspawn_find_in_paths readable nm paths = Some q)" by auto
    have "extends fs readable paths (closures fs readable paths (nm # names)) deps deps'"
      by (rule extends_trans [OF extends_mono [OF 1(2) closure_closures [OF False q]] extends_mono [OF 2(1) closures_Cons]])
    moreover have "q \<in> set deps'" using 1(1) 2(1) by (auto simp: extends_def)
    ultimately show ?thesis using 2(2) q by auto
  qed
qed (auto intro: extends_refl)

section \<open>Termination\<close>

lemma string_at_fault: "string_at strtab n = Inl e \<Longrightarrow> e = Fault"
  by (auto simp: string_at_def split: if_splits)

lemma strings_at_fault: "strings_at strtab ns = Inl e \<Longrightarrow> e = Fault"
  by (induction ns arbitrary: e) (auto simp: cres_simps dest: string_at_fault)

lemma ElfReader_fault: "ElfReader f = Inl e \<Longrightarrow> e = Fault"
  by (auto simp: ElfReader_def cres_simps dest: strings_at_fault split: option.splits dyn_result.splits)

lemma ElfReader_None: "ElfReader None = Inr (invalid_elf None)"
  by (simp add: ElfReader_def)

lemma found_subset:
  assumes "sorted deps" "distinct deps" "deps \<noteq> []" "find_arch_and_library_deps n fs readable paths arch p deps = Inr (a, deps')"
  shows "sorted deps' \<and> distinct deps' \<and> deps' \<noteq> [] \<and> set deps \<subseteq> set deps'"
  using found_extends(1) [OF assms(1,2) _ assms(4)] assms(3) by (auto simp: extends_def)

lemma find_ends:
  "finite (dom fs) \<Longrightarrow> sorted deps \<Longrightarrow> distinct deps \<Longrightarrow> card (dom fs - set deps) < n \<Longrightarrow>
     find_arch_and_library_deps n fs readable paths arch p deps \<noteq> Inl Diverges"
  "finite (dom fs) \<Longrightarrow> sorted deps \<Longrightarrow> distinct deps \<Longrightarrow> deps \<noteq> [] \<Longrightarrow> card (dom fs - set deps) < n \<Longrightarrow>
     find_needed n fs readable paths names deps \<noteq> Inl Diverges"
proof (induction n fs readable paths arch p deps and n fs readable paths names deps
    rule: find_arch_and_library_deps_find_needed.induct)
  case (2 n fs readable paths arch p deps)
  show ?case
  proof (cases "p \<in> set deps \<or> fs p = None")
    case True
    then show ?thesis by (auto simp: Let_def ElfReader_None invalid_elf_def)
  next
    case False
    then have p: "p \<in> dom fs - set deps" by auto
    have "dom fs - set (insort p deps) = (dom fs - set deps) - {p}" by (auto simp: set_insort_key)
    with 2(2) p have "card (dom fs - set (insort p deps)) < card (dom fs - set deps)"
      by (metis card_Diff1_less finite_Diff)
    with 2(5) have "card (dom fs - set (insort p deps)) < n" by simp
    moreover have "sorted (insort p deps)" "distinct (insort p deps)" "insort p deps \<noteq> []"
      using 2(3,4) p by (auto simp: sorted_insort distinct_insort)
    ultimately have "find_needed n fs readable paths (neededs elf) (insort p deps) \<noteq> Inl Diverges"
      if "ElfReader (fs p) = Inr elf" "is_valid elf" "Option.bind (machine elf) arch_of = Some x" "\<not> is_static elf" for elf x
      using 2(1) [OF _ refl that(1)] that 2(2) p by auto
    with False show ?thesis
      by (auto simp: Let_def cres_simps dest: ElfReader_fault split: option.splits)
  qed
next
  case (4 n fs readable paths nm names deps)
  show ?case
  proof (cases "loader nm")
    case True
    with 4 show ?thesis by simp
  next
    case False
    show ?thesis
    proof (cases "nspawn_find_in_paths readable nm paths")
      case None
      with False show ?thesis by simp
    next
      case (Some q)
      have 1: "find_arch_and_library_deps n fs readable paths False q deps \<noteq> Inl Diverges"
        by (rule 4(2) [OF False Some 4(4,5,6,8)])
      have "find_needed n fs readable paths names d \<noteq> Inl Diverges"
        if d: "find_arch_and_library_deps n fs readable paths False q deps = Inr (a, d)" for a d
      proof -
        from found_subset [OF 4(5,6,7) d] have sub: "sorted d" "distinct d" "d \<noteq> []" "set deps \<subseteq> set d" by auto
        have "card (dom fs - set d) \<le> card (dom fs - set deps)" using sub(4) 4(4) by (intro card_mono) auto
        then have "card (dom fs - set d) < n" using 4(8) by simp
        then show ?thesis by (rule 4(3) [OF False Some d refl 4(4) sub(1-3)])
      qed
      with False Some 1 show ?thesis by (auto simp: and_then_def split: sum.splits)
    qed
  qed
qed auto

section \<open>Completeness\<close>

lemma rejected:
  "sorted deps \<Longrightarrow> distinct deps \<Longrightarrow> deps \<noteq> [] \<or> \<not> static_file fs p \<Longrightarrow> e \<noteq> Diverges \<Longrightarrow>
     find_arch_and_library_deps n fs readable paths arch p deps = Inl e \<Longrightarrow>
     \<exists>x \<in> closure fs readable paths p. \<not> loadable fs readable paths x"
  "sorted deps \<Longrightarrow> distinct deps \<Longrightarrow> deps \<noteq> [] \<Longrightarrow> e \<noteq> Diverges \<Longrightarrow>
     find_needed n fs readable paths names deps = Inl e \<Longrightarrow>
     (\<exists>nm \<in> set names. \<not> loader nm \<and> nspawn_find_in_paths readable nm paths = None) \<or>
     (\<exists>x \<in> closures fs readable paths names. \<not> loadable fs readable paths x)"
proof (induction n fs readable paths arch p deps and n fs readable paths names deps
    arbitrary: e and e rule: find_arch_and_library_deps_find_needed.induct)
  case (2 n fs readable paths arch p deps)
  show ?case
  proof (cases "loadable fs readable paths p")
    case False
    then show ?thesis by blast
  next
    case True
    then obtain elf where elf: "ElfReader (fs p) = Inr elf" "is_valid elf" "\<not> is_static elf" "Option.bind (machine elf) arch_of \<noteq> None"
        "\<forall>nm \<in> set (neededs elf). loader nm \<or> nspawn_find_in_paths readable nm paths \<noteq> None"
      by (auto simp: loadable_def split: sum.splits)
    with 2(6) have p: "p \<notin> set deps" and f: "find_needed n fs readable paths (neededs elf) (insort p deps) = Inl e"
      by (auto simp: Let_def cres_simps split: if_splits)
    have "sorted (insort p deps)" "distinct (insort p deps)" "insort p deps \<noteq> []"
      using 2(2,3) p by (auto simp: sorted_insort distinct_insort)
    then have "\<exists>x \<in> closures fs readable paths (neededs elf). \<not> loadable fs readable paths x"
      using 2(1) [OF p refl elf(1) _ _ refl elf(3) _ _ _ 2(5) f] elf by fastforce
    then show ?thesis using closures_needed [of fs p elf readable paths, OF elf(1)] by blast
  qed
next
  case (4 n fs readable paths nm names deps)
  show ?case
  proof (cases "loader nm")
    case True
    with 4 show ?thesis using closures_Cons [of fs readable paths names nm] by fastforce
  next
    case False
    show ?thesis
    proof (cases "nspawn_find_in_paths readable nm paths")
      case None
      with False show ?thesis by auto
    next
      case (Some q)
      show ?thesis
      proof (cases "find_arch_and_library_deps n fs readable paths False q deps")
        case (Inl e')
        with 4(8) False Some have "e' = e" by simp
        with 4(2) [OF False Some 4(4,5) _ 4(7)] Inl 4(6) obtain x where
          "x \<in> closure fs readable paths q" "\<not> loadable fs readable paths x" by auto
        then show ?thesis using closure_closures [OF False Some] by blast
      next
        case (Inr r)
        obtain a d where r: "r = (a, d)" by fastforce
        from found_subset [OF 4(4,5,6)] Inr r have sub: "sorted d" "distinct d" "d \<noteq> []" by auto
        have "find_needed n fs readable paths names d = Inl e" using 4(8) False Some Inr r by simp
        from 4(3) [OF False Some Inr r [symmetric] sub 4(7) this] show ?thesis
          using closures_Cons [of fs readable paths names nm] by fastforce
      qed
    qed
  qed
qed auto

section \<open>The closure\<close>

lemma closed_closure:
  assumes "p \<in> S" "\<And>x. x \<in> S \<Longrightarrow> Collect (needs fs readable paths x) \<subseteq> S" "S \<subseteq> closure fs readable paths p"
  shows "S = closure fs readable paths p"
proof
  show "closure fs readable paths p \<subseteq> S"
  proof
    fix q assume "q \<in> closure fs readable paths p"
    then have "(needs fs readable paths)\<^sup>*\<^sup>* p q" by simp
    then show "q \<in> S" by induction (use assms(1,2) in auto)
  qed
qed (rule assms(3))

lemma found_closure:
  assumes "\<not> static_file fs p" "find_arch_and_library_deps n fs readable paths True p [] = Inr (a, deps)"
  shows "a = file_arch fs p" "set deps = closure fs readable paths p" "sorted deps" "distinct deps"
    "\<forall>q \<in> closure fs readable paths p. loadable fs readable paths q"
proof -
  have ext: "p \<in> set deps" "extends fs readable paths (closure fs readable paths p) [] deps"
    using found_extends(1) [OF _ _ _ assms(2)] assms(1) by auto
  have *: "set deps = closure fs readable paths p"
    by (rule closed_closure) (use ext in \<open>auto simp: extends_def\<close>)
  then show "set deps = closure fs readable paths p" "sorted deps" "distinct deps"
    "\<forall>q \<in> closure fs readable paths p. loadable fs readable paths q"
    using ext unfolding * [symmetric] by (auto simp: extends_def)
  show "a = file_arch fs p"
  proof (cases n)
    case 0
    with assms(2) show ?thesis by simp
  next
    case (Suc k)
    show ?thesis by (rule find_steps [OF assms(2) [unfolded Suc]]) (use assms(1) in auto)
  qed
qed

lemma find_ends_from:
  assumes "finite (dom fs)" "card (dom fs) < n"
  shows "find_arch_and_library_deps n fs readable paths arch p [] \<noteq> Inl Diverges"
  using find_ends(1) [of fs "[]" n] assms by simp

text \<open>C31: For a program that is not static, find_arch_and_library_deps gives the architecture and the
  sorted list of all files that the program needs, directly or indirectly and with the program
  itself, when each of them can be loaded, and an error otherwise.\<close>

theorem deps_closure:
  assumes "finite (dom fs)" "card (dom fs) < n" "\<not> static_file fs p"
  shows "if \<forall>q \<in> closure fs readable paths p. loadable fs readable paths q
    then find_arch_and_library_deps n fs readable paths True p [] =
      Inr (file_arch fs p, sorted_list_of_set (closure fs readable paths p))
    else \<exists>e. e \<noteq> Diverges \<and> find_arch_and_library_deps n fs readable paths True p [] = Inl e"
proof (cases "find_arch_and_library_deps n fs readable paths True p []")
  case (Inl e)
  then have "e \<noteq> Diverges" using find_ends_from [OF assms(1,2)] by auto
  with Inl rejected(1) [of "[]" fs p e] assms(3) show ?thesis by fastforce
next
  case (Inr r)
  obtain a deps where "r = (a, deps)" by fastforce
  with Inr have f: "find_arch_and_library_deps n fs readable paths True p [] = Inr (a, deps)" by simp
  show ?thesis using found_closure [OF assms(3) f] Inr \<open>r = (a, deps)\<close> sorted_list_of_set.idem_if_sorted_distinct [of deps] by auto
qed

definition example_files :: "cstring \<Rightarrow> u8 list option" where
  "example_files = map_of
     [(ascii ''p'', image 62 [ascii ''ld-nacl-x86-64.so.1'', ascii ''m'']),
      (ascii ''/lib/m'', image 62 [ascii ''c'']),
      (ascii ''/lib/c'', image 62 [ascii ''m''])]"

theorem deps_closure_witness:
  "sorted_list_of_set (closure example_files (\<lambda>p. example_files p \<noteq> None) (get_library_paths None) (ascii ''p'')) =
     [ascii ''/lib/c'', ascii ''/lib/m'', ascii ''p'']"
proof -
  have dom: "dom example_files = {ascii ''p'', ascii ''/lib/m'', ascii ''/lib/c''}"
    by (auto simp: example_files_def split: if_splits)
  have "card (dom example_files) < 4" unfolding dom by code_simp
  moreover have "\<not> static_file example_files (ascii ''p'')" by code_simp
  moreover have "find_arch_and_library_deps 4 example_files (\<lambda>p. example_files p \<noteq> None) (get_library_paths None) True (ascii ''p'') [] =
      Inr (Some (ascii ''x86-64''), [ascii ''/lib/c'', ascii ''/lib/m'', ascii ''p''])" by code_simp
  ultimately show ?thesis
    using deps_closure [of example_files 4 "ascii ''p''" "\<lambda>p. example_files p \<noteq> None" "get_library_paths None"] dom
    by (auto split: if_splits)
qed

section \<open>The interface\<close>

lemma find_fuel_Suc:
  "find_arch_and_library_deps n fs readable paths arch p deps \<noteq> Inl Diverges \<Longrightarrow>
     find_arch_and_library_deps (Suc n) fs readable paths arch p deps = find_arch_and_library_deps n fs readable paths arch p deps"
  "find_needed n fs readable paths names deps \<noteq> Inl Diverges \<Longrightarrow>
     find_needed (Suc n) fs readable paths names deps = find_needed n fs readable paths names deps"
proof (induction n fs readable paths arch p deps and n fs readable paths names deps
    rule: find_arch_and_library_deps_find_needed.induct)
  case (2 n fs readable paths arch p deps)
  show ?case
  proof (cases "p \<in> set deps")
    case False
    have "find_needed (Suc n) fs readable paths (neededs elf) (insort p deps) = find_needed n fs readable paths (neededs elf) (insort p deps)"
      if "ElfReader (fs p) = Inr elf" "is_valid elf" "Option.bind (machine elf) arch_of = Some x" "\<not> is_static elf" for elf x
      using 2(1) [OF False refl that(1)] that 2(2) False
      by (cases "find_needed n fs readable paths (neededs elf) (insort p deps) = Inl Diverges") auto
    then show ?thesis
      unfolding find_arch_and_library_deps.simps(2) [of "Suc n"] find_arch_and_library_deps.simps(2) [of n]
      by (auto simp: Let_def and_then_def split: sum.splits option.splits)
  qed simp
next
  case (4 n fs readable paths nm names deps)
  show ?case
  proof (cases "loader nm \<or> nspawn_find_in_paths readable nm paths = None")
    case True
    with 4(1,4) show ?thesis by auto
  next
    case False
    then obtain q where q: "\<not> loader nm" "nspawn_find_in_paths readable nm paths = Some q" by auto
    have 1: "find_arch_and_library_deps (Suc n) fs readable paths False q deps = find_arch_and_library_deps n fs readable paths False q deps"
    proof (rule 4(2) [OF q], rule notI)
      assume "find_arch_and_library_deps n fs readable paths False q deps = Inl Diverges"
      with 4(4) q show False by simp
    qed
    have "find_needed (Suc n) fs readable paths names d = find_needed n fs readable paths names d"
      if "find_arch_and_library_deps n fs readable paths False q deps = Inr (a, d)" for a d
      using 4(3) [OF q that refl] 4(4) q that by auto
    with q show ?thesis unfolding find_needed.simps(2) by (auto simp only: 1 if_False option.case intro!: and_then_cong)
  qed
qed auto

lemma find_fuel:
  assumes "find_arch_and_library_deps n fs readable paths arch p deps \<noteq> Inl Diverges" "n \<le> n'"
  shows "find_arch_and_library_deps n' fs readable paths arch p deps = find_arch_and_library_deps n fs readable paths arch p deps"
  using assms(2) by (induction rule: dec_induct) (use assms(1) find_fuel_Suc(1) in auto)

text \<open>C32: The search for dependencies ends on any file system, libraries that need each other
  included: any fuel above the number of files gives one and the same result, which is not
  Diverges.\<close>

theorem deps_terminate:
  assumes "finite (dom fs)"
  shows "\<exists>r. r \<noteq> Inl Diverges \<and>
    (\<forall>n > card (dom fs). nspawn_find_arch_and_library_deps n arm fs readable path_env p = r)"
proof -
  let ?n = "Suc (card (dom fs))"
  have "find_arch_and_library_deps ?n fs readable paths True p [] \<noteq> Inl Diverges" for paths
    by (rule find_ends_from [OF assms]) simp
  moreover from this have "find_arch_and_library_deps n fs readable paths True p [] = find_arch_and_library_deps ?n fs readable paths True p []"
    if "card (dom fs) < n" for n paths
    using that by (intro find_fuel) auto
  ultimately show ?thesis
    by (intro exI [of _ "nspawn_find_arch_and_library_deps ?n arm fs readable path_env p"])
      (auto simp: nspawn_find_arch_and_library_deps_def Let_def and_then_def split: sum.splits)
qed

theorem deps_terminate_witness:
  "\<exists>r. r \<noteq> Inl Diverges \<and>
    (\<forall>n > card (dom example_files). nspawn_find_arch_and_library_deps n False example_files (\<lambda>p. p \<noteq> []) None (ascii ''p'') = r)"
  by (rule deps_terminate) (simp add: example_files_def finite_dom_map_of)

end
