(* ===== verification/Spawn_Exec_Correct.thy ===== *)
theory Spawn_Exec_Correct
  imports Spawn_Exec Spawn_Deps_Correct
begin

text \<open>
  What a request to start a program holds: the arguments of a script, the files of a program with
  its libraries; and scripts whose first line does not end in the part that is read.
\<close>

section \<open>The first line of a script\<close>

definition eol :: "u8 \<Rightarrow> bool" where
  "eol c \<longleftrightarrow> c = 0x0A \<or> c = 0x0D"

text \<open>The position of the first space of \<open>w\<close>, which starts at \<open>i\<close>.\<close>

definition space_from :: "nat \<Rightarrow> u8 list \<Rightarrow> nat option" where
  "space_from i w = (if 0x20 \<in> set w then Some (i + length (takeWhile (\<lambda>c. c \<noteq> 0x20) w)) else None)"

lemma shebang_line_run:
  "\<forall>c \<in> set w. \<not> eol c \<Longrightarrow>
     shebang_line (pre @ w @ post) (length pre) split =
       shebang_line (pre @ w @ post) (length pre + length w) (if split = None then space_from (length pre) w else split)"
proof (induction w arbitrary: pre split)
  case Nil
  then show ?case by (cases split) (auto simp: space_from_def)
next
  case (Cons c w)
  have "shebang_line (pre @ (c # w) @ post) (length pre) split =
      shebang_line ((pre @ [c]) @ w @ post) (length (pre @ [c])) (if c = 0x20 \<and> split = None then Some (length pre) else split)"
    using Cons.prems by (subst shebang_line.simps) (simp add: eol_def)
  also have "\<dots> = shebang_line (pre @ (c # w) @ post) (length pre + length (c # w))
      (if split = None then space_from (length pre) (c # w) else split)"
    using Cons.prems by (subst Cons.IH) (auto simp: space_from_def)
  finally show ?case .
qed

lemma shebang_line_ends:
  assumes "\<forall>c \<in> set w. \<not> eol c" "eol e"
  shows "shebang_line (pre @ w @ e # post) (length pre) None = Inr (space_from (length pre) w, length pre + length w)"
  using assms(2) by (subst shebang_line_run [OF assms(1)]) (subst shebang_line.simps, auto simp: eol_def nth_append)

lemma shebang_line_open:
  assumes "\<forall>c \<in> set w. \<not> eol c"
  shows "shebang_line (pre @ w) (length pre) None = Inl Fault"
  using shebang_line_run [OF assms, of pre "[]"] by (simp add: shebang_line.simps [of _ "length pre + length w"])

lemma skip_spaces: "line = [] \<or> hd line \<noteq> 0x20 \<Longrightarrow> takeWhile (\<lambda>c. c = 0x20) (replicate k 0x20 @ line) = replicate k (0x20 :: u8)"
  by (subst takeWhile_append2) (auto simp: takeWhile_eq_Nil_iff)

definition script :: "nat \<Rightarrow> u8 list \<Rightarrow> u8 list" where
  "script k line = ascii ''#!'' @ replicate k 0x20 @ line"

definition interpreter_of :: "u8 list \<Rightarrow> cstring" where
  "interpreter_of line = takeWhile (\<lambda>c. c \<noteq> 0x20) line"

definition argument_of :: "u8 list \<Rightarrow> cstring option" where
  "argument_of line = (if 0x20 \<in> set line then Some (tl (dropWhile (\<lambda>c. c \<noteq> 0x20) line)) else None)"

lemma length_script: "length (script k line) = 2 + k + length line"
  by (simp add: script_def ascii_def)

lemma script_start: "take 2 (script k line @ r) = ascii ''#!''"
  by (simp add: script_def ascii_def)

lemma shebang_script:
  assumes "\<forall>c \<in> set line. \<not> eol c" "eol e" "line = [] \<or> hd line \<noteq> 0x20"
  shows "shebang (script k line @ e # rest) = Inr (Some (interpreter_of line, argument_of line))"
proof -
  let ?pre = "ascii ''#!'' @ replicate k 0x20" and ?b = "script k line @ e # rest"
  have "hd (line @ e # rest) \<noteq> 0x20" using assms(2,3) by (cases line) (auto simp: eol_def)
  from skip_spaces [of "line @ e # rest" k] this
  have start: "2 + length (takeWhile (\<lambda>c. c = 0x20) (drop 2 ?b)) = length ?pre"
    by (simp add: script_def ascii_def)
  have b: "?b = ?pre @ line @ e # rest" by (simp add: script_def)
  have line: "shebang_line ?b (length ?pre) None = Inr (space_from (length ?pre) line, length ?pre + length line)"
    unfolding b by (rule shebang_line_ends [OF assms(1,2)])
  have hash: "take 2 ?b = ascii ''#!''" by (rule script_start)
  have drop: "drop (length ?pre + n) ?b = drop n (line @ e # rest)" for n
    unfolding b by (simp only: drop_append) simp
  note drop0 = drop [of 0, simplified add_0_right drop_0]
  show ?thesis
  proof (cases "0x20 \<in> set line")
    case True
    then obtain i a where l: "line = i @ 0x20 # a" and i: "0x20 \<notin> set i" by (blast dest: split_list_first)
    then have "space_from (length ?pre) line = Some (length ?pre + length i)" "interpreter_of line = i" "argument_of line = Some a"
      by (auto simp: space_from_def interpreter_of_def argument_of_def takeWhile_append dropWhile_append)
    moreover have "drop (length ?pre + length i + 1) ?b = a @ e # rest" "drop (length ?pre) ?b = i @ 0x20 # a @ e # rest"
      using drop [of "length i + 1"] drop0 by (simp_all add: l add.assoc del: length_append length_replicate)
    ultimately show ?thesis
      unfolding shebang_def start Let_def line hash by (simp add: l del: length_append length_replicate, simp)
  next
    case False
    then have "space_from (length ?pre) line = None" "interpreter_of line = line" "argument_of line = None"
      by (auto simp: space_from_def interpreter_of_def argument_of_def)
    moreover have "drop (length ?pre) ?b = line @ e # rest" by (rule drop0)
    ultimately show ?thesis
      unfolding shebang_def start Let_def line hash by (simp del: length_append length_replicate)
  qed
qed

lemma shebang_open:
  assumes "\<forall>c \<in> set line. \<not> eol c" "line = [] \<or> hd line \<noteq> 0x20"
  shows "shebang (script k line) = Inl Fault"
proof -
  let ?pre = "ascii ''#!'' @ replicate k 0x20"
  have start: "2 + length (takeWhile (\<lambda>c. c = 0x20) (drop 2 (script k line))) = length ?pre"
    using skip_spaces [OF assms(2), of k] by (simp add: script_def ascii_def)
  show ?thesis
    using shebang_line_open [OF assms(1), of ?pre] script_start [of k line "[]"]
    unfolding shebang_def start by (simp add: script_def)
qed

section \<open>Scripts\<close>

lemma with_args_array:
  "nspawn_dict_get req (ascii ''args'') = PP_Array vs \<Longrightarrow>
     with_args req f = Inr (nspawn_dict_set req (ascii ''args'') (PP_Array (f vs)))"
  by (simp add: with_args_def)

lemma expand_script:
  assumes "file_bytes h (c_str prog) = Some (script k line @ e # rest)" "eol e" "\<forall>c \<in> set line. \<not> eol c"
    "line = [] \<or> hd line \<noteq> 0x20" "2 + k + length line < 4096" "nspawn_dict_get req (ascii ''args'') = PP_Array vs"
  obtains vs' where "ExpandShBang h prog req =
    Inr (FindInterpreter h (interpreter_of line), nspawn_dict_set req (ascii ''args'') (PP_Array vs'))"
    "vs' = (let args = nspawn_array_setstring vs 0 (c_str prog);
                args = (case argument_of line of None \<Rightarrow> args | Some a \<Rightarrow> nspawn_array_insertstring args 0 (c_str a))
            in nspawn_array_insertstring args 0 (c_str (FindInterpreter h (interpreter_of line))))"
proof -
  have "take 4096 (script k line @ e # rest) = script k line @ e # take (4095 - length (script k line)) rest"
    using assms(5) by (simp add: length_script take_Cons' script_start)
  then show ?thesis
    using that assms(1,5) shebang_script [OF assms(3,2,4), of k] with_args_array [OF assms(6)]
    by (simp add: ExpandShBang_def Let_def length_script)
qed

text \<open>C34: For a script whose first line ends within the first 4096 bytes, the program becomes the
  interpreter named there, found by its last component when its path does not exist, and the
  arguments become the interpreter, the rest of the line after the first space if there is one,
  the script, and the old arguments after the first.\<close>

theorem script_arguments:
  assumes "file_bytes h (c_str prog) = Some (script k line @ e # rest)" "eol e" "\<forall>c \<in> set line. \<not> eol c"
    "line = [] \<or> hd line \<noteq> 0x20" "2 + k + length line < 4096"
    "nspawn_dict_get req (ascii ''args'') = PP_Array (arg0 # args)"
  shows "ExpandShBang h prog req =
    (let interpreter = FindInterpreter h (interpreter_of line) in
     Inr (interpreter, nspawn_dict_set req (ascii ''args'')
       (PP_Array (map (PP_String \<circ> c_str) (interpreter # (case argument_of line of None \<Rightarrow> [] | Some a \<Rightarrow> [a]) @ [prog]) @ args))))"
  by (rule expand_script [OF assms])
    (simp add: Let_def nspawn_array_setstring_def nspawn_array_insertstring_def array_insert split: option.split)

text \<open>A script without an end of line in the bytes that are read makes ExpandShBang read past
  them.\<close>

theorem script_without_end:
  assumes "file_bytes h (c_str prog) = Some content" "take 4096 content = script k line" "\<forall>c \<in> set line. \<not> eol c"
    "line = [] \<or> hd line \<noteq> 0x20"
  shows "ExpandShBang h prog req = Inl Fault"
  using assms(1,2) shebang_open [OF assms(3,4)] by (simp add: ExpandShBang_def Let_def length_script)

section \<open>The files of a program\<close>

text \<open>The value that a path of keys leads to.\<close>

definition value_at :: "pp_var \<Rightarrow> cstring list \<Rightarrow> pp_var" where
  "value_at v ks = foldl nspawn_dict_get v ks"

lemma value_at_simps [simp]:
  "value_at v [] = v"
  "value_at v (k # ks) = value_at (nspawn_dict_get v k) ks"
  by (simp_all add: value_at_def)

lemma add_file_url:
  "is_dict d \<Longrightarrow> value_at (AddFileToNmf key arch path d) [c_str key, c_str arch, ascii ''url''] = PP_String (c_str path)"
  "is_dict d \<Longrightarrow> k \<noteq> c_str key \<Longrightarrow> nspawn_dict_get (AddFileToNmf key arch path d) k = nspawn_dict_get d k"
  "is_dict d \<Longrightarrow> is_dict (AddFileToNmf key arch path d)"
  by (simp_all add: AddFileToNmf_def Let_def nspawn_dict_setstring_def)

text \<open>The key of a dependency, and the keys of the loaders.\<close>

definition key_of :: "cstring \<Rightarrow> cstring \<Rightarrow> cstring" where
  "key_of prog dep =
     (if basename (c_str prog) = basename (c_str dep) then ascii ''main.nexe'' else basename (c_str dep))"

definition run_by :: "cstring \<Rightarrow> bool" where
  "run_by key \<longleftrightarrow> key = ascii ''runnable-ld.so'' \<or> key = ascii ''elf_loader_arm.nexe''"

definition abs_path :: "host \<Rightarrow> cstring \<Rightarrow> cstring" where
  "abs_path h path = (if hd path = slash then path else cwd h @ slash # path)"

text \<open>Where the address of a dependency is found in a description.\<close>

definition url_path :: "cstring \<Rightarrow> cstring \<Rightarrow> cstring \<Rightarrow> cstring list" where
  "url_path prog arch dep =
     (if run_by (key_of prog dep) then [ascii ''program'', c_str arch, ascii ''url'']
      else [ascii ''files'', key_of prog dep, c_str arch, ascii ''url''])"

definition described :: "cstring \<Rightarrow> cstring \<Rightarrow> pp_var \<times> pp_var \<Rightarrow> cstring \<Rightarrow> pp_var" where
  "described prog arch vars dep =
     (if run_by (key_of prog dep) then value_at (fst vars) [ascii ''program'', c_str arch, ascii ''url'']
      else value_at (snd vars) [key_of prog dep, c_str arch, ascii ''url''])"

lemma c_str_id: "0 \<notin> set s \<Longrightarrow> c_str s = s"
  by (auto simp: c_str_def takeWhile_eq_all_conv)

lemma c_str_sub: "set (c_str s) \<subseteq> set s - {0}"
  by (auto simp: c_str_def dest: set_takeWhileD)

lemma c_str_c_str [simp]: "c_str (c_str s) = c_str s"
  by (simp add: c_str_def)

lemma set_after_slash: "set (after_slash p) \<subseteq> set p"
  by (auto simp: after_slash_def dest: set_takeWhileD)

lemma set_basename: "set (basename p) \<subseteq> set p \<union> {dot, slash}"
proof -
  have "set (after_slash (rev (dropWhile (\<lambda>c. c = slash) (rev p)))) \<subseteq> set p"
    by (rule order_trans [OF set_after_slash]) (auto dest: set_dropWhileD)
  then show ?thesis by (auto simp: basename_def Let_def)
qed

lemma basename_no_nul: "0 \<notin> set (basename (c_str p))"
  using set_basename [of "c_str p"] c_str_sub [of p] by auto

lemma key_of_c_str [simp]: "c_str (key_of prog dep) = key_of prog dep"
proof (rule c_str_id)
  have "0 \<notin> set (ascii ''main.nexe'')" by code_simp
  then show "0 \<notin> set (key_of prog dep)" using basename_no_nul by (simp add: key_of_def)
qed

lemma add_dependency_vars:
  assumes "dep \<noteq> []" "is_dict nmf" "is_dict fs"
  obtains nmf' fs' where
    "add_dependency h (basename (c_str prog)) arch dep (nmf, fs) = Inr (nmf', fs')" "is_dict nmf'" "is_dict fs'"
    "described prog arch (nmf', fs') dep = PP_String (c_str (abs_path h dep))"
    "\<And>d. key_of prog d \<noteq> key_of prog dep \<Longrightarrow> \<not> (run_by (key_of prog d) \<and> run_by (key_of prog dep)) \<Longrightarrow>
      described prog arch (nmf', fs') d = described prog arch (nmf, fs) d"
proof -
  have program: "c_str (ascii ''program'') = ascii ''program''" by code_simp
  note added = add_file_url [where key = "key_of prog dep" and arch = arch and path = "abs_path h dep", unfolded key_of_c_str]
    add_file_url [where key = "ascii ''program''" and arch = arch and path = "abs_path h dep", unfolded program]
  have step: "add_dependency h (basename (c_str prog)) arch dep (nmf, fs) =
      (if run_by (key_of prog dep) then Inr (AddFileToNmf (ascii ''program'') arch (abs_path h dep) nmf, fs)
       else Inr (nmf, AddFileToNmf (key_of prog dep) arch (abs_path h dep) fs))"
    using assms(1) by (simp add: add_dependency_def GetAbsPath_def abs_path_def key_of_def run_by_def Let_def)
  show ?thesis
  proof (cases "run_by (key_of prog dep)")
    case True
    show ?thesis
    proof (rule that)
      show "add_dependency h (basename (c_str prog)) arch dep (nmf, fs) = Inr (AddFileToNmf (ascii ''program'') arch (abs_path h dep) nmf, fs)"
        using step True by simp
      show "described prog arch (AddFileToNmf (ascii ''program'') arch (abs_path h dep) nmf, fs) dep = PP_String (c_str (abs_path h dep))"
        using added(4) [OF assms(2)] True by (simp add: described_def del: value_at_simps)
    qed (use added(6) [OF assms(2)] assms(3) True in \<open>simp_all add: described_def\<close>)
  next
    case False
    show ?thesis
    proof (rule that)
      show "add_dependency h (basename (c_str prog)) arch dep (nmf, fs) = Inr (nmf, AddFileToNmf (key_of prog dep) arch (abs_path h dep) fs)"
        using step False by simp
      show "described prog arch (nmf, AddFileToNmf (key_of prog dep) arch (abs_path h dep) fs) dep = PP_String (c_str (abs_path h dep))"
        using added(1) [OF assms(3)] False by (simp add: described_def del: value_at_simps)
      show "described prog arch (nmf, AddFileToNmf (key_of prog dep) arch (abs_path h dep) fs) d = described prog arch (nmf, fs) d"
        if "key_of prog d \<noteq> key_of prog dep" for d
        using added(2) [OF assms(3) that] by (simp add: described_def)
    qed (use added(3) [OF assms(3)] assms(2) in simp_all)
  qed
qed

lemma add_dependencies_vars:
  "distinct (map (key_of prog) deps) \<Longrightarrow> length (filter (\<lambda>d. run_by (key_of prog d)) deps) \<le> 1 \<Longrightarrow> [] \<notin> set deps \<Longrightarrow>
   is_dict nmf \<Longrightarrow> is_dict fs \<Longrightarrow>
     \<exists>nmf' fs'. add_dependencies h (basename (c_str prog)) arch deps (nmf, fs) = Inr (nmf', fs') \<and> is_dict nmf' \<and> is_dict fs' \<and>
       (\<forall>d \<in> set deps. described prog arch (nmf', fs') d = PP_String (c_str (abs_path h d))) \<and>
       (\<forall>d. key_of prog d \<notin> key_of prog ` set deps \<and> (run_by (key_of prog d) \<longrightarrow> (\<forall>d' \<in> set deps. \<not> run_by (key_of prog d'))) \<longrightarrow>
          described prog arch (nmf', fs') d = described prog arch (nmf, fs) d)"
proof (induction deps arbitrary: nmf fs)
  case (Cons dep deps)
  have "dep \<noteq> []" using Cons.prems(3) by auto
  from add_dependency_vars [OF this Cons.prems(4,5), of h prog arch] obtain nmf1 fs1 where
    1: "add_dependency h (basename (c_str prog)) arch dep (nmf, fs) = Inr (nmf1, fs1)" "is_dict nmf1" "is_dict fs1"
      "described prog arch (nmf1, fs1) dep = PP_String (c_str (abs_path h dep))"
    and other: "\<And>d. key_of prog d \<noteq> key_of prog dep \<Longrightarrow> \<not> (run_by (key_of prog d) \<and> run_by (key_of prog dep)) \<Longrightarrow>
      described prog arch (nmf1, fs1) d = described prog arch (nmf, fs) d" by blast
  have prems: "distinct (map (key_of prog) deps)" "length (filter (\<lambda>d. run_by (key_of prog d)) deps) \<le> 1" "[] \<notin> set deps"
    "key_of prog dep \<notin> key_of prog ` set deps"
    using Cons.prems(1-3) by (auto split: if_splits)
  have lone: "\<not> run_by (key_of prog d)" if "run_by (key_of prog dep)" "d \<in> set deps" for d
    using Cons.prems(2) that by (auto simp: filter_empty_conv)
  from Cons.IH [OF prems(1-3) 1(2,3)] obtain nmf2 fs2 where
    2: "add_dependencies h (basename (c_str prog)) arch deps (nmf1, fs1) = Inr (nmf2, fs2)" "is_dict nmf2" "is_dict fs2"
      "\<forall>d \<in> set deps. described prog arch (nmf2, fs2) d = PP_String (c_str (abs_path h d))"
    and other2: "\<And>d. key_of prog d \<notin> key_of prog ` set deps \<Longrightarrow> (run_by (key_of prog d) \<Longrightarrow> \<forall>d' \<in> set deps. \<not> run_by (key_of prog d')) \<Longrightarrow>
      described prog arch (nmf2, fs2) d = described prog arch (nmf1, fs1) d" by blast
  have "described prog arch (nmf2, fs2) dep = PP_String (c_str (abs_path h dep))"
    using other2 [OF prems(4)] lone 1(4) by auto
  moreover have "described prog arch (nmf2, fs2) d = described prog arch (nmf, fs) d"
    if "key_of prog d \<notin> key_of prog ` set (dep # deps)" "run_by (key_of prog d) \<longrightarrow> (\<forall>d' \<in> set (dep # deps). \<not> run_by (key_of prog d'))" for d
    using that other2 [of d] other [of d] by auto
  ultimately show ?case using 1 2 by auto
qed auto

lemma shared_files:
  assumes "distinct (map (key_of prog) deps)" "length (filter (\<lambda>d. run_by (key_of prog d)) deps) \<le> 1" "[] \<notin> set deps" "is_dict req"
  shows "\<exists>nmf. AddNmfToRequestForShared h prog arch deps req = Inr (nspawn_dict_set req (ascii ''nmf'') nmf) \<and>
    (\<forall>dep \<in> set deps. value_at nmf (url_path prog arch dep) = PP_String (c_str (abs_path h dep)))"
proof -
  from add_dependencies_vars [OF assms(1-3) is_dict_create is_dict_create, of h arch] obtain nmf fs where
    *: "add_dependencies h (basename (c_str prog)) arch deps (nspawn_dict_create, nspawn_dict_create) = Inr (nmf, fs)"
      "is_dict nmf" "\<forall>d \<in> set deps. described prog arch (nmf, fs) d = PP_String (c_str (abs_path h d))" by blast
  have "ascii ''program'' \<noteq> ascii ''files''" by code_simp
  then have "value_at (nspawn_dict_set nmf (ascii ''files'') fs) (url_path prog arch d) = described prog arch (nmf, fs) d" for d
    using *(2) by (simp add: url_path_def described_def)
  with * show ?thesis by (auto simp: AddNmfToRequestForShared_def)
qed

text \<open>Each dependency of a program with libraries is found in the description, under its key.\<close>

theorem request_files:
  assumes "distinct (map (key_of prog) deps)" "length (filter (\<lambda>d. run_by (key_of prog d)) deps) \<le> 1" "[] \<notin> set deps" "is_dict req"
  shows "\<exists>nmf. AddNmfToRequestForShared h prog arch deps req = Inr (nspawn_dict_set req (ascii ''nmf'') nmf) \<and>
    (\<forall>dep \<in> set deps. value_at nmf (url_path prog arch dep) = PP_String (c_str (abs_path h dep)))"
  using assms by (rule shared_files)

section \<open>From the files to the request\<close>

text \<open>The files and the directories that the search for libraries sees.\<close>

abbreviation host_files :: "host \<Rightarrow> cstring \<Rightarrow> u8 list option" where
  "host_files h \<equiv> \<lambda>p. file_bytes h (c_str p)"

abbreviation host_accessible :: "host \<Rightarrow> cstring \<Rightarrow> bool" where
  "host_accessible h \<equiv> \<lambda>p. accessible h (c_str p)"

abbreviation host_closure :: "host \<Rightarrow> cstring \<Rightarrow> cstring set" where
  "host_closure h \<equiv> closure (host_files h) (host_accessible h) (get_library_paths (ld_library_path h))"

abbreviation host_deps :: "host \<Rightarrow> cstring \<Rightarrow> found" where
  "host_deps h \<equiv>
     nspawn_find_arch_and_library_deps (search_depth h) (on_arm h) (host_files h) (host_accessible h) (ld_library_path h)"

lemma push_found_sub: "set deps \<subseteq> set (push_found readable paths name deps)"
  by (auto simp: push_found_def split: option.splits)

lemma push_found_nonempty: "[] \<notin> set deps \<Longrightarrow> [] \<notin> set (push_found readable paths name deps)"
  by (auto simp: push_found_def find_in_paths_Some split: option.splits)

lemma needs_nonempty: "needs fs readable paths p q \<Longrightarrow> q \<noteq> []"
  by (auto simp: needs_def find_in_paths_Some split: sum.splits)

lemma closure_nonempty: "(needs fs readable paths)\<^sup>*\<^sup>* p q \<Longrightarrow> p \<noteq> [] \<Longrightarrow> q \<noteq> []"
  by (induction rule: rtranclp_induct) (auto dest: needs_nonempty)

lemma deps_found:
  assumes "nspawn_find_arch_and_library_deps n arm fs readable env p = Inr (arch, deps)" "\<not> static_file fs p" "p \<noteq> []"
  shows "closure fs readable (get_library_paths env) p \<subseteq> set deps" "deps \<noteq> []" "[] \<notin> set deps"
proof -
  from assms(1) obtain ds where f: "find_arch_and_library_deps n fs readable (get_library_paths env) True p [] = Inr (arch, ds)"
    and d: "deps = (if ds = [] then []
      else if arm then
        push_found readable (get_library_paths env) (ascii ''ld-nacl-arm.so.1'')
          (push_found readable (get_library_paths env) (ascii ''elf_loader_arm.nexe'') ds)
      else push_found readable (get_library_paths env) (ascii ''runnable-ld.so'') ds)"
    by (auto simp: nspawn_find_arch_and_library_deps_def Let_def cres_simps)
  from found_closure(2) [OF assms(2) f] have ds: "set ds = closure fs readable (get_library_paths env) p" .
  then have "p \<in> set ds" "[] \<notin> set ds" by (auto dest: closure_nonempty [OF _ assms(3)])
  then have "ds \<noteq> []" "set ds \<subseteq> set deps" "[] \<notin> set deps"
    unfolding d using push_found_sub by (auto intro!: push_found_nonempty) blast+
  then show "closure fs readable (get_library_paths env) p \<subseteq> set deps" "deps \<noteq> []" "[] \<notin> set deps"
    using ds by auto
qed

text \<open>
  The file of a program: its path, or the first file of that name in the directories of \<open>PATH\<close>; for
  a script, that of its interpreter.
\<close>

definition looked_up :: "host \<Rightarrow> cstring \<Rightarrow> cstring \<Rightarrow> bool" where
  "looked_up h a b \<longleftrightarrow>
     (if slash \<in> set a then b = a
      else nspawn_find_in_paths (host_accessible h) a (nspawn_get_paths (path_env h)) = Some b)"

definition interpreted :: "host \<Rightarrow> cstring \<Rightarrow> cstring \<Rightarrow> bool" where
  "interpreted h a b \<longleftrightarrow>
     (\<exists>content. file_bytes h (c_str a) = Some content \<and> 2 \<le> length content \<and>
        (if take 2 content = ascii ''#!''
         then \<exists>k line e rest. content = script k line @ e # rest \<and> eol e \<and> (\<forall>c \<in> set line. \<not> eol c) \<and>
           (line = [] \<or> hd line \<noteq> 0x20) \<and> 2 + k + length line < 4096 \<and> b = FindInterpreter h (interpreter_of line)
         else b = a))"

definition program_of :: "host \<Rightarrow> cstring \<Rightarrow> cstring \<Rightarrow> bool" where
  "program_of h a p \<longleftrightarrow>
     (\<exists>b i. looked_up h a b \<and> accessible h (c_str b) \<and> interpreted h b i \<and> looked_up h i p)"

text \<open>A request whose arguments are an array, as every request of the code has them.\<close>

definition has_args :: "pp_var \<Rightarrow> bool" where
  "has_args req \<longleftrightarrow> is_dict req \<and> (\<exists>vs. nspawn_dict_get req (ascii ''args'') = PP_Array vs)"

lemma has_args_set: "has_args req \<Longrightarrow> has_args (nspawn_dict_set req (ascii ''args'') (PP_Array vs))"
  by (simp add: has_args_def)

lemma looked_up_step:
  assumes "looked_up h a b" "has_args req"
  obtains req' where "UseBuiltInFallback h a req = Inr (False, b, req')" "has_args req'"
proof (cases "slash \<in> set a")
  case True
  with assms that show ?thesis by (simp add: UseBuiltInFallback_def looked_up_def)
next
  case False
  obtain vs where "nspawn_dict_get req (ascii ''args'') = PP_Array vs" using assms(2) by (auto simp: has_args_def)
  from with_args_array [OF this] False assms that has_args_set [OF assms(2)] show ?thesis
    by (simp add: UseBuiltInFallback_def looked_up_def)
qed

lemma interpreted_step:
  assumes "interpreted h a b" "has_args req"
  obtains req' where "ExpandShBang h a req = Inr (b, req')" "has_args req'"
proof -
  obtain content where c: "file_bytes h (c_str a) = Some content" "2 \<le> length content"
    "if take 2 content = ascii ''#!''
     then \<exists>k line e rest. content = script k line @ e # rest \<and> eol e \<and> (\<forall>c \<in> set line. \<not> eol c) \<and>
       (line = [] \<or> hd line \<noteq> 0x20) \<and> 2 + k + length line < 4096 \<and> b = FindInterpreter h (interpreter_of line)
     else b = a"
    using assms(1) unfolding interpreted_def by blast
  obtain vs where vs: "nspawn_dict_get req (ascii ''args'') = PP_Array vs" using assms(2) by (auto simp: has_args_def)
  show ?thesis
  proof (cases "take 2 content = ascii ''#!''")
    case True
    with c(3) obtain k line e rest where *: "content = script k line @ e # rest" "eol e" "\<forall>c \<in> set line. \<not> eol c"
      "line = [] \<or> hd line \<noteq> 0x20" "2 + k + length line < 4096" "b = FindInterpreter h (interpreter_of line)" by auto
    show ?thesis
      by (rule expand_script [OF c(1) [unfolded *(1)] *(2-5) vs]) (use that has_args_set [OF assms(2)] *(6) in blast)
  next
    case False
    then have "take 2 (take 4096 content) \<noteq> ascii ''#!''" "\<not> length (take 4096 content) < 2" "b = a"
      using c(2,3) by (auto simp: take_take min_def)
    with c(1) that assms(2) show ?thesis by (simp add: ExpandShBang_def shebang_def Let_def)
  qed
qed


section \<open>Examples\<close>

definition example_host :: host where
  "example_host = \<lparr>file_bytes = map_of
       [(ascii ''/bin/p'', image 62 [ascii ''c'']), (ascii ''/lib/c'', image 62 []),
        (ascii ''s'', script 1 (ascii ''/bin/sh -e x'') @ 0x0A # ascii ''ls''), (ascii ''t'', ascii ''#!sh'')],
     accessible = (\<lambda>p. p \<in> {ascii ''/bin/p'', ascii ''/lib/c'', ascii ''s'', ascii ''t''}), cwd = ascii ''/'', path_env = None, ld_library_path = None,
     on_arm = False, last_errno = ENOENT, search_depth = 4\<rparr>"

definition example_request :: pp_var where
  "example_request = PP_Dict [(ascii ''args'', PP_Array [PP_String (ascii ''s''), PP_String (ascii ''y'')])]"

theorem script_arguments_witness:
  "ExpandShBang example_host (ascii ''s'') example_request =
     Inr (ascii ''sh'', PP_Dict [(ascii ''args'', PP_Array (map PP_String [ascii ''sh'', ascii ''-e x'', ascii ''s'', ascii ''y'']))])"
proof -
  have "file_bytes example_host (c_str (ascii ''s'')) = Some (script 1 (ascii ''/bin/sh -e x'') @ 0x0A # ascii ''ls'')" by code_simp
  moreover have "\<forall>c \<in> set (ascii ''/bin/sh -e x''). \<not> eol c" by code_simp
  moreover have "hd (ascii ''/bin/sh -e x'') \<noteq> 0x20" by code_simp
  moreover have "length (ascii ''/bin/sh -e x'') = 12" by code_simp
  moreover have "nspawn_dict_get example_request (ascii ''args'') = PP_Array [PP_String (ascii ''s''), PP_String (ascii ''y'')]" by code_simp
  moreover have "(let interpreter = FindInterpreter example_host (interpreter_of (ascii ''/bin/sh -e x'')) in
     Inr (interpreter, nspawn_dict_set example_request (ascii ''args'')
       (PP_Array (map (PP_String \<circ> c_str) (interpreter # (case argument_of (ascii ''/bin/sh -e x'') of None \<Rightarrow> [] | Some a \<Rightarrow> [a]) @ [ascii ''s'']) @ [PP_String (ascii ''y'')])))) =
     (Inr (ascii ''sh'', PP_Dict [(ascii ''args'', PP_Array (map PP_String [ascii ''sh'', ascii ''-e x'', ascii ''s'', ascii ''y'']))]) :: (cstring \<times> pp_var) cres)"
    by code_simp
  ultimately show ?thesis
    using script_arguments [of example_host "ascii ''s''" 1 "ascii ''/bin/sh -e x''" "0x0A" "ascii ''ls''" example_request] by (simp add: eol_def)
qed

theorem script_without_end_witness: "ExpandShBang example_host (ascii ''t'') example_request = Inl Fault"
proof (rule script_without_end [where k = 0 and line = "ascii ''sh''"])
  show "file_bytes example_host (c_str (ascii ''t'')) = Some (ascii ''#!sh'')" by code_simp
  show "take 4096 (ascii ''#!sh'') = script 0 (ascii ''sh'')" by code_simp
  show "\<forall>c \<in> set (ascii ''sh''). \<not> eol c" by code_simp
  show "ascii ''sh'' = [] \<or> hd (ascii ''sh'') \<noteq> 0x20" by code_simp
qed

theorem request_files_witness:
  "\<exists>nmf. AddNmfToRequestForShared example_host (ascii ''p'') (ascii ''arm'') [ascii ''/lib/c'', ascii ''p''] example_request =
      Inr (nspawn_dict_set example_request (ascii ''nmf'') nmf) \<and>
    (\<forall>dep \<in> set [ascii ''/lib/c'', ascii ''p'']. value_at nmf (url_path (ascii ''p'') (ascii ''arm'') dep) =
      PP_String (c_str (abs_path example_host dep)))"
  by (rule request_files; code_simp)

text \<open>A script of \<open>PATH\<close> whose interpreter is a program of \<open>PATH\<close> with one library.\<close>

definition path_host :: host where
  "path_host = example_host\<lparr>file_bytes := (file_bytes example_host)(ascii ''/bin/r'' \<mapsto> script 1 (ascii ''p'') @ [0x0A]),
     accessible := (\<lambda>p. p \<in> {ascii ''/bin/p'', ascii ''/lib/c'', ascii ''/bin/r''}), path_env := Some (ascii ''/bin'')\<rparr>"


end
