(* ===== verification/Spawn_Fds_Correct.thy ===== *)
theory Spawn_Fds_Correct
  imports Spawn_Fds
begin

text \<open>
  A process gets the pipes of its parent back from its environment, and what remains of the
  descriptors of a parent after \<open>vfork\<close>.
\<close>

section \<open>Numbers\<close>

lemma unat_digit:
  assumes "d < 10"
  shows "unat (of_nat (48 + d) :: u8) = 48 + d"
proof -
  have "48 + d < 256" using assms by simp
  then show ?thesis by (rule unat_of_nat_u8)
qed

lemma numeral_digit: "d < 10 \<Longrightarrow> decimal_digit (of_nat (48 + d))"
  unfolding decimal_digit_def word_le_nat_alt unat_digit by simp

lemma decimal_nat_numerals: "\<forall>c \<in> set (decimal_nat n). decimal_digit c"
proof (induction n rule: decimal_nat.induct)
  case (1 n)
  then show ?case
    using numeral_digit [of n] numeral_digit [of "n mod 10"] by (subst decimal_nat.simps) auto
qed

lemma decimal_nat_not_Nil [simp]: "decimal_nat n \<noteq> []"
  by (subst decimal_nat.simps) simp

lemma digits_value_snoc: "digits_value (ds @ [d]) = 10 * digits_value ds + (unat d - 0x30)"
  by (simp add: digits_value_def)

lemma digits_value_decimal [simp]: "digits_value (decimal_nat n) = n"
proof (induction n rule: decimal_nat.induct)
  case (1 n)
  show ?case
  proof (cases "n < 10")
    case True
    then show ?thesis using unat_digit [of n] by (subst decimal_nat.simps) (simp add: digits_value_def)
  next
    case False
    then show ?thesis
      using 1 unat_digit [of "n mod 10"] by (subst decimal_nat.simps) (simp add: digits_value_snoc)
  qed
qed

lemma takeWhile_numeral: "r = [] \<or> \<not> decimal_digit (hd r) \<Longrightarrow> takeWhile decimal_digit (decimal_nat n @ r) = decimal_nat n"
  using decimal_nat_numerals [of n] by (subst takeWhile_append2) (auto simp: takeWhile_eq_Nil_iff)

lemma dropWhile_numeral: "r = [] \<or> \<not> decimal_digit (hd r) \<Longrightarrow> dropWhile decimal_digit (decimal_nat n @ r) = r"
  using decimal_nat_numerals [of n] by (subst dropWhile_append2) (auto simp: dropWhile_eq_self_iff)

lemma hd_decimal_nat: "decimal_digit (hd (decimal_nat n))"
  using decimal_nat_numerals [of n] by auto

lemma scan_nat_decimal: "r = [] \<or> \<not> decimal_digit (hd r) \<Longrightarrow> scan_nat (decimal_nat n @ r) = Some (n, r)"
  using hd_decimal_nat [of n] by (simp add: scan_nat_def takeWhile_numeral dropWhile_numeral)

lemma numeral_plain: "decimal_digit c \<Longrightarrow> \<not> blank c \<and> c \<noteq> 0x2D \<and> c \<noteq> 0x2B \<and> c \<noteq> 0x3D"
proof -
  have "decimal_digit c \<longrightarrow> \<not> blank c \<and> c \<noteq> 0x2D \<and> c \<noteq> 0x2B \<and> c \<noteq> 0x3D"
    by (rule u8_allI [of _ c]) code_simp
  then show "decimal_digit c \<Longrightarrow> ?thesis" by blast
qed

lemma scan_int_decimal:
  assumes "r = [] \<or> \<not> decimal_digit (hd r)"
  shows "scan_int (decimal n @ r) = Some (n, r)"
proof (cases "n < 0")
  case True
  have "dropWhile blank (0x2D # decimal_nat (nat (- n)) @ r) = 0x2D # decimal_nat (nat (- n)) @ r"
    by (simp add: blank_def)
  then show ?thesis using True scan_nat_decimal [OF assms] by (simp add: scan_int_def decimal_def)
next
  case False
  note hd = numeral_plain [OF hd_decimal_nat [of "nat n"]]
  then have "dropWhile blank (decimal_nat (nat n) @ r) = decimal_nat (nat n) @ r"
    by (subst dropWhile_eq_self_iff) simp
  then show ?thesis using False hd scan_nat_decimal [OF assms, of "nat n"] by (simp add: scan_int_def decimal_def)
qed

lemma scan_text_append: "scan_text pat (pat @ s) = Some s"
  by (simp add: scan_text_def)

lemma scan_pipe_text: "scan_pipe (pipe_text fd port writer) = Some (fd, port, if writer then 1 else 0)"
proof -
  define n :: int where "n = (if writer then 1 else 0)"
  define pat where "pat = ascii ''pipe:''"
  have "\<not> decimal_digit 0x3A" by code_simp
  then have int: "scan_int (decimal m @ 0x3A # s) = Some (m, 0x3A # s)" for m s by (intro scan_int_decimal) simp
  have last: "scan_int (decimal n) = Some (n, [])" using scan_int_decimal [of "[]" n] by simp
  have colon: "scan_text [0x3A] (0x3A # s) = Some s" for s by (simp add: scan_text_def)
  show ?thesis
    unfolding scan_pipe_def pipe_text_def n_def [symmetric] pat_def [symmetric] scan_text_append
    by (simp add: int last colon)
qed

section \<open>Names\<close>

lemma decimal_no_equals: "0x3D \<notin> set (decimal (int k))"
  using decimal_nat_numerals [of k] numeral_plain by (auto simp: decimal_def)

lemma entry_name_no_equals: "0x3D \<notin> set (entry_name k)"
proof -
  have "0x3D \<notin> set (ascii ''NACL_SPAWN_FD_SETUP_'')" by code_simp
  then show ?thesis using decimal_no_equals by (simp add: entry_name_def)
qed

lemma decimal_nat_inj: "decimal_nat m = decimal_nat n \<longleftrightarrow> m = n"
  by (metis digits_value_decimal)

lemma entry_name_inj: "entry_name k = entry_name l \<longleftrightarrow> k = l"
  by (simp add: entry_name_def decimal_def decimal_nat_inj)

lemma names_of:
  assumes "c \<notin> set m" "c \<notin> set n"
  shows "take (length n + 1) (m @ c # v) = n @ [c] \<longleftrightarrow> m = n"
proof
  have first: "takeWhile (\<lambda>x. x \<noteq> c) (l @ c # r) = l" if "c \<notin> set l" for l r
    using that by (subst takeWhile_append2) auto
  assume "take (length n + 1) (m @ c # v) = n @ [c]"
  then have "m @ c # v = n @ c # drop (length n + 1) (m @ c # v)"
    using append_take_drop_id [of "length n + 1" "m @ c # v"] by (metis append_Cons append_Nil append_assoc)
  then show "m = n" using first [OF assms(1)] first [OF assms(2)] by metis
qed simp

text \<open>The entries for pipes, numbered from \<open>k\<close>.\<close>

fun entries_from :: "nat \<Rightarrow> (nat \<times> int \<times> bool) list \<Rightarrow> cstring list" where
  "entries_from k [] = []"
| "entries_from k ((fd, port, writer) # ps) = (entry_name k @ 0x3D # pipe_text (int fd) port writer) # entries_from (k + 1) ps"

definition plain_env :: "cstring list \<Rightarrow> bool" where
  "plain_env es \<longleftrightarrow> (\<forall>e \<in> set es. take 20 e \<noteq> ascii ''NACL_SPAWN_FD_SETUP_'')"

lemma plain_entry:
  assumes "take 20 e \<noteq> ascii ''NACL_SPAWN_FD_SETUP_''"
  shows "take (Suc (length (entry_name k))) e \<noteq> entry_name k @ [0x3D]"
proof
  assume e: "take (Suc (length (entry_name k))) e = entry_name k @ [0x3D]"
  have len: "length (ascii ''NACL_SPAWN_FD_SETUP_'') = 20" by code_simp
  have "take 20 e = take 20 (take (Suc (length (entry_name k))) e)" by (simp add: entry_name_def len)
  also have "\<dots> = ascii ''NACL_SPAWN_FD_SETUP_''" unfolding e by (simp add: entry_name_def len)
  finally show False using assms by simp
qed

lemma getenv_plain: "plain_env es \<Longrightarrow> getenv (es @ fs) (entry_name k) = getenv fs (entry_name k)"
  by (induction es) (auto simp: plain_env_def plain_entry)

lemma unsetenv_plain: "plain_env es \<Longrightarrow> unsetenv (entry_name k) es = es"
  by (simp add: unsetenv_def filter_id_conv plain_env_def plain_entry)

lemma entry_matches:
  "(take (length (entry_name k) + 1) (entry_name l @ 0x3D # v) = entry_name k @ [0x3D]) \<longleftrightarrow> k = l"
  using names_of [OF entry_name_no_equals entry_name_no_equals] entry_name_inj by auto

lemma getenv_other: "k < l \<Longrightarrow> getenv (entries_from l ps) (entry_name k) = None"
  by (induction l ps rule: entries_from.induct) (simp_all add: entry_matches [simplified])

lemma unsetenv_other: "k < l \<Longrightarrow> unsetenv (entry_name k) (entries_from l ps) = entries_from l ps"
  by (induction l ps rule: entries_from.induct) (simp_all add: unsetenv_def entry_matches [simplified])

section \<open>The pipes of a process\<close>

definition fifo :: "int \<Rightarrow> bool \<Rightarrow> fd_entry" where
  "fifo port writer = \<lparr>refers_to = Fifo port writer, cloexec = False\<rparr>"

lemma fifo_inject [simp]: "fifo p w = fifo q v \<longleftrightarrow> p = q \<and> w = v"
  by (auto simp: fifo_def)

fun inherited :: "fd_entry option \<Rightarrow> (int \<times> bool) option" where
  "inherited None = None"
| "inherited (Some e) = (if cloexec e then None else case refers_to e of Fifo p w \<Rightarrow> Some (p, w) | Other_file m \<Rightarrow> None)"

lemma inherited_Some: "inherited x = Some (p, w) \<longleftrightarrow> x = Some (fifo p w)"
  by (cases x) (auto simp: fifo_def split: fd_file.split)

fun pipes_of :: "fds \<Rightarrow> nat list \<Rightarrow> (nat \<times> int \<times> bool) list" where
  "pipes_of t [] = []"
| "pipes_of t (fd # rest) =
     (case inherited (t fd) of None \<Rightarrow> pipes_of t rest | Some (p, w) \<Rightarrow> (fd, p, w) # pipes_of t rest)"

lemma clone_fds_entries: "clone_fds t rest k envs = envs @ map PP_String (entries_from k (pipes_of t rest))"
  by (induction rest arbitrary: k envs) (auto simp: array_appendstring split: option.splits fd_file.splits)

lemma pipes_of_set: "(fd, p, w) \<in> set (pipes_of t rest) \<longleftrightarrow> fd \<in> set rest \<and> t fd = Some (fifo p w)"
proof (induction rest)
  case (Cons f rest)
  show ?case
  proof (cases "inherited (t f)")
    case None
    then have "t f \<noteq> Some (fifo p w)" by (metis inherited_Some option.distinct(1))
    with Cons None show ?thesis by auto
  next
    case (Some x)
    obtain q v where "x = (q, v)" by fastforce
    with Some have "t f = Some (fifo q v)" by (simp add: inherited_Some)
    with Cons Some \<open>x = (q, v)\<close> show ?thesis by auto
  qed
qed simp

lemma pipes_of_fds: "fst ` set (pipes_of t rest) \<subseteq> set rest"
  by (auto simp: pipes_of_set)

lemma pipes_of_distinct: "distinct rest \<Longrightarrow> distinct (map fst (pipes_of t rest))"
  by (induction rest) (use pipes_of_fds in \<open>fastforce split: option.splits\<close>)+

section \<open>Opening them again\<close>

text \<open>The table after some pipes, and what is known of the pipes that were opened.\<close>

definition with_pipes :: "(nat \<times> int \<times> bool) list \<Rightarrow> fds \<Rightarrow> fds" where
  "with_pipes ps t = fold (\<lambda>(fd, p, w) t. t(fd := Some (fifo p w))) ps t"

lemma with_pipes_snoc: "with_pipes (ps @ [(fd, p, w)]) t = (with_pipes ps t)(fd := Some (fifo p w))"
  by (simp add: with_pipes_def)

lemma with_pipes_other: "fd \<notin> fst ` set ps \<Longrightarrow> with_pipes ps t fd = t fd"
  by (induction ps rule: rev_induct) (auto simp: with_pipes_snoc, simp add: with_pipes_def)

lemma with_pipes_at: "distinct (map fst ps) \<Longrightarrow> (fd, p, w) \<in> set ps \<Longrightarrow> with_pipes ps t fd = Some (fifo p w)"
proof (induction ps rule: rev_induct)
  case (snoc x ps)
  obtain f q v where x: "x = (f, q, v)" using prod_cases3 by blast
  show ?case using snoc by (auto simp: x with_pipes_snoc rev_image_eqI)
qed simp

definition writer_int :: "bool \<Rightarrow> int" where
  "writer_int w = (if w then 1 else 0)"

lemma writer_int_simps [simp]: "writer_int w \<noteq> 0 \<longleftrightarrow> w" "writer_int w = writer_int v \<longleftrightarrow> w = v" "writer_int w = 0 \<longleftrightarrow> \<not> w"
  by (auto simp: writer_int_def)

definition pipe_key :: "nat \<times> int \<times> bool \<Rightarrow> int \<times> int" where
  "pipe_key x = (case x of (fd, p, w) \<Rightarrow> (p, writer_int w))"

definition old_key :: "int \<times> int \<times> nat \<Rightarrow> int \<times> int" where
  "old_key x = (case x of (p, w, fd) \<Rightarrow> (p, w))"

definition olds_ok :: "(nat \<times> int \<times> bool) list \<Rightarrow> (int \<times> int \<times> nat) list \<Rightarrow> bool" where
  "olds_ok ps old \<longleftrightarrow>
     distinct (map old_key old) \<and> old_key ` set old = pipe_key ` set ps \<and> (\<forall>(p, w, fd) \<in> set old. (fd, p, w \<noteq> 0) \<in> set ps)"

lemma find_old_None: "find_old old p w = None \<longleftrightarrow> (p, w) \<notin> old_key ` set old"
  by (induction old p w rule: find_old.induct) (auto simp: old_key_def)

lemma find_old_Some: "find_old old p w = Some fd \<Longrightarrow> (p, w, fd) \<in> set old"
  by (induction old p w rule: find_old.induct) (auto split: if_splits)

lemma lowest_free_Some: "lowest_free fd n t = Some f \<Longrightarrow> t f = None"
  by (induction fd n t rule: lowest_free.induct) (auto split: if_splits)

lemma lowest_free_None: "lowest_free fd n t = None \<Longrightarrow> fd \<le> f \<Longrightarrow> f < fd + n \<Longrightarrow> t f \<noteq> None"
proof (induction fd n t rule: lowest_free.induct)
  case (2 fd n t)
  then show ?case by (cases "f = fd") (auto split: if_splits)
qed simp

lemma restore_pipe_step:
  assumes ok: "olds_ok ps old" "distinct (map fst ps)" "fd \<notin> fst ` set ps" and small: "card (pipe_key ` set (ps @ [(fd, p, w)])) \<le> MAX_OLD_PIPES"
    and "openable p w" and free: "with_pipes ps t f = None" "f < 2 * MAX_FILE_DESCRIPTOR"
  obtains old' where
    "restore_pipe openable (int fd) p (writer_int w) (with_pipes ps t, old) = Some (with_pipes (ps @ [(fd, p, w)]) t, old')"
    "olds_ok (ps @ [(fd, p, w)]) old'"
proof (cases "find_old old p (writer_int w)")
  case (Some old_fd)
  then have "(old_fd, p, w) \<in> set ps" using ok(1) by (auto simp: olds_ok_def dest!: find_old_Some)
  then have "with_pipes ps t old_fd = Some (fifo p w)" "old_fd \<noteq> fd"
    using with_pipes_at [OF ok(2)] ok(3) by (auto simp: rev_image_eqI)
  then have "restore_pipe openable (int fd) p (writer_int w) (with_pipes ps t, old) = Some (with_pipes (ps @ [(fd, p, w)]) t, old)"
    using Some by (simp add: restore_pipe_def dup2_def ignore_def with_pipes_snoc fifo_def)
  moreover have "pipe_key (fd, p, w) \<in> pipe_key ` set ps"
    using \<open>(old_fd, p, w) \<in> set ps\<close> by (force simp: pipe_key_def)
  then have "olds_ok (ps @ [(fd, p, w)]) old" using ok(1) by (auto simp: olds_ok_def)
  ultimately show ?thesis by (rule that)
next
  case None
  then have new: "pipe_key (fd, p, w) \<notin> pipe_key ` set ps"
    using ok(1) by (simp add: find_old_None olds_ok_def) (simp add: pipe_key_def)
  have "length old = card (old_key ` set old)"
    using distinct_card [of "map old_key old"] ok(1) by (simp add: olds_ok_def)
  also have "\<dots> < card (pipe_key ` set (ps @ [(fd, p, w)]))"
    using ok(1) new by (simp add: olds_ok_def)
  finally have len: "length old < MAX_OLD_PIPES" using small by simp
  obtain tmp where tmp: "lowest_free 0 (2 * MAX_FILE_DESCRIPTOR) (with_pipes ps t) = Some tmp"
    using lowest_free_None [of 0 "2 * MAX_FILE_DESCRIPTOR" "with_pipes ps t" f] free by fastforce
  note tmp_free = lowest_free_Some [OF tmp]
  have "restore_pipe openable (int fd) p (writer_int w) (with_pipes ps t, old) =
      Some (with_pipes (ps @ [(fd, p, w)]) t, old @ [(p, writer_int w, fd)])"
  proof (cases "tmp = fd")
    case True
    with None tmp len assms(5) show ?thesis by (simp add: restore_pipe_def with_pipes_snoc fifo_def)
  next
    case False
    have "(with_pipes ps t)(tmp := Some (fifo p w), fd := Some (fifo p w), tmp := None) = (with_pipes ps t)(fd := Some (fifo p w))"
      using tmp_free False by auto
    with None tmp len assms(5) False show ?thesis
      by (simp add: restore_pipe_def with_pipes_snoc dup2_def close_def ignore_def fifo_def Let_def)
  qed
  moreover have "olds_ok (ps @ [(fd, p, w)]) (old @ [(p, writer_int w, fd)])"
    using ok(1) new by (auto simp: olds_ok_def pipe_key_def old_key_def)
  ultimately show ?thesis by (rule that)
qed

lemma restore_pipe_known:
  assumes "olds_ok ps old" "pipe_key (fd, p, w) \<in> pipe_key ` set ps" "\<forall>(fd, p, w) \<in> set ps. openable p w"
  shows "openable p w" "pipe_key ` set (ps @ [(fd, p, w)]) = pipe_key ` set ps"
proof -
  obtain fd' p' w' where "(fd', p', w') \<in> set ps" "pipe_key (fd', p', w') = pipe_key (fd, p, w)" using assms(2) by force
  then show "openable p w" using assms(3) by (auto simp: pipe_key_def writer_int_def split: if_splits)
  show "pipe_key ` set (ps @ [(fd, p, w)]) = pipe_key ` set ps" using assms(2) by auto
qed

text \<open>A pipe that cannot be opened, or one too many, ends the work.\<close>

lemma restore_pipe_fails:
  assumes "olds_ok ps old" "pipe_key (fd, p, w) \<notin> pipe_key ` set ps"
    "\<not> openable p w \<or> MAX_OLD_PIPES \<le> card (pipe_key ` set ps)"
  shows "restore_pipe openable (int fd) p (writer_int w) (s, old) = None"
proof -
  have "find_old old p (writer_int w) = None"
    using assms(1,2) by (simp add: find_old_None olds_ok_def) (simp add: pipe_key_def)
  moreover have "length old = card (pipe_key ` set ps)"
    using distinct_card [of "map old_key old"] assms(1) by (simp add: olds_ok_def)
  ultimately show ?thesis using assms(3) by (auto simp: restore_pipe_def Let_def split: option.split)
qed

text \<open>Which pipes can be restored.\<close>

definition restorable :: "(int \<Rightarrow> bool \<Rightarrow> bool) \<Rightarrow> (nat \<times> int \<times> bool) list \<Rightarrow> bool" where
  "restorable openable ps \<longleftrightarrow> (\<forall>(fd, p, w) \<in> set ps. openable p w) \<and> card (pipe_key ` set ps) \<le> MAX_OLD_PIPES"

lemma restorable_prefix: "restorable openable (ps @ qs) \<Longrightarrow> restorable openable ps"
  using card_mono [of "pipe_key ` set (ps @ qs)" "pipe_key ` set ps", OF _ image_mono] unfolding restorable_def by auto

lemma restore_loop_pipes:
  "plain_env base \<Longrightarrow> olds_ok done_pipes old \<Longrightarrow> distinct (map fst (done_pipes @ ps)) \<Longrightarrow>
     \<forall>(fd, p, w) \<in> set (done_pipes @ ps). fd < MAX_FILE_DESCRIPTOR \<Longrightarrow>
     restorable openable done_pipes \<Longrightarrow> t MAX_FILE_DESCRIPTOR = None \<Longrightarrow>
     restore_loop openable k (base @ entries_from k ps) (with_pipes done_pipes t, old) =
       (if restorable openable (done_pipes @ ps) then Some (with_pipes (done_pipes @ ps) t, base) else None)"
proof (induction ps arbitrary: done_pipes k old)
  case Nil
  then show ?case using getenv_plain [of base "[]" k] by (simp add: restore_loop.simps)
next
  case (Cons x ps)
  obtain fd p w where x: "x = (fd, p, w)" using prod_cases3 by blast
  let ?done = "done_pipes @ [(fd, p, w)]"
  have get: "getenv (base @ entries_from k (x # ps)) (entry_name k) = Some (pipe_text (int fd) p w)"
    using Cons.prems(1) by (simp add: getenv_plain x entry_matches [simplified])
  have unset: "unsetenv (entry_name k) (base @ entries_from k (x # ps)) = base @ entries_from (k + 1) ps"
    using unsetenv_plain [OF Cons.prems(1), of k] unsetenv_other [of k "k + 1" ps]
    by (simp add: x unsetenv_def entry_matches [simplified])
  note loop = restore_loop.simps [of openable k "base @ entries_from k (x # ps)", unfolded get unset]
  show ?case
  proof (cases "restorable openable ?done")
    case True
    then have ok: "openable p w" "card (pipe_key ` set ?done) \<le> MAX_OLD_PIPES" by (auto simp: restorable_def)
    have "with_pipes done_pipes t MAX_FILE_DESCRIPTOR = None"
      using Cons.prems(4,6) by (subst with_pipes_other) auto
    moreover have "MAX_FILE_DESCRIPTOR < 2 * MAX_FILE_DESCRIPTOR" by (simp add: MAX_FILE_DESCRIPTOR_def)
    moreover have "distinct (map fst done_pipes)" "fd \<notin> fst ` set done_pipes"
      using Cons.prems(3) by (auto simp: x)
    ultimately obtain old' where
      step: "restore_pipe openable (int fd) p (writer_int w) (with_pipes done_pipes t, old) = Some (with_pipes ?done t, old')"
      and old': "olds_ok ?done old'"
      using restore_pipe_step [where openable = openable, OF Cons.prems(2) _ _ ok(2,1), of t MAX_FILE_DESCRIPTOR] by blast
    have "restore_loop openable (k + 1) (base @ entries_from (k + 1) ps) (with_pipes ?done t, old') =
        (if restorable openable (?done @ ps) then Some (with_pipes (?done @ ps) t, base) else None)"
      by (rule Cons.IH [OF Cons.prems(1) old' _ _ True Cons.prems(6)]) (use Cons.prems(3,4) in \<open>auto simp: x\<close>)
    with step show ?thesis unfolding loop by (simp add: scan_pipe_text x flip: writer_int_def)
  next
    case False
    then have "\<not> restorable openable (done_pipes @ x # ps)"
      using restorable_prefix [of openable ?done ps] by (auto simp: x)
    moreover have new: "pipe_key (fd, p, w) \<notin> pipe_key ` set done_pipes"
    proof
      assume "pipe_key (fd, p, w) \<in> pipe_key ` set done_pipes"
      then have "restorable openable ?done"
        using restore_pipe_known [OF Cons.prems(2), of fd p w openable] Cons.prems(5) by (auto simp: restorable_def)
      with False show False ..
    qed
    then have "card (pipe_key ` set ?done) = Suc (card (pipe_key ` set done_pipes))" by simp
    then have "\<not> openable p w \<or> MAX_OLD_PIPES \<le> card (pipe_key ` set done_pipes)"
      using False Cons.prems(5) by (auto simp: restorable_def)
    from restore_pipe_fails [where openable = openable, OF Cons.prems(2) new this, of "with_pipes done_pipes t"]
    have "restore_pipe openable (int fd) p (writer_int w) (with_pipes done_pipes t, old) = None" .
    ultimately show ?thesis unfolding loop by (simp add: scan_pipe_text flip: writer_int_def)
  qed
qed


section \<open>Descriptors after vfork\<close>

abbreviation plain_copy :: "fd_entry option \<Rightarrow> fd_entry option" where
  "plain_copy \<equiv> map_option (\<lambda>e. e\<lparr>cloexec := False\<rparr>)"

lemma stash_upto:
  assumes "n \<le> MAX_FILE_DESCRIPTOR"
  shows "fold stash_fd [0..<n] t fd =
    (if MAX_FILE_DESCRIPTOR \<le> fd \<and> fd < MAX_FILE_DESCRIPTOR + n \<and> t (fd - MAX_FILE_DESCRIPTOR) \<noteq> None
     then plain_copy (t (fd - MAX_FILE_DESCRIPTOR)) else t fd)"
  using assms
proof (induction n arbitrary: fd)
  case (Suc n)
  define s where "s = fold stash_fd [0..<n] t"
  have s: "s fd = (if MAX_FILE_DESCRIPTOR \<le> fd \<and> fd < MAX_FILE_DESCRIPTOR + n \<and> t (fd - MAX_FILE_DESCRIPTOR) \<noteq> None
     then plain_copy (t (fd - MAX_FILE_DESCRIPTOR)) else t fd)" for fd
    unfolding s_def by (rule Suc.IH) (use Suc.prems in simp)
  have "s n = t n" using Suc.prems by (simp add: s)
  then have "stash_fd n s fd = (if fd = n + MAX_FILE_DESCRIPTOR \<and> t n \<noteq> None then plain_copy (t n) else s fd)"
    using Suc.prems by (cases "t n") (auto simp: stash_fd_def dup2_def ignore_def)
  moreover have "fold stash_fd [0..<Suc n] t = stash_fd n s" by (simp add: s_def)
  ultimately show ?case
    using s [of fd] by (cases "fd = n + MAX_FILE_DESCRIPTOR") auto
qed auto

lemma unstash_upto:
  assumes "n \<le> MAX_FILE_DESCRIPTOR"
  shows "fold unstash_fd [0..<n] t fd =
    (if fd < n \<and> t (fd + MAX_FILE_DESCRIPTOR) \<noteq> None then plain_copy (t (fd + MAX_FILE_DESCRIPTOR))
     else if MAX_FILE_DESCRIPTOR \<le> fd \<and> fd < MAX_FILE_DESCRIPTOR + n then None else t fd)"
  using assms
proof (induction n arbitrary: fd)
  case (Suc n)
  define s where "s = fold unstash_fd [0..<n] t"
  have s: "s fd = (if fd < n \<and> t (fd + MAX_FILE_DESCRIPTOR) \<noteq> None then plain_copy (t (fd + MAX_FILE_DESCRIPTOR))
     else if MAX_FILE_DESCRIPTOR \<le> fd \<and> fd < MAX_FILE_DESCRIPTOR + n then None else t fd)" for fd
    unfolding s_def by (rule Suc.IH) (use Suc.prems in simp)
  have "s (n + MAX_FILE_DESCRIPTOR) = t (n + MAX_FILE_DESCRIPTOR)" using Suc.prems by (simp add: s)
  then have "unstash_fd n s fd =
      (if t (n + MAX_FILE_DESCRIPTOR) = None then s fd
       else if fd = n then plain_copy (t (n + MAX_FILE_DESCRIPTOR)) else if fd = n + MAX_FILE_DESCRIPTOR then None else s fd)"
    using Suc.prems by (cases "t (n + MAX_FILE_DESCRIPTOR)") (auto simp: unstash_fd_def dup2_def close_def ignore_def)
  moreover have "fold unstash_fd [0..<Suc n] t = unstash_fd n s" by (simp add: s_def)
  ultimately show ?case
    using s [of fd] Suc.prems by (auto simp: less_Suc_eq add.commute)
qed auto

lemma descriptors_after:
  "unstash_file_descriptors t fd =
    (if fd < MAX_FILE_DESCRIPTOR then (case t (fd + MAX_FILE_DESCRIPTOR) of Some e \<Rightarrow> Some (e\<lparr>cloexec := False\<rparr>) | None \<Rightarrow> t fd)
     else if fd < 2 * MAX_FILE_DESCRIPTOR then None else t fd)"
  using unstash_upto [OF order_refl, of t, folded unstash_file_descriptors_def] by (auto split: option.split)

lemma descriptors_stashed:
  "stash_file_descriptors t fd =
    (if MAX_FILE_DESCRIPTOR \<le> fd \<and> fd < 2 * MAX_FILE_DESCRIPTOR \<and> t (fd - MAX_FILE_DESCRIPTOR) \<noteq> None
     then plain_copy (t (fd - MAX_FILE_DESCRIPTOR)) else t fd)"
  using stash_upto [OF order_refl, of t, folded stash_file_descriptors_def] by (simp add: mult_2)

section \<open>Examples\<close>

definition example_fds :: fds where
  "example_fds = [0 \<mapsto> fifo 3 False, 1 \<mapsto> fifo 4 True, 2 \<mapsto> \<lparr>refers_to = Fifo 9 True, cloexec = True\<rparr>, 7 \<mapsto> fifo 4 True]"

lemma example_pipes: "pipes_of example_fds [0..<MAX_FILE_DESCRIPTOR] = [(0, 3, False), (1, 4, True), (7, 4, True)]"
proof -
  have none: "\<forall>fd \<in> set xs. 7 < fd \<Longrightarrow> pipes_of example_fds xs = []" for xs
    by (induction xs) (auto simp: example_fds_def)
  have append: "pipes_of t (a @ b) = pipes_of t a @ pipes_of t b" for t a b by (induction a) (auto split: option.split)
  have "[0..<MAX_FILE_DESCRIPTOR] = [0..<8] @ [8..<MAX_FILE_DESCRIPTOR]"
    using upt_add_eq_append [of 0 8 992] by (simp add: MAX_FILE_DESCRIPTOR_def del: upt_conv_Cons)
  moreover have "[0..<8] = [0, 1, 2, 3, 4, 5, 6, 7]" by code_simp
  ultimately show ?thesis
    using none [of "[8..<MAX_FILE_DESCRIPTOR]"] by (simp only: append) (simp add: example_fds_def fifo_def)
qed


end
