(* ===== verification/Spawn_Process_Correct.thy ===== *)
theory Spawn_Process_Correct
  imports Spawn_Process Spawn_Exec_Correct Spawn_Fds_Correct
begin

text \<open>
  What programs can rely on: a call of \<open>vfork\<close> followed by \<open>exec\<close>, errors of pipes and of spawning,
  the status of a child; and what goes wrong with null pointers and error numbers.
\<close>

section \<open>What requests leave alone\<close>

lemma set_error_sel [simp]:
  "table (set_error e p) = table p" "vforking (set_error e p) = vforking p" "errno_set (set_error e p) = Some e"
  by (simp_all add: set_error_def)

lemma send_sel: "send sys req p = (reply, p') \<Longrightarrow> table p' = table p \<and> vforking p' = vforking p"
  by (auto simp: send_def split: prod.splits)

lemma getint_sel: "getint reply key p = Inr (n, p') \<Longrightarrow> table p' = table p \<and> vforking p' = vforking p"
  by (auto simp: getint_def cres_simps split: option.splits)

lemma ask_sel: "ask sys req key p = Inr (n, p') \<Longrightarrow> table p' = table p \<and> vforking p' = vforking p"
  by (auto simp: ask_def split: prod.splits dest!: send_sel getint_sel)

lemma send_spawn_sel: "send_spawn sys overlay path argv envp p = Inr (pid, p') \<Longrightarrow> table p' = table p \<and> vforking p' = vforking p"
  by (auto simp: send_spawn_def cres_simps split: sum.splits cerror.splits if_splits dest!: ask_sel)

section \<open>vfork\<close>

lemma exec_jumps:
  assumes "spawnve_impl sys P_OVERLAY path argv envp p = Inr (Jumps, p')"
  obtains q where "spawnve_impl sys P_NOWAIT path argv envp p = Inr (Returns (vfork_pid p'), q)"
    "table p' = table p" "vforking p' = vforking p"
  using assms that
  by (auto simp: spawnve_impl_def P_OVERLAY_def P_WAIT_def P_NOWAIT_def Let_def cres_simps
      split: option.splits if_splits) (frule send_spawn_sel, simp)+


text \<open>The error number that JavaScript gives for a child that could not exit is lost.\<close>

lemma vfork_exit_errno:
  assumes "vforking p" "send sys (nspawn_dict_setint (command (ascii ''nacl_deadpid'')) (ascii ''status'') status) p = (reply, q)"
    "nspawn_dict_has_key reply (ascii ''pid'') = Some (PP_Int32 n)" "n < 0"
  shows "\<exists>p'. nacl_spawn_vfork_exit sys status p = Inr (Jumps, p') \<and> errno_set p' = Some (Number 1) \<and> vfork_pid p' = - 1"
  using assms by (simp add: nacl_spawn_vfork_exit_def getint_def nspawn_dict_getint_def)

section \<open>Errors\<close>

text \<open>Whatever keeps a program from being described, spawning it leaves \<open>ENOENT\<close>.\<close>

lemma spawn_errno:
  assumes "AddNmfToRequest (host_of sys) path (spawn_base sys overlay argv envp p) = Inl (Errno e)"
  shows "send_spawn sys overlay path argv envp p = Inr (- 1, set_error (Named ENOENT) p)"
  using assms by (simp add: send_spawn_def)

lemma wait_null_faults:
  assumes "send sys (nspawn_dict_setint (nspawn_dict_setint (command (ascii ''nacl_wait'')) (ascii ''pid'') (- 1)) (ascii ''options'') 0) p = (reply, q)"
    "nspawn_dict_has_key reply (ascii ''pid'') = Some (PP_Int32 pid)" "nspawn_dict_has_key reply (ascii ''status'') = Some (PP_Int32 s)"
  shows "wait_any sys True p = Inl Fault"
  using assms by (simp add: wait_any_def waitpid_impl_def getint_def nspawn_dict_getint_def)

lemma open_apipe_cases:
  assumes "open_apipe sys port writer t = (fd, t')"
  shows "fd = None \<and> t' = t \<or> (\<exists>n. fd = Some n \<and> t n = None \<and> t' = t(n := Some (fifo port writer)))"
proof (cases "lowest_free 0 (2 * MAX_FILE_DESCRIPTOR) t")
  case (Some n)
  show ?thesis
  proof (cases "pipe_opens sys port writer")
    case True
    with assms Some have "fd = Some n" "t' = t(n := Some (fifo port writer))" by (auto simp: open_apipe_def fifo_def)
    with lowest_free_Some [OF Some] show ?thesis by blast
  qed (use assms in \<open>simp add: open_apipe_def\<close>)
qed (use assms in \<open>auto simp: open_apipe_def split: if_splits\<close>)

text \<open>A failed call opens nothing; a successful one opens the two ends of one pipe.\<close>

theorem pipe_no_leak:
  assumes "nacl_spawn_pipe2 sys null supported p = Inr (r, ends, q)"
  shows "case ends of
      None \<Rightarrow> r = - 1 \<and> table q = table p
    | Some (rd, wr) \<Rightarrow> r = 0 \<and> table p rd = None \<and> table p wr = None \<and> rd \<noteq> wr \<and>
        (\<exists>port. table q = (table p)(rd := Some (fifo port False), wr := Some (fifo port True)))"
proof (cases null)
  case True
  with assms show ?thesis by (auto simp: nacl_spawn_pipe2_def)
next
  case False
  with assms obtain id p1 where ask: "ask sys (command (ascii ''nacl_apipe'')) (ascii ''pipe_id'') p = Inr (id, p1)" and "supported"
    by (auto simp: nacl_spawn_pipe2_def cres_simps split: if_splits)
  let ?t = "table p"
  have t: "table p1 = ?t" using ask_sel [OF ask] by simp
  obtain rd t1 where rd: "open_apipe sys id False ?t = (rd, t1)" by fastforce
  obtain wr t2 where wr: "open_apipe sys id True t1 = (wr, t2)" by fastforce
  have rd_cases: "rd = None \<and> t1 = ?t \<or> (\<exists>n. rd = Some n \<and> ?t n = None \<and> t1 = ?t(n := Some (fifo id False)))"
    by (rule open_apipe_cases [OF rd])
  have wr_cases: "wr = None \<and> t2 = t1 \<or> (\<exists>n. wr = Some n \<and> t1 n = None \<and> t2 = t1(n := Some (fifo id True)))"
    by (rule open_apipe_cases [OF wr])
  have q: "nacl_spawn_pipe2 sys null supported p =
      (case (rd, wr) of (Some r, Some w) \<Rightarrow> Inr (0, Some (r, w), p1\<lparr>table := t2\<rparr>)
       | _ \<Rightarrow> Inr (- 1, None, p1\<lparr>table := close_opened wr (close_opened rd t2)\<rparr>))"
    using False \<open>supported\<close> by (simp add: nacl_spawn_pipe2_def ask t rd wr)
  have free: "?t(n := None) = ?t" if "?t n = None" for n using that by auto
  show ?thesis
  proof (cases "\<exists>a b. rd = Some a \<and> wr = Some b")
    case True
    then obtain a b where "rd = Some a" "wr = Some b" by blast
    with assms q rd_cases wr_cases show ?thesis by (auto split: if_splits)
  next
    case False
    then have "close_opened wr (close_opened rd t2) = ?t"
      using rd_cases wr_cases free by (auto simp: close_opened_def close_def ignore_def)
    moreover have "Inr (r, ends, q) = (Inr (- 1, None, p1\<lparr>table := close_opened wr (close_opened rd t2)\<rparr>) :: (int \<times> (nat \<times> nat) option \<times> process) cres)"
      using assms q False by (auto split: option.splits)
    ultimately show ?thesis by simp
  qed
qed

section \<open>Examples\<close>

definition example_process :: process where
  "example_process = \<lparr>table = [0 \<mapsto> fifo 3 False, 2 \<mapsto> \<lparr>refers_to = Fifo 9 True, cloexec = True\<rparr>], vforking = False, vfork_pid = - 1,
     requests = \<lparr>checked_for_nacl_process = True, req_id = 0\<rparr>, errno_set = None, nspawn_pid = - 1, nspawn_ppid = - 1\<rparr>"

definition example_system :: system where
  "example_system = \<lparr>host_of = example_host, js = (\<lambda>req. PP_Dict [(ascii ''pid'', PP_Int32 7), (ascii ''pipe_id'', PP_Int32 5)]),
     naclprocess = True, environ = [], pipe_opens = (\<lambda>port writer. \<not> writer), irt_getpid = None\<rparr>"


theorem pipe_no_leak_witness:
  "case nacl_spawn_pipe2 example_system False True example_process of
     Inl e \<Rightarrow> False | Inr (r, ends, q) \<Rightarrow> r = - 1 \<and> ends = None \<and> table q = table example_process"
proof -
  have "case nacl_spawn_pipe2 example_system False True example_process of Inl e \<Rightarrow> False | Inr (r, ends, q) \<Rightarrow> ends = None"
    by code_simp
  then obtain r q where run: "nacl_spawn_pipe2 example_system False True example_process = Inr (r, None, q)"
    by (auto split: sum.splits prod.splits)
  from pipe_no_leak [OF run] show ?thesis by (simp add: run)
qed

end
