(* ===== verification/Fts.thy ===== *)
theory Fts
  imports Spawn_Paths
begin

text \<open>
  \<open>fts.c\<close> of glibc-compat: the walk of a file hierarchy, for a Native Client build (no white-outs, no
  \<open>statfs\<close>).  The links of the nodes are lists: \<open>fts_nodes\<close> holds the current node with the nodes after it on
  its level, then its parent with those after it, up to a root; the nodes that were freed are gone from it.  The
  list of children read ahead is \<open>Freed\<close> when the code keeps a pointer to it after freeing it.  The buffer of the
  path is the array of its bytes; \<open>fts_buffer\<close> numbers the buffers, so that a pointer into one that
  \<open>realloc\<close> moved is seen to be stale.  The fields that \<open>fts_alloc\<close> leaves unset are zero.
\<close>

section \<open>Data\<close>

datatype file_mode = S_DIR | S_LNK | S_REG | S_OTHER

record fts_statbuf =
  st_mode :: file_mode
  st_dev :: nat
  st_ino :: nat
  st_nlink :: int

datatype fts_info =
    FTS_D | FTS_DC | FTS_DEFAULT | FTS_DNR | FTS_DOT | FTS_DP | FTS_ERR | FTS_F
  | FTS_INIT | FTS_NS | FTS_NSOK | FTS_SL | FTS_SLNONE

definition FTS_COMFOLLOW :: u32 where "FTS_COMFOLLOW = 0x001"
definition FTS_LOGICAL :: u32 where "FTS_LOGICAL = 0x002"
definition FTS_NOCHDIR :: u32 where "FTS_NOCHDIR = 0x004"
definition FTS_NOSTAT :: u32 where "FTS_NOSTAT = 0x008"
definition FTS_PHYSICAL :: u32 where "FTS_PHYSICAL = 0x010"
definition FTS_SEEDOT :: u32 where "FTS_SEEDOT = 0x020"
definition FTS_XDEV :: u32 where "FTS_XDEV = 0x040"
definition FTS_OPTIONMASK :: u32 where "FTS_OPTIONMASK = 0x0ff"
definition FTS_NAMEONLY :: u32 where "FTS_NAMEONLY = 0x100"
definition FTS_STOP :: u32 where "FTS_STOP = 0x200"

lemmas fts_option_defs =
  FTS_COMFOLLOW_def FTS_LOGICAL_def FTS_NOCHDIR_def FTS_NOSTAT_def FTS_PHYSICAL_def FTS_SEEDOT_def
  FTS_XDEV_def FTS_OPTIONMASK_def FTS_NAMEONLY_def FTS_STOP_def

definition FTS_AGAIN :: int where "FTS_AGAIN = 1"
definition FTS_FOLLOW :: int where "FTS_FOLLOW = 2"
definition FTS_NOINSTR :: int where "FTS_NOINSTR = 3"
definition FTS_SKIP :: int where "FTS_SKIP = 4"

text \<open>
  \<open>fts_accpath\<close> points to the name of the node, to the name of its parent, to the beginning of a path buffer,
  or, after \<open>fts_padjust\<close> has moved a pointer that was not into the buffer, nowhere.
\<close>

datatype access = Acc_name | Acc_parent cstring | Acc_path nat | Acc_wild

record ftsent =
  ent_name :: cstring
  ent_info :: fts_info
  ent_accpath :: access
  ent_path :: nat
  ent_level :: int
  ent_pathlen :: nat
  ent_errno :: "errno option"
  ent_instr :: int
  ent_symfd :: int
  ent_dev :: nat
  ent_ino :: nat
  ent_nlink :: int
  ent_cycle :: "nat option"
  ent_dontchdir :: bool
  ent_symfollow :: bool
  ent_statp :: "fts_statbuf option"

datatype child_list = Children "ftsent list" | Freed

record fts =
  fts_nodes :: "(ftsent \<times> ftsent list) list"
  fts_child :: child_list
  fts_dev :: nat
  fts_path :: "u8 list"
  fts_buffer :: nat
  fts_rfd :: int
  fts_nitems :: nat
  fts_compar :: "(ftsent \<Rightarrow> ftsent \<Rightarrow> int) option"
  fts_options :: u32
  fts_clientptr :: nat

text \<open>
  The system: \<open>dir_open\<close> is \<open>opendir\<close> with the descriptor and the entries that \<open>readdir\<close> will give, with
  their types; \<open>grow\<close> is \<open>reallocf\<close> of the path, which fails or tells whether the buffer moved.
\<close>

datatype dirent_type = DT_UNKNOWN | DT_DIR | DT_OTHER

record 'w fts_calls =
  stat_file :: "'w \<Rightarrow> cstring \<Rightarrow> errno + fts_statbuf"
  lstat_file :: "'w \<Rightarrow> cstring \<Rightarrow> errno + fts_statbuf"
  fstat_file :: "'w \<Rightarrow> int \<Rightarrow> errno + fts_statbuf"
  open_dir :: "cstring \<Rightarrow> 'w \<Rightarrow> (errno + int) \<times> 'w"
  dir_open :: "cstring \<Rightarrow> 'w \<Rightarrow> (errno + int \<times> (cstring \<times> dirent_type) list) \<times> 'w"
  dir_close :: "int \<Rightarrow> 'w \<Rightarrow> 'w"
  change_dir :: "int \<Rightarrow> 'w \<Rightarrow> errno option \<times> 'w"
  close_fd :: "int \<Rightarrow> 'w \<Rightarrow> 'w"
  alloc_ok :: "'w \<Rightarrow> bool \<times> 'w"
  grow :: "nat \<Rightarrow> 'w \<Rightarrow> bool option \<times> 'w"
  grow_array :: "nat \<Rightarrow> 'w \<Rightarrow> bool \<times> 'w"
  sort_nodes :: "(ftsent \<Rightarrow> ftsent \<Rightarrow> int) \<Rightarrow> ftsent list \<Rightarrow> ftsent list"
  has_dt_dir :: bool
  junk :: u8
  MAXPATHLEN :: nat

section \<open>Options and the path\<close>

definition isset :: "fts \<Rightarrow> u32 \<Rightarrow> bool" where
  "isset sp opt \<longleftrightarrow> fts_options sp AND opt \<noteq> 0"

definition SET :: "u32 \<Rightarrow> fts \<Rightarrow> fts" where
  "SET opt sp = sp\<lparr>fts_options := fts_options sp OR opt\<rparr>"

definition CLR :: "u32 \<Rightarrow> fts \<Rightarrow> fts" where
  "CLR opt sp = sp\<lparr>fts_options := fts_options sp AND NOT opt\<rparr>"

definition is_dot :: "cstring \<Rightarrow> bool" where
  "is_dot a \<longleftrightarrow> a = [dot] \<or> a = [dot, dot]"

text \<open>Writing bytes to the buffer, and the string at its beginning.\<close>

definition put_bytes :: "nat \<Rightarrow> u8 list \<Rightarrow> fts \<Rightarrow> fts cres" where
  "put_bytes i bs sp =
     (if i + length bs \<le> length (fts_path sp)
      then Inr (sp\<lparr>fts_path := take i (fts_path sp) @ bs @ drop (i + length bs) (fts_path sp)\<rparr>)
      else Inl Fault)"

definition path_string :: "fts \<Rightarrow> cstring cres" where
  "path_string sp = (if 0 \<in> set (fts_path sp) then Inr (takeWhile (\<lambda>b. b \<noteq> 0) (fts_path sp)) else Inl Fault)"

definition access_string :: "fts \<Rightarrow> ftsent \<Rightarrow> cstring cres" where
  "access_string sp p =
     (case ent_accpath p of
        Acc_name \<Rightarrow> Inr (ent_name p)
      | Acc_parent s \<Rightarrow> Inr s
      | Acc_path g \<Rightarrow> if g = fts_buffer sp then path_string sp else Inl Fault
      | Acc_wild \<Rightarrow> Inl Fault)"

text \<open>The macro \<open>NAPPEND\<close>: where a slash and a name are appended to the path of a node.\<close>

definition NAPPEND :: "fts \<Rightarrow> ftsent \<Rightarrow> nat cres" where
  "NAPPEND sp p =
     (if ent_path p \<noteq> fts_buffer sp \<or> ent_pathlen p = 0 \<or> ent_pathlen p > length (fts_path sp) then Inl Fault
      else Inr (if fts_path sp ! (ent_pathlen p - 1) = slash then ent_pathlen p - 1 else ent_pathlen p))"

section \<open>Memory\<close>

definition fts_alloc :: "fts \<Rightarrow> cstring \<Rightarrow> ftsent" where
  "fts_alloc sp name =
     \<lparr>ent_name = name, ent_info = FTS_INIT, ent_accpath = Acc_wild, ent_path = fts_buffer sp,
      ent_level = 0, ent_pathlen = 0, ent_errno = None, ent_instr = FTS_NOINSTR, ent_symfd = 0,
      ent_dev = 0, ent_ino = 0, ent_nlink = 0, ent_cycle = None, ent_dontchdir = False,
      ent_symfollow = False, ent_statp = None\<rparr>"

text \<open>Whether there is memory for the path; the bytes added are whatever they are.\<close>

definition fts_palloc :: "'w fts_calls \<Rightarrow> fts \<Rightarrow> nat \<Rightarrow> 'w \<Rightarrow> bool \<times> fts \<times> 'w" where
  "fts_palloc c sp extra w =
     (case grow c (length (fts_path sp) + extra + 256) w of
        (None, w') \<Rightarrow> (False, sp\<lparr>fts_path := [], fts_buffer := fts_buffer sp + 1\<rparr>, w')
      | (Some moved, w') \<Rightarrow>
          (True, sp\<lparr>fts_path := fts_path sp @ replicate (extra + 256) (junk c),
             fts_buffer := (if moved then fts_buffer sp + 1 else fts_buffer sp)\<rparr>, w'))"

definition fts_maxarglen :: "cstring list \<Rightarrow> nat" where
  "fts_maxarglen argv = foldl (\<lambda>m a. if length a > m then length a else m) 0 argv + 1"

definition adjust :: "nat \<Rightarrow> ftsent \<Rightarrow> ftsent" where
  "adjust addr p =
     p\<lparr>ent_accpath :=
         (case ent_accpath p of
            Acc_name \<Rightarrow> Acc_name
          | Acc_path g \<Rightarrow> if g = ent_path p then Acc_path addr else Acc_wild
          | _ \<Rightarrow> Acc_wild),
       ent_path := addr\<rparr>"

text \<open>The children read ahead, the new list, and every node that its links and parents lead to.\<close>

definition fts_padjust :: "fts \<Rightarrow> ftsent list \<Rightarrow> (fts \<times> ftsent list) cres" where
  "fts_padjust sp head =
     (case fts_child sp of
        Freed \<Rightarrow> Inl Fault
      | Children cs \<Rightarrow>
          let adj = adjust (fts_buffer sp) in
          Inr (sp\<lparr>fts_child := Children (map adj cs),
                 fts_nodes := map (\<lambda>(p, ps). (adj p, map adj ps)) (fts_nodes sp)\<rparr>, map adj head))"

definition fts_sort :: "'w fts_calls \<Rightarrow> fts \<Rightarrow> (ftsent \<Rightarrow> ftsent \<Rightarrow> int) \<Rightarrow> ftsent list \<Rightarrow> 'w \<Rightarrow> ftsent list \<times> fts \<times> 'w" where
  "fts_sort c sp cmp head w =
     (let nitems = length head in
      if nitems > fts_nitems sp then
        case grow_array c (nitems + 40) w of
          (True, w') \<Rightarrow> (sort_nodes c cmp head, sp\<lparr>fts_nitems := nitems + 40\<rparr>, w')
        | (False, w') \<Rightarrow> (head, sp\<lparr>fts_nitems := 0\<rparr>, w')
      else (sort_nodes c cmp head, sp, w))"

section \<open>The state of a file\<close>

text \<open>The first of the parents, from the nearest, that is the same directory.\<close>

fun find_cycle :: "ftsent list \<Rightarrow> nat \<Rightarrow> nat \<Rightarrow> nat \<Rightarrow> nat option" where
  "find_cycle [] ino dev k = None"
| "find_cycle (t # ts) ino dev k =
     (if ino = ent_ino t \<and> dev = ent_dev t then Some k else find_cycle ts ino dev (k + 1))"

definition fts_classify :: "ftsent list \<Rightarrow> ftsent \<Rightarrow> fts_statbuf \<Rightarrow> ftsent" where
  "fts_classify parents p sb =
     (case st_mode sb of
        S_DIR \<Rightarrow>
          let p = p\<lparr>ent_dev := st_dev sb, ent_ino := st_ino sb, ent_nlink := st_nlink sb\<rparr> in
          if is_dot (ent_name p) then p\<lparr>ent_info := FTS_DOT\<rparr>
          else
            (case find_cycle parents (st_ino sb) (st_dev sb) 0 of
               Some k \<Rightarrow> p\<lparr>ent_cycle := Some k, ent_info := FTS_DC\<rparr>
             | None \<Rightarrow> p\<lparr>ent_info := FTS_D\<rparr>)
      | S_LNK \<Rightarrow> p\<lparr>ent_info := FTS_SL\<rparr>
      | S_REG \<Rightarrow> p\<lparr>ent_info := FTS_F\<rparr>
      | S_OTHER \<Rightarrow> p\<lparr>ent_info := FTS_DEFAULT\<rparr>)"

text \<open>The node with its new state, as the code assigns the result to \<open>fts_info\<close>.\<close>

definition fts_stat :: "'w fts_calls \<Rightarrow> fts \<Rightarrow> ftsent list \<Rightarrow> ftsent \<Rightarrow> bool \<Rightarrow> 'w \<Rightarrow> ftsent cres" where
  "fts_stat c sp parents p follow w =
     and_then (access_string sp p) (\<lambda>path.
       let keep = (\<lambda>sb p. if isset sp FTS_NOSTAT then p else p\<lparr>ent_statp := sb\<rparr>) in
       if isset sp FTS_LOGICAL \<or> follow then
         (case stat_file c w path of
            Inl e \<Rightarrow>
              (case lstat_file c w path of
                 Inr sb \<Rightarrow> Inr ((keep (Some sb) p)\<lparr>ent_info := FTS_SLNONE\<rparr>)
               | Inl e' \<Rightarrow> Inr ((keep None p)\<lparr>ent_errno := Some e, ent_info := FTS_NS\<rparr>))
          | Inr sb \<Rightarrow> Inr (fts_classify parents (keep (Some sb) p) sb))
       else
         (case lstat_file c w path of
            Inl e \<Rightarrow> Inr ((keep None p)\<lparr>ent_errno := Some e, ent_info := FTS_NS\<rparr>)
          | Inr sb \<Rightarrow> Inr (fts_classify parents (keep (Some sb) p) sb)))"

section \<open>Changing the directory\<close>

text \<open>The macro \<open>FCHDIR\<close>.\<close>

definition FCHDIR :: "'w fts_calls \<Rightarrow> fts \<Rightarrow> int \<Rightarrow> 'w \<Rightarrow> errno option \<times> 'w" where
  "FCHDIR c sp fd w = (if isset sp FTS_NOCHDIR then (None, w) else change_dir c fd w)"

text \<open>The directory is given by a descriptor or by a path; the result is the error, if any.\<close>

definition fts_safe_changedir ::
    "'w fts_calls \<Rightarrow> fts \<Rightarrow> ftsent \<Rightarrow> int + cstring \<Rightarrow> 'w \<Rightarrow> errno option \<times> 'w" where
  "fts_safe_changedir c sp p target w =
     (if isset sp FTS_NOCHDIR then (None, w)
      else
        case (case target of Inl fd \<Rightarrow> (Inr fd, w) | Inr path \<Rightarrow> open_dir c path w) of
          (Inl e, w1) \<Rightarrow> (Some e, w1)
        | (Inr newfd, w1) \<Rightarrow>
            let (ret, w2) =
                  (case fstat_file c w1 newfd of
                     Inl e \<Rightarrow> (Some e, w1)
                   | Inr sb \<Rightarrow>
                       if ent_dev p \<noteq> st_dev sb \<or> ent_ino p \<noteq> st_ino sb then (Some ENOENT, w1)
                       else change_dir c newfd w1) in
            (ret, case target of Inl fd \<Rightarrow> w2 | Inr path \<Rightarrow> close_fd c newfd w2))"

section \<open>Reading a directory\<close>

definition current :: "fts \<Rightarrow> ftsent" where
  "current sp = fst (hd (fts_nodes sp))"

definition parents_of :: "fts \<Rightarrow> ftsent list" where
  "parents_of sp = map fst (tl (fts_nodes sp))"

definition set_current :: "(ftsent \<Rightarrow> ftsent) \<Rightarrow> fts \<Rightarrow> fts" where
  "set_current f sp =
     sp\<lparr>fts_nodes := (case fts_nodes sp of [] \<Rightarrow> [] | (p, ps) # rest \<Rightarrow> (f p, ps) # rest)\<rparr>"

datatype build_type = BCHILD | BNAMES | BREAD

text \<open>What the loop over the entries works on.\<close>

record build =
  b_sp :: fts
  b_head :: "ftsent list"
  b_nlinks :: int
  b_maxlen :: nat
  b_doadjust :: bool

text \<open>How far a name of the new list is: \<open>mem1\<close> is the exit for lack of memory.\<close>

datatype built = Built build | Mem1 fts

text \<open>The state of a new node: the names the code goes by are \<open>cderrno\<close>, \<open>nostat\<close> and \<open>len\<close>.\<close>

definition build_node ::
    "'w fts_calls \<Rightarrow> errno option \<Rightarrow> bool \<Rightarrow> nat \<Rightarrow> dirent_type \<Rightarrow> build \<Rightarrow> ftsent \<Rightarrow> 'w \<Rightarrow> (build \<times> ftsent) cres" where
  "build_node c cderrno nostat len d_type b p w =
     (let sp = b_sp b; cur = current sp in
      case cderrno of
        Some e \<Rightarrow>
          let p = (if b_nlinks b \<noteq> 0 then p\<lparr>ent_info := FTS_NS, ent_errno := Some e\<rparr> else p\<lparr>ent_info := FTS_NSOK\<rparr>) in
          Inr (b, p\<lparr>ent_accpath := (case ent_accpath cur of Acc_name \<Rightarrow> Acc_parent (ent_name cur) | a \<Rightarrow> a)\<rparr>)
      | None \<Rightarrow>
          if b_nlinks b = 0 \<or> has_dt_dir c \<and> nostat \<and> d_type \<noteq> DT_DIR \<and> d_type \<noteq> DT_UNKNOWN then
            Inr (b, p\<lparr>ent_accpath := (if isset sp FTS_NOCHDIR then Acc_path (ent_path p) else Acc_name),
                     ent_info := FTS_NSOK\<rparr>)
          else
            and_then
              (if isset sp FTS_NOCHDIR then
                 and_then (put_bytes len (ent_name p @ [0]) sp) (\<lambda>sp.
                   Inr (sp, p\<lparr>ent_accpath := Acc_path (ent_path p)\<rparr>))
               else Inr (sp, p\<lparr>ent_accpath := Acc_name\<rparr>))
              (\<lambda>(sp, p).
                and_then (fts_stat c sp (cur # parents_of sp) p False w) (\<lambda>p.
                  Inr (b\<lparr>b_sp := sp,
                        b_nlinks := (if b_nlinks b > 0 \<and> (ent_info p = FTS_D \<or> ent_info p = FTS_DC \<or> ent_info p = FTS_DOT)
                                     then b_nlinks b - 1 else b_nlinks b)\<rparr>, p))))"

fun build_loop ::
    "'w fts_calls \<Rightarrow> errno option \<Rightarrow> bool \<Rightarrow> nat \<Rightarrow> (cstring \<times> dirent_type) list \<Rightarrow> build \<Rightarrow> 'w \<Rightarrow> (built \<times> 'w) cres" where
  "build_loop c cderrno nostat len [] b w = Inr (Built b, w)"
| "build_loop c cderrno nostat len ((d_name, d_type) # entries) b w =
     (let sp = b_sp b; dnamlen = length d_name in
      if \<not> isset sp FTS_SEEDOT \<and> is_dot d_name then build_loop c cderrno nostat len entries b w
      else
        case alloc_ok c w of
          (False, w1) \<Rightarrow> Inr (Mem1 sp, w1)
        | (True, w1) \<Rightarrow>
            let p = fts_alloc sp d_name;
                (ok, sp1, w2) = (if dnamlen \<ge> b_maxlen b then fts_palloc c sp (dnamlen + len + 1) w1 else (True, sp, w1)) in
            if \<not> ok then Inr (Mem1 sp1, w2)
            else
              let b1 = b\<lparr>b_sp := sp1,
                    b_doadjust := b_doadjust b \<or> fts_buffer sp \<noteq> fts_buffer sp1,
                    b_maxlen := (if dnamlen \<ge> b_maxlen b then length (fts_path sp1) - len else b_maxlen b)\<rparr>;
                  p1 = p\<lparr>ent_level := ent_level (current sp) + 1, ent_pathlen := len + dnamlen\<rparr> in
              and_then (build_node c cderrno nostat len d_type b1 p1 w2) (\<lambda>(b2, p2).
                build_loop c cderrno nostat len entries (b2\<lparr>b_head := b_head b2 @ [p2]\<rparr>) w2))"

text \<open>
  The end of \<open>fts_build\<close>: the way back to the parent, and the result, \<open>[]\<close> for a null pointer.
\<close>

definition build_end ::
    "'w fts_calls \<Rightarrow> build_type \<Rightarrow> bool \<Rightarrow> build \<Rightarrow> 'w \<Rightarrow> (ftsent list \<times> fts \<times> 'w) cres" where
  "build_end c type descend b w =
     and_then (if b_doadjust b then fts_padjust (b_sp b) (b_head b) else Inr (b_sp b, b_head b)) (\<lambda>(sp, head).
       and_then (if isset sp FTS_NOCHDIR then put_bytes (ent_pathlen (current sp)) [0] sp else Inr sp) (\<lambda>sp.
         let cur = current sp;
             (back, w) =
               (if descend \<and> (type = BCHILD \<or> head = []) then
                  if ent_level cur = 0 then FCHDIR c sp (fts_rfd sp) w
                  else fts_safe_changedir c sp (hd (parents_of sp)) (Inr [dot, dot]) w
                else (None, w)) in
         if back \<noteq> None then Inr ([], SET FTS_STOP (set_current (\<lambda>p. p\<lparr>ent_info := FTS_ERR\<rparr>) sp), w)
         else if head = [] then
           Inr ([], if type = BREAD then set_current (\<lambda>p. p\<lparr>ent_info := FTS_DP\<rparr>) sp else sp, w)
         else
           case fts_compar sp of
             Some cmp \<Rightarrow> if length head > 1 then Inr (fts_sort c sp cmp head w) else Inr (head, sp, w)
           | None \<Rightarrow> Inr (head, sp, w)))"

definition fts_build :: "'w fts_calls \<Rightarrow> fts \<Rightarrow> build_type \<Rightarrow> 'w \<Rightarrow> (ftsent list \<times> fts \<times> 'w) cres" where
  "fts_build c sp type w =
     and_then (access_string sp (current sp)) (\<lambda>accpath.
       case dir_open c accpath w of
         (Inl e, w1) \<Rightarrow>
           Inr ([], if type = BREAD then set_current (\<lambda>p. p\<lparr>ent_info := FTS_DNR, ent_errno := Some e\<rparr>) sp else sp, w1)
       | (Inr (dirfd, entries), w1) \<Rightarrow>
           let cheat = type \<noteq> BNAMES \<and> isset sp FTS_NOSTAT \<and> isset sp FTS_PHYSICAL;
               nlinks = (if type = BNAMES then 0
                         else if cheat then ent_nlink (current sp) - (if isset sp FTS_SEEDOT then 0 else 2)
                         else -1);
               try = (nlinks \<noteq> 0 \<or> type = BREAD);
               (cderrno, w2) = (if try then fts_safe_changedir c sp (current sp) (Inl dirfd) w1 else (None, w1));
               descend = (try \<and> cderrno = None);
               sp1 = (case cderrno of
                        None \<Rightarrow> sp
                      | Some e \<Rightarrow>
                          set_current (\<lambda>p. p\<lparr>ent_errno := (if nlinks \<noteq> 0 \<and> type = BREAD then Some e else ent_errno p),
                            ent_dontchdir := True\<rparr>) sp) in
           and_then (NAPPEND sp1 (current sp1)) (\<lambda>at.
             and_then (if isset sp1 FTS_NOCHDIR then put_bytes at [slash] sp1 else Inr sp1) (\<lambda>sp2.
               let len = at + 1;
                   b = \<lparr>b_sp = sp2, b_head = [], b_nlinks = nlinks, b_maxlen = length (fts_path sp2) - len,
                        b_doadjust = False\<rparr> in
               and_then (build_loop c cderrno cheat len entries b w2) (\<lambda>(r, w3).
                 case r of
                   Mem1 sp3 \<Rightarrow>
                     Inr ([], SET FTS_STOP (set_current (\<lambda>p. p\<lparr>ent_info := FTS_ERR\<rparr>) sp3), dir_close c dirfd w3)
                 | Built b3 \<Rightarrow> build_end c type descend b3 (dir_close c dirfd w3)))))"

section \<open>The interface\<close>

text \<open>The part of a name after the last slash; a slash alone stays.\<close>

definition last_name :: "cstring \<Rightarrow> cstring" where
  "last_name s =
     (if slash \<in> set s \<and> s \<noteq> [slash]
      then rev (takeWhile (\<lambda>b. b \<noteq> slash) (rev s)) else s)"

text \<open>The root becomes the head of \<open>fts_nodes\<close>.\<close>

definition fts_load :: "fts \<Rightarrow> ftsent \<Rightarrow> (fts \<times> ftsent) cres" where
  "fts_load sp p =
     and_then (put_bytes 0 (ent_name p @ [0]) sp) (\<lambda>sp.
       Inr (sp\<lparr>fts_dev := ent_dev p\<rparr>,
         p\<lparr>ent_pathlen := length (ent_name p), ent_name := last_name (ent_name p),
           ent_accpath := Acc_path (fts_buffer sp), ent_path := fts_buffer sp\<rparr>))"

text \<open>One root; memory for it is not checked.\<close>

definition open_root :: "'w fts_calls \<Rightarrow> fts \<Rightarrow> cstring \<Rightarrow> 'w \<Rightarrow> (ftsent \<times> 'w) cres" where
  "open_root c sp arg w =
     (case alloc_ok c w of
        (False, w1) \<Rightarrow> Inl Fault
      | (True, w1) \<Rightarrow>
          and_then (fts_stat c sp [] ((fts_alloc sp arg)\<lparr>ent_level := 0, ent_accpath := Acc_name\<rparr>)
              (isset sp FTS_COMFOLLOW) w1) (\<lambda>p.
            Inr (if ent_info p = FTS_DOT then p\<lparr>ent_info := FTS_D\<rparr> else p, w1)))"

fun open_roots :: "'w fts_calls \<Rightarrow> fts \<Rightarrow> cstring list \<Rightarrow> ftsent list \<Rightarrow> 'w \<Rightarrow> (ftsent list \<times> 'w) cres" where
  "open_roots c sp [] roots w = Inr (roots, w)"
| "open_roots c sp (arg # argv) roots w =
     and_then (open_root c sp arg w) (\<lambda>(p, w1).
       open_roots c sp argv (if fts_compar sp \<noteq> None then p # roots else roots @ [p]) w1)"

text \<open>A failed allocation is \<open>ENOMEM\<close>.\<close>

definition fts_open ::
    "'w fts_calls \<Rightarrow> cstring list \<Rightarrow> u32 \<Rightarrow> (ftsent \<Rightarrow> ftsent \<Rightarrow> int) option \<Rightarrow> 'w \<Rightarrow> (fts \<times> 'w) cres" where
  "fts_open c argv options compar w =
     (if options AND NOT FTS_OPTIONMASK \<noteq> 0 then Inl (Errno EINVAL)
      else if argv = [] then Inl (Errno EINVAL)
      else
        case alloc_ok c w of
          (False, w0) \<Rightarrow> Inl (Errno ENOMEM)
        | (True, w0) \<Rightarrow>
            let sp = \<lparr>fts_nodes = [], fts_child = Children [], fts_dev = 0, fts_path = [], fts_buffer = 0,
                   fts_rfd = 0, fts_nitems = 0, fts_compar = compar, fts_options = options, fts_clientptr = 0\<rparr>;
                sp = (if isset sp FTS_LOGICAL then SET FTS_NOCHDIR sp else sp);
                (ok, sp, w1) = fts_palloc c sp (max (fts_maxarglen argv) (MAXPATHLEN c)) w0 in
            if \<not> ok then Inl (Errno ENOMEM)
            else
              case alloc_ok c w1 of
                (False, w2) \<Rightarrow> Inl (Errno ENOMEM)
              | (True, w2) \<Rightarrow>
                  and_then (open_roots c sp argv [] w2) (\<lambda>(roots, w3).
                    let (roots, sp, w4) =
                          (case compar of
                             Some cmp \<Rightarrow> if length argv > 1 then fts_sort c sp cmp roots w3 else (roots, sp, w3)
                           | None \<Rightarrow> (roots, sp, w3)) in
                    case alloc_ok c w4 of
                      (False, w5) \<Rightarrow> Inl (Errno ENOMEM)
                    | (True, w5) \<Rightarrow>
                        let sp = sp\<lparr>fts_nodes := [(fts_alloc sp [], roots)]\<rparr> in
                        if isset sp FTS_NOCHDIR then Inr (sp, w5)
                        else
                          case open_dir c [dot] w5 of
                            (Inl e, w6) \<Rightarrow> Inr (SET FTS_NOCHDIR sp, w6)
                          | (Inr fd, w6) \<Rightarrow> Inr (sp\<lparr>fts_rfd := fd\<rparr>, w6)))"

text \<open>
  \<open>fts_read\<close> gives a null pointer or the current node; the result tells which.  The label \<open>name\<close>: the name
  of the current node is put after the path of its parent.
\<close>

definition fts_name_path :: "fts \<Rightarrow> 'w \<Rightarrow> (bool \<times> fts \<times> 'w) cres" where
  "fts_name_path sp w =
     and_then (NAPPEND sp (hd (parents_of sp))) (\<lambda>at.
       and_then (put_bytes at (slash # ent_name (current sp) @ [0]) sp) (\<lambda>sp. Inr (True, sp, w)))"

text \<open>Following a link, when the user has asked for it.\<close>

definition fts_follow :: "'w fts_calls \<Rightarrow> fts \<Rightarrow> ftsent \<Rightarrow> 'w \<Rightarrow> (ftsent \<times> 'w) cres" where
  "fts_follow c sp p w =
     and_then (fts_stat c sp (parents_of sp) p True w) (\<lambda>p.
       if ent_info p = FTS_D \<and> \<not> isset sp FTS_NOCHDIR then
         (case open_dir c [dot] w of
            (Inl e, w1) \<Rightarrow> Inr (p\<lparr>ent_errno := Some e, ent_info := FTS_ERR\<rparr>, w1)
          | (Inr fd, w1) \<Rightarrow> Inr (p\<lparr>ent_symfd := fd, ent_symfollow := True\<rparr>, w1))
       else Inr (p, w))"

text \<open>Up to the parent of the last node of a level.\<close>

definition fts_up :: "'w fts_calls \<Rightarrow> fts \<Rightarrow> 'w \<Rightarrow> (bool \<times> fts \<times> 'w) cres" where
  "fts_up c sp w =
     (case tl (fts_nodes sp) of
        [] \<Rightarrow> Inr (False, sp\<lparr>fts_nodes := []\<rparr>, w)
      | (p, ps) # rest \<Rightarrow>
          and_then (put_bytes (ent_pathlen p) [0] sp) (\<lambda>sp.
            let (err, w1) =
                  (if ent_level p = 0 then FCHDIR c sp (fts_rfd sp) w
                   else if ent_symfollow p then
                     (case FCHDIR c sp (ent_symfd p) w of (r, w1) \<Rightarrow> (r, close_fd c (ent_symfd p) w1))
                   else if \<not> ent_dontchdir p then fts_safe_changedir c sp (fst (hd rest)) (Inr [dot, dot]) w
                   else (None, w)) in
            if err \<noteq> None then Inr (False, SET FTS_STOP sp, w1)
            else
              Inr (True, sp\<lparr>fts_nodes := (p\<lparr>ent_info := (if ent_errno p \<noteq> None then FTS_ERR else FTS_DP)\<rparr>, ps) # rest\<rparr>, w1)))"

text \<open>The label \<open>next\<close>, with the nodes that follow on the level.\<close>

fun fts_next :: "'w fts_calls \<Rightarrow> ftsent list \<Rightarrow> fts \<Rightarrow> 'w \<Rightarrow> (bool \<times> fts \<times> 'w) cres" where
  "fts_next c [] sp w = fts_up c sp w"
| "fts_next c (p # ps) sp w =
     (if ent_level p = 0 then
        (case FCHDIR c sp (fts_rfd sp) w of
           (Some e, w1) \<Rightarrow> Inr (False, SET FTS_STOP sp, w1)
         | (None, w1) \<Rightarrow>
             and_then (fts_load sp p) (\<lambda>(sp, p). Inr (True, sp\<lparr>fts_nodes := [(p, ps)]\<rparr>, w1)))
      else if ent_instr p = FTS_SKIP then fts_next c ps sp w
      else
        and_then
          (if ent_instr p = FTS_FOLLOW then
             and_then (fts_follow c sp p w) (\<lambda>(p, w1). Inr (p\<lparr>ent_instr := FTS_NOINSTR\<rparr>, w1))
           else Inr (p, w))
          (\<lambda>(p, w1). fts_name_path (sp\<lparr>fts_nodes := (p, ps) # tl (fts_nodes sp)\<rparr>) w1))"

text \<open>A directory in pre-order: skipped, or entered through the list of its children.\<close>

definition fts_enter :: "'w fts_calls \<Rightarrow> int \<Rightarrow> fts \<Rightarrow> 'w \<Rightarrow> (bool \<times> fts \<times> 'w) cres" where
  "fts_enter c instr sp w =
     (let p = current sp in
      if instr = FTS_SKIP \<or> isset sp FTS_XDEV \<and> ent_dev p \<noteq> fts_dev sp then
        let w1 = (if ent_symfollow p then close_fd c (ent_symfd p) w else w) in
        (case fts_child sp of
           Freed \<Rightarrow> Inl Fault
         | Children cs \<Rightarrow>
             Inr (True, set_current (\<lambda>p. p\<lparr>ent_info := FTS_DP\<rparr>) (sp\<lparr>fts_child := Children []\<rparr>), w1))
      else
        case fts_child sp of
          Freed \<Rightarrow> Inl Fault
        | Children cs \<Rightarrow>
            let (sp, cs) =
                  (if cs \<noteq> [] \<and> isset sp FTS_NAMEONLY
                   then ((CLR FTS_NAMEONLY sp)\<lparr>fts_child := Children []\<rparr>, []) else (sp, cs)) in
            if cs \<noteq> [] then
              and_then (access_string sp p) (\<lambda>accpath.
                let (err, w1) = fts_safe_changedir c sp p (Inr accpath) w;
                    (sp, cs) =
                      (case err of
                         None \<Rightarrow> (sp, cs)
                       | Some e \<Rightarrow>
                           (set_current (\<lambda>p. p\<lparr>ent_errno := Some e, ent_dontchdir := True\<rparr>) sp,
                            map (\<lambda>q. q\<lparr>ent_accpath := (case ent_accpath p of Acc_name \<Rightarrow> Acc_parent (ent_name p) | a \<Rightarrow> a)\<rparr>) cs)) in
                fts_name_path (sp\<lparr>fts_child := Children [], fts_nodes := (hd cs, tl cs) # fts_nodes sp\<rparr>) w1)
            else
              and_then (fts_build c sp BREAD w) (\<lambda>(cs, sp, w1).
                if cs = [] then Inr (\<not> isset sp FTS_STOP, sp, w1)
                else fts_name_path (sp\<lparr>fts_child := Children [], fts_nodes := (hd cs, tl cs) # fts_nodes sp\<rparr>) w1))"

definition fts_read :: "'w fts_calls \<Rightarrow> fts \<Rightarrow> 'w \<Rightarrow> (bool \<times> fts \<times> 'w) cres" where
  "fts_read c sp w =
     (case fts_nodes sp of
        [] \<Rightarrow> Inr (False, sp, w)
      | (p, ps) # rest \<Rightarrow>
          if isset sp FTS_STOP then Inr (False, sp, w)
          else
            let instr = ent_instr p;
                p = p\<lparr>ent_instr := FTS_NOINSTR\<rparr>;
                sp = sp\<lparr>fts_nodes := (p, ps) # rest\<rparr> in
            if instr = FTS_AGAIN then
              and_then (fts_stat c sp (parents_of sp) p False w) (\<lambda>p. Inr (True, sp\<lparr>fts_nodes := (p, ps) # rest\<rparr>, w))
            else if instr = FTS_FOLLOW \<and> (ent_info p = FTS_SL \<or> ent_info p = FTS_SLNONE) then
              and_then (fts_follow c sp p w) (\<lambda>(p, w1). Inr (True, sp\<lparr>fts_nodes := (p, ps) # rest\<rparr>, w1))
            else if ent_info p = FTS_D then fts_enter c instr sp w
            else fts_next c ps sp w)"

text \<open>The nodes a caller has: the current one, one of the children read ahead, one that follows on the level.\<close>

datatype fts_which = The_current | The_child nat | The_link nat

definition fts_set :: "fts \<Rightarrow> fts_which \<Rightarrow> int \<Rightarrow> fts cres" where
  "fts_set sp which instr =
     (if instr \<noteq> 0 \<and> instr \<noteq> FTS_AGAIN \<and> instr \<noteq> FTS_FOLLOW \<and> instr \<noteq> FTS_NOINSTR \<and> instr \<noteq> FTS_SKIP
      then Inl (Errno EINVAL)
      else
        let put = (\<lambda>p. p\<lparr>ent_instr := instr\<rparr>) in
        case which of
          The_current \<Rightarrow> if fts_nodes sp = [] then Inl Fault else Inr (set_current put sp)
        | The_child k \<Rightarrow>
            (case fts_child sp of
               Children cs \<Rightarrow> if k < length cs then Inr (sp\<lparr>fts_child := Children (cs[k := put (cs ! k)])\<rparr>) else Inl Fault
             | Freed \<Rightarrow> Inl Fault)
        | The_link k \<Rightarrow>
            (case fts_nodes sp of
               (p, ps) # rest \<Rightarrow>
                 if k < length ps then Inr (sp\<lparr>fts_nodes := (p, ps[k := put (ps ! k)]) # rest\<rparr>) else Inl Fault
             | [] \<Rightarrow> Inl Fault))"

text \<open>The list of the children, or of the roots before the first file was read.\<close>

definition fts_children :: "'w fts_calls \<Rightarrow> fts \<Rightarrow> u32 \<Rightarrow> 'w \<Rightarrow> (ftsent list \<times> fts \<times> 'w) cres" where
  "fts_children c sp instr w =
     (if instr \<noteq> 0 \<and> instr \<noteq> FTS_NAMEONLY then Inl (Errno EINVAL)
      else if isset sp FTS_STOP then Inr ([], sp, w)
      else
        case fts_nodes sp of
          [] \<Rightarrow> Inl Fault
        | (p, ps) # rest \<Rightarrow>
            if ent_info p = FTS_INIT then Inr (ps, sp, w)
            else if ent_info p \<noteq> FTS_D then Inr ([], sp, w)
            else
              and_then
                (case fts_child sp of
                   Freed \<Rightarrow> Inl Fault
                 | Children cs \<Rightarrow> Inr (if cs = [] then sp else sp\<lparr>fts_child := Freed\<rparr>))
                (\<lambda>sp.
                  let (sp, type) = (if instr = FTS_NAMEONLY then (SET FTS_NAMEONLY sp, BNAMES) else (sp, BCHILD)) in
                  and_then (access_string sp p) (\<lambda>accpath.
                    if ent_level p \<noteq> 0 \<or> (accpath \<noteq> [] \<and> hd accpath = slash) \<or> isset sp FTS_NOCHDIR then
                      and_then (fts_build c sp type w) (\<lambda>(cs, sp, w1). Inr (cs, sp\<lparr>fts_child := Children cs\<rparr>, w1))
                    else
                      case open_dir c [dot] w of
                        (Inl e, w1) \<Rightarrow> Inr ([], sp, w1)
                      | (Inr fd, w1) \<Rightarrow>
                          and_then (fts_build c sp type w1) (\<lambda>(cs, sp, w2).
                            let sp = sp\<lparr>fts_child := Children cs\<rparr> in
                            case change_dir c fd w2 of
                              (Some e, w3) \<Rightarrow> Inr ([], sp, close_fd c fd w3)
                            | (None, w3) \<Rightarrow> Inr (cs, sp, close_fd c fd w3)))))"

text \<open>The memory of the nodes is given back; a list that was freed before is freed twice.\<close>

definition fts_close :: "'w fts_calls \<Rightarrow> fts \<Rightarrow> 'w \<Rightarrow> (errno option \<times> 'w) cres" where
  "fts_close c sp w =
     (if fts_child sp = Freed then Inl Fault
      else if isset sp FTS_NOCHDIR then Inr (None, w)
      else
        case change_dir c (fts_rfd sp) w of
          (e, w1) \<Rightarrow> Inr (e, close_fd c (fts_rfd sp) w1))"

definition fts_get_clientptr :: "fts \<Rightarrow> nat" where
  "fts_get_clientptr sp = fts_clientptr sp"

definition fts_set_clientptr :: "fts \<Rightarrow> nat \<Rightarrow> fts" where
  "fts_set_clientptr sp ptr = sp\<lparr>fts_clientptr := ptr\<rparr>"

end
