(* ===== verification/Fts_Build.thy ===== *)
theory Fts_Build
  imports Fts
begin

text \<open>
  File hierarchies as trees, what the system shows of them (\<open>on_disk\<close>), the buffer of the path, and the reading of a
  directory: \<open>fts_build\<close> gives a node for every entry, with its path, its kind and its inode.
\<close>

section \<open>Trees of files\<close>

datatype ftree = Leaf file_mode | Dir "(cstring \<times> ftree) list"

definition join_path :: "cstring \<Rightarrow> cstring \<Rightarrow> cstring" where
  "join_path p n = (if last p = slash then p @ n else p @ slash # n)"

fun leaf_info :: "file_mode \<Rightarrow> fts_info" where
  "leaf_info S_LNK = FTS_SL"
| "leaf_info S_REG = FTS_F"
| "leaf_info _ = FTS_DEFAULT"

fun first_info :: "ftree \<Rightarrow> fts_info" where
  "first_info (Leaf m) = leaf_info m"
| "first_info (Dir cs) = FTS_D"

text \<open>The visits of a tree at a path.\<close>

fun visits :: "cstring \<Rightarrow> ftree \<Rightarrow> (fts_info \<times> cstring) list"
  and visits_all :: "cstring \<Rightarrow> (cstring \<times> ftree) list \<Rightarrow> (fts_info \<times> cstring) list" where
  "visits p (Leaf m) = [(leaf_info m, p)]"
| "visits p (Dir cs) = (FTS_D, p) # visits_all p cs @ [(FTS_DP, p)]"
| "visits_all p [] = []"
| "visits_all p ((n, t) # cs) = visits (join_path p n) t @ visits_all p cs"

text \<open>
  The tree is there at a path shorter than \<open>space\<close>: \<open>lstat\<close> shows its mode, \<open>opendir\<close> its names, among which there
  may be dots, and a directory is none of those it is in, which \<open>anc\<close> lists by inode and device.
\<close>

fun on_disk :: "'w fts_calls \<Rightarrow> 'w \<Rightarrow> nat \<Rightarrow> (nat \<times> nat) list \<Rightarrow> cstring \<Rightarrow> ftree \<Rightarrow> bool"
  and on_disk_all :: "'w fts_calls \<Rightarrow> 'w \<Rightarrow> nat \<Rightarrow> (nat \<times> nat) list \<Rightarrow> cstring \<Rightarrow> (cstring \<times> ftree) list \<Rightarrow> bool" where
  "on_disk c w space anc p (Leaf m) \<longleftrightarrow>
     p \<noteq> [] \<and> 0 \<notin> set p \<and> length p < space \<and> m \<noteq> S_DIR \<and>
     (case lstat_file c w p of Inl e \<Rightarrow> False | Inr sb \<Rightarrow> st_mode sb = m)"
| "on_disk c w space anc p (Dir cs) \<longleftrightarrow>
     p \<noteq> [] \<and> 0 \<notin> set p \<and> length p < space \<and>
     (case lstat_file c w p of
        Inl e \<Rightarrow> False
      | Inr sb \<Rightarrow>
          st_mode sb = S_DIR \<and> (st_ino sb, st_dev sb) \<notin> set anc \<and>
          (case dir_open c p w of
             (Inl e, w') \<Rightarrow> False
           | (Inr (fd, entries), w') \<Rightarrow>
               w' = w \<and> dir_close c fd w = w \<and>
               filter (\<lambda>n. \<not> is_dot n) (map fst entries) = map fst cs \<and>
               on_disk_all c w space ((st_ino sb, st_dev sb) # anc) p cs))"
| "on_disk_all c w space anc p [] \<longleftrightarrow> True"
| "on_disk_all c w space anc p ((n, t) # cs) \<longleftrightarrow>
     on_disk c w space anc (join_path p n) t \<and> on_disk_all c w space anc p cs"

text \<open>What a caller of \<open>fts_read\<close> sees, and a run of calls.\<close>

definition seen :: "fts \<Rightarrow> (fts_info \<times> cstring) cres" where
  "seen sp = and_then (path_string sp) (\<lambda>s. Inr (ent_info (current sp), s))"

fun reads :: "'w fts_calls \<Rightarrow> 'w \<Rightarrow> fts \<Rightarrow> (fts_info \<times> cstring) list \<Rightarrow> fts \<Rightarrow> bool" where
  "reads c w sp [] sp' \<longleftrightarrow> sp' = sp"
| "reads c w sp (v # vs) sp' \<longleftrightarrow>
     (case fts_read c sp w of
        Inr (True, sp1, w1) \<Rightarrow> w1 = w \<and> seen sp1 = Inr v \<and> reads c w sp1 vs sp'
      | _ \<Rightarrow> False)"

lemma reads_append: "reads c w sp vs sp1 \<Longrightarrow> reads c w sp1 us sp2 \<Longrightarrow> reads c w sp (vs @ us) sp2"
  by (induction vs arbitrary: sp) (auto split: sum.splits prod.splits bool.splits)

section \<open>The buffer\<close>

text \<open>The path is in the buffer, with its terminator.\<close>

definition holds :: "fts \<Rightarrow> cstring \<Rightarrow> bool" where
  "holds sp p \<longleftrightarrow> 0 \<notin> set p \<and> length p < length (fts_path sp) \<and> take (Suc (length p)) (fts_path sp) = p @ [0]"

text \<open>A beginning of it is.\<close>

definition begins :: "fts \<Rightarrow> cstring \<Rightarrow> bool" where
  "begins sp p \<longleftrightarrow> length p \<le> length (fts_path sp) \<and> take (length p) (fts_path sp) = p"

lemma holds_string: "holds sp p \<Longrightarrow> path_string sp = Inr p"
proof -
  assume h: "holds sp p"
  have split: "fts_path sp = (p @ [0]) @ drop (Suc (length p)) (fts_path sp)"
    using h unfolding holds_def by (metis append_take_drop_id)
  have "takeWhile (\<lambda>b. b \<noteq> 0) ((p @ [0]) @ r) = p" for r
    using conjunct1 [OF h [unfolded holds_def]] by (induction p) auto
  then have "takeWhile (\<lambda>b. b \<noteq> 0) (fts_path sp) = p" using split by metis
  moreover have "0 \<in> set (fts_path sp)" by (subst split) simp
  ultimately show ?thesis by (simp add: path_string_def)
qed

lemma take_begins: "begins sp (p @ q) \<Longrightarrow> begins sp p"
  unfolding begins_def by (metis append_eq_conv_conj length_append take_take min.absorb1 le_add1 add_leE)

lemma holds_begins: "holds sp (p @ q) \<Longrightarrow> begins sp p"
  by (rule take_begins [of _ _ "q @ [0]"]) (simp add: holds_def begins_def)

lemma put_at:
  assumes "begins sp p" "length p + length bs \<le> length (fts_path sp)"
  shows "\<exists>b. put_bytes (length p) bs sp = Inr (sp\<lparr>fts_path := b\<rparr>) \<and> length b = length (fts_path sp) \<and>
    begins (sp\<lparr>fts_path := b\<rparr>) (p @ bs)"
  using assms
  by (intro exI [of _ "p @ bs @ drop (length p + length bs) (fts_path sp)"]) (simp add: put_bytes_def begins_def)

lemma begins_holds: "begins sp (p @ [0]) \<Longrightarrow> 0 \<notin> set p \<Longrightarrow> holds sp p"
  by (simp add: begins_def holds_def)

lemma put_name:
  assumes "begins sp p" "0 \<notin> set p" "0 \<notin> set n" "length p + length n < length (fts_path sp)"
  shows "\<exists>b. put_bytes (length p) (n @ [0]) sp = Inr (sp\<lparr>fts_path := b\<rparr>) \<and> length b = length (fts_path sp) \<and>
    holds (sp\<lparr>fts_path := b\<rparr>) (p @ n)"
  using put_at [OF assms(1), of "n @ [0]"] assms(2-4) begins_holds [of _ "p @ n"] by auto

lemma put_end:
  assumes "begins sp p" "0 \<notin> set p" "length p < length (fts_path sp)"
  shows "\<exists>b. put_bytes (length p) [0] sp = Inr (sp\<lparr>fts_path := b\<rparr>) \<and> length b = length (fts_path sp) \<and>
    holds (sp\<lparr>fts_path := b\<rparr>) p"
  using put_name [of sp p "[]"] assms by simp

text \<open>A path without the slash at its end, after which a slash and a name are put.\<close>

definition stem :: "cstring \<Rightarrow> cstring" where
  "stem p = (if last p = slash then butlast p else p)"

lemma join_path_stem: "p \<noteq> [] \<Longrightarrow> join_path p n = stem p @ slash # n"
  by (cases p rule: rev_cases) (auto simp: join_path_def stem_def)

lemma join_path_base: "join_path p n = join_path p [] @ n"
  by (simp add: join_path_def)

lemma stem_prefix: "p \<noteq> [] \<Longrightarrow> \<exists>q. p = stem p @ q \<and> (q = [] \<or> q = [slash])"
  by (cases p rule: rev_cases) (auto simp: stem_def)

lemma path_prefix: "p \<noteq> [] \<Longrightarrow> \<exists>q. join_path p n = p @ q"
  by (simp add: join_path_def)

lemma append_at:
  assumes "begins sp p" "p \<noteq> []" "ent_path q = fts_buffer sp" "ent_pathlen q = length p"
  shows "NAPPEND sp q = Inr (length (stem p)) \<and> begins sp (stem p)"
proof -
  have len: "length p \<le> length (fts_path sp)" "take (length p) (fts_path sp) = p"
    using assms(1) by (simp_all add: begins_def)
  then have "fts_path sp ! (length p - 1) = last p"
    using assms(2) by (metis diff_less last_conv_nth length_greater_0_conv nth_take zero_less_one)
  then have "NAPPEND sp q = Inr (length (stem p))"
    using assms len(1) by (simp add: NAPPEND_def stem_def)
  moreover have "begins sp (stem p)"
    using stem_prefix [OF assms(2)] assms(1) take_begins by metis
  ultimately show ?thesis ..
qed

lemma append_name:
  assumes "begins sp p" "p \<noteq> []" "0 \<notin> set p" "0 \<notin> set n" "length (join_path p n) < length (fts_path sp)"
    and "ent_path q = fts_buffer sp" "ent_pathlen q = length p"
  shows "\<exists>at b. NAPPEND sp q = Inr at \<and> put_bytes at (slash # n @ [0]) sp = Inr (sp\<lparr>fts_path := b\<rparr>) \<and>
    length b = length (fts_path sp) \<and> holds (sp\<lparr>fts_path := b\<rparr>) (join_path p n)"
proof -
  have "0 \<notin> set (stem p)" using stem_prefix [OF assms(2)] assms(3) by (metis Un_iff set_append)
  then show ?thesis
    using append_at [OF assms(1,2,6,7)] put_name [of sp "stem p" "slash # n"] assms(4,5)
    by (simp add: join_path_stem [OF assms(2)])
qed

lemma append_slash:
  assumes "begins sp p" "p \<noteq> []" "length (join_path p []) \<le> length (fts_path sp)"
    and "ent_path q = fts_buffer sp" "ent_pathlen q = length p"
  shows "\<exists>at b. NAPPEND sp q = Inr at \<and> put_bytes at [slash] sp = Inr (sp\<lparr>fts_path := b\<rparr>) \<and>
    length b = length (fts_path sp) \<and> begins (sp\<lparr>fts_path := b\<rparr>) (join_path p []) \<and> Suc at = length (join_path p [])"
  using append_at [OF assms(1,2,4,5)] put_at [of sp "stem p" "[slash]"] assms(3)
  by (simp add: join_path_stem [OF assms(2)])

section \<open>Nodes\<close>

text \<open>A walk with \<open>FTS_PHYSICAL\<close> and \<open>FTS_NOCHDIR\<close> that has not read children ahead.\<close>

definition walking :: "nat \<Rightarrow> fts \<Rightarrow> bool" where
  "walking space sp \<longleftrightarrow> fts_options sp = 0x14 \<and> fts_child sp = Children [] \<and> fts_compar sp = None \<and>
     length (fts_path sp) = space"

lemma walking_isset:
  assumes "walking space sp"
  shows "isset sp FTS_NOCHDIR" "isset sp FTS_PHYSICAL" "\<not> isset sp FTS_NOSTAT" "\<not> isset sp FTS_LOGICAL"
    "\<not> isset sp FTS_SEEDOT" "\<not> isset sp FTS_XDEV" "\<not> isset sp FTS_NAMEONLY" "\<not> isset sp FTS_STOP"
    "\<not> isset sp FTS_COMFOLLOW"
  using assms by (simp_all add: walking_def isset_def fts_option_defs)

definition keys :: "ftsent \<Rightarrow> nat \<times> nat" where
  "keys p = (ent_ino p, ent_dev p)"

text \<open>The node of a tree at a path, with the directory it is by inode and device.\<close>

definition node_at :: "'w fts_calls \<Rightarrow> 'w \<Rightarrow> nat \<Rightarrow> int \<Rightarrow> cstring \<Rightarrow> ftree \<Rightarrow> ftsent \<Rightarrow> bool" where
  "node_at c w g lvl p t q \<longleftrightarrow>
     ent_pathlen q = length p \<and> ent_accpath q = Acc_path g \<and> ent_path q = g \<and> ent_level q = lvl \<and>
     ent_errno q = None \<and> ent_instr q = FTS_NOINSTR \<and> \<not> ent_symfollow q \<and> ent_info q = first_info t \<and>
     (\<forall>cs sb. t = Dir cs \<longrightarrow> lstat_file c w p = Inr sb \<longrightarrow> keys q = (st_ino sb, st_dev sb))"

lemma find_cycle_None: "(ino, dev) \<notin> keys ` set ts \<Longrightarrow> find_cycle ts ino dev k = None"
  by (induction ts arbitrary: k) (auto simp: keys_def)

text \<open>What \<open>fts_stat\<close> leaves of a node.\<close>

definition same_place :: "ftsent \<Rightarrow> ftsent \<Rightarrow> bool" where
  "same_place q q' \<longleftrightarrow>
     ent_name q' = ent_name q \<and> ent_pathlen q' = ent_pathlen q \<and> ent_accpath q' = ent_accpath q \<and> ent_path q' = ent_path q \<and>
     ent_level q' = ent_level q \<and> ent_errno q' = ent_errno q \<and> ent_instr q' = ent_instr q \<and>
     ent_symfollow q' = ent_symfollow q"

lemma classify_same: "same_place q (fts_classify ps q sb)"
  by (simp add: fts_classify_def same_place_def Let_def split: file_mode.split option.split)

lemma on_disk_path: "on_disk c w space anc p t \<Longrightarrow> p \<noteq> [] \<and> 0 \<notin> set p \<and> length p < space"
  by (cases t) auto

lemma on_disk_dir:
  assumes "on_disk c w space anc p (Dir cs)"
  shows "\<exists>sb fd entries. lstat_file c w p = Inr sb \<and> dir_open c p w = (Inr (fd, entries), w) \<and> dir_close c fd w = w \<and>
    filter (\<lambda>n. \<not> is_dot n) (map fst entries) = map fst cs \<and> on_disk_all c w space ((st_ino sb, st_dev sb) # anc) p cs"
proof -
  obtain r w' where open_result: "dir_open c p w = (r, w')" by (cases "dir_open c p w")
  show ?thesis
  proof (cases r)
    case (Inl e)
    with open_result assms show ?thesis by (simp split: sum.splits)
  next
    case (Inr x)
    with open_result assms show ?thesis by (cases x) (auto split: sum.splits)
  qed
qed

lemma stat_node:
  assumes "on_disk c w space (map keys ps) p t" "access_string sp q = Inr p"
    and "\<not> isset sp FTS_LOGICAL" "\<not> isset sp FTS_NOSTAT"
  shows "\<exists>q'. fts_stat c sp ps q False w = Inr q' \<and> same_place q q' \<and>
    (ent_info q' = first_info t \<or> is_dot (ent_name q) \<and> ent_info q' = FTS_DOT \<and> first_info t = FTS_D) \<and>
    (\<forall>cs sb. t = Dir cs \<longrightarrow> lstat_file c w p = Inr sb \<longrightarrow> keys q' = (st_ino sb, st_dev sb))"
proof -
  from assms(1) obtain sb where sb: "lstat_file c w p = Inr sb" by (cases t) (auto split: sum.splits)
  have "fts_stat c sp ps q False w = Inr (fts_classify ps (q\<lparr>ent_statp := Some sb\<rparr>) sb)"
    using assms(2-4) sb by (simp add: fts_stat_def Let_def)
  moreover have "same_place q (fts_classify ps (q\<lparr>ent_statp := Some sb\<rparr>) sb)"
    using classify_same [of "q\<lparr>ent_statp := Some sb\<rparr>" ps sb] by (simp add: same_place_def)
  moreover have "ent_info (fts_classify ps (q\<lparr>ent_statp := Some sb\<rparr>) sb) = first_info t \<or>
      is_dot (ent_name q) \<and> ent_info (fts_classify ps (q\<lparr>ent_statp := Some sb\<rparr>) sb) = FTS_DOT \<and> first_info t = FTS_D"
    using assms(1) sb find_cycle_None [of "st_ino sb" "st_dev sb" ps 0]
    by (cases t; cases "st_mode sb") (auto simp: fts_classify_def Let_def)
  moreover have "keys (fts_classify ps (q\<lparr>ent_statp := Some sb\<rparr>) sb) = (st_ino sb, st_dev sb)" if "t = Dir cs" for cs
    using assms(1) sb that by (auto simp: fts_classify_def Let_def keys_def split: option.splits)
  ultimately show ?thesis using sb by auto
qed

section \<open>Reading a directory\<close>

lemma walking_path [simp]: "length b = space \<Longrightarrow> walking space (sp\<lparr>fts_path := b\<rparr>) \<longleftrightarrow> walking (length (fts_path sp)) sp"
  by (auto simp: walking_def)

lemma walking_length: "walking space sp \<Longrightarrow> length (fts_path sp) = space"
  by (simp add: walking_def)

lemma current_path [simp]: "current (sp\<lparr>fts_path := b\<rparr>) = current sp" "parents_of (sp\<lparr>fts_path := b\<rparr>) = parents_of sp"
  by (simp_all add: current_def parents_of_def)

text \<open>What the loop over the entries keeps: the path of the directory and the slash are in the buffer.\<close>

definition building :: "nat \<Rightarrow> cstring \<Rightarrow> fts \<Rightarrow> build \<Rightarrow> bool" where
  "building space p sp b \<longleftrightarrow>
     (\<exists>buf. b_sp b = sp\<lparr>fts_path := buf\<rparr> \<and> length buf = space) \<and> begins (b_sp b) (join_path p []) \<and>
     b_nlinks b = -1 \<and> \<not> b_doadjust b \<and> b_maxlen b = space - length (join_path p [])"

lemma build_node_ok:
  assumes "walking space sp" "building space p sp b" "p \<noteq> []" "\<not> is_dot n"
    and "on_disk c w space (map keys (current sp # parents_of sp)) (join_path p n) t"
    and "ent_name q = n" "ent_path q = fts_buffer sp"
  shows "\<exists>b' q'. build_node c None False (length (join_path p [])) d b q w = Inr (b', q') \<and>
    building space p sp b' \<and> b_head b' = b_head b \<and> same_place (q\<lparr>ent_accpath := Acc_path (fts_buffer sp)\<rparr>) q' \<and>
    ent_info q' = first_info t \<and>
    (\<forall>cs sb. t = Dir cs \<longrightarrow> lstat_file c w (join_path p n) = Inr sb \<longrightarrow> keys q' = (st_ino sb, st_dev sb))"
proof -
  let ?base = "join_path p []"
  obtain buf where buf: "b_sp b = sp\<lparr>fts_path := buf\<rparr>" "length buf = space"
    using assms(2) by (auto simp: building_def)
  have path: "join_path p n = ?base @ n" by (rule join_path_base)
  have chars: "0 \<notin> set ?base" "0 \<notin> set n" "length ?base + length n < space"
    using on_disk_path [OF assms(5)] path by simp_all
  have w: "walking space (b_sp b)" using assms(1) buf walking_length [OF assms(1)] by simp
  from put_name [of "b_sp b" ?base n] assms(2) chars walking_length [OF w]
  obtain buf' where put: "put_bytes (length ?base) (n @ [0]) (b_sp b) = Inr (sp\<lparr>fts_path := buf'\<rparr>)"
      "length buf' = space" "holds (sp\<lparr>fts_path := buf'\<rparr>) (?base @ n)"
    by (auto simp: building_def buf)
  let ?q = "q\<lparr>ent_accpath := Acc_path (ent_path q)\<rparr>"
  have w': "walking space (sp\<lparr>fts_path := buf'\<rparr>)" using assms(1) put(2) walking_length [OF assms(1)] by simp
  have "access_string (sp\<lparr>fts_path := buf'\<rparr>) ?q = Inr (join_path p n)"
    using holds_string [OF put(3)] assms(7) path by (simp add: access_string_def)
  from stat_node [OF assms(5) this] walking_isset [OF w'] assms(4,6)
  obtain q' where q': "fts_stat c (sp\<lparr>fts_path := buf'\<rparr>) (current sp # parents_of sp) ?q False w = Inr q'"
      "same_place ?q q'" "ent_info q' = first_info t"
      "\<forall>cs sb. t = Dir cs \<longrightarrow> lstat_file c w (join_path p n) = Inr sb \<longrightarrow> keys q' = (st_ino sb, st_dev sb)"
    by auto
  let ?b = "b\<lparr>b_sp := sp\<lparr>fts_path := buf'\<rparr>, b_nlinks := -1\<rparr>"
  have nlinks: "b_nlinks b = -1" using assms(2) by (simp add: building_def)
  have "build_node c None False (length ?base) d b q w = Inr (?b, q')"
    using put(1) q'(1) nlinks assms(6) walking_isset(1) [OF w] by (simp add: build_node_def Let_def buf(1))
  moreover have "building space p sp ?b"
    using assms(2) put(2) holds_begins [OF put(3)] by (auto simp: building_def)
  ultimately show ?thesis using q' assms(7) by auto
qed

text \<open>The node of an entry.\<close>

definition child_at :: "'w fts_calls \<Rightarrow> 'w \<Rightarrow> nat \<Rightarrow> int \<Rightarrow> cstring \<Rightarrow> cstring \<times> ftree \<Rightarrow> ftsent \<Rightarrow> bool" where
  "child_at c w g lvl p nt q \<longleftrightarrow> node_at c w g lvl (join_path p (fst nt)) (snd nt) q \<and> ent_name q = fst nt"

lemma build_loop_ok:
  assumes "walking space sp" "building space p sp b" "p \<noteq> []" "alloc_ok c w = (True, w)"
    and "filter (\<lambda>n. \<not> is_dot n) (map fst entries) = map fst cs"
    and "on_disk_all c w space (map keys (current sp # parents_of sp)) p cs"
  shows "\<exists>b' heads. build_loop c None False (length (join_path p [])) entries b w = Inr (Built b', w) \<and>
    building space p sp b' \<and> b_head b' = b_head b @ heads \<and>
    list_all2 (child_at c w (fts_buffer sp) (ent_level (current sp) + 1) p) cs heads"
  using assms(2,5,6)
proof (induction entries arbitrary: b cs)
  case Nil
  then show ?case by auto
next
  case (Cons e entries)
  obtain d_name d_type where e: "e = (d_name, d_type)" by (cases e)
  obtain buf where buf: "b_sp b = sp\<lparr>fts_path := buf\<rparr>" "length buf = space"
    using Cons.prems(1) by (auto simp: building_def)
  have w: "walking space (b_sp b)" using assms(1) buf walking_length [OF assms(1)] by simp
  show ?case
  proof (cases "is_dot d_name")
    case True
    with Cons.prems Cons.IH [of b cs] walking_isset(5) [OF w] show ?thesis by (simp add: e)
  next
    case False
    then obtain t cs' where cs: "cs = (d_name, t) # cs'" "filter (\<lambda>n. \<not> is_dot n) (map fst entries) = map fst cs'"
      using Cons.prems(2) by (cases cs) (auto simp: e)
    then have disk: "on_disk c w space (map keys (current sp # parents_of sp)) (join_path p d_name) t"
        "on_disk_all c w space (map keys (current sp # parents_of sp)) p cs'"
      using Cons.prems(3) by simp_all
    have fits: "\<not> length d_name \<ge> b_maxlen b"
      using on_disk_path [OF disk(1)] Cons.prems(1) join_path_base [of p d_name] by (auto simp: building_def)
    let ?b = "b\<lparr>b_sp := b_sp b, b_doadjust := b_doadjust b, b_maxlen := b_maxlen b\<rparr>"
    let ?q = "(fts_alloc (b_sp b) d_name)\<lparr>ent_level := ent_level (current sp) + 1,
        ent_pathlen := length (join_path p []) + length d_name\<rparr>"
    have "building space p sp ?b" using Cons.prems(1) by (simp add: building_def)
    from build_node_ok [OF assms(1) this assms(3) False disk(1), of ?q d_type] buf(1)
    obtain b1 q where q: "build_node c None False (length (join_path p [])) d_type ?b ?q w = Inr (b1, q)"
        "building space p sp b1" "b_head b1 = b_head b" "same_place (?q\<lparr>ent_accpath := Acc_path (fts_buffer sp)\<rparr>) q"
        "ent_info q = first_info t"
        "\<forall>cs sb. t = Dir cs \<longrightarrow> lstat_file c w (join_path p d_name) = Inr sb \<longrightarrow> keys q = (st_ino sb, st_dev sb)"
      by (auto simp: fts_alloc_def)
    have child: "child_at c w (fts_buffer sp) (ent_level (current sp) + 1) p (d_name, t) q"
      using q(4-6) join_path_base [of p d_name] buf(1)
      by (simp add: child_at_def node_at_def same_place_def fts_alloc_def)
    have "building space p sp (b1\<lparr>b_head := b_head b1 @ [q]\<rparr>)" using q(2) by (simp add: building_def)
    from Cons.IH [OF this cs(2) disk(2)] obtain b' heads where
      rest: "build_loop c None False (length (join_path p [])) entries (b1\<lparr>b_head := b_head b1 @ [q]\<rparr>) w = Inr (Built b', w)"
        "building space p sp b'" "b_head b' = b_head b @ q # heads"
        "list_all2 (child_at c w (fts_buffer sp) (ent_level (current sp) + 1) p) cs' heads"
      using q(3) by auto
    have "build_loop c None False (length (join_path p [])) (e # entries) b w = Inr (Built b', w)"
      using False fits assms(4) q(1) rest(1) walking_isset(5) [OF w] by (simp add: e Let_def buf(1))
    with rest cs(1) child show ?thesis by auto
  qed
qed

text \<open>The end: the path is cut, and a directory without entries is done.\<close>

lemma build_end_ok:
  assumes "walking space sp" "building space p sp b" "p \<noteq> []" "0 \<notin> set p" "length p < space"
    and "ent_pathlen (current sp) = length p"
  shows "\<exists>buf. build_end c BREAD True b w = Inr (b_head b,
      (if b_head b = [] then set_current (\<lambda>p. p\<lparr>ent_info := FTS_DP\<rparr>) else id) (sp\<lparr>fts_path := buf\<rparr>), w) \<and>
    length buf = space \<and> holds (sp\<lparr>fts_path := buf\<rparr>) p"
proof -
  obtain buf where buf: "b_sp b = sp\<lparr>fts_path := buf\<rparr>" "length buf = space"
    using assms(2) by (auto simp: building_def)
  have "begins (b_sp b) p"
    using assms(2) path_prefix [OF assms(3), of "[]"] take_begins by (auto simp: building_def)
  from put_end [OF this assms(4)] assms(5) buf obtain buf' where
    put: "put_bytes (length p) [0] (b_sp b) = Inr (sp\<lparr>fts_path := buf'\<rparr>)" "length buf' = space"
      "holds (sp\<lparr>fts_path := buf'\<rparr>) p"
    by auto
  have w: "walking space (sp\<lparr>fts_path := buf\<rparr>)" "walking space (sp\<lparr>fts_path := buf'\<rparr>)"
    using assms(1) buf(2) put(2) walking_length [OF assms(1)] by simp_all
  have "\<not> b_doadjust b" using assms(2) by (simp add: building_def)
  then have "build_end c BREAD True b w = Inr (b_head b,
      (if b_head b = [] then set_current (\<lambda>p. p\<lparr>ent_info := FTS_DP\<rparr>) else id) (sp\<lparr>fts_path := buf'\<rparr>), w)"
    using put(1) assms(1,6) walking_isset(1) [OF w(1)] walking_isset(1) [OF w(2)]
    by (simp add: build_end_def buf(1) FCHDIR_def fts_safe_changedir_def walking_def)
  with put(2,3) show ?thesis by blast
qed

lemma build_ok:
  assumes "walking space sp" "holds sp p" "alloc_ok c w = (True, w)"
    and "node_at c w (fts_buffer sp) lvl p (Dir cs) (current sp)"
    and "on_disk c w space (map keys (parents_of sp)) p (Dir cs)"
  shows "\<exists>heads buf. fts_build c sp BREAD w = Inr (heads,
      (if heads = [] then set_current (\<lambda>p. p\<lparr>ent_info := FTS_DP\<rparr>) else id) (sp\<lparr>fts_path := buf\<rparr>), w) \<and>
    length buf = space \<and> holds (sp\<lparr>fts_path := buf\<rparr>) p \<and>
    list_all2 (child_at c w (fts_buffer sp) (lvl + 1) p) cs heads"
proof -
  note isset = walking_isset [OF assms(1)]
  have p: "p \<noteq> []" "0 \<notin> set p" "length p < space" using on_disk_path [OF assms(5)] by auto
  have acc: "access_string sp (current sp) = Inr p"
    using assms(2,4) by (simp add: access_string_def node_at_def holds_string)
  have cur: "ent_path (current sp) = fts_buffer sp" "ent_pathlen (current sp) = length p" "ent_level (current sp) = lvl"
    using assms(4) by (simp_all add: node_at_def)
  from on_disk_dir [OF assms(5)] obtain sb fd entries where disk: "lstat_file c w p = Inr sb"
      "dir_open c p w = (Inr (fd, entries), w)" "dir_close c fd w = w"
      "filter (\<lambda>n. \<not> is_dot n) (map fst entries) = map fst cs"
      "on_disk_all c w space ((st_ino sb, st_dev sb) # map keys (parents_of sp)) p cs"
    by blast
  have keys: "map keys (current sp # parents_of sp) = (st_ino sb, st_dev sb) # map keys (parents_of sp)"
    using assms(4) disk(1) by (simp add: node_at_def)
  have "length (join_path p []) \<le> space" using p(3) by (simp add: join_path_def)
  with append_slash [OF _ p(1) _ cur(1,2)] holds_begins [of sp p "[]"] assms(2) walking_length [OF assms(1)]
  obtain at buf where slash: "NAPPEND sp (current sp) = Inr at" "put_bytes at [slash] sp = Inr (sp\<lparr>fts_path := buf\<rparr>)"
      "length buf = space" "begins (sp\<lparr>fts_path := buf\<rparr>) (join_path p [])" "Suc at = length (join_path p [])"
    by auto
  let ?b = "\<lparr>b_sp = sp\<lparr>fts_path := buf\<rparr>, b_head = [], b_nlinks = -1, b_maxlen = space - Suc at, b_doadjust = False\<rparr>"
  have b: "building space p sp ?b" using slash by (auto simp: building_def)
  from build_loop_ok [OF assms(1) b p(1) assms(3) disk(4)] disk(5) keys slash(5) cur(3) obtain b' heads where
    loop: "build_loop c None False (Suc at) entries ?b w = Inr (Built b', w)" "building space p sp b'" "b_head b' = heads"
      "list_all2 (child_at c w (fts_buffer sp) (lvl + 1) p) cs heads"
    by auto
  have "fts_build c sp BREAD w = build_end c BREAD True b' w"
    using acc disk(2,3) slash(1-3) loop(1) isset by (simp add: fts_build_def fts_safe_changedir_def Let_def)
  moreover from build_end_ok [OF assms(1) loop(2) p cur(2), of c w, unfolded loop(3)] obtain buf' where
    "build_end c BREAD True b' w = Inr (heads,
      (if heads = [] then set_current (\<lambda>p. p\<lparr>ent_info := FTS_DP\<rparr>) else id) (sp\<lparr>fts_path := buf'\<rparr>), w)"
    "length buf' = space" "holds (sp\<lparr>fts_path := buf'\<rparr>) p" by blast
  ultimately show ?thesis using loop(4) by (intro exI [of _ heads] exI [of _ buf']) simp
qed

end
