(* ===== verification/Fts_Correct.thy ===== *)
theory Fts_Correct
  imports Fts_Build
begin

text \<open>
  What a walk of \<open>fts.c\<close> visits.  With \<open>FTS_PHYSICAL\<close> and \<open>FTS_NOCHDIR\<close>, \<open>fts_read\<close> gives every directory before and
  after what is in it, and every other file once, in the order of the directories' entries, with its path in
  the buffer; and what goes wrong: long paths, link counts, children asked for twice.
\<close>

section \<open>The walk\<close>

text \<open>The current node is that of a tree at a path, and its path is in the buffer.\<close>

definition visiting ::
    "'w fts_calls \<Rightarrow> 'w \<Rightarrow> nat \<Rightarrow> cstring \<Rightarrow> ftree \<Rightarrow> ftsent list \<Rightarrow> (ftsent \<times> ftsent list) list \<Rightarrow> fts \<Rightarrow> bool" where
  "visiting c w space p t sibs rest sp \<longleftrightarrow>
     walking space sp \<and> holds sp p \<and> (\<exists>q. fts_nodes sp = (q, sibs) # rest \<and>
       node_at c w (fts_buffer sp) (int (length rest)) p t q)"

text \<open>The current node needs no further visit.\<close>

definition visited :: "nat \<Rightarrow> ftsent list \<Rightarrow> (ftsent \<times> ftsent list) list \<Rightarrow> fts \<Rightarrow> bool" where
  "visited space sibs rest sp \<longleftrightarrow>
     walking space sp \<and> (\<exists>q. fts_nodes sp = (q, sibs) # rest \<and> ent_info q \<noteq> FTS_D \<and> ent_instr q = FTS_NOINSTR)"

text \<open>The parent on the stack is a directory at a path.\<close>

definition under :: "cstring \<Rightarrow> (ftsent \<times> ftsent list) list \<Rightarrow> fts \<Rightarrow> bool" where
  "under p rest sp \<longleftrightarrow>
     p \<noteq> [] \<and> 0 \<notin> set p \<and> length p < length (fts_path sp) \<and> rest \<noteq> [] \<and>
     (let d = fst (hd rest) in ent_path d = fts_buffer sp \<and> ent_pathlen d = length p \<and> ent_errno d = None \<and>
        ent_instr d = FTS_NOINSTR \<and> \<not> ent_symfollow d)"

lemma no_instr [simp]: "ent_instr q = FTS_NOINSTR \<Longrightarrow> q\<lparr>ent_instr := FTS_NOINSTR\<rparr> = q"
  by (cases q) simp

lemma same_nodes: "fts_nodes sp = ns \<Longrightarrow> sp\<lparr>fts_nodes := ns\<rparr> = sp"
  by (cases sp) simp

lemma instr_values: "FTS_NOINSTR \<noteq> FTS_AGAIN" "FTS_NOINSTR \<noteq> FTS_FOLLOW" "FTS_NOINSTR \<noteq> FTS_SKIP"
  by (simp_all add: FTS_NOINSTR_def FTS_AGAIN_def FTS_FOLLOW_def FTS_SKIP_def)

lemma read_visited:
  assumes "visited space sibs rest sp"
  shows "fts_read c sp w = fts_next c sibs sp w"
  using assms walking_isset [of space sp]
  by (auto simp: visited_def fts_read_def Let_def instr_values same_nodes)

lemma walking_nodes [simp]: "walking space (sp\<lparr>fts_nodes := ns\<rparr>) \<longleftrightarrow> walking space sp"
  by (simp add: walking_def)

lemma buffer_nodes [simp]:
  "holds (sp\<lparr>fts_nodes := ns\<rparr>) p \<longleftrightarrow> holds sp p" "begins (sp\<lparr>fts_nodes := ns\<rparr>) p \<longleftrightarrow> begins sp p"
  by (simp_all add: holds_def begins_def)

text \<open>The name of a child is put after the path of its parent.\<close>

lemma name_path_ok:
  assumes "walking space sp" "fts_nodes sp = (q, qs) # rest" "under p rest sp" "begins sp p"
    and "child_at c w (fts_buffer sp) (int (length rest)) p (n, t) q"
    and "on_disk c w space anc (join_path p n) t"
  shows "\<exists>sp'. fts_name_path sp w = Inr (True, sp', w) \<and> visiting c w space (join_path p n) t qs rest sp' \<and>
    seen sp' = Inr (first_info t, join_path p n) \<and> fts_buffer sp' = fts_buffer sp"
proof -
  have u: "p \<noteq> []" "0 \<notin> set p" "ent_path (fst (hd rest)) = fts_buffer sp" "ent_pathlen (fst (hd rest)) = length p" "rest \<noteq> []"
    using assms(3) by (auto simp: under_def Let_def)
  have d: "hd (parents_of sp) = fst (hd rest)" using assms(2) u(5) by (cases rest) (auto simp: parents_of_def)
  have n: "ent_name (current sp) = n" using assms(2,5) by (simp add: current_def child_at_def)
  have "0 \<notin> set n" using on_disk_path [OF assms(6)] join_path_base [of p n] by simp
  moreover have "length (join_path p n) < length (fts_path sp)"
    using on_disk_path [OF assms(6)] walking_length [OF assms(1)] by simp
  ultimately obtain at b where put: "NAPPEND sp (fst (hd rest)) = Inr at"
      "put_bytes at (slash # n @ [0]) sp = Inr (sp\<lparr>fts_path := b\<rparr>)" "length b = length (fts_path sp)"
      "holds (sp\<lparr>fts_path := b\<rparr>) (join_path p n)"
    using append_name [OF assms(4) u(1,2) _ _ u(3,4)] by blast
  have "fts_name_path sp w = Inr (True, sp\<lparr>fts_path := b\<rparr>, w)"
    using put(1,2) d n by (simp add: fts_name_path_def)
  moreover have "visiting c w space (join_path p n) t qs rest (sp\<lparr>fts_path := b\<rparr>)"
    using assms(1,2,5) put(3,4) walking_length [OF assms(1)] by (auto simp: visiting_def child_at_def)
  moreover have "seen (sp\<lparr>fts_path := b\<rparr>) = Inr (first_info t, join_path p n)"
    using holds_string [OF put(4)] assms(2,5) by (simp add: seen_def current_def child_at_def node_at_def)
  ultimately show ?thesis by auto
qed

lemma read_sibling:
  assumes "visited space (q # qs) rest sp" "under p rest sp" "begins sp p"
    and "child_at c w (fts_buffer sp) (int (length rest)) p (n, t) q"
    and "on_disk c w space anc (join_path p n) t"
  shows "\<exists>sp'. fts_read c sp w = Inr (True, sp', w) \<and> visiting c w space (join_path p n) t qs rest sp' \<and>
    seen sp' = Inr (first_info t, join_path p n) \<and> fts_buffer sp' = fts_buffer sp"
proof -
  let ?sp = "sp\<lparr>fts_nodes := (q, qs) # rest\<rparr>"
  have "ent_level q = int (length rest)" "ent_instr q = FTS_NOINSTR"
    using assms(4) by (simp_all add: child_at_def node_at_def)
  moreover have "rest \<noteq> []" using assms(2) by (simp add: under_def)
  moreover obtain q0 where "fts_nodes sp = (q0, q # qs) # rest" using assms(1) by (auto simp: visited_def)
  ultimately have "fts_read c sp w = fts_name_path ?sp w"
    using read_visited [OF assms(1)] by (simp add: instr_values)
  moreover have "walking space ?sp" "under p rest ?sp" "begins ?sp p"
    using assms(1-3) by (simp_all add: visited_def under_def)
  ultimately show ?thesis using name_path_ok [of space ?sp q qs rest p c w n t anc] assms(4,5) by simp
qed

lemma read_up:
  assumes "visited space [] ((d, ds) # rest) sp" "under p ((d, ds) # rest) sp" "begins sp p"
  shows "\<exists>sp'. fts_read c sp w = Inr (True, sp', w) \<and> visited space ds rest sp' \<and> holds sp' p \<and>
    seen sp' = Inr (FTS_DP, p) \<and> fts_buffer sp' = fts_buffer sp"
proof -
  have w: "walking space sp" using assms(1) by (simp add: visited_def)
  have u: "0 \<notin> set p" "length p < length (fts_path sp)" "ent_pathlen d = length p" "ent_errno d = None"
      "ent_instr d = FTS_NOINSTR" "\<not> ent_symfollow d"
    using assms(2) by (auto simp: under_def)
  obtain q where nodes: "fts_nodes sp = (q, []) # (d, ds) # rest" using assms(1) by (auto simp: visited_def)
  from put_end [OF assms(3) u(1,2)] obtain b where
    put: "put_bytes (length p) [0] sp = Inr (sp\<lparr>fts_path := b\<rparr>)" "length b = length (fts_path sp)"
      "holds (sp\<lparr>fts_path := b\<rparr>) p" by auto
  have w': "walking space (sp\<lparr>fts_path := b\<rparr>)" using w put(2) walking_length [OF w] by simp
  let ?sp = "sp\<lparr>fts_path := b, fts_nodes := (d\<lparr>ent_info := FTS_DP\<rparr>, ds) # rest\<rparr>"
  have "fts_read c sp w = Inr (True, ?sp, w)"
    using read_visited [OF assms(1), of c w] put(1) nodes u walking_isset(1) [OF w']
    by (simp add: fts_up_def FCHDIR_def fts_safe_changedir_def)
  moreover have "visited space ds rest ?sp" using w' u by (simp add: visited_def)
  moreover have "holds ?sp p" using put(3) by simp
  moreover from this have "seen ?sp = Inr (FTS_DP, p)" by (simp add: seen_def holds_string current_def)
  ultimately show ?thesis by auto
qed

text \<open>A directory is entered: its children are read, and the first of them is visited.\<close>

lemma read_dir:
  assumes "visiting c w space p (Dir cs) sibs rest sp" "alloc_ok c w = (True, w)"
    and "on_disk c w space (map keys (map fst rest)) p (Dir cs)"
  shows "\<exists>sp'. fts_read c sp w = Inr (True, sp', w) \<and> fts_buffer sp' = fts_buffer sp \<and>
    (case cs of
       [] \<Rightarrow> visited space sibs rest sp' \<and> holds sp' p \<and> seen sp' = Inr (FTS_DP, p)
     | (n, t) # cs' \<Rightarrow>
         \<exists>q qs. let up = (q, sibs) # rest in
           visiting c w space (join_path p n) t qs up sp' \<and> under p up sp' \<and>
           seen sp' = Inr (first_info t, join_path p n) \<and>
           list_all2 (child_at c w (fts_buffer sp') (int (length up)) p) cs' qs \<and>
           on_disk_all c w space (map keys (map fst up)) p cs)"
proof -
  have w: "walking space sp" and h: "holds sp p" using assms(1) by (simp_all add: visiting_def)
  note isset = walking_isset [OF w]
  obtain q where nodes: "fts_nodes sp = (q, sibs) # rest" and q: "node_at c w (fts_buffer sp) (int (length rest)) p (Dir cs) q"
    using assms(1) by (auto simp: visiting_def)
  have cur: "current sp = q" "parents_of sp = map fst rest" using nodes by (simp_all add: current_def parents_of_def)
  have p: "p \<noteq> []" "0 \<notin> set p" "length p < space" using on_disk_path [OF assms(3)] by auto
  from build_ok [OF w h assms(2), of "int (length rest)" cs] q assms(3) cur obtain heads buf where
    build: "fts_build c sp BREAD w = Inr (heads,
      (if heads = [] then set_current (\<lambda>p. p\<lparr>ent_info := FTS_DP\<rparr>) else id) (sp\<lparr>fts_path := buf\<rparr>), w)"
      "length buf = space" "holds (sp\<lparr>fts_path := buf\<rparr>) p"
      "list_all2 (child_at c w (fts_buffer sp) (int (length rest) + 1) p) cs heads"
    by auto
  have w': "walking space (sp\<lparr>fts_path := buf\<rparr>)" using w build(2) walking_length [OF w] by simp
  have enter: "fts_read c sp w = fts_enter c FTS_NOINSTR sp w"
    using nodes q isset by (simp add: fts_read_def node_at_def same_nodes instr_values)
  show ?thesis
  proof (cases cs)
    case Nil
    then have heads: "heads = []" using build(4) by simp
    let ?sp = "set_current (\<lambda>p. p\<lparr>ent_info := FTS_DP\<rparr>) (sp\<lparr>fts_path := buf\<rparr>)"
    have sp: "?sp = sp\<lparr>fts_path := buf, fts_nodes := (q\<lparr>ent_info := FTS_DP\<rparr>, sibs) # rest\<rparr>"
      using nodes by (simp add: set_current_def)
    have "\<not> isset ?sp FTS_STOP" using walking_isset(8) [of space ?sp] w' by (simp add: sp)
    then have "fts_read c sp w = Inr (True, ?sp, w)"
      using enter build(1) heads w isset by (simp add: fts_enter_def Let_def instr_values walking_def)
    moreover have "visited space sibs rest ?sp" using w' q by (simp add: sp visited_def node_at_def)
    moreover have "holds ?sp p" using build(3) by (simp add: sp)
    moreover from this have "seen ?sp = Inr (FTS_DP, p)" by (simp add: seen_def holds_string sp current_def)
    ultimately show ?thesis using Nil by (auto simp: sp)
  next
    case (Cons nt cs')
    obtain n t where nt: "nt = (n, t)" by (cases nt)
    then obtain h hs where heads: "heads = h # hs"
        "child_at c w (fts_buffer sp) (int (length rest) + 1) p (n, t) h"
        "list_all2 (child_at c w (fts_buffer sp) (int (length rest) + 1) p) cs' hs"
      using build(4) Cons by (cases heads) auto
    from on_disk_dir [OF assms(3)] q have all: "on_disk_all c w space (keys q # map keys (map fst rest)) p cs"
      by (auto simp: node_at_def)
    then have disk: "on_disk c w space (keys q # map keys (map fst rest)) (join_path p n) t" using Cons nt by simp
    let ?up = "(q, sibs) # rest" and ?sp = "sp\<lparr>fts_path := buf, fts_child := Children [], fts_nodes := (h, hs) # (q, sibs) # rest\<rparr>"
    have same: "fts_child sp = Children []" using w by (simp add: walking_def)
    have "fts_read c sp w = fts_name_path ?sp w"
      using enter build(1) heads(1) same nodes isset by (simp add: fts_enter_def Let_def instr_values)
    moreover have "walking space ?sp" using w' by (simp add: walking_def)
    moreover have "under p ?up ?sp" using p q build(2) by (simp add: under_def node_at_def)
    moreover have "begins ?sp p" using holds_begins [of "sp\<lparr>fts_path := buf\<rparr>" p "[]"] build(3) by (simp add: begins_def)
    moreover note name_path_ok [of space ?sp h hs ?up p c w n t "keys q # map keys (map fst rest)"] heads(2) disk
    ultimately obtain sp' where sp': "fts_read c sp w = Inr (True, sp', w)" "visiting c w space (join_path p n) t hs ?up sp'"
        "seen sp' = Inr (first_info t, join_path p n)" "fts_buffer sp' = fts_buffer sp"
      by (auto simp: add.commute)
    moreover have "under p ?up sp'"
      using p q sp'(2,4) by (auto simp: under_def node_at_def visiting_def walking_def)
    moreover have "list_all2 (child_at c w (fts_buffer sp') (int (length ?up)) p) cs' hs"
      using heads(3) sp'(4) by (simp add: add.commute)
    ultimately show ?thesis using Cons nt all by (auto simp: Let_def)
  qed
qed

lemma visits_head: "visits p t = (first_info t, p) # tl (visits p t)"
  by (cases t) auto

text \<open>A run of one call.\<close>

lemma reads_one: "fts_read c sp w = Inr (True, sp', w) \<Longrightarrow> seen sp' = Inr v \<Longrightarrow> reads c w sp [v] sp'"
  by simp

lemma under_kept:
  "under p rest sp \<Longrightarrow> fts_buffer sp' = fts_buffer sp \<Longrightarrow> length (fts_path sp') = length (fts_path sp) \<Longrightarrow> under p rest sp'"
  by (simp add: under_def Let_def)

lemma begins_join: "holds sp (join_path p n) \<Longrightarrow> p \<noteq> [] \<Longrightarrow> begins sp p"
  using path_prefix [of p n] holds_begins by metis

text \<open>The rest of a tree, once its first visit was given, and the rest of a list of siblings.\<close>

definition walks_tree :: "'w fts_calls \<Rightarrow> 'w \<Rightarrow> nat \<Rightarrow> cstring \<Rightarrow> ftree \<Rightarrow> bool" where
  "walks_tree c w space p t \<longleftrightarrow>
     (\<forall>sibs rest sp. visiting c w space p t sibs rest sp \<longrightarrow> on_disk c w space (map keys (map fst rest)) p t \<longrightarrow>
       (\<exists>sp'. reads c w sp (tl (visits p t)) sp' \<and> visited space sibs rest sp' \<and> holds sp' p \<and> fts_buffer sp' = fts_buffer sp))"

definition walks_list :: "'w fts_calls \<Rightarrow> 'w \<Rightarrow> nat \<Rightarrow> cstring \<Rightarrow> (cstring \<times> ftree) list \<Rightarrow> bool" where
  "walks_list c w space p cs \<longleftrightarrow>
     (\<forall>n t cs' qs rest sp. cs = (n, t) # cs' \<longrightarrow> visiting c w space (join_path p n) t qs rest sp \<longrightarrow> under p rest sp \<longrightarrow>
       on_disk_all c w space (map keys (map fst rest)) p cs \<longrightarrow>
       list_all2 (child_at c w (fts_buffer sp) (int (length rest)) p) cs' qs \<longrightarrow>
       (\<exists>sp'. reads c w sp (tl (visits_all p cs)) sp' \<and> visited space [] rest sp' \<and> begins sp' p \<and> fts_buffer sp' = fts_buffer sp))"

lemma walking_under:
  "walking space sp \<Longrightarrow> walking space sp' \<Longrightarrow> under p rest sp \<Longrightarrow> fts_buffer sp' = fts_buffer sp \<Longrightarrow> under p rest sp'"
  using under_kept [of p rest sp sp'] by (simp add: walking_def)

lemma visits_all_head: "visits_all p ((n, t) # cs) = (first_info t, join_path p n) # tl (visits_all p ((n, t) # cs))"
  using visits_head [of "join_path p n" t] by (simp, metis append_Cons list.sel(3))

lemma reads_step:
  "fts_read c sp w = Inr (True, sp1, w) \<Longrightarrow> seen sp1 = Inr v \<Longrightarrow> reads c w sp1 (tl vs) sp' \<Longrightarrow> vs = v # tl vs \<Longrightarrow> reads c w sp vs sp'"
  by (metis reads_append [OF reads_one] append_Cons append_Nil)

lemma walks_leaf: "walks_tree c w space p (Leaf m)"
  by (cases m) (auto simp: walks_tree_def visiting_def visited_def node_at_def)

lemma walks_dir:
  assumes "alloc_ok c w = (True, w)" "walks_list c w space p cs"
  shows "walks_tree c w space p (Dir cs)"
  unfolding walks_tree_def
proof (intro allI impI)
  fix sibs rest sp
  assume at: "visiting c w space p (Dir cs) sibs rest sp" "on_disk c w space (map keys (map fst rest)) p (Dir cs)"
  note into = read_dir [OF at(1) assms(1) at(2)]
  show "\<exists>sp'. reads c w sp (tl (visits p (Dir cs))) sp' \<and> visited space sibs rest sp' \<and> holds sp' p \<and> fts_buffer sp' = fts_buffer sp"
  proof (cases cs)
    case Nil
    with into show ?thesis by auto
  next
    case (Cons nt cs')
    obtain n t where nt: "nt = (n, t)" by (cases nt)
    with into Cons obtain sp1 q qs where up: "fts_read c sp w = Inr (True, sp1, w)" "fts_buffer sp1 = fts_buffer sp"
        "visiting c w space (join_path p n) t qs ((q, sibs) # rest) sp1" "under p ((q, sibs) # rest) sp1"
        "seen sp1 = Inr (first_info t, join_path p n)"
        "list_all2 (child_at c w (fts_buffer sp1) (int (length ((q, sibs) # rest))) p) cs' qs"
        "on_disk_all c w space (map keys (map fst ((q, sibs) # rest))) p cs"
      by (auto simp: Let_def)
    from assms(2) [unfolded walks_list_def, rule_format, OF Cons [unfolded nt] up(3,4,7,6)] obtain sp2 where
      inner: "reads c w sp1 (tl (visits_all p cs)) sp2" "visited space [] ((q, sibs) # rest) sp2" "begins sp2 p"
        "fts_buffer sp2 = fts_buffer sp1" by blast
    have "under p ((q, sibs) # rest) sp2"
      by (rule walking_under [where space = space, OF _ _ up(4) inner(4)]) (use up(3) inner(2) in \<open>simp_all add: visiting_def visited_def\<close>)
    from read_up [OF inner(2) this inner(3), of c w] obtain sp3 where
      out: "fts_read c sp2 w = Inr (True, sp3, w)" "visited space sibs rest sp3" "holds sp3 p"
        "seen sp3 = Inr (FTS_DP, p)" "fts_buffer sp3 = fts_buffer sp2" by blast
    have "reads c w sp (visits_all p cs) sp2"
      using reads_step [OF up(1,5) inner(1)] visits_all_head Cons nt by metis
    from reads_append [OF this reads_one [OF out(1,4)]] out(2,3,5) inner(4) up(2) show ?thesis by auto
  qed
qed

lemma walks_Cons:
  assumes "walks_tree c w space (join_path p n) t" "walks_list c w space p cs"
  shows "walks_list c w space p ((n, t) # cs)"
  unfolding walks_list_def
proof (intro allI impI)
  fix n' t' cs' qs rest sp
  assume eq: "(n, t) # cs = (n', t') # cs'" and at: "visiting c w space (join_path p n') t' qs rest sp" "under p rest sp"
    and disk: "on_disk_all c w space (map keys (map fst rest)) p ((n, t) # cs)"
    and sibs: "list_all2 (child_at c w (fts_buffer sp) (int (length rest)) p) cs' qs"
  have p: "p \<noteq> []" using at(2) by (simp add: under_def)
  have at1: "visiting c w space (join_path p n) t qs rest sp"
    and disk1: "on_disk c w space (map keys (map fst rest)) (join_path p n) t" using at(1) disk eq by simp_all
  from assms(1) [unfolded walks_tree_def, rule_format, OF at1 disk1] obtain sp1 where
    first: "reads c w sp (tl (visits (join_path p n) t)) sp1" "visited space qs rest sp1"
      "holds sp1 (join_path p n)" "fts_buffer sp1 = fts_buffer sp" by blast
  note b = begins_join [OF first(3) p]
  have u: "under p rest sp1"
    by (rule walking_under [where space = space, OF _ _ at(2) first(4)]) (use at(1) first(2) in \<open>simp_all add: visiting_def visited_def\<close>)
  have tl: "tl (visits_all p ((n, t) # cs)) = tl (visits (join_path p n) t) @ visits_all p cs"
    using visits_head [of "join_path p n" t] by (simp, metis append_Cons list.sel(3))
  show "\<exists>sp'. reads c w sp (tl (visits_all p ((n, t) # cs))) sp' \<and> visited space [] rest sp' \<and> begins sp' p \<and>
    fts_buffer sp' = fts_buffer sp"
  proof (cases cs)
    case Nil
    with sibs eq first b tl show ?thesis by auto
  next
    case (Cons nt cs2)
    obtain n2 t2 where nt: "nt = (n2, t2)" by (cases nt)
    with Cons sibs eq obtain q qs2 where qs: "qs = q # qs2"
        "child_at c w (fts_buffer sp1) (int (length rest)) p (n2, t2) q"
        "list_all2 (child_at c w (fts_buffer sp1) (int (length rest)) p) cs2 qs2"
      using first(4) by (cases qs) auto
    have "on_disk c w space (map keys (map fst rest)) (join_path p n2) t2" using disk Cons nt by simp
    from read_sibling [OF first(2) [unfolded qs(1)] u b qs(2) this] obtain sp2 where
      next_read: "fts_read c sp1 w = Inr (True, sp2, w)" "visiting c w space (join_path p n2) t2 qs2 rest sp2"
        "seen sp2 = Inr (first_info t2, join_path p n2)" "fts_buffer sp2 = fts_buffer sp1" by blast
    have u2: "under p rest sp2"
      by (rule walking_under [where space = space, OF _ _ u next_read(4)]) (use first(2) next_read(2) in \<open>simp_all add: visiting_def visited_def\<close>)
    have "list_all2 (child_at c w (fts_buffer sp2) (int (length rest)) p) cs2 qs2" using qs(3) next_read(4) by simp
    from assms(2) [unfolded walks_list_def, rule_format, OF Cons [unfolded nt] next_read(2) u2 _ this] disk obtain sp3 where
      rest_read: "reads c w sp2 (tl (visits_all p cs)) sp3" "visited space [] rest sp3" "begins sp3 p"
        "fts_buffer sp3 = fts_buffer sp2" by auto
    have "reads c w sp1 (visits_all p cs) sp3"
      using reads_step [OF next_read(1,3) rest_read(1)] visits_all_head Cons nt by metis
    from reads_append [OF first(1) this] tl rest_read(2-4) next_read(4) first(4) show ?thesis by auto
  qed
qed

lemma walk_ok:
  assumes "alloc_ok c w = (True, w)"
  shows "walks_tree c w space p t" "walks_list c w space p cs"
  by (induction p t and p cs rule: visits_visits_all.induct)
    (auto intro: walks_leaf walks_dir [OF assms] walks_Cons simp: walks_list_def [of c w space _ "[]"])

section \<open>The roots\<close>

text \<open>The node of a root before it is loaded.\<close>

definition root_at :: "'w fts_calls \<Rightarrow> 'w \<Rightarrow> cstring \<times> ftree \<Rightarrow> ftsent \<Rightarrow> bool" where
  "root_at c w at q \<longleftrightarrow>
     ent_name q = fst at \<and> ent_level q = 0 \<and> ent_errno q = None \<and> ent_instr q = FTS_NOINSTR \<and>
     \<not> ent_symfollow q \<and> ent_info q = first_info (snd at) \<and>
     (\<forall>cs sb. snd at = Dir cs \<longrightarrow> lstat_file c w (fst at) = Inr sb \<longrightarrow> keys q = (st_ino sb, st_dev sb))"

lemma open_root_ok:
  assumes "walking space sp" "alloc_ok c w = (True, w)" "on_disk c w space [] a t"
  shows "\<exists>q. open_root c sp a w = Inr (q, w) \<and> root_at c w (a, t) q"
proof -
  let ?q = "(fts_alloc sp a)\<lparr>ent_level := 0, ent_accpath := Acc_name\<rparr>"
  have "access_string sp ?q = Inr a" by (simp add: access_string_def fts_alloc_def)
  from stat_node [of c w space "[]" a t sp ?q, OF _ this] walking_isset [OF assms(1)] assms(3) obtain q where
    q: "fts_stat c sp [] ?q False w = Inr q" "same_place ?q q"
      "ent_info q = first_info t \<or> ent_info q = FTS_DOT \<and> first_info t = FTS_D"
      "\<forall>cs sb. t = Dir cs \<longrightarrow> lstat_file c w a = Inr sb \<longrightarrow> keys q = (st_ino sb, st_dev sb)"
    by auto
  have "first_info t \<noteq> FTS_DOT" by (cases t rule: first_info.cases) (auto elim: leaf_info.elims)
  then show ?thesis
    using q assms(2) walking_isset(9) [OF assms(1)]
    by (auto simp: open_root_def root_at_def same_place_def fts_alloc_def keys_def)
qed

lemma open_roots_ok:
  assumes "walking space sp" "alloc_ok c w = (True, w)" "\<forall>(a, t) \<in> set roots. on_disk c w space [] a t"
  shows "\<exists>qs. open_roots c sp (map fst roots) ps w = Inr (ps @ qs, w) \<and> list_all2 (root_at c w) roots qs"
  using assms(3)
proof (induction roots arbitrary: ps)
  case (Cons r roots)
  obtain a t where r: "r = (a, t)" by (cases r)
  from open_root_ok [OF assms(1,2), of a t] Cons.prems obtain q where
    q: "open_root c sp a w = Inr (q, w)" "root_at c w (a, t) q" by (auto simp: r)
  from Cons.IH [of "ps @ [q]"] Cons.prems obtain qs where
    "open_roots c sp (map fst roots) (ps @ [q]) w = Inr ((ps @ [q]) @ qs, w)" "list_all2 (root_at c w) roots qs" by auto
  with q assms(1) show ?case by (intro exI [of _ "q # qs"]) (simp add: r walking_def)
qed simp

lemma read_root:
  assumes "visited space (q # qs) [] sp" "root_at c w (a, t) q" "on_disk c w space [] a t"
  shows "\<exists>sp'. fts_read c sp w = Inr (True, sp', w) \<and> visiting c w space a t qs [] sp' \<and> seen sp' = Inr (first_info t, a)"
proof -
  have w: "walking space sp" using assms(1) by (simp add: visited_def)
  have a: "0 \<notin> set a" "length a < length (fts_path sp)" using on_disk_path [OF assms(3)] walking_length [OF w] by auto
  from put_name [of sp "[]" a] a obtain b where
    put: "put_bytes 0 (a @ [0]) sp = Inr (sp\<lparr>fts_path := b\<rparr>)" "length b = length (fts_path sp)"
      "holds (sp\<lparr>fts_path := b\<rparr>) a" by (auto simp: begins_def)
  let ?q = "q\<lparr>ent_pathlen := length a, ent_name := last_name a, ent_accpath := Acc_path (fts_buffer sp), ent_path := fts_buffer sp\<rparr>"
  let ?sp = "sp\<lparr>fts_path := b, fts_dev := ent_dev q, fts_nodes := [(?q, qs)]\<rparr>"
  have "fts_read c sp w = Inr (True, ?sp, w)"
    using read_visited [OF assms(1), of c w] assms(2) put(1) walking_isset(1) [OF w]
    by (simp add: root_at_def FCHDIR_def fts_load_def)
  moreover have "visiting c w space a t qs [] ?sp"
    using w put(2,3) assms(2) by (simp add: visiting_def walking_def holds_def node_at_def root_at_def keys_def)
  moreover from this have "seen ?sp = Inr (first_info t, a)"
    by (auto simp: visiting_def seen_def holds_string current_def node_at_def)
  ultimately show ?thesis by blast
qed

lemma walk_roots:
  assumes "alloc_ok c w = (True, w)" "visited space qs [] sp" "list_all2 (root_at c w) roots qs"
    and "\<forall>(a, t) \<in> set roots. on_disk c w space [] a t"
  shows "\<exists>sp'. reads c w sp (concat (map (\<lambda>(a, t). visits a t) roots)) sp' \<and> visited space [] [] sp'"
  using assms(2-4)
proof (induction roots arbitrary: qs sp)
  case (Cons r roots)
  obtain a t where r: "r = (a, t)" by (cases r)
  with Cons.prems obtain q qs' where qs: "qs = q # qs'" "root_at c w (a, t) q" "list_all2 (root_at c w) roots qs'"
    by (cases qs) auto
  have disk: "on_disk c w space [] a t" using Cons.prems(3) by (simp add: r)
  from read_root [OF Cons.prems(1) [unfolded qs(1)] qs(2) disk] obtain sp1 where
    first: "fts_read c sp w = Inr (True, sp1, w)" "visiting c w space a t qs' [] sp1" "seen sp1 = Inr (first_info t, a)"
    by blast
  from walk_ok(1) [OF assms(1), unfolded walks_tree_def, rule_format, OF first(2)] disk obtain sp2 where
    inner: "reads c w sp1 (tl (visits a t)) sp2" "visited space qs' [] sp2" by auto
  from Cons.IH [OF inner(2) qs(3)] Cons.prems(3) obtain sp3 where
    rest: "reads c w sp2 (concat (map (\<lambda>(a, t). visits a t) roots)) sp3" "visited space [] [] sp3" by auto
  have "reads c w sp (visits a t) sp2"
    using reads_append [OF reads_one [OF first(1,3)] inner(1)] visits_head [of a t] by (metis append_Cons append_Nil)
  from reads_append [OF this rest(1)] rest(2) show ?case by (auto simp: r)
qed auto

section \<open>The properties\<close>

text \<open>C4: A walk of a file hierarchy opened with FTS_PHYSICAL and FTS_NOCHDIR on a list of roots
  gives, for each root in turn, every directory before and after what is in it and every other
  file once, in the order of the directories' entries, dots left out, each with its whole path;
  then it gives a null pointer. The paths fit the buffer that fts_open allocates.\<close>

theorem fts_visits_tree:
  assumes "roots \<noteq> []" "space = max (fts_maxarglen (map fst roots)) (MAXPATHLEN c) + 256"
    and "\<forall>(a, t) \<in> set roots. on_disk c w space [] a t"
    and "alloc_ok c w = (True, w)" "grow c space w = (Some moved, w)"
  shows "\<exists>sp sp' sp''. fts_open c (map fst roots) (FTS_PHYSICAL OR FTS_NOCHDIR) None w = Inr (sp, w) \<and>
    reads c w sp (concat (map (\<lambda>(a, t). visits a t) roots)) sp' \<and> fts_read c sp' w = Inr (False, sp'', w)"
proof -
  let ?sp = "\<lparr>fts_nodes = [], fts_child = Children [], fts_dev = 0, fts_path = replicate space (junk c),
      fts_buffer = (if moved then 1 else 0), fts_rfd = 0, fts_nitems = 0, fts_compar = None, fts_options = 0x14,
      fts_clientptr = 0\<rparr>"
  have w: "walking space ?sp" by (simp add: walking_def)
  from open_roots_ok [OF w assms(4,3), of "[]"] obtain qs where
    qs: "open_roots c ?sp (map fst roots) [] w = Inr (qs, w)" "list_all2 (root_at c w) roots qs" by auto
  let ?sp1 = "?sp\<lparr>fts_nodes := [(fts_alloc ?sp [], qs)]\<rparr>"
  have "fts_open c (map fst roots) (FTS_PHYSICAL OR FTS_NOCHDIR) None w = Inr (?sp1, w)"
    using qs(1) assms(1,4,5) by (cases moved) (simp_all add: fts_open_def fts_palloc_def isset_def fts_option_defs Let_def flip: assms(2))
  moreover have "visited space qs [] ?sp1" using w by (simp add: visited_def fts_alloc_def walking_def)
  from walk_roots [OF assms(4) this qs(2) assms(3)] obtain sp' where
    sp': "reads c w ?sp1 (concat (map (\<lambda>(a, t). visits a t) roots)) sp'" "visited space [] [] sp'" by auto
  moreover have "fts_read c sp' w = Inr (False, sp'\<lparr>fts_nodes := []\<rparr>, w)"
    using read_visited [OF sp'(2), of c w] sp'(2) by (auto simp: visited_def fts_up_def)
  ultimately show ?thesis by blast
qed

text \<open>C39: When the path of the first entry of a directory does not fit the buffer of an FTS_NOCHDIR
  walk and realloc moves it, fts_read passes the old buffer to lstat: freed memory is read.\<close>

theorem fts_long_path:
  assumes "visiting c w space p (Dir cs) sibs rest sp" "p \<noteq> []"
    and "dir_open c p w = (Inr (fd, (n, d) # entries), w1)" "\<not> is_dot n" "space \<le> length (join_path p n)"
    and "alloc_ok c w1 = (True, w2)" "\<And>k. grow c k w2 = (Some True, w3)"
  shows "fts_read c sp w = Inl Fault"
proof -
  have w: "walking space sp" and h: "holds sp p" using assms(1) by (simp_all add: visiting_def)
  note isset = walking_isset [OF w]
  obtain q where nodes: "fts_nodes sp = (q, sibs) # rest" and q: "node_at c w (fts_buffer sp) (int (length rest)) p (Dir cs) q"
    using assms(1) by (auto simp: visiting_def)
  have cur: "current sp = q" using nodes by (simp add: current_def)
  have "length (join_path p []) \<le> length (fts_path sp)" using h by (simp add: holds_def join_path_def)
  with append_slash [OF _ assms(2) _, of sp q] holds_begins [of sp p "[]"] h q obtain at buf where
    slash: "NAPPEND sp q = Inr at" "put_bytes at [slash] sp = Inr (sp\<lparr>fts_path := buf\<rparr>)" "length buf = length (fts_path sp)"
      "Suc at = length (join_path p [])"
    by (auto simp: node_at_def)
  have long: "length buf - Suc at \<le> length n"
    using assms(5) slash(3,4) walking_length [OF w] join_path_base [of p n] by simp
  have "isset (sp\<lparr>fts_path := buf\<rparr>) FTS_SEEDOT \<longleftrightarrow> isset sp FTS_SEEDOT" "isset (sp\<lparr>fts_path := b, fts_buffer := g\<rparr>) FTS_NOCHDIR" for b g
    using isset(1) by (simp_all add: isset_def)
  then have "build_loop c None False (Suc at) ((n, d) # entries)
      \<lparr>b_sp = sp\<lparr>fts_path := buf\<rparr>, b_head = [], b_nlinks = -1, b_maxlen = length buf - Suc at, b_doadjust = False\<rparr> w1 = Inl Fault"
    using assms(4,6,7) long isset(5)
    by (simp add: Let_def fts_palloc_def build_node_def put_bytes_def fts_stat_def access_string_def fts_alloc_def)
  moreover have "access_string sp q = Inr p" using h q by (simp add: access_string_def node_at_def holds_string)
  ultimately have "fts_build c sp BREAD w = Inl Fault"
    using assms(3) slash(1,2) isset cur by (simp add: fts_build_def fts_safe_changedir_def Let_def)
  then show ?thesis
    using nodes q isset w
    by (simp add: fts_read_def fts_enter_def node_at_def same_nodes instr_values current_def walking_def)
qed

text \<open>With no directory left to find, no entry is looked at.\<close>

lemma build_node_nsok:
  assumes "build_node c cderrno nostat len d b p w = Inr (b', p')" "b_nlinks b = 0"
  shows "b' = b \<and> ent_info p' = FTS_NSOK"
  using assms by (auto simp: build_node_def Let_def split: option.splits)

definition unlooked :: "build \<Rightarrow> bool" where
  "unlooked b \<longleftrightarrow> b_nlinks b = 0 \<and> (\<forall>q \<in> set (b_head b). ent_info q = FTS_NSOK) \<and> fts_compar (b_sp b) = None"

lemma palloc_compar: "fts_palloc c sp k w = (ok, sp', w') \<Longrightarrow> fts_compar sp' = fts_compar sp"
  by (auto simp: fts_palloc_def split: prod.splits option.splits)

lemma build_loop_nsok:
  "build_loop c cderrno nostat len entries b w = Inr (Built b', w') \<Longrightarrow> unlooked b \<Longrightarrow> unlooked b'"
proof (induction entries arbitrary: b w)
  case (Cons e entries)
  obtain n d where e: "e = (n, d)" by (cases e)
  obtain ok w1 where alloc: "alloc_ok c w = (ok, w1)" by (cases "alloc_ok c w")
  obtain ok2 sp1 w2 where palloc:
    "(if length n \<ge> b_maxlen b then fts_palloc c (b_sp b) (length n + len + 1) w1 else (True, b_sp b, w1)) = (ok2, sp1, w2)"
    by (cases "if length n \<ge> b_maxlen b then fts_palloc c (b_sp b) (length n + len + 1) w1 else (True, b_sp b, w1)")
  show ?case
  proof (cases "\<not> isset (b_sp b) FTS_SEEDOT \<and> is_dot n")
    case True
    with Cons show ?thesis by (simp add: e)
  next
    case False
    let ?b = "b\<lparr>b_sp := sp1, b_doadjust := b_doadjust b \<or> fts_buffer (b_sp b) \<noteq> fts_buffer sp1,
      b_maxlen := (if length n \<ge> b_maxlen b then length (fts_path sp1) - len else b_maxlen b)\<rparr>"
    from Cons.prems(1) False alloc palloc obtain b2 p2 p1 where
      node: "build_node c cderrno nostat len d ?b p1 w2 = Inr (b2, p2)" and
      rest: "build_loop c cderrno nostat len entries (b2\<lparr>b_head := b_head b2 @ [p2]\<rparr>) w2 = Inr (Built b', w')"
      by (auto simp: e Let_def cres_simps split: if_splits bool.splits)
    have "fts_compar sp1 = fts_compar (b_sp b)" using palloc palloc_compar by (auto split: if_splits)
    then have "unlooked (b2\<lparr>b_head := b_head b2 @ [p2]\<rparr>)"
      using build_node_nsok [OF node] Cons.prems(2) by (auto simp: unlooked_def)
    with Cons.IH rest show ?thesis by blast
  qed
qed simp

lemma and_then_ok: "and_then m f = Inr y \<Longrightarrow> \<exists>x. m = Inr x"
  by (cases m) auto

lemma padjust_nsok:
  "fts_padjust sp head = Inr (sp', head') \<Longrightarrow> fts_compar sp' = fts_compar sp \<and> map ent_info head' = map ent_info head"
  by (auto simp: fts_padjust_def adjust_def Let_def split: child_list.splits)

lemma put_compar: "put_bytes i bs sp = Inr sp' \<Longrightarrow> fts_compar sp' = fts_compar sp"
  by (auto simp: put_bytes_def split: if_splits)

lemma build_end_nsok:
  assumes "build_end c type descend b w = Inr (heads, sp', w')" "unlooked b"
  shows "\<forall>q \<in> set heads. ent_info q = FTS_NSOK"
proof -
  note fin = assms(1) [unfolded build_end_def]
  from and_then_ok [OF fin] obtain sp1 head where
    adj: "(if b_doadjust b then fts_padjust (b_sp b) (b_head b) else Inr (b_sp b, b_head b)) = Inr (sp1, head)" by auto
  then have "fts_compar sp1 = None" "map ent_info head = map ent_info (b_head b)"
    using padjust_nsok assms(2) by (fastforce simp: unlooked_def split: if_splits)+
  then have sp1: "fts_compar sp1 = None" and head: "\<forall>q \<in> set head. ent_info q = FTS_NSOK"
    using assms(2) unfolding unlooked_def by (metis, metis in_set_conv_nth length_map nth_map)
  note fin = fin [unfolded adj and_then_Inr prod.case]
  from and_then_ok [OF fin] obtain sp2 where
    put: "(if isset sp1 FTS_NOCHDIR then put_bytes (ent_pathlen (current sp1)) [0] sp1 else Inr sp1) = Inr sp2" by auto
  then have "fts_compar sp2 = None" using put_compar sp1 by (auto split: if_splits)
  with fin [unfolded put and_then_Inr] head show ?thesis
    by (auto simp: Let_def set_current_def split: if_splits prod.splits)
qed

lemma finish_nsok:
  assumes "and_then (build_loop c err nostat len entries b w2) (\<lambda>(r, w3).
      case r of
        Mem1 sp3 \<Rightarrow> Inr ([], f sp3, g w3)
      | Built b3 \<Rightarrow> build_end c type descend b3 (g w3)) = Inr (heads, sp', w')"
    and "unlooked b"
  shows "\<forall>q \<in> set heads. ent_info q = FTS_NSOK"
proof -
  from assms(1) obtain r w3 where loop: "build_loop c err nostat len entries b w2 = Inr (r, w3)" and
    fin: "(case r of Mem1 sp3 \<Rightarrow> Inr ([], f sp3, g w3) | Built b3 \<Rightarrow> build_end c type descend b3 (g w3)) = Inr (heads, sp', w')"
    by (auto simp: and_then_eq_Inr)
  show ?thesis
  proof (cases r)
    case (Built b3)
    with build_loop_nsok [OF loop [unfolded Built] assms(2)] fin show ?thesis by (auto dest: build_end_nsok)
  next
    case (Mem1 sp3)
    with fin show ?thesis by simp
  qed
qed

text \<open>With any flags but \<open>FTS_SEEDOT\<close> and no comparison, no entry of a directory with two links is looked at.\<close>

lemma build_trusts_links:
  assumes "isset sp FTS_NOSTAT" "isset sp FTS_PHYSICAL" "\<not> isset sp FTS_SEEDOT" "fts_compar sp = None"
    and "ent_nlink (current sp) = 2" "fts_build c sp type w = Inr (heads, sp', w')"
  shows "\<forall>q \<in> set heads. ent_info q = FTS_NSOK"
proof -
  obtain path where path: "access_string sp (current sp) = Inr path"
    using assms(6) by (auto simp: fts_build_def cres_simps)
  obtain r w1 where opened: "dir_open c path w = (r, w1)" by (cases "dir_open c path w")
  show ?thesis
  proof (cases r)
    case (Inl e)
    with assms(6) path opened show ?thesis by (simp add: fts_build_def)
  next
    case (Inr x)
    obtain fd entries where x: "x = (fd, entries)" by (cases x)
    obtain err w2 where cd: "(if type = BREAD then fts_safe_changedir c sp (current sp) (Inl fd) w1 else (None, w1)) = (err, w2)"
      by (cases "if type = BREAD then fts_safe_changedir c sp (current sp) (Inl fd) w1 else (None, w1)")
    define sp1 where "sp1 = (case err of None \<Rightarrow> sp | Some e \<Rightarrow> set_current (\<lambda>p. p\<lparr>ent_errno := ent_errno p, ent_dontchdir := True\<rparr>) sp)"
    have build: "fts_build c sp type w =
      and_then (NAPPEND sp1 (current sp1)) (\<lambda>at.
        and_then (if isset sp1 FTS_NOCHDIR then put_bytes at [slash] sp1 else Inr sp1) (\<lambda>sp2.
          and_then (build_loop c err (type \<noteq> BNAMES) (at + 1) entries
              \<lparr>b_sp = sp2, b_head = [], b_nlinks = 0, b_maxlen = length (fts_path sp2) - (at + 1), b_doadjust = False\<rparr> w2)
            (\<lambda>(r, w3). case r of
               Mem1 sp3 \<Rightarrow> Inr ([], SET FTS_STOP (set_current (\<lambda>p. p\<lparr>ent_info := FTS_ERR\<rparr>) sp3), dir_close c fd w3)
             | Built b3 \<Rightarrow> build_end c type (type = BREAD \<and> err = None) b3 (dir_close c fd w3))))"
      using assms(1-3,5) path opened Inr x cd by (cases type; cases err) (simp_all add: fts_build_def sp1_def Let_def cong: if_cong built.case_cong)
    from and_then_ok [OF assms(6) [unfolded build]] obtain at where at: "NAPPEND sp1 (current sp1) = Inr at" by blast
    from and_then_ok [OF assms(6) [unfolded build at and_then_Inr]] obtain sp2 where
      sp2: "(if isset sp1 FTS_NOCHDIR then put_bytes at [slash] sp1 else Inr sp1) = Inr sp2" by blast
    have "fts_compar sp1 = None" using assms(4) by (simp add: sp1_def set_current_def split: option.split)
    then have "fts_compar sp2 = None" using sp2 by (auto simp: put_bytes_def split: if_splits)
    then show ?thesis
      using assms(6) [unfolded build at sp2 and_then_Inr] by (auto elim!: finish_nsok simp: unlooked_def)
  qed
qed

text \<open>A walk with \<open>FTS_PHYSICAL\<close>, \<open>FTS_NOCHDIR\<close> and \<open>FTS_NOSTAT\<close>.\<close>

definition skimming :: "nat \<Rightarrow> fts \<Rightarrow> bool" where
  "skimming space sp \<longleftrightarrow> fts_options sp = 0x1C \<and> fts_child sp = Children [] \<and> fts_compar sp = None \<and>
     length (fts_path sp) = space"

lemma skimming_isset:
  assumes "skimming space sp"
  shows "isset sp FTS_NOCHDIR" "isset sp FTS_PHYSICAL" "isset sp FTS_NOSTAT" "\<not> isset sp FTS_SEEDOT" "\<not> isset sp FTS_XDEV"
    "\<not> isset sp FTS_NAMEONLY" "\<not> isset sp FTS_STOP"
  using assms by (simp_all add: skimming_def isset_def fts_option_defs)

lemma skimming_nodes [simp]:
  "skimming space (sp\<lparr>fts_nodes := ns\<rparr>) \<longleftrightarrow> skimming space sp"
  "length b = space \<Longrightarrow> skimming space (sp\<lparr>fts_path := b\<rparr>) \<longleftrightarrow> skimming (length (fts_path sp)) sp"
  by (auto simp: skimming_def)

lemma skimming_length: "skimming space sp \<Longrightarrow> length (fts_path sp) = space"
  by (simp add: skimming_def)

text \<open>The node of an entry that was not looked at.\<close>

definition unseen :: "int \<Rightarrow> cstring \<Rightarrow> ftsent \<Rightarrow> bool" where
  "unseen lvl n q \<longleftrightarrow> ent_name q = n \<and> ent_info q = FTS_NSOK \<and> ent_level q = lvl \<and> ent_instr q = FTS_NOINSTR"

lemma skim_loop:
  assumes "skimming space sp" "alloc_ok c w = (True, w)" "b_sp b = sp" "b_nlinks b = 0"
    and "\<forall>n \<in> set (map fst entries). \<not> is_dot n \<longrightarrow> length n < b_maxlen b"
  shows "\<exists>heads. build_loop c None True len entries b w = Inr (Built (b\<lparr>b_head := b_head b @ heads\<rparr>), w) \<and>
    list_all2 (unseen (ent_level (current sp) + 1)) (filter (\<lambda>n. \<not> is_dot n) (map fst entries)) heads"
  using assms(3-)
proof (induction entries arbitrary: b)
  case Nil
  then show ?case by simp
next
  case (Cons e entries)
  obtain n d where e: "e = (n, d)" by (cases e)
  note isset = skimming_isset [OF assms(1)]
  show ?case
  proof (cases "is_dot n")
    case True
    with Cons isset show ?thesis by (simp add: e)
  next
    case False
    then have fits: "\<not> b_maxlen b \<le> length n" using Cons.prems(3) by (simp add: e)
    let ?q = "(fts_alloc sp n)\<lparr>ent_level := ent_level (current sp) + 1, ent_pathlen := len + length n,
      ent_accpath := Acc_path (fts_buffer sp), ent_info := FTS_NSOK\<rparr>"
    have same: "b\<lparr>b_sp := sp, b_head := h\<rparr> = b\<lparr>b_head := h\<rparr>" for h using Cons.prems(1) by (cases b) simp
    have "build_loop c None True len (e # entries) b w = build_loop c None True len entries (b\<lparr>b_head := b_head b @ [?q]\<rparr>) w"
      using False fits assms(2) Cons.prems(1,2) isset by (simp add: e Let_def build_node_def fts_alloc_def same)
    moreover from Cons.IH [of "b\<lparr>b_head := b_head b @ [?q]\<rparr>"] Cons.prems obtain heads where
      "build_loop c None True len entries (b\<lparr>b_head := b_head b @ [?q]\<rparr>) w = Inr (Built (b\<lparr>b_head := b_head b @ ?q # heads\<rparr>), w)"
      "list_all2 (unseen (ent_level (current sp) + 1)) (filter (\<lambda>n. \<not> is_dot n) (map fst entries)) heads"
      by auto
    moreover have "unseen (ent_level (current sp) + 1) n ?q" by (simp add: unseen_def fts_alloc_def)
    ultimately show ?thesis using False by (intro exI [of _ "?q # heads"]) (simp add: e)
  qed
qed

text \<open>The directory on the stack, and the buffer with its path.\<close>

lemma skim_name:
  assumes "skimming space sp" "fts_nodes sp = (q, qs) # rest" "under p rest sp" "begins sp p"
    and "unseen lvl n q" "0 \<notin> set n" "length (join_path p n) < space"
  shows "\<exists>b. fts_name_path sp w = Inr (True, sp\<lparr>fts_path := b\<rparr>, w) \<and> length b = space \<and>
    holds (sp\<lparr>fts_path := b\<rparr>) (join_path p n) \<and> seen (sp\<lparr>fts_path := b\<rparr>) = Inr (FTS_NSOK, join_path p n)"
proof -
  have u: "p \<noteq> []" "0 \<notin> set p" "ent_path (fst (hd rest)) = fts_buffer sp" "ent_pathlen (fst (hd rest)) = length p" "rest \<noteq> []"
    using assms(3) by (auto simp: under_def Let_def)
  have d: "hd (parents_of sp) = fst (hd rest)" using assms(2) u(5) by (cases rest) (auto simp: parents_of_def)
  have n: "ent_name (current sp) = n" using assms(2,5) by (simp add: current_def unseen_def)
  obtain at b where put: "NAPPEND sp (fst (hd rest)) = Inr at"
      "put_bytes at (slash # n @ [0]) sp = Inr (sp\<lparr>fts_path := b\<rparr>)" "length b = length (fts_path sp)"
      "holds (sp\<lparr>fts_path := b\<rparr>) (join_path p n)"
    using append_name [OF assms(4) u(1,2) assms(6) _ u(3,4)] assms(7) skimming_length [OF assms(1)] by auto
  moreover have "fts_name_path sp w = Inr (True, sp\<lparr>fts_path := b\<rparr>, w)"
    using put(1,2) d n by (simp add: fts_name_path_def)
  moreover have "seen (sp\<lparr>fts_path := b\<rparr>) = Inr (FTS_NSOK, join_path p n)"
    using holds_string [OF put(4)] assms(2,5) by (simp add: seen_def current_def unseen_def)
  ultimately show ?thesis using skimming_length [OF assms(1)] by auto
qed

text \<open>The entries one after the other, and then the directory again.\<close>

lemma skim_entries:
  assumes "list_all2 (unseen (int (length rest) + 1)) ns qs" "\<forall>n \<in> set ns. 0 \<notin> set n \<and> length (join_path p n) < space"
    and "skimming space sp" "fts_nodes sp = (q, qs) # (d, ds) # rest" "ent_info q \<noteq> FTS_D" "ent_instr q = FTS_NOINSTR"
    and "under p ((d, ds) # rest) sp" "begins sp p"
  shows "\<exists>sp'. reads c w sp (map (\<lambda>n. (FTS_NSOK, join_path p n)) ns @ [(FTS_DP, p)]) sp'"
  using assms
proof (induction ns qs arbitrary: sp q rule: list_all2_induct)
  case Nil
  note isset = skimming_isset [OF Nil.prems(2)]
  have u: "0 \<notin> set p" "length p < length (fts_path sp)" "ent_pathlen d = length p" "ent_errno d = None"
      "ent_instr d = FTS_NOINSTR" "\<not> ent_symfollow d"
    using Nil.prems(6) by (auto simp: under_def)
  from put_end [OF Nil.prems(7) u(1,2)] obtain b where
    put: "put_bytes (length p) [0] sp = Inr (sp\<lparr>fts_path := b\<rparr>)" "length b = length (fts_path sp)"
      "holds (sp\<lparr>fts_path := b\<rparr>) p" by auto
  have "isset (sp\<lparr>fts_path := b\<rparr>) FTS_NOCHDIR" using isset(1) by (simp add: isset_def)
  then have "fts_read c sp w = Inr (True, sp\<lparr>fts_path := b, fts_nodes := (d\<lparr>ent_info := FTS_DP\<rparr>, ds) # rest\<rparr>, w)"
    using put(1) Nil.prems(3-5) u isset
    by (simp add: fts_read_def Let_def instr_values same_nodes fts_up_def FCHDIR_def fts_safe_changedir_def)
  moreover have "seen (sp\<lparr>fts_path := b, fts_nodes := (d\<lparr>ent_info := FTS_DP\<rparr>, ds) # rest\<rparr>) = Inr (FTS_DP, p)"
    using put(3) holds_string [of "sp\<lparr>fts_path := b, fts_nodes := (d\<lparr>ent_info := FTS_DP\<rparr>, ds) # rest\<rparr>" p]
    by (simp add: seen_def current_def)
  ultimately show ?case by auto
next
  case (Cons n ns k ks)
  note isset = skimming_isset [OF Cons.prems(2)]
  let ?sp = "sp\<lparr>fts_nodes := (k, ks) # (d, ds) # rest\<rparr>"
  have k: "ent_level k \<noteq> 0" "ent_instr k = FTS_NOINSTR" "ent_info k \<noteq> FTS_D" using Cons.hyps(1) by (auto simp: unseen_def)
  have read: "fts_read c sp w = fts_name_path ?sp w"
    using Cons.prems(3-5) k isset by (simp add: fts_read_def Let_def instr_values same_nodes)
  have "under p ((d, ds) # rest) ?sp" using Cons.prems(6) by (simp add: under_def)
  with skim_name [of space ?sp k ks "(d, ds) # rest" p "int (length rest) + 1" n w] Cons.prems(1,2,7) Cons.hyps(1) obtain b where
    b: "fts_name_path ?sp w = Inr (True, ?sp\<lparr>fts_path := b\<rparr>, w)" "length b = space"
      "holds (?sp\<lparr>fts_path := b\<rparr>) (join_path p n)" "seen (?sp\<lparr>fts_path := b\<rparr>) = Inr (FTS_NSOK, join_path p n)"
    by auto
  have p: "p \<noteq> []" using Cons.prems(6) by (simp add: under_def)
  have "\<exists>sp'. reads c w (?sp\<lparr>fts_path := b\<rparr>) (map (\<lambda>n. (FTS_NSOK, join_path p n)) ns @ [(FTS_DP, p)]) sp'"
  proof (rule Cons.IH [where q = k])
    show "under p ((d, ds) # rest) (?sp\<lparr>fts_path := b\<rparr>)"
      by (rule under_kept [OF Cons.prems(6)]) (use b(2) skimming_length [OF Cons.prems(2)] in simp_all)
    show "begins (?sp\<lparr>fts_path := b\<rparr>) p" by (rule begins_join [OF b(3) p])
    show "skimming space (?sp\<lparr>fts_path := b\<rparr>)"
      using Cons.prems(2) b(2) skimming_length [OF Cons.prems(2)] by simp
  qed (use Cons.prems(1) k in auto)
  then show ?case using read b(1,4) by auto
qed


text \<open>When fts_children is asked again for a directory whose children it has read, and cannot open the
  working directory, it has freed the list and keeps the pointer: the next fts_read uses freed memory.\<close>

lemma fts_children_freed:
  assumes "fts_nodes sp = (q, ps) # rest" "ent_info q = FTS_D" "ent_level q = 0" "ent_instr q = FTS_NOINSTR"
    and "fts_child sp = Children (k # ks)" "access_string sp q = Inr path" "path \<noteq> [] \<longrightarrow> hd path \<noteq> slash"
    and "\<not> isset sp FTS_NOCHDIR" "\<not> isset sp FTS_STOP" "open_dir c [dot] w = (Inl e, w1)"
  shows "\<exists>sp'. fts_children c sp 0 w = Inr ([], sp', w1) \<and> fts_read c sp' w1 = Inl Fault \<and> fts_close c sp' w1 = Inl Fault"
proof -
  let ?sp = "sp\<lparr>fts_child := Freed\<rparr>"
  have "access_string ?sp q = access_string sp q" "isset ?sp opt = isset sp opt" for opt
    by (simp_all add: access_string_def path_string_def isset_def split: access.split)
  then have "fts_children c sp 0 w = Inr ([], ?sp, w1)" "fts_read c ?sp w1 = Inl Fault" "fts_close c ?sp w1 = Inl Fault"
    using assms by (auto simp: fts_children_def fts_read_def fts_enter_def fts_close_def instr_values same_nodes FTS_NAMEONLY_def Let_def)
  then show ?thesis by blast
qed

section \<open>Witnesses\<close>

text \<open>The directory \<open>r\<close> with a file and an empty directory; the entries of a directory begin with the dots.\<close>

definition small_disk :: "unit fts_calls" where
  "small_disk =
     (let lstat = (\<lambda>p. if p = ascii ''r'' then Inr \<lparr>st_mode = S_DIR, st_dev = 1, st_ino = 2, st_nlink = 3\<rparr>
            else if p = ascii ''r/a'' then Inr \<lparr>st_mode = S_REG, st_dev = 1, st_ino = 3, st_nlink = 1\<rparr>
            else if p = ascii ''r/d'' then Inr \<lparr>st_mode = S_DIR, st_dev = 1, st_ino = 4, st_nlink = 2\<rparr>
            else Inl ENOENT) in
      \<lparr>stat_file = (\<lambda>w. lstat), lstat_file = (\<lambda>w. lstat), fstat_file = (\<lambda>w fd. Inl EBADF),
       open_dir = (\<lambda>p w. (Inl ENOENT, w)),
       dir_open = (\<lambda>p w.
         (if p = ascii ''r'' then
            Inr (5, [(ascii ''.'', DT_DIR), (ascii ''..'', DT_DIR), (ascii ''a'', DT_OTHER), (ascii ''d'', DT_DIR)])
          else if p = ascii ''r/d'' then Inr (5, [(ascii ''.'', DT_DIR), (ascii ''..'', DT_DIR)])
          else Inl ENOENT, w)),
       dir_close = (\<lambda>fd w. w), change_dir = (\<lambda>fd w. (None, w)), close_fd = (\<lambda>fd w. w),
       alloc_ok = (\<lambda>w. (True, w)), grow = (\<lambda>n w. (Some True, w)), grow_array = (\<lambda>n w. (True, w)),
       sort_nodes = (\<lambda>f ps. ps), has_dt_dir = False, junk = 7, MAXPATHLEN = 4\<rparr>)"

definition small_tree :: ftree where
  "small_tree = Dir [(ascii ''a'', Leaf S_REG), (ascii ''d'', Dir [])]"

lemma small_disk_at: "on_disk small_disk () 260 [] (ascii ''r'') small_tree"
  by code_simp

lemma fts_visits_tree_witness:
  "\<exists>sp sp' sp''. fts_open small_disk [ascii ''r''] (FTS_PHYSICAL OR FTS_NOCHDIR) None () = Inr (sp, ()) \<and>
    reads small_disk () sp [(FTS_D, ascii ''r''), (FTS_F, ascii ''r/a''), (FTS_D, ascii ''r/d''), (FTS_DP, ascii ''r/d''),
      (FTS_DP, ascii ''r'')] sp' \<and> fts_read small_disk sp' () = Inr (False, sp'', ())"
proof -
  have "concat (map (\<lambda>(a, t). visits a t) [(ascii ''r'', small_tree)]) =
      [(FTS_D, ascii ''r''), (FTS_F, ascii ''r/a''), (FTS_D, ascii ''r/d''), (FTS_DP, ascii ''r/d''), (FTS_DP, ascii ''r'')]"
    by code_simp
  moreover have "max (fts_maxarglen (map fst [(ascii ''r'', small_tree)])) (MAXPATHLEN small_disk) + 256 = 260" by code_simp
  moreover have "alloc_ok small_disk () = (True, ())" "grow small_disk 260 () = (Some True, ())"
    by (simp_all add: small_disk_def Let_def)
  ultimately show ?thesis
    using fts_visits_tree [of "[(ascii ''r'', small_tree)]" 260 small_disk "()" True] small_disk_at by simp
qed

text \<open>A walk of \<open>r\<close> with a buffer of four bytes.\<close>

definition small_node :: ftsent where
  "small_node =
     \<lparr>ent_name = ascii ''r'', ent_info = FTS_D, ent_accpath = Acc_path 0, ent_path = 0, ent_level = 0, ent_pathlen = 1,
      ent_errno = None, ent_instr = FTS_NOINSTR, ent_symfd = 0, ent_dev = 1, ent_ino = 2, ent_nlink = 2, ent_cycle = None,
      ent_dontchdir = False, ent_symfollow = False, ent_statp = None\<rparr>"

definition small_walk :: "u32 \<Rightarrow> child_list \<Rightarrow> fts" where
  "small_walk options children =
     \<lparr>fts_nodes = [(small_node, [])], fts_child = children, fts_dev = 1, fts_path = ascii ''r'' @ [0, 0, 0], fts_buffer = 0,
      fts_rfd = 0, fts_nitems = 0, fts_compar = None, fts_options = options, fts_clientptr = 0\<rparr>"

lemma small_walk_at: "visiting small_disk () 4 (ascii ''r'') (Dir []) [] [] (small_walk 0x14 (Children []))"
proof -
  have "ascii ''r'' = [0x72]" by code_simp
  then show ?thesis
    by (simp add: visiting_def walking_def holds_def node_at_def small_walk_def small_node_def keys_def
        small_disk_def Let_def)
qed

text \<open>The name \<open>abc\<close> comes first in \<open>r\<close>; two bytes are left for it and its terminator.\<close>

definition long_disk :: "unit fts_calls" where
  "long_disk = small_disk\<lparr>dir_open := (\<lambda>p w. (Inr (5, [(ascii ''abc'', DT_OTHER)]), w))\<rparr>"

lemma fts_long_path_witness: "fts_read long_disk (small_walk 0x14 (Children [])) () = Inl Fault"
proof (rule fts_long_path)
  show "visiting long_disk () 4 (ascii ''r'') (Dir []) [] [] (small_walk 0x14 (Children []))"
    using small_walk_at by (simp add: visiting_def node_at_def long_disk_def)
  show "ascii ''r'' \<noteq> []" "\<not> is_dot (ascii ''abc'')" "4 \<le> length (join_path (ascii ''r'') (ascii ''abc''))" by code_simp+
  show "dir_open long_disk (ascii ''r'') () = (Inr (5, (ascii ''abc'', DT_OTHER) # []), ())" by (simp add: long_disk_def)
  show "alloc_ok long_disk () = (True, ())" "\<And>k. grow long_disk k () = (Some True, ())"
    by (simp_all add: long_disk_def small_disk_def Let_def)
qed


lemma fts_children_freed_witness:
  "\<exists>sp'. fts_children small_disk (small_walk 0x10 (Children [small_node])) 0 () = Inr ([], sp', ()) \<and>
    fts_read small_disk sp' () = Inl Fault \<and> fts_close small_disk sp' () = Inl Fault"
proof (rule fts_children_freed)
  show "fts_nodes (small_walk 0x10 (Children [small_node])) = (small_node, []) # []"
    "fts_child (small_walk 0x10 (Children [small_node])) = Children (small_node # [])"
    by (simp_all add: small_walk_def)
  show "ent_info small_node = FTS_D" "ent_level small_node = 0" "ent_instr small_node = FTS_NOINSTR"
    by (simp_all add: small_node_def)
  show "access_string (small_walk 0x10 (Children [small_node])) small_node = Inr (ascii ''r'')"
    by (simp add: access_string_def path_string_def small_walk_def small_node_def) code_simp
  show "ascii ''r'' \<noteq> [] \<longrightarrow> hd (ascii ''r'') \<noteq> slash" by code_simp
  show "\<not> isset (small_walk 0x10 (Children [small_node])) FTS_NOCHDIR" "\<not> isset (small_walk 0x10 (Children [small_node])) FTS_STOP"
    by (simp_all add: isset_def small_walk_def fts_option_defs)
  show "open_dir small_disk [dot] () = (Inl ENOENT, ())" by (simp add: small_disk_def Let_def)
qed

end
