(* ===== verification/Libc_Paths.thy ===== *)
theory Libc_Paths
  imports Spawn_Paths Spawn_Vars
begin

text \<open>
  \<open>realpath.c\<close> and \<open>mktemp.c\<close> of glibc-compat.  What they ask the system for is a record of functions;
  a path written to a buffer is the string in it, so \<open>out\<close> is always its end.  The release of the
  buffer that \<open>realpath\<close> allocates is left out.
\<close>

section \<open>The absolute path of a file\<close>

text \<open>\<open>stat_path\<close> tells whether a file that exists is a directory; \<open>getcwd_buf\<close> takes the size of the buffer.\<close>

record path_calls =
  path_max :: nat
  stat_path :: "cstring \<Rightarrow> errno + bool"
  getcwd_buf :: "nat \<Rightarrow> errno + cstring"
  malloc_fails :: bool

text \<open>What \<open>strrchr\<close> leaves of the path when its result is made the end.\<close>

definition before_slash :: "cstring \<Rightarrow> cstring option" where
  "before_slash r =
     (if slash \<in> set r then Some (rev (tl (dropWhile (\<lambda>c. c \<noteq> slash) (rev r)))) else None)"

definition realpath_append :: "path_calls \<Rightarrow> cstring \<Rightarrow> cstring \<Rightarrow> cstring cres" where
  "realpath_append c resolved name =
     and_then
       (if length resolved \<noteq> 1 then
          if length resolved + 1 > path_max c - 1 then Inl (Errno ENAMETOOLONG) else Inr (resolved @ [slash])
        else Inr resolved)
       (\<lambda>r. if length r + length name > path_max c - 1 then Inl (Errno ENAMETOOLONG) else Inr (r @ name))"

definition realpath_name :: "path_calls \<Rightarrow> cstring \<Rightarrow> cstring \<Rightarrow> cstring cres" where
  "realpath_name c resolved name =
     (if name = [] then Inr resolved
      else if name = [dot] then Inr resolved
      else if name = [dot, dot] then
        case before_slash resolved of
          None \<Rightarrow> Inl Abort
        | Some p \<Rightarrow> Inr (if p = [] then [slash] else p)
      else realpath_append c resolved name)"

lemma length_rest: "dropWhile P s \<noteq> [] \<Longrightarrow> length (tl (dropWhile P s)) < length s"
  using length_dropWhile_le [of P s] by (cases "dropWhile P s") (auto simp del: length_dropWhile_le)

lemma dropWhile_slash: "dropWhile (\<lambda>b. b \<noteq> slash) s = [] \<longleftrightarrow> slash \<notin> set s"
  by (auto simp: dropWhile_eq_Nil_conv)

function realpath_loop :: "path_calls \<Rightarrow> cstring \<Rightarrow> cstring \<Rightarrow> cstring cres" where
  "realpath_loop c resolved inn =
     (let name = takeWhile (\<lambda>b. b \<noteq> slash) inn; next_slash = dropWhile (\<lambda>b. b \<noteq> slash) inn in
      and_then (realpath_name c resolved name) (\<lambda>r.
        case stat_path c r of
          Inl e \<Rightarrow> Inl (Errno e)
        | Inr is_dir \<Rightarrow>
            if next_slash = [] then Inr r
            else if \<not> is_dir then Inl (Errno ENOTDIR)
            else realpath_loop c r (tl next_slash)))"
  by pat_completeness auto

termination
  by (relation "measure (\<lambda>(c, resolved, inn). length inn)") (simp_all add: length_rest del: length_tl dropWhile_eq_Nil_conv)

declare realpath_loop.simps [simp del]

text \<open>\<open>given\<close> tells whether the caller passes a buffer.\<close>

definition realpath :: "path_calls \<Rightarrow> cstring option \<Rightarrow> bool \<Rightarrow> cstring cres" where
  "realpath c path given =
     (case path of
        None \<Rightarrow> Inl (Errno EINVAL)
      | Some s \<Rightarrow>
          if \<not> given \<and> malloc_fails c then Inl Fault
          else
            and_then
              (if s \<noteq> [] \<and> hd s = slash then Inr ([slash], tl s)
               else
                 case getcwd_buf c (path_max c - 1) of
                   Inl e \<Rightarrow> Inl (Errno e)
                 | Inr w \<Rightarrow> Inr (w, s))
              (\<lambda>(resolved, inn).
                case stat_path c resolved of
                  Inl e \<Rightarrow> Inl (Errno e)
                | Inr is_dir \<Rightarrow> realpath_loop c resolved inn))"

section \<open>Paths as lists of names\<close>

function path_names :: "cstring \<Rightarrow> cstring list" where
  "path_names s =
     (if slash \<in> set s then takeWhile (\<lambda>b. b \<noteq> slash) s # path_names (tl (dropWhile (\<lambda>b. b \<noteq> slash) s))
      else [s])"
  by pat_completeness auto

termination
  by (relation "measure length") (simp_all add: length_rest dropWhile_slash del: length_tl dropWhile_eq_Nil_conv)

declare path_names.simps [simp del]

definition walk_name :: "cstring list \<Rightarrow> cstring \<Rightarrow> cstring list" where
  "walk_name cs n = (if n = [] \<or> n = [dot] then cs else if n = [dot, dot] then butlast cs else cs @ [n])"

definition absolute :: "cstring list \<Rightarrow> cstring" where
  "absolute cs = (if cs = [] then [slash] else concat (map ((#) slash) cs))"

definition plain_names :: "cstring list \<Rightarrow> bool" where
  "plain_names cs \<longleftrightarrow> (\<forall>n \<in> set cs. n \<noteq> [] \<and> slash \<notin> set n)"

text \<open>
  A path can be walked from a directory when every step leads to a name that fits the buffer and to
  a file that exists, a directory unless it is the last.
\<close>

fun walk :: "path_calls \<Rightarrow> cstring list \<Rightarrow> cstring list \<Rightarrow> cstring option" where
  "walk c cs [] = Some (absolute cs)"
| "walk c cs (n # ns) =
     (let cs' = walk_name cs n in
      if length (absolute cs') < path_max c \<and> (\<exists>d. stat_path c (absolute cs') = Inr d \<and> (ns = [] \<or> d))
      then walk c cs' ns else None)"

lemma plain_names_walk: "plain_names cs \<Longrightarrow> slash \<notin> set n \<Longrightarrow> plain_names (walk_name cs n)"
  by (auto simp: plain_names_def walk_name_def dest: in_set_butlastD)

lemma length_absolute_one: "plain_names cs \<Longrightarrow> length (absolute cs) = 1 \<longleftrightarrow> cs = []"
  by (cases cs) (auto simp: absolute_def plain_names_def)

lemma before_slash_snoc: "slash \<notin> set n \<Longrightarrow> before_slash (p @ slash # n) = Some p"
  by (simp add: before_slash_def) (subst dropWhile_append2, auto)

lemma before_slash_absolute:
  assumes "plain_names cs"
  shows "before_slash (absolute cs) = Some (concat (map ((#) slash) (butlast cs)))"
proof (cases cs rule: rev_cases)
  case Nil
  then show ?thesis using before_slash_snoc [of "[]" "[]"] by (simp add: absolute_def)
next
  case (snoc ds n)
  then show ?thesis using assms before_slash_snoc [of n] by (simp add: absolute_def plain_names_def)
qed

lemma absolute_parent:
  assumes "plain_names cs"
  shows "(if concat (map ((#) slash) (butlast cs)) = [] then [slash] else concat (map ((#) slash) (butlast cs)))
    = absolute (butlast cs)"
  by (simp add: absolute_def)

lemma length_absolute_butlast: "length (absolute (butlast cs)) \<le> max 1 (length (absolute cs))"
  by (cases cs rule: rev_cases) (auto simp: absolute_def)

lemma absolute_snoc: "plain_names cs \<Longrightarrow>
    absolute (cs @ [n]) = (if length (absolute cs) = 1 then absolute cs else absolute cs @ [slash]) @ n"
  using length_absolute_one [of cs] by (auto simp: absolute_def)

text \<open>One step of the loop is one step of the walk, with the length of the result checked.\<close>

lemma realpath_name_walk:
  assumes "plain_names cs" "length (absolute cs) < path_max c" "1 < path_max c"
  shows "realpath_name c (absolute cs) n =
    (if length (absolute (walk_name cs n)) < path_max c then Inr (absolute (walk_name cs n))
     else Inl (Errno ENAMETOOLONG))"
proof -
  have *: "realpath_append c (absolute cs) n =
     (if length (absolute (cs @ [n])) < path_max c then Inr (absolute (cs @ [n])) else Inl (Errno ENAMETOOLONG))"
    if "n \<noteq> []"
    using that assms by (cases n) (auto simp: realpath_append_def absolute_snoc)
  have "length (absolute (butlast cs)) < path_max c"
    using length_absolute_butlast [of cs] assms by linarith
  with assms * show ?thesis
    by (simp add: realpath_name_def walk_name_def before_slash_absolute absolute_parent del: concat_eq_Nil_conv)
qed

lemma path_names_slash:
  "dropWhile (\<lambda>b. b \<noteq> slash) s \<noteq> [] \<Longrightarrow>
    path_names s = takeWhile (\<lambda>b. b \<noteq> slash) s # path_names (tl (dropWhile (\<lambda>b. b \<noteq> slash) s))"
  by (subst path_names.simps) (auto simp: dropWhile_eq_Nil_conv)

lemma path_names_end:
  assumes "dropWhile (\<lambda>b. b \<noteq> slash) s = []"
  shows "path_names s = [takeWhile (\<lambda>b. b \<noteq> slash) s]"
proof -
  have "slash \<notin> set s" using assms by (auto simp: dropWhile_eq_Nil_conv)
  moreover from this have "takeWhile (\<lambda>b. b \<noteq> slash) s = s" by (induction s) auto
  ultimately show ?thesis using path_names.simps [of s] by metis
qed

lemma path_names_not_Nil [simp]: "path_names s \<noteq> []"
  by (subst path_names.simps) simp

lemma realpath_loop_walk:
  assumes "plain_names cs" "length (absolute cs) < path_max c" "1 < path_max c"
  shows "realpath_loop c (absolute cs) s = Inr p \<longleftrightarrow> walk c cs (path_names s) = Some p"
  using assms
proof (induction "length s" arbitrary: s cs rule: less_induct)
  case less
  let ?n = "takeWhile (\<lambda>b. b \<noteq> slash) s" and ?r = "dropWhile (\<lambda>b. b \<noteq> slash) s"
  have n: "slash \<notin> set ?n" by (auto dest: set_takeWhileD)
  note step = realpath_name_walk [OF less.prems] plain_names_walk [OF less.prems(1) n]
  show ?case
  proof (cases "?r = []")
    case True
    with step show ?thesis
      by (subst realpath_loop.simps) (auto simp: path_names_end Let_def simp del: dropWhile_eq_Nil_conv split: sum.splits)
  next
    case False
    then have "length (tl ?r) < length s" by (rule length_rest)
    with less.hyps less.prems(3) have
      "realpath_loop c (absolute ds) (tl ?r) = Inr p \<longleftrightarrow> walk c ds (path_names (tl ?r)) = Some p"
      if "plain_names ds" "length (absolute ds) < path_max c" for ds
      using that by blast
    with step False show ?thesis
      by (subst realpath_loop.simps) (simp add: path_names_slash Let_def del: dropWhile_eq_Nil_conv split: sum.splits)
  qed
qed

text \<open>A name without empty names and dots.\<close>

definition resolved_names :: "cstring list \<Rightarrow> bool" where
  "resolved_names cs \<longleftrightarrow> plain_names cs \<and> [dot] \<notin> set cs \<and> [dot, dot] \<notin> set cs"

lemma resolved_names_walk: "resolved_names cs \<Longrightarrow> slash \<notin> set n \<Longrightarrow> resolved_names (walk_name cs n)"
  using plain_names_walk [of cs n] by (auto simp: resolved_names_def walk_name_def dest: in_set_butlastD)

lemma path_names_plain: "n \<in> set (path_names s) \<Longrightarrow> slash \<notin> set n"
proof (induction s rule: path_names.induct)
  case (1 s)
  then show ?case
    by (subst (asm) (2) path_names.simps) (auto split: if_splits dest: set_takeWhileD)
qed

lemma walk_result:
  assumes "walk c cs ns = Some p" "ns \<noteq> []" "resolved_names cs" "\<forall>n \<in> set ns. slash \<notin> set n"
  shows "\<exists>ds. p = absolute ds \<and> resolved_names ds \<and> length p < path_max c \<and> (\<exists>d. stat_path c p = Inr d)"
  using assms
proof (induction ns arbitrary: cs)
  case (Cons n ns)
  then show ?case
    using resolved_names_walk [of cs n] by (cases ns) (auto simp: Let_def split: if_splits)
qed simp

section \<open>The properties of realpath\<close>

text \<open>Where the walk begins and what is left to walk.\<close>

definition walk_start :: "cstring list \<Rightarrow> cstring \<Rightarrow> cstring list" where
  "walk_start cwd s = (if s \<noteq> [] \<and> hd s = slash then [] else cwd)"

definition walk_rest :: "cstring \<Rightarrow> cstring" where
  "walk_rest s = (if s \<noteq> [] \<and> hd s = slash then tl s else s)"

lemma realpath_walk:
  assumes "1 < path_max c" "getcwd_buf c (path_max c - 1) = Inr (absolute cwd)" "plain_names cwd"
    "length (absolute cwd) < path_max c - 1"
  shows "realpath c (Some s) given = Inr p \<longleftrightarrow>
    (given \<or> \<not> malloc_fails c) \<and> (\<exists>d. stat_path c (absolute (walk_start cwd s)) = Inr d) \<and>
    walk c (walk_start cwd s) (path_names (walk_rest s)) = Some p"
proof -
  have root: "[slash] = absolute []" by (simp add: absolute_def)
  have "plain_names (walk_start cwd s)" "length (absolute (walk_start cwd s)) < path_max c"
    using assms by (auto simp: walk_start_def plain_names_def absolute_def)
  note loop = realpath_loop_walk [OF this assms(1), of "walk_rest s" p]
  show ?thesis
  proof (cases "s \<noteq> [] \<and> hd s = slash")
    case True
    with loop show ?thesis by (auto simp: realpath_def root walk_start_def walk_rest_def split: sum.splits)
  next
    case False
    then have "walk_start cwd s = cwd" "walk_rest s = s" by (auto simp: walk_start_def walk_rest_def)
    with loop False assms(2) show ?thesis by (auto simp: realpath_def split: sum.splits)
  qed
qed

text \<open>C10: realpath succeeds exactly when the path can be walked name by name from the root or the
  current directory, each name leading to a file that exists and, unless it is the last, to a
  directory, with a length below PATH_MAX; the result is where the walk ends.\<close>

theorem realpath_walks:
  assumes "1 < path_max c" "getcwd_buf c (path_max c - 1) = Inr (absolute cwd)" "plain_names cwd"
    "length (absolute cwd) < path_max c - 1" "given \<or> \<not> malloc_fails c"
  shows "realpath c (Some s) given = Inr p \<longleftrightarrow>
    (\<exists>d. stat_path c (absolute (walk_start cwd s)) = Inr d) \<and>
    walk c (walk_start cwd s) (path_names (walk_rest s)) = Some p"
  using realpath_walk [OF assms(1-4)] assms(5) by simp

text \<open>C18: What realpath returns is an absolute path without empty names, dots and double dots; it
  fits a buffer of PATH_MAX bytes with its terminator and names a file that exists.\<close>

theorem realpath_result:
  assumes "1 < path_max c" "getcwd_buf c (path_max c - 1) = Inr (absolute cwd)" "resolved_names cwd"
    "length (absolute cwd) < path_max c - 1" "realpath c (Some s) given = Inr p"
  shows "\<exists>ds. p = absolute ds \<and> resolved_names ds \<and> length p < path_max c \<and> (\<exists>d. stat_path c p = Inr d)"
proof (rule walk_result)
  have "plain_names cwd" using assms(3) by (simp add: resolved_names_def)
  with assms show "walk c (walk_start cwd s) (path_names (walk_rest s)) = Some p" by (simp add: realpath_walk)
  show "resolved_names (walk_start cwd s)"
    using assms(3) by (simp add: walk_start_def resolved_names_def plain_names_def)
  show "\<forall>n \<in> set (path_names (walk_rest s)). slash \<notin> set n" by (auto dest: path_names_plain)
qed simp

text \<open>The files \<open>/a\<close>, \<open>/b\<close> and \<open>/a/x\<close>, the last not a directory; the current directory is \<open>/a\<close>.\<close>

definition three_files :: path_calls where
  "three_files = \<lparr>path_max = 16,
     stat_path = (\<lambda>p. if p \<in> {ascii ''/'', ascii ''/a'', ascii ''/b''} then Inr True
       else if p = ascii ''/a/x'' then Inr False else Inl ENOENT),
     getcwd_buf = (\<lambda>n. Inr (ascii ''/a'')), malloc_fails = False\<rparr>"

lemma cwd_absolute: "absolute [ascii ''a''] = ascii ''/a''" "resolved_names [ascii ''a'']"
  by code_simp+

lemma realpath_walks_witness:
  "realpath three_files (Some (ascii ''..//b/./../a/x'')) False = Inr (ascii ''/a/x'')"
proof -
  have "walk three_files (walk_start [ascii ''a''] (ascii ''..//b/./../a/x''))
      (path_names (walk_rest (ascii ''..//b/./../a/x''))) = Some (ascii ''/a/x'')"
    by code_simp
  moreover have "\<exists>d. stat_path three_files (absolute (walk_start [ascii ''a''] (ascii ''..//b/./../a/x''))) = Inr d"
    by (rule exI [of _ True]) code_simp
  moreover have "length (ascii ''/a'') = 2" by code_simp
  ultimately show ?thesis
    using cwd_absolute
    by (subst realpath_walks [of _ "[ascii ''a'']"]) (simp_all add: three_files_def resolved_names_def)
qed

lemma realpath_result_witness:
  "\<exists>ds. ascii ''/a/x'' = absolute ds \<and> resolved_names ds"
proof -
  have "realpath three_files (Some (ascii ''x'')) True = Inr (ascii ''/a/x'')" by code_simp
  moreover have "length (ascii ''/a'') = 2" by code_simp
  ultimately show ?thesis
    using realpath_result [of three_files "[ascii ''a'']" "ascii ''x''" True "ascii ''/a/x''"] cwd_absolute
    by (auto simp: three_files_def)
qed

lemma walk_last: "walk c cs ns = Some p \<Longrightarrow> p = absolute (foldl walk_name cs ns)"
  by (induction ns arbitrary: cs) (auto simp: Let_def split: if_splits)

end
