(* ===== verification/Libc_Temp.thy ===== *)
theory Libc_Temp
  imports Libc_Paths
begin

text \<open>
  \<open>mktemp.c\<close> of glibc-compat: names of temporary files.  The template is the array of its bytes, of
  exactly its length; the bytes of the suffix, which the code copies onto themselves, are unchanged.
  The file system is an abstract world.
\<close>

section \<open>The functions\<close>

datatype open_flag = O_RDWR | O_EXCL | O_CREAT | O_OTHER nat

text \<open>
  \<open>stat_errno\<close> is \<open>None\<close> when the file exists; \<open>open_file\<close> takes the mode of a new file and gives a
  descriptor or -1; \<open>make_dir\<close> gives the error.
\<close>

record 'w temp_calls =
  stat_errno :: "'w \<Rightarrow> cstring \<Rightarrow> errno option"
  open_file :: "'w \<Rightarrow> cstring \<Rightarrow> open_flag set \<Rightarrow> nat \<Rightarrow> int \<times> 'w"
  make_dir :: "'w \<Rightarrow> cstring \<Rightarrow> nat \<Rightarrow> errno option \<times> 'w"

text \<open>\<open>%06d\<close> of a number that is not negative.\<close>

definition six_digits :: "nat \<Rightarrow> cstring" where
  "six_digits i = replicate (6 - length (decimal_nat i)) 0x30 @ decimal_nat i"

definition template_byte :: "cstring \<Rightarrow> int \<Rightarrow> u8 cres" where
  "template_byte t k =
     (if k < 0 \<or> k > int (length t) then Inl Fault
      else if k = int (length t) then Inr 0
      else Inr (t ! nat k))"

fun check_X :: "cstring \<Rightarrow> int \<Rightarrow> nat list \<Rightarrow> unit cres" where
  "check_X t start [] = Inr ()"
| "check_X t start (i # is) =
     and_then (template_byte t (start + int i)) (\<lambda>b.
       if b \<noteq> 0x58 then Inl (Errno EINVAL) else check_X t start is)"

text \<open>The seventh digit and the suffix end one byte after the array.\<close>

function temp_loop :: "(cstring \<Rightarrow> errno option) \<Rightarrow> cstring \<Rightarrow> cstring \<Rightarrow> nat \<Rightarrow> cstring cres" where
  "temp_loop st prefix suffix i =
     (if i \<ge> 1000000 then Inl Fault
      else
        let template = prefix @ six_digits i @ suffix in
        if st template = Some ENOENT then Inr template else temp_loop st prefix suffix (i + 1))"
  by pat_completeness auto

termination
  by (relation "measure (\<lambda>(st, prefix, suffix, i). 1000000 - i)") auto

declare temp_loop.simps [simp del]

text \<open>The last argument is the flags of \<open>open\<close> when the caller asks for a descriptor.\<close>

definition mktemp_common ::
    "'w temp_calls \<Rightarrow> 'w \<Rightarrow> cstring \<Rightarrow> int \<Rightarrow> open_flag set option \<Rightarrow> (cstring \<times> int \<times> 'w) cres" where
  "mktemp_common c w template suffixlen fd =
     (let len = int (length template) in
      if len < 6 then Inl (Errno EINVAL)
      else
        let suffix = (if suffixlen = 0 then [] else drop (nat (len - suffixlen)) template);
            template_start = len - suffixlen - 6 in
        and_then (check_X template template_start [0..<6]) (\<lambda>_.
          and_then (temp_loop (stat_errno c w) (take (nat template_start) template) suffix 1) (\<lambda>name.
            case fd of
              None \<Rightarrow> Inr (name, -1, w)
            | Some open_flags \<Rightarrow>
                let (d, w') = open_file c w name open_flags 0x180 in Inr (name, d, w'))))"

definition mkdtemp :: "'w temp_calls \<Rightarrow> 'w \<Rightarrow> cstring \<Rightarrow> (cstring \<times> 'w) cres" where
  "mkdtemp c w template =
     and_then (mktemp_common c w template 0 None) (\<lambda>(name, d, w).
       case make_dir c w name 0x1C0 of
         (Some e, w') \<Rightarrow> Inl (Errno e)
       | (None, w') \<Rightarrow> Inr (name, w'))"

text \<open>A function that gives its result when \<open>mktemp_common\<close> fails.\<close>

definition or_failed :: "'a \<Rightarrow> 'a cres \<Rightarrow> 'a cres" where
  "or_failed d r = (case r of Inl (Errno e) \<Rightarrow> Inr d | _ \<Rightarrow> r)"

definition mktemp :: "'w temp_calls \<Rightarrow> 'w \<Rightarrow> cstring \<Rightarrow> cstring cres" where
  "mktemp c w template =
     or_failed [] (and_then (mktemp_common c w template 0 None) (\<lambda>(name, d, w). Inr name))"

definition mkstemps :: "'w temp_calls \<Rightarrow> 'w \<Rightarrow> cstring \<Rightarrow> int \<Rightarrow> (cstring \<times> int \<times> 'w) cres" where
  "mkstemps c w template suffixlen =
     or_failed (template, -1, w) (mktemp_common c w template suffixlen (Some {O_RDWR, O_EXCL, O_CREAT}))"

definition mkstemp :: "'w temp_calls \<Rightarrow> 'w \<Rightarrow> cstring \<Rightarrow> (cstring \<times> int \<times> 'w) cres" where
  "mkstemp c w template =
     or_failed (template, -1, w) (mktemp_common c w template 0 (Some {O_RDWR, O_EXCL, O_CREAT}))"

definition mkostemps ::
    "'w temp_calls \<Rightarrow> 'w \<Rightarrow> cstring \<Rightarrow> int \<Rightarrow> open_flag set \<Rightarrow> (cstring \<times> int \<times> 'w) cres" where
  "mkostemps c w template suffixlen flags =
     or_failed (template, -1, w) (mktemp_common c w template suffixlen (Some flags))"

definition mkostemp :: "'w temp_calls \<Rightarrow> 'w \<Rightarrow> cstring \<Rightarrow> open_flag set \<Rightarrow> (cstring \<times> int \<times> 'w) cres" where
  "mkostemp c w template flags =
     or_failed (template, -1, w) (mktemp_common c w template 0 (Some flags))"

section \<open>The first free name\<close>

abbreviation six_X :: cstring where "six_X \<equiv> replicate 6 0x58"

lemma template_byte_X:
  "k < 6 \<Longrightarrow> template_byte (p @ six_X @ s) (int (length p) + int k) = Inr 0x58"
  by (simp add: template_byte_def nat_add_distrib nth_append)

lemma check_X_ok: "\<forall>i \<in> set is. i < 6 \<Longrightarrow> check_X (p @ six_X @ s) (int (length p)) is = Inr ()"
  by (induction "is") (simp_all only: check_X.simps template_byte_X list.set ball_simps and_then_Inr, simp)

lemma mktemp_common_template:
  "mktemp_common c w (p @ six_X @ s) (int (length s)) fd =
     and_then (temp_loop (stat_errno c w) p s 1) (\<lambda>name.
       case fd of
         None \<Rightarrow> Inr (name, -1, w)
       | Some flags \<Rightarrow> let (d, w') = open_file c w name flags 0x180 in Inr (name, d, w'))"
proof -
  have "nat (int (length (p @ six_X @ s)) - int (length s)) = length (p @ six_X)" by simp
  moreover have "int (length (p @ six_X @ s)) - int (length s) - 6 = int (length p)" by simp
  moreover have "check_X (p @ six_X @ s) (int (length p)) [0..<6] = Inr ()" by (rule check_X_ok) simp
  ultimately show ?thesis unfolding mktemp_common_def Let_def by simp
qed

lemma temp_loop_first:
  assumes "i \<le> n" "n < 1000000" "st (p @ six_digits n @ s) = Some ENOENT"
    and "\<And>m. i \<le> m \<Longrightarrow> m < n \<Longrightarrow> st (p @ six_digits m @ s) \<noteq> Some ENOENT"
  shows "temp_loop st p s i = Inr (p @ six_digits n @ s)"
  using assms
proof (induction st p s i rule: temp_loop.induct)
  case (1 st p s i)
  show ?case
  proof (cases "i = n")
    case True
    with 1 show ?thesis by (subst temp_loop.simps) simp
  next
    case False
    with 1 show ?thesis by (subst temp_loop.simps) (simp add: Let_def)
  qed
qed

lemma temp_loop_full:
  assumes "\<And>m. i \<le> m \<Longrightarrow> m < 1000000 \<Longrightarrow> st (p @ six_digits m @ s) \<noteq> Some ENOENT"
  shows "temp_loop st p s i = Inl Fault"
  using assms
proof (induction st p s i rule: temp_loop.induct)
  case (1 st p s i)
  then show ?case by (subst temp_loop.simps) (simp add: Let_def)
qed

lemma temp_loop_result:
  "temp_loop st p s i = Inr name \<Longrightarrow> \<exists>n. i \<le> n \<and> n < 1000000 \<and> name = p @ six_digits n @ s \<and> st name = Some ENOENT"
proof (induction st p s i rule: temp_loop.induct)
  case (1 st p s i)
  then show ?case
    by (subst (asm) (2) temp_loop.simps) (fastforce simp: Let_def split: if_splits dest: Suc_leD)
qed

text \<open>A number below a million takes the place of the six letters, so the name has the length of the template.\<close>

lemma length_decimal_nat: "n < 10 ^ Suc k \<Longrightarrow> length (decimal_nat n) \<le> Suc k"
proof (induction k arbitrary: n)
  case 0
  then show ?case by (subst decimal_nat.simps) simp
next
  case (Suc k)
  then have "n div 10 < 10 ^ Suc k" by (simp add: div_less_iff_less_mult mult.commute)
  from Suc.IH [OF this] show ?case by (subst decimal_nat.simps) simp
qed

lemma length_six_digits: "n < 1000000 \<Longrightarrow> length (six_digits n) = 6"
  using length_decimal_nat [of n 5] by (simp add: six_digits_def)

lemma temp_name_length:
  "temp_loop st p s i = Inr name \<Longrightarrow> length name = length (p @ six_X @ s)"
  by (auto dest!: temp_loop_result simp: length_six_digits)

text \<open>The name that \<open>mktemp_common\<close> gives has no file.\<close>

lemma mktemp_common_free:
  assumes "mktemp_common c w template k fd = Inr (name, d, w')"
  shows "stat_errno c w name = Some ENOENT \<and>
    (case fd of None \<Rightarrow> d = -1 \<and> w' = w | Some flags \<Rightarrow> open_file c w name flags 0x180 = (d, w'))"
  using assms
  by (auto simp: mktemp_common_def Let_def cres_simps split: if_splits option.splits prod.splits
      dest!: temp_loop_result)

section \<open>The properties\<close>

text \<open>C17: mkstemps opens, for exclusive creation with mode 0600, the first of the names numbered 1,
  2, ... in six digits whose file does not exist, and gives the descriptor; the template then
  holds that name.\<close>

theorem mkstemps_first_free:
  assumes "0 < n" "n < 1000000" "stat_errno c w (p @ six_digits n @ s) = Some ENOENT"
    and "\<And>m. 0 < m \<Longrightarrow> m < n \<Longrightarrow> stat_errno c w (p @ six_digits m @ s) \<noteq> Some ENOENT"
  shows "mkstemps c w (p @ six_X @ s) (int (length s)) =
    (let (d, w') = open_file c w (p @ six_digits n @ s) {O_RDWR, O_EXCL, O_CREAT} 0x180
     in Inr (p @ six_digits n @ s, d, w'))"
proof -
  have "temp_loop (stat_errno c w) p s 1 = Inr (p @ six_digits n @ s)"
    using assms by (intro temp_loop_first) auto
  then show ?thesis by (simp add: mkstemps_def mktemp_common_template or_failed_def split: prod.splits)
qed

text \<open>Mkdtemp makes, with mode 0700, the first directory of the numbered names that does not exist,
  and gives its name, as long as the template.\<close>

lemma mkdtemp_first_free:
  assumes "0 < n" "n < 1000000" "stat_errno c w (p @ six_digits n) = Some ENOENT"
    and "\<And>m. 0 < m \<Longrightarrow> m < n \<Longrightarrow> stat_errno c w (p @ six_digits m) \<noteq> Some ENOENT"
    and "make_dir c w (p @ six_digits n) 0x1C0 = (None, w')"
  shows "mkdtemp c w (p @ six_X) = Inr (p @ six_digits n, w') \<and> length (p @ six_digits n) = length (p @ six_X)"
proof -
  have "temp_loop (stat_errno c w) p [] 1 = Inr (p @ six_digits n @ [])"
    using assms by (intro temp_loop_first) auto
  then show ?thesis
    using mktemp_common_template [of c w p "[]" None] assms(2,5) by (simp add: mkdtemp_def length_six_digits)
qed

text \<open>Mkostemps hands the caller's flags to open and adds none: without O_CREAT among them no file
  is created and no descriptor is returned, whatever the template.\<close>

lemma mkostemps_creates_nothing:
  assumes "\<And>w name flags mode. stat_errno c w name = Some ENOENT \<Longrightarrow> O_CREAT \<notin> flags \<Longrightarrow>
      open_file c w name flags mode = (-1, w)"
    and "O_CREAT \<notin> flags" "mkostemps c w template k flags = Inr (name, d, w')"
  shows "d = -1 \<and> w' = w"
proof (cases "mktemp_common c w template k (Some flags)")
  case (Inl e)
  with assms(3) show ?thesis by (cases e) (auto simp: mkostemps_def or_failed_def)
next
  case (Inr r)
  with assms(3) have "mktemp_common c w template k (Some flags) = Inr (name, d, w')"
    by (simp add: mkostemps_def or_failed_def)
  from mktemp_common_free [OF this] assms(1) [OF _ assms(2)] show ?thesis by auto
qed

text \<open>When stat fails with another error than ENOENT on every name, as it does when the directory
  is not a directory, the search does not stop at the last name of six digits and writes past the template.\<close>

lemma mktemp_overflows:
  assumes "\<And>m. 0 < m \<Longrightarrow> m < 1000000 \<Longrightarrow> stat_errno c w (p @ six_digits m) \<noteq> Some ENOENT"
  shows "mktemp c w (p @ six_X) = Inl Fault \<and> mkdtemp c w (p @ six_X) = Inl Fault"
proof -
  have "temp_loop (stat_errno c w) p [] 1 = Inl Fault"
    using assms by (intro temp_loop_full) auto
  then show ?thesis
    using mktemp_common_template [of c w p "[]" None] by (simp add: mkdtemp_def mktemp_def or_failed_def)
qed

section \<open>Witnesses\<close>

text \<open>A world is the list of the names of files and directories; only \<open>/t/\<close> is a directory.\<close>

definition name_calls :: "cstring list temp_calls" where
  "name_calls = \<lparr>
     stat_errno = (\<lambda>w name. if take 3 name \<noteq> ascii ''/t/'' then Some ENOTDIR
       else if name \<in> set w then None else Some ENOENT),
     open_file = (\<lambda>w name flags mode. if O_CREAT \<in> flags then (3, name # w) else if name \<in> set w then (3, w) else (-1, w)),
     make_dir = (\<lambda>w name mode. (None, name # w))\<rparr>"

lemma name_calls_sel [simp]:
  "stat_errno name_calls w name = (if take 3 name \<noteq> ascii ''/t/'' then Some ENOTDIR
       else if name \<in> set w then None else Some ENOENT)"
  "open_file name_calls w name flags mode =
     (if O_CREAT \<in> flags then (3, name # w) else if name \<in> set w then (3, w) else (-1, w))"
  "make_dir name_calls w name mode = (None, name # w)"
  by (simp_all add: name_calls_def)

lemma two_names: "six_digits 1 = ascii ''000001''" "six_digits 2 = ascii ''000002''"
  "take 3 (ascii ''/t/'' @ s) = ascii ''/t/''" "take 3 (ascii ''/x/'' @ s) \<noteq> ascii ''/t/''"
proof -
  show "six_digits 1 = ascii ''000001''" "six_digits 2 = ascii ''000002''" by code_simp+
  have "length (ascii ''/t/'') = 3" "length (ascii ''/x/'') = 3" "ascii ''/x/'' \<noteq> ascii ''/t/''" by code_simp+
  then show "take 3 (ascii ''/t/'' @ s) = ascii ''/t/''" "take 3 (ascii ''/x/'' @ s) \<noteq> ascii ''/t/''" by simp_all
qed

lemma mkstemps_first_free_witness:
  "mkstemps name_calls [ascii ''/t/'' @ six_digits 1 @ ascii ''.c''] (ascii ''/t/'' @ six_X @ ascii ''.c'') 2 =
   Inr (ascii ''/t/'' @ six_digits 2 @ ascii ''.c'', 3,
     [ascii ''/t/'' @ six_digits 2 @ ascii ''.c'', ascii ''/t/'' @ six_digits 1 @ ascii ''.c''])"
proof -
  let ?w = "[ascii ''/t/'' @ six_digits 1 @ ascii ''.c'']"
  have two: "int (length (ascii ''.c'')) = 2" by code_simp
  have other: "six_digits 2 \<noteq> six_digits 1" by code_simp
  have "stat_errno name_calls ?w (ascii ''/t/'' @ six_digits 2 @ ascii ''.c'') = Some ENOENT"
    using other by (simp add: two_names(3) del: take_append)
  moreover have "stat_errno name_calls ?w (ascii ''/t/'' @ six_digits m @ ascii ''.c'') \<noteq> Some ENOENT"
    if "0 < m" "m < 2" for m
  proof -
    have "m = 1" using that by simp
    then show ?thesis by (simp add: two_names(3) del: take_append)
  qed
  ultimately show ?thesis
    using mkstemps_first_free [of 2 name_calls ?w "ascii ''/t/''" "ascii ''.c''"] two by simp
qed

lemma mkdtemp_first_free_witness:
  "mkdtemp name_calls [] (ascii ''/t/'' @ six_X) = Inr (ascii ''/t/'' @ six_digits 1, [ascii ''/t/'' @ six_digits 1])"
proof -
  have "mkdtemp name_calls [] (ascii ''/t/'' @ six_X) = Inr (ascii ''/t/'' @ six_digits 1, [ascii ''/t/'' @ six_digits 1]) \<and>
    length (ascii ''/t/'' @ six_digits 1) = length (ascii ''/t/'' @ six_X)"
  proof (rule mkdtemp_first_free)
    show "stat_errno name_calls [] (ascii ''/t/'' @ six_digits 1) = Some ENOENT"
      by (simp only: name_calls_sel two_names(3) list.set empty_iff simp_thms if_False if_True)
  qed (simp_all add: name_calls_sel(3))
  then show ?thesis ..
qed

lemma first_name: "temp_loop (stat_errno name_calls []) (ascii ''/t/'') [] 1 = Inr (ascii ''/t/'' @ six_digits 1 @ [])"
  by (rule temp_loop_first) (simp_all add: two_names(3) del: take_append)

lemma mkostemps_creates_nothing_witness:
  "mkostemps name_calls [] (ascii ''/t/'' @ six_X) 0 {O_RDWR} = Inr (ascii ''/t/'' @ six_digits 1, -1, []) \<and>
   (-1::int) = -1 \<and> ([]::cstring list) = []"
proof -
  have "mkostemps name_calls [] (ascii ''/t/'' @ six_X) 0 {O_RDWR} = Inr (ascii ''/t/'' @ six_digits 1, -1, [])"
    using mktemp_common_template [of name_calls "[]" "ascii ''/t/''" "[]" "Some {O_RDWR}"] first_name
    by (simp add: mkostemps_def or_failed_def)
  moreover from mkostemps_creates_nothing [OF _ _ this] have "(-1::int) = -1 \<and> ([]::cstring list) = []"
    by (simp split: if_splits)
  ultimately show ?thesis by blast
qed

lemma mktemp_overflows_witness:
  "mktemp name_calls [] (ascii ''/x/'' @ six_X) = Inl Fault \<and> mkdtemp name_calls [] (ascii ''/x/'' @ six_X) = Inl Fault"
  by (rule mktemp_overflows) (simp add: two_names(4) del: take_append)

end
