(* ===== verification/Libc_Calls.thy ===== *)
theory Libc_Calls
  imports Spawn_Paths Spawn_Vars
begin

text \<open>
  Small functions of glibc-compat over system calls: \<open>openat.c\<close>, \<open>writev.c\<close>, \<open>herror.c\<close>, \<open>lockf.c\<close>,
  \<open>flock.c\<close> and \<open>timegm.c\<close>.  The system is an abstract world and a record of functions on it; a process
  that calls \<open>exit\<close> is \<open>None\<close>.
\<close>

section \<open>Calls relative to a directory\<close>

text \<open>The result of a call, with the error where it fails.\<close>

type_synonym ('w, 'a) syscall = "'w \<Rightarrow> (errno + 'a) \<times> 'w"

record 'w dir_calls =
  getcwd_sys :: "'w \<Rightarrow> cstring option"
  fchdir_sys :: "int \<Rightarrow> ('w, unit) syscall"
  chdir_sys :: "cstring \<Rightarrow> ('w, unit) syscall"
  open_sys :: "cstring \<Rightarrow> int \<Rightarrow> ('w, int) syscall"
  stat_sys :: "cstring \<Rightarrow> ('w, u8 list) syscall"
  lstat_sys :: "cstring \<Rightarrow> ('w, u8 list) syscall"
  chmod_sys :: "cstring \<Rightarrow> nat \<Rightarrow> ('w, unit) syscall"
  readlink_sys :: "cstring \<Rightarrow> nat \<Rightarrow> ('w, u8 list) syscall"
  rmdir_sys :: "cstring \<Rightarrow> ('w, unit) syscall"
  unlink_sys :: "cstring \<Rightarrow> ('w, unit) syscall"
  access_sys :: "cstring \<Rightarrow> int \<Rightarrow> ('w, unit) syscall"
  opendir_sys :: "cstring \<Rightarrow> ('w, nat) syscall"
  mkdir_sys :: "cstring \<Rightarrow> nat \<Rightarrow> ('w, unit) syscall"
  chown_sys :: "cstring \<Rightarrow> nat \<Rightarrow> nat \<Rightarrow> ('w, unit) syscall"
  symlink_sys :: "cstring \<Rightarrow> cstring \<Rightarrow> ('w, unit) syscall"
  link_sys :: "cstring \<Rightarrow> cstring \<Rightarrow> ('w, unit) syscall"
  AT_FDCWD :: int

text \<open>\<open>xgetcwd\<close> exits when \<open>getcwd\<close> fails; so does a failed allocation, which is not modelled.\<close>

definition xgetcwd :: "'w dir_calls \<Rightarrow> 'w \<Rightarrow> cstring option" where
  "xgetcwd c w = getcwd_sys c w"

text \<open>
  \<open>_AT_WRAP_START\<close> and \<open>_AT_WRAP_END\<close> around a call: a \<open>fchdir\<close> that fails is reported on the console
  and the call is made all the same.
\<close>

definition at_wrap :: "'w dir_calls \<Rightarrow> int \<Rightarrow> ('w, 'a) syscall \<Rightarrow> 'w \<Rightarrow> ((errno + 'a) \<times> 'w) option" where
  "at_wrap c dirfd call w =
     (case xgetcwd c w of
        None \<Rightarrow> None
      | Some save \<Rightarrow>
          let w1 = (if dirfd \<noteq> AT_FDCWD c then snd (fchdir_sys c dirfd w) else w);
              (result, w2) = call w1;
              w3 = (if dirfd \<noteq> AT_FDCWD c then snd (chdir_sys c save w2) else w2) in
          Some (result, w3))"

definition AT_SYMLINK_NOFOLLOW :: u32 where "AT_SYMLINK_NOFOLLOW = 2"
definition AT_REMOVEDIR :: u32 where "AT_REMOVEDIR = 8"

text \<open>The mode after the flags is not read.\<close>

definition openat :: "'w dir_calls \<Rightarrow> int \<Rightarrow> cstring \<Rightarrow> int \<Rightarrow> 'w \<Rightarrow> ((errno + int) \<times> 'w) option" where
  "openat c dirfd pathname flags = at_wrap c dirfd (open_sys c pathname flags)"

definition fstatat :: "'w dir_calls \<Rightarrow> int \<Rightarrow> cstring \<Rightarrow> u32 \<Rightarrow> 'w \<Rightarrow> ((errno + u8 list) \<times> 'w) option" where
  "fstatat c dirfd pathname flags =
     at_wrap c dirfd
       (if flags AND AT_SYMLINK_NOFOLLOW \<noteq> 0 then lstat_sys c pathname else stat_sys c pathname)"

definition fchmodat :: "'w dir_calls \<Rightarrow> int \<Rightarrow> cstring \<Rightarrow> nat \<Rightarrow> u32 \<Rightarrow> 'w \<Rightarrow> ((errno + unit) \<times> 'w) option" where
  "fchmodat c dirfd pathname mode flags = at_wrap c dirfd (chmod_sys c pathname mode)"

definition readlinkat :: "'w dir_calls \<Rightarrow> int \<Rightarrow> cstring \<Rightarrow> nat \<Rightarrow> 'w \<Rightarrow> ((errno + u8 list) \<times> 'w) option" where
  "readlinkat c dirfd pathname bufsiz = at_wrap c dirfd (readlink_sys c pathname bufsiz)"

definition unlinkat :: "'w dir_calls \<Rightarrow> int \<Rightarrow> cstring \<Rightarrow> u32 \<Rightarrow> 'w \<Rightarrow> ((errno + unit) \<times> 'w) option" where
  "unlinkat c dirfd pathname flags =
     at_wrap c dirfd (if flags AND AT_REMOVEDIR \<noteq> 0 then rmdir_sys c pathname else unlink_sys c pathname)"

definition faccessat :: "'w dir_calls \<Rightarrow> int \<Rightarrow> cstring \<Rightarrow> int \<Rightarrow> u32 \<Rightarrow> 'w \<Rightarrow> ((errno + unit) \<times> 'w) option" where
  "faccessat c dirfd pathname mode flags = at_wrap c dirfd (access_sys c pathname mode)"

definition fdopendir :: "'w dir_calls \<Rightarrow> int \<Rightarrow> 'w \<Rightarrow> ((errno + nat) \<times> 'w) option" where
  "fdopendir c dirfd = at_wrap c dirfd (opendir_sys c [dot])"

definition mkdirat :: "'w dir_calls \<Rightarrow> int \<Rightarrow> cstring \<Rightarrow> nat \<Rightarrow> 'w \<Rightarrow> ((errno + unit) \<times> 'w) option" where
  "mkdirat c dirfd pathname mode = at_wrap c dirfd (mkdir_sys c pathname mode)"

definition fchownat ::
    "'w dir_calls \<Rightarrow> int \<Rightarrow> cstring \<Rightarrow> nat \<Rightarrow> nat \<Rightarrow> u32 \<Rightarrow> 'w \<Rightarrow> ((errno + unit) \<times> 'w) option" where
  "fchownat c dirfd pathname owner grp flags = at_wrap c dirfd (chown_sys c pathname owner grp)"

definition symlinkat :: "'w dir_calls \<Rightarrow> cstring \<Rightarrow> int \<Rightarrow> cstring \<Rightarrow> 'w \<Rightarrow> ((errno + unit) \<times> 'w) option" where
  "symlinkat c oldpath dirfd newpath = at_wrap c dirfd (symlink_sys c oldpath newpath)"

definition linkat ::
    "'w dir_calls \<Rightarrow> int \<Rightarrow> cstring \<Rightarrow> int \<Rightarrow> cstring \<Rightarrow> u32 \<Rightarrow> ('w, unit) syscall" where
  "linkat c olddirfd oldpath newdirfd newpath flags w =
     (if oldpath \<noteq> [] \<and> hd oldpath = slash \<and> newpath \<noteq> [] \<and> hd newpath = slash then link_sys c oldpath newpath w
      else (Inl EINVAL, w))"

section \<open>Vectors of buffers\<close>

text \<open>
  A call of \<open>write\<close> gives a number, negative when it fails, and so does a call of \<open>read\<close>, with the bytes it
  stores.  The lengths of the buffers and their sum fit an \<open>int\<close>.  The inner loop gives the result of the
  function when it returns from it, and else the sum.
\<close>

function write_buffer :: "('w \<Rightarrow> u8 list \<Rightarrow> int \<times> 'w) \<Rightarrow> 'w \<Rightarrow> u8 list \<Rightarrow> int \<Rightarrow> (int + int) \<times> 'w" where
  "write_buffer wr w base n =
     (if base = [] then (Inr n, w)
      else
        let (ret, w') = wr w base in
        if ret < 0 \<and> n = 0 then (Inl (-1), w')
        else if ret \<le> 0 then (Inl n, w')
        else write_buffer wr w' (drop (nat ret) base) (n + ret))"
  by pat_completeness auto

termination
  by (relation "measure (\<lambda>(wr, w, base, n). length base)") auto

declare write_buffer.simps [simp del]

fun writev_loop :: "('w \<Rightarrow> u8 list \<Rightarrow> int \<times> 'w) \<Rightarrow> 'w \<Rightarrow> u8 list list \<Rightarrow> int \<Rightarrow> int \<times> 'w" where
  "writev_loop wr w [] n = (n, w)"
| "writev_loop wr w (base # iov) n =
     (case write_buffer wr w base n of
        (Inl r, w') \<Rightarrow> (r, w')
      | (Inr n', w') \<Rightarrow> writev_loop wr w' iov n')"

definition writev :: "('w \<Rightarrow> u8 list \<Rightarrow> int \<times> 'w) \<Rightarrow> 'w \<Rightarrow> u8 list list \<Rightarrow> int \<times> 'w" where
  "writev wr w iov = writev_loop wr w iov 0"

text \<open>Reading: a buffer is its length, and what was stored in it so far.\<close>

function read_buffer ::
    "('w \<Rightarrow> nat \<Rightarrow> int \<times> u8 list \<times> 'w) \<Rightarrow> 'w \<Rightarrow> nat \<Rightarrow> u8 list \<Rightarrow> int \<Rightarrow> (int + int) \<times> u8 list \<times> 'w" where
  "read_buffer rd w len stored n =
     (if len = 0 then (Inr n, stored, w)
      else
        let (ret, bytes, w') = rd w len in
        if ret < 0 \<and> n = 0 then (Inl (-1), stored, w')
        else if ret \<le> 0 then (Inl n, stored, w')
        else read_buffer rd w' (len - nat ret) (stored @ bytes) (n + ret))"
  by pat_completeness auto

termination
  by (relation "measure (\<lambda>(rd, w, len, stored, n). len)") auto

declare read_buffer.simps [simp del]

fun readv_loop ::
    "('w \<Rightarrow> nat \<Rightarrow> int \<times> u8 list \<times> 'w) \<Rightarrow> 'w \<Rightarrow> nat list \<Rightarrow> u8 list list \<Rightarrow> int \<Rightarrow> int \<times> u8 list list \<times> 'w" where
  "readv_loop rd w [] bufs n = (n, bufs, w)"
| "readv_loop rd w (len # iov) bufs n =
     (case read_buffer rd w len [] n of
        (Inl r, stored, w') \<Rightarrow> (r, bufs @ [stored], w')
      | (Inr n', stored, w') \<Rightarrow> readv_loop rd w' iov (bufs @ [stored]) n')"

definition readv :: "('w \<Rightarrow> nat \<Rightarrow> int \<times> u8 list \<times> 'w) \<Rightarrow> 'w \<Rightarrow> nat list \<Rightarrow> int \<times> u8 list list \<times> 'w" where
  "readv rd w iov = readv_loop rd w iov [] 0"

section \<open>Messages of the resolver\<close>

definition h_errlist :: "cstring list" where
  "h_errlist = [ascii ''Resolver Error 0 (no error)'', ascii ''Unknown host'', ascii ''Host name lookup failure'',
     ascii ''Unknown server error'', ascii ''No address associated with name'']"

definition hstrerror :: "int \<Rightarrow> cstring" where
  "hstrerror err =
     (if err < 0 then ascii ''Resolver internal error''
      else if err < int (length h_errlist) then h_errlist ! nat err
      else ascii ''Unknown resolver error'')"

text \<open>The last vector is set without stepping past it, so the count is one more.\<close>

definition herror :: "('w \<Rightarrow> u8 list \<Rightarrow> int \<times> 'w) \<Rightarrow> cstring option \<Rightarrow> int \<Rightarrow> 'w \<Rightarrow> 'w" where
  "herror wr s h_errno w =
     (let iov = (case s of None \<Rightarrow> [] | Some p \<Rightarrow> if p \<noteq> [] then [p, ascii '': ''] else []);
          iov = iov @ [hstrerror h_errno];
          iov = iov @ [[0x0A]] in
      snd (writev wr w iov))"

section \<open>Locks\<close>

datatype lock_type = F_RDLCK | F_WRLCK | F_UNLCK
datatype lock_cmd = F_SETLK | F_SETLKW
datatype whence = SEEK_SET | SEEK_CUR

record flock_params =
  l_type :: lock_type
  l_whence :: whence
  l_start :: int
  l_len :: int

definition lockf ::
    "(int \<Rightarrow> lock_cmd \<Rightarrow> flock_params \<Rightarrow> ('w, int) syscall) \<Rightarrow> int \<Rightarrow> int \<Rightarrow> int \<Rightarrow> ('w, int) syscall" where
  "lockf fcntl fd command extent w =
     (if command = 0 then
        fcntl fd F_SETLK \<lparr>l_type = F_UNLCK, l_whence = SEEK_CUR, l_start = 0, l_len = extent\<rparr> w
      else if command = 1 then
        fcntl fd F_SETLKW \<lparr>l_type = F_WRLCK, l_whence = SEEK_CUR, l_start = 0, l_len = extent\<rparr> w
      else if command = 2 then
        fcntl fd F_SETLK \<lparr>l_type = F_WRLCK, l_whence = SEEK_CUR, l_start = 0, l_len = extent\<rparr> w
      else (Inl EINVAL, w))"

definition LOCK_SH :: u32 where "LOCK_SH = 1"
definition LOCK_EX :: u32 where "LOCK_EX = 2"
definition LOCK_NB :: u32 where "LOCK_NB = 4"
definition LOCK_UN :: u32 where "LOCK_UN = 8"

definition flock ::
    "(int \<Rightarrow> lock_cmd \<Rightarrow> flock_params \<Rightarrow> ('w, int) syscall) \<Rightarrow> int \<Rightarrow> u32 \<Rightarrow> ('w, int) syscall" where
  "flock fcntl fd operation w =
     (let arg = (\<lambda>t. \<lparr>l_type = t, l_whence = SEEK_SET, l_start = 0, l_len = 0\<rparr>);
          cmd = (if operation AND LOCK_NB \<noteq> 0 then F_SETLK else F_SETLKW);
          op = operation AND (LOCK_SH OR LOCK_EX OR LOCK_UN) in
      if op = LOCK_UN then fcntl fd F_SETLK (arg F_UNLCK) w
      else if op = LOCK_SH then fcntl fd cmd (arg F_RDLCK) w
      else if op = LOCK_EX then fcntl fd cmd (arg F_WRLCK) w
      else (Inl EINVAL, w))"

section \<open>Time in UTC\<close>

text \<open>
  \<open>mktime\<close> reads the variable \<open>TZ\<close>; \<open>putenv\<close> is a call of the library.  The buffer with \<open>TZ=\<close> and the
  old value, cut at 255 bytes, is written and not used.
\<close>

definition timegm ::
    "('e \<Rightarrow> cstring \<Rightarrow> 'e) \<Rightarrow> ('e \<Rightarrow> cstring \<Rightarrow> cstring option) \<Rightarrow> (cstring option \<Rightarrow> 'tm \<Rightarrow> int \<times> 'tm)
      \<Rightarrow> 'e \<Rightarrow> 'tm \<Rightarrow> int \<times> 'tm \<times> 'e" where
  "timegm putenv getenv mktime env tm =
     (let tz = getenv env (ascii ''TZ'');
          env1 = putenv env (ascii ''TZ='');
          (ret, tm') = mktime (getenv env1 (ascii ''TZ'')) tm in
      case tz of
        Some v \<Rightarrow>
          let buf = take 255 (ascii ''TZ='' @ v) in (ret, tm', putenv env1 v)
      | None \<Rightarrow> (ret, tm', putenv env1 (ascii ''TZ'')))"

section \<open>The working directory\<close>

text \<open>A call that leaves the working directory.\<close>

definition keeps_cwd :: "'w dir_calls \<Rightarrow> ('w, 'a) syscall \<Rightarrow> bool" where
  "keeps_cwd c call \<longleftrightarrow> (\<forall>w. getcwd_sys c (snd (call w)) = getcwd_sys c w)"

text \<open>\<open>chdir\<close> to a working directory that \<open>getcwd\<close> gave leads there.\<close>

definition returns :: "'w dir_calls \<Rightarrow> bool" where
  "returns c \<longleftrightarrow> (\<forall>w w' d. getcwd_sys c w = Some d \<longrightarrow> getcwd_sys c (snd (chdir_sys c d w')) = Some d)"

lemma at_wrap_cwd:
  assumes "keeps_cwd c call" "returns c"
    and "at_wrap c dirfd call w = Some (r, w')"
  shows "getcwd_sys c w' = getcwd_sys c w"
proof (cases "getcwd_sys c w")
  case None
  with assms(3) show ?thesis by (simp add: at_wrap_def xgetcwd_def)
next
  case (Some d)
  with assms show ?thesis
    by (auto simp: at_wrap_def xgetcwd_def keeps_cwd_def returns_def Let_def split: prod.splits if_splits) (metis snd_conv)
qed

text \<open>A call relative to a directory ends in the working directory it was made in, whether it
  succeeds or not, when the directory it left can be entered again.\<close>

lemma at_calls_restore_cwd:
  assumes "\<And>p f. keeps_cwd c (open_sys c p f)" "\<And>p. keeps_cwd c (rmdir_sys c p)" "\<And>p. keeps_cwd c (unlink_sys c p)"
    and "\<And>p m. keeps_cwd c (mkdir_sys c p m)" "returns c"
  shows "(openat c dirfd p flags w = Some (r1, w1) \<longrightarrow> getcwd_sys c w1 = getcwd_sys c w) \<and>
    (unlinkat c dirfd p options w = Some (r2, w2) \<longrightarrow> getcwd_sys c w2 = getcwd_sys c w) \<and>
    (mkdirat c dirfd p mode w = Some (r3, w3) \<longrightarrow> getcwd_sys c w3 = getcwd_sys c w)"
proof (intro conjI impI)
  have "keeps_cwd c (if options AND AT_REMOVEDIR \<noteq> 0 then rmdir_sys c p else unlink_sys c p)"
    using assms(2,3) by simp
  from at_wrap_cwd [OF this assms(5)]
  show "unlinkat c dirfd p options w = Some (r2, w2) \<Longrightarrow> getcwd_sys c w2 = getcwd_sys c w"
    by (simp add: unlinkat_def)
qed (auto simp: openat_def mkdirat_def intro: at_wrap_cwd [OF assms(1) assms(5)] at_wrap_cwd [OF assms(4) assms(5)])

text \<open>A descriptor that is not open is not an error: the file is opened in the working directory.\<close>

lemma openat_bad_descriptor:
  assumes "getcwd_sys c w = Some d" "dirfd \<noteq> AT_FDCWD c" "fchdir_sys c dirfd w = (Inl EBADF, w)"
    and "open_sys c p flags w = (Inr fd, w1)"
  shows "openat c dirfd p flags w = Some (Inr fd, snd (chdir_sys c d w1))"
  using assms by (simp add: openat_def at_wrap_def xgetcwd_def)

section \<open>What is written\<close>

text \<open>\<open>out\<close> is what was written so far: a call writes the first bytes of the buffer, as many as it says.\<close>

definition writes :: "('w \<Rightarrow> u8 list \<Rightarrow> int \<times> 'w) \<Rightarrow> ('w \<Rightarrow> u8 list) \<Rightarrow> bool" where
  "writes wr out \<longleftrightarrow> (\<forall>w b. fst (wr w b) \<le> int (length b) \<and> out (snd (wr w b)) = out w @ take (nat (fst (wr w b))) b)"

definition accepts :: "('w \<Rightarrow> u8 list \<Rightarrow> int \<times> 'w) \<Rightarrow> bool" where
  "accepts wr \<longleftrightarrow> (\<forall>w b. b \<noteq> [] \<longrightarrow> 0 < fst (wr w b))"

lemma write_buffer_result:
  assumes "writes wr out" "0 \<le> n" "write_buffer wr w base n = (res, w')"
  shows "case res of
      Inr n' \<Rightarrow> n' = n + int (length base) \<and> out w' = out w @ base
    | Inl r \<Rightarrow> \<not> accepts wr \<and>
        (r = -1 \<and> n = 0 \<and> out w' = out w \<or> (\<exists>k \<le> length base. r = n + int k \<and> out w' = out w @ take k base))"
  using assms
proof (induction wr w base n rule: write_buffer.induct)
  case (1 wr w base n)
  obtain ret w1 where call: "wr w base = (ret, w1)" by (cases "wr w base")
  have call_out: "ret \<le> int (length base) \<and> out w1 = out w @ take (nat ret) base"
    using 1(2) [unfolded writes_def, rule_format, of w base] call by simp
  show ?case
  proof (cases "base = [] \<or> ret \<le> 0")
    case True
    have "\<not> accepts wr" if "base \<noteq> []"
      using that True call by (auto simp: accepts_def intro!: exI [of _ w] exI [of _ base])
    with 1(3,4) call call_out True show ?thesis
      by (subst (asm) write_buffer.simps) (auto split: if_splits intro: exI [of _ 0])
  next
    case False
    have "write_buffer wr w1 (drop (nat ret) base) (n + ret) = (res, w')"
      using False 1(4) call by (subst (asm) write_buffer.simps) auto
    from 1(1) [OF _ call [symmetric] refl _ _ 1(2) _ this] False 1(3)
    have IH: "case res of
        Inr n' \<Rightarrow> n' = n + ret + int (length (drop (nat ret) base)) \<and> out w' = out w1 @ drop (nat ret) base
      | Inl r \<Rightarrow> \<not> accepts wr \<and> (\<exists>k \<le> length (drop (nat ret) base). r = n + ret + int k \<and> out w' = out w1 @ take k (drop (nat ret) base))"
      by (auto split: sum.splits)
    show ?thesis
    proof (cases res)
      case (Inr n')
      moreover from call_out have "ret + int (length base - nat ret) = int (length base)" using False by linarith
      ultimately show ?thesis using IH call_out False by simp
    next
      case (Inl r)
      with IH obtain k where k: "\<not> accepts wr" "k \<le> length base - nat ret" "r = n + ret + int k"
          "out w' = out w1 @ take k (drop (nat ret) base)" by auto
      moreover have "nat ret + k \<le> length base" using k(2) call_out False by linarith
      moreover have "r = n + int (nat ret + k)" "out w' = out w @ take (nat ret + k) base"
        using k call_out False by (simp_all add: take_add)
      ultimately show ?thesis using Inl by auto
    qed
  qed
qed

lemma writev_loop_result:
  assumes "writes wr out" "0 \<le> n" "writev_loop wr w iov n = (r, w')"
  shows "\<not> accepts wr \<and> r = -1 \<and> n = 0 \<and> out w' = out w \<or>
    (\<exists>k \<le> length (concat iov). r = n + int k \<and> out w' = out w @ take k (concat iov) \<and>
      (accepts wr \<longrightarrow> k = length (concat iov)))"
  using assms(2,3)
proof (induction iov arbitrary: w n)
  case (Cons base iov)
  obtain res w1 where b: "write_buffer wr w base n = (res, w1)" by (cases "write_buffer wr w base n")
  note res = write_buffer_result [OF assms(1) Cons.prems(1) b]
  show ?case
  proof (cases res)
    case (Inl r')
    with res Cons.prems(2) b show ?thesis
      by auto
  next
    case (Inr n')
    with res have n': "n' = n + int (length base)" "out w1 = out w @ base" by simp_all
    have "writev_loop wr w1 iov n' = (r, w')" using Cons.prems(2) b Inr by simp
    from Cons.IH [OF _ this] n'(1) Cons.prems(1)
    have "\<not> accepts wr \<and> r = -1 \<and> n' = 0 \<and> out w' = out w1 \<or>
      (\<exists>k \<le> length (concat iov). r = n' + int k \<and> out w' = out w1 @ take k (concat iov) \<and>
        (accepts wr \<longrightarrow> k = length (concat iov)))" by simp
    then show ?thesis
    proof (elim disjE exE conjE)
      fix k
      assume k: "k \<le> length (concat iov)" "r = n' + int k" "out w' = out w1 @ take k (concat iov)"
        "accepts wr \<longrightarrow> k = length (concat iov)"
      then have "length base + k \<le> length (concat (base # iov)) \<and> r = n + int (length base + k) \<and>
          out w' = out w @ take (length base + k) (concat (base # iov)) \<and>
          (accepts wr \<longrightarrow> length base + k = length (concat (base # iov)))"
        using n' by simp
      then show ?thesis by blast
    next
      assume "\<not> accepts wr" "r = -1" "n' = 0" "out w' = out w1"
      moreover from this n'(1) Cons.prems(1) have "n = 0" "length base = 0" by linarith+
      ultimately show ?thesis using n'(2) by simp
    qed
  qed
qed simp

text \<open>C13: What writev says it wrote is what was written, the first bytes of the buffers in their
  order, whatever part of a buffer a call of write takes; it says -1 only when nothing was
  written, and it writes everything when no call fails.\<close>

theorem writev_writes:
  assumes "writes wr out" "writev wr w iov = (r, w')"
  shows "(r = -1 \<and> out w' = out w \<or> 0 \<le> r \<and> r \<le> int (length (concat iov)) \<and> out w' = out w @ take (nat r) (concat iov)) \<and>
    (accepts wr \<longrightarrow> r = int (length (concat iov)) \<and> out w' = out w @ concat iov)"
  using writev_loop_result [OF assms(1), of 0 w iov r w'] assms(2) by (auto simp: writev_def)

text \<open>The message of \<open>herror\<close> is one line.\<close>

lemma herror_message:
  assumes "writes wr out" "accepts wr"
  shows "out (herror wr s err w) =
    out w @ (case s of None \<Rightarrow> [] | Some p \<Rightarrow> if p \<noteq> [] then p @ ascii '': '' else []) @ hstrerror err @ [0x0A]"
proof -
  have "out (snd (writev wr w iov)) = out w @ concat iov" for iov
    using writev_loop_result [OF assms(1), of 0 w iov] assms(2)
    by (cases "writev_loop wr w iov 0") (auto simp: writev_def)
  then show ?thesis by (simp add: herror_def Let_def split: option.splits)
qed

section \<open>The variable TZ\<close>

text \<open>C40: timegm hands the old value of TZ to putenv without the name of the variable, so that a zone
  that was set is lost: afterwards TZ is empty or not set.\<close>

theorem timegm_loses_zone:
  assumes "\<And>env. getenv (putenv env (ascii ''TZ='')) (ascii ''TZ'') = Some []"
    and "\<And>env s. 0x3D \<notin> set s \<Longrightarrow> getenv (putenv env s) (ascii ''TZ'') \<in> {getenv env (ascii ''TZ''), None}"
    and "getenv env (ascii ''TZ'') = Some zone" "0x3D \<notin> set zone"
  shows "fst (timegm putenv getenv mktime env tm) = fst (mktime (Some []) tm) \<and>
    getenv (snd (snd (timegm putenv getenv mktime env tm))) (ascii ''TZ'') \<in> {Some [], None}"
  using assms(1) [of env] assms(2) [OF assms(4), of "putenv env (ascii ''TZ='')"] assms(3)
  by (auto simp: timegm_def Let_def split: prod.splits)

section \<open>Witnesses\<close>

text \<open>A world is the working directory; there are descriptors 5, of \<open>/d\<close>, and files are opened as 7.\<close>

definition one_dir :: "cstring dir_calls" where
  "one_dir = \<lparr>getcwd_sys = Some,
     fchdir_sys = (\<lambda>fd w. if fd = 5 then (Inr (), ascii ''/d'') else (Inl EBADF, w)),
     chdir_sys = (\<lambda>d w. (Inr (), d)),
     open_sys = (\<lambda>p f w. (Inr (int (length w)), w)),
     stat_sys = (\<lambda>p w. (Inl ENOENT, w)), lstat_sys = (\<lambda>p w. (Inl ENOENT, w)),
     chmod_sys = (\<lambda>p m w. (Inl ENOENT, w)), readlink_sys = (\<lambda>p n w. (Inl ENOENT, w)),
     rmdir_sys = (\<lambda>p w. (Inl ENOENT, w)), unlink_sys = (\<lambda>p w. (Inl ENOENT, w)),
     access_sys = (\<lambda>p m w. (Inl ENOENT, w)), opendir_sys = (\<lambda>p w. (Inl ENOENT, w)),
     mkdir_sys = (\<lambda>p m w. (Inr (), w)), chown_sys = (\<lambda>p u g w. (Inl ENOENT, w)),
     symlink_sys = (\<lambda>p q w. (Inl ENOENT, w)), link_sys = (\<lambda>p q w. (Inl ENOENT, w)),
     AT_FDCWD = -2\<rparr>"

lemma at_calls_restore_cwd_witness:
  "openat one_dir 5 (ascii ''f'') 0 (ascii ''/'') = Some (Inr 2, ascii ''/'') \<and>
   getcwd_sys one_dir (ascii ''/'') = getcwd_sys one_dir (ascii ''/'')"
proof -
  have run: "openat one_dir 5 (ascii ''f'') 0 (ascii ''/'') = Some (Inr 2, ascii ''/'')" by code_simp
  have "keeps_cwd one_dir (open_sys one_dir p f)" "keeps_cwd one_dir (rmdir_sys one_dir p)"
    "keeps_cwd one_dir (unlink_sys one_dir p)" "keeps_cwd one_dir (mkdir_sys one_dir p m)" "returns one_dir" for p f m
    by (simp_all add: keeps_cwd_def returns_def one_dir_def)
  from at_calls_restore_cwd [OF this] run show ?thesis by blast
qed

text \<open>A console that takes three bytes at a time.\<close>

definition by_three :: "u8 list \<Rightarrow> u8 list \<Rightarrow> int \<times> u8 list" where
  "by_three w b = (int (min 3 (length b)), w @ take 3 b)"

lemma by_three_writes: "writes by_three id" "accepts by_three"
  by (auto simp: writes_def accepts_def by_three_def min_def)

lemma writev_writes_witness:
  "writev by_three [] [ascii ''abcde'', [], ascii ''fg''] = (7, ascii ''abcdefg'') \<and>
   (7::int) = int (length (concat [ascii ''abcde'', [], ascii ''fg'']))"
proof -
  have run: "writev by_three [] [ascii ''abcde'', [], ascii ''fg''] = (7, ascii ''abcdefg'')" by code_simp
  from writev_writes [OF by_three_writes(1) run] by_three_writes(2) run show ?thesis by blast
qed

text \<open>An environment that only holds \<open>TZ\<close>.\<close>

definition tz_putenv :: "cstring option \<Rightarrow> cstring \<Rightarrow> cstring option" where
  "tz_putenv env s = (if take 3 s = ascii ''TZ='' then Some (drop 3 s) else if s = ascii ''TZ'' then None else env)"

lemma timegm_loses_zone_witness:
  "timegm tz_putenv (\<lambda>env name. env) (\<lambda>tz tm. (tm, tm)) (Some (ascii ''CET'')) 0 = (0, 0, Some []) \<and>
   (Some [] :: cstring option) \<in> {Some [], None}"
proof -
  have run: "timegm tz_putenv (\<lambda>env name. env) (\<lambda>tz tm. (tm, tm)) (Some (ascii ''CET'')) (0::int) = (0, 0, Some [])"
    by code_simp
  have "tz_putenv env s \<in> {env, None}" if "0x3D \<notin> set s" for env s
  proof -
    have "0x3D \<in> set (ascii ''TZ='')" by code_simp
    then have "take 3 s \<noteq> ascii ''TZ=''" using that set_take_subset [of 3 s] by auto
    then show ?thesis by (simp add: tz_putenv_def)
  qed
  moreover have "tz_putenv env (ascii ''TZ='') = Some []" for env by code_simp
  moreover have "0x3D \<notin> set (ascii ''CET'')" by code_simp
  ultimately show ?thesis
    using timegm_loses_zone [of "\<lambda>env name. env" tz_putenv "Some (ascii ''CET'')" "ascii ''CET''" "\<lambda>tz tm. (tm, tm)" 0] run
    by simp
qed

end
