(* ===== verification/Spec2Isabelle.thy ===== *)
theory Spec2Isabelle
  imports Ns_Pton_Safe Ns_Samedomain Inet Dread_Facts Dread_Reaper Qsort_Correct Res_Mkquery_Correct
    Res_Query_Correct Res_Init_Correct Res_Data Res_Send_Table Res_Send_Match
    Spawn_Request Spawn_Process_Correct Fts_Correct Libc_Paths Libc_Temp Libc_Calls
begin

text \<open>
  Verification of the C libraries that webports ships for programs on Native Client: the resolver and
  the helper functions of \<open>src/ports/glibc-compat\<close>, the coroutine threads of \<open>src/ports/dreadthread\<close>
  and the processes of \<open>src/ports/nacl-spawn\<close>.

  \<^bold>\<open>The program.\<close>  \<open>glibc-compat\<close> supplies what the C library of Native Client lacks.  Its resolver
  turns host names into messages for name servers: \<open>res_init.c\<close> and \<open>res_libc.c\<close> set up the state
  \<open>struct __res_state\<close> from the environment and \<open>/etc/resolv.conf\<close>, \<open>res_query.c\<close> decides which
  names to ask for, \<open>res_mkquery.c\<close> builds a message, \<open>ns_name.c\<close> and \<open>res_comp.c\<close> convert and
  compress the names in it, \<open>ns_netint.c\<close> stores its numbers, \<open>ns_samedomain.c\<close> compares names and
  \<open>inet_pton.c\<close>, \<open>inet_addr.c\<close> read addresses.  \<open>qsort_r.c\<close> sorts, \<open>fts.c\<close> walks file hierarchies,
  and small files supply single functions.  \<open>dreadthread\<close> runs coroutines
  on one stack: \<open>dread_chain.c\<close> has the doubly linked lists, \<open>dread.c\<close> the scheduler, semaphores,
  events, the launcher of threads and the interface \<open>DThr_*\<close>.

  \<^bold>\<open>Conventions\<close> (\<open>Prelude\<close>).  A C function that can fail has a result \<open>cerror + 'a\<close>: \<open>Errno e\<close> is
  -1 with \<open>errno\<close> set, \<open>Fault\<close> an access outside the objects the code was given, \<open>Abort\<close> a call of
  \<open>abort\<close>, \<open>Diverges\<close> a loop that does not end.  Bytes are \<open>8 word\<close>, the 32-bit integers of the ILP32
  target \<open>32 word\<close> where they wrap, \<open>int\<close> or \<open>nat\<close> where they are sizes that stay far below the
  bounds.  A C string is the list of its bytes without the NUL.

  \<^bold>\<open>Names\<close> (\<open>ns_name.c\<close>, \<open>res_comp.c\<close>, \<open>ns_netint.c\<close>, \<open>ns_samedomain.c\<close>).
  \<open>Ns_Name\<close> has the text conversions \<open>ns_name_ntop\<close>, \<open>ns_name_pton\<close>, \<open>ns_name_ntol\<close>, skipping and
  rollback; \<open>Ns_Roundtrip\<close> shows that reading what was printed gives the name back, \<open>Ns_Pton_Safe\<close>
  that \<open>ns_name_pton\<close> stays in its buffer and writes legal names, except for the bit-string label at
  the end of the buffer.  \<open>Ns_Compress\<close> has \<open>ns_name_unpack\<close>, \<open>dn_find\<close>, \<open>ns_name_pack\<close>;
  \<open>Ns_Compress_Correct\<close> shows that unpacking always returns (the loop has the fuel of the length of
  the message, which its own count of bytes checked never lets it use up; \<open>dn_match\<close> has the length
  of the message and one more, enough because compression pointers must go backwards), and that a
  packed name is read back.  \<open>Res_Comp\<close> has the functions of \<open>res_comp.c\<close> and \<open>ns_netint.c\<close>,
  \<open>Ns_Samedomain\<close> the comparisons, proved equal to comparisons of label lists.

  \<^bold>\<open>Addresses\<close> (\<open>inet_pton.c\<close>, \<open>inet_addr.c\<close>): \<open>Inet\<close>, with the grammars of the two parsers.

  \<^bold>\<open>The resolver.\<close>  \<open>Res_State\<close> has the state.  \<open>Res_Init\<close> has \<open>res_init.c\<close> and \<open>res_libc.c\<close>: the
  record \<open>res_env\<close> holds what the code asks of the system.  The line buffer is kept as bytes, because
  the code reads past the end of a line without a newline.  \<open>Res_Init_Safe\<close> shows that every
  initialisation that returns leaves counts and offsets within bounds and that only a sort list can
  keep it from returning, that initialising again with the same stamp does nothing, and what closing
  closes; \<open>Res_Init_Correct\<close> says what search, nameserver and options lines mean and that a
  sortlist line with a carriage return makes the code loop for ever (a turn of the loop that changes
  nothing is \<open>Diverges\<close>).  \<open>Res_Mkquery\<close> has \<open>res_nmkquery\<close>; \<open>Res_Mkquery_Correct\<close> its layout and
  bounds.  \<open>Res_Query\<close> has \<open>res_query.c\<close> over an exchange with the servers that is an argument;
  \<open>Res_Query_Correct\<close> shows in which order a search asks for names and with which error it ends.

  \<^bold>\<open>The transport.\<close>  \<open>Res_Send\<close> has \<open>res_send.c\<close>, the exchange that \<open>Res_Query\<close> takes as an argument.
  The system calls are the fields of the record \<open>net\<close>, functions over an abstract world; a turn of
  the loop of \<open>send_dg\<close> (from the label \<open>wait\<close>) is \<open>dg_wait\<close>, one of \<open>send_vc\<close> (from \<open>read_len\<close>)
  \<open>vc_read\<close>.  Both loops have fuel.  \<open>Res_Send_Live\<close> shows that for \<open>send_dg\<close> the nanoseconds it is
  ready to wait, and two more, are enough when the clock goes on; \<open>send_vc\<close> can skip stale answers
  for ever when the server keeps sending them, so nothing of the kind holds for it.
  \<open>Res_Send_Dg\<close> and \<open>Res_Send_Answer\<close> show what an accepted answer satisfies, \<open>Res_Send_Match\<close> what
  comparing the questions of two messages means, \<open>Res_Send_Table\<close> that the table of servers follows
  the list of servers, how it is rotated, and what a failed allocation leaves behind.  \<open>Resolver\<close>
  joins them: the locale \<open>exchange\<close> is what queries rely on, the transport interprets it, and a
  search over the transport yields only answers with records to messages made for its names.

  \<^bold>\<open>Programs and their libraries\<close> (\<open>src/ports/nacl-spawn\<close>).  \<open>Spawn_Paths\<close> has \<open>path_util.cc\<close>,
  \<open>Spawn_Elf\<close> the ELF reader \<open>elf_reader.cc\<close>, \<open>Spawn_Deps\<close> the search for shared objects of
  \<open>library_dependencies.cc\<close>.  \<open>Spawn_Elf_Correct\<close> shows that the names an image was made with are read
  back, and what a missing table size does; \<open>Spawn_Deps_Correct\<close> that the search gives the closure of
  a program under the libraries it needs.  The depth of the recursion is fuel; the number of files
  and one more is enough, because each level adds a file that can be opened to the dependencies.

  \<^bold>\<open>Processes\<close> (\<open>nacl_spawn.cc\<close>, \<open>nacl_pp_helpers.c\<close>, \<open>nacl_setup_env.c\<close>).  A program asks JavaScript
  to start others.  \<open>Spawn_Vars\<close> has the values of a request and the helpers on them, \<open>Spawn_Request\<close>
  the exchange of a request: the caller and the handler of replies are two threads whose steps
  interleave in \<open>request_step\<close>; every run has at most twelve steps, ends with the reply or with a lost
  wakeup, and with spurious wakeups can return too early.  \<open>Spawn_Exec\<close> goes from the path of a
  program to its description in the request (scripts, built-in programs, libraries);
  \<open>Spawn_Exec_Correct\<close> shows what the description holds.  \<open>Spawn_Fds\<close> has the table of descriptors,
  how pipes are written into an environment and restored from it, and how \<open>vfork\<close> puts descriptors
  aside; \<open>Spawn_Process\<close> the functions that programs call.  \<open>Spawn_Fds_Correct\<close> and
  \<open>Spawn_Process_Correct\<close> show that pipes survive, what \<open>vfork\<close> keeps, and that \<open>pipe\<close> leaks nothing.
  Values are trees and strings are UTF-8; the dictionaries and arrays of Pepper are association lists
  and lists with the documented effect of their operations.  What the system answers (files, access,
  the replies of JavaScript, the ports that can be opened) are records of functions.

  \<^bold>\<open>Sorting.\<close>  \<open>Qsort\<close> has \<open>qsort_r\<close> of \<open>qsort_r.c\<close>; its loops over indices are total functions, the
  partition by measure, the recursion by the length of the part.  \<open>Qsort_Correct\<close> shows that it
  permutes whatever the comparison answers, and sorts when the comparison is consistent.

  \<^bold>\<open>Coroutines.\<close>  \<open>Chain\<close> has the lists of \<open>dread_chain.c\<close> on a heap of links and the locale of a FIFO
  queue that they implement.  \<open>Dread\<close> has the state of \<open>dread.c\<close> (the queues, the stacks, the
  threads; a context is the list of calls still to be made in it), one definition per function, and
  the step relation \<open>step\<close>.  \<open>Dread_Queues\<close> shows that a thread is on at most one queue in every
  reachable state, \<open>Dread_Reaper\<close> that semaphores stay nonnegative and that no thread is ever freed,
  \<open>Dread_Facts\<close> the behaviour of single operations and the two errors of the launcher.

  \<^bold>\<open>File hierarchies\<close> (\<open>fts.c\<close>).  \<open>Fts\<close> has every function of the Native Client build, over a record of
  the calls of the system.  The links of the nodes are a stack of lists, the path is an array in a
  numbered buffer, so that a pointer into a buffer that \<open>realloc\<close> moved is seen.  \<open>Fts_Build\<close> says what it
  means that the system shows a tree of files and that a directory is read into its nodes;
  \<open>Fts_Correct\<close> shows that a physical walk without changes of directory visits exactly the tree, in
  order, and ends, and what long paths, link counts and repeated calls of \<open>fts_children\<close> do.  The
  functions are total, so no fuel is needed; walks that change directories are modelled, the theorem on
  visits is about those that do not.

  \<^bold>\<open>Paths, temporary files, calls.\<close>  \<open>Libc_Paths\<close> has \<open>realpath.c\<close>, shown equal to a walk over names;
  \<open>Libc_Temp\<close> has \<open>mktemp.c\<close>, whose search ends with the millionth name because the seventh digit is
  outside the array; \<open>Libc_Calls\<close> has \<open>openat.c\<close>, \<open>writev.c\<close>, \<open>herror.c\<close>, \<open>lockf.c\<close>, \<open>flock.c\<close> and \<open>timegm.c\<close>,
  with what vectors of buffers write and what is left of the working directory and of \<open>TZ\<close>.

  \<^bold>\<open>Not modelled.\<close>  Debug output.  The hooks of the resolver are null, \<open>answerp\<close> is null,
  \<open>dthr_on_deadlock\<close> is null, as the sources leave them.  The functions of \<open>glibc-compat\<close> that return a constant or call one
  function of the library, the messages of \<open>err.c\<close>, which are printed from variable arguments, the
  mounting of file systems by \<open>nacl_setup_env.c\<close> and the callbacks of \<open>nacl_apipe.c\<close>, which only pass
  calls on to \<open>nacl_io\<close>, are left out.  The Python and shell tools, the JavaScript and Pepper glue of the demos, generated
  tables and code around libraries that are not in the repository stay outside.
\<close>

end
